(* ===== verification/Prelude.thy ===== *)
theory Prelude
  imports Main "HOL-Library.Word"
begin

unbundle bit_operations_syntax

text \<open>
  Shared vocabulary of the development: the C++ integer types of rv64-vm as words of their
  width, casts, bit fields of unions such as \<open>status_t\<close> (include/defines/csr.hpp), the result
  type of computations that can leave the emulator through an uncaught C++ exception or an
  out-of-range vector access, and the generic lemmas on bits the components share.
\<close>

section \<open>Integer types\<close>

type_synonym u8 = "8 word"
type_synonym u16 = "16 word"
type_synonym u32 = "32 word"
type_synonym u64 = "64 word"
type_synonym u128 = "128 word"

named_theorems field_simps_bf \<open>reading a bit field after writing one\<close>
named_theorems exec_simps \<open>behaviour of the instruction handlers on a hart\<close>
named_theorems frame_simps \<open>what an operation leaves unchanged\<close>

text \<open>
  \<open>(int64_t)(int32_t)x\<close> and its 8 and 16 bit siblings, assigned to a \<open>uint64_t\<close>, and
  \<open>(uint64_t)(uint32_t)x\<close>.
\<close>

definition sext32 :: "u64 \<Rightarrow> u64" where
  "sext32 x = scast (ucast x :: u32)"

definition sext16 :: "u64 \<Rightarrow> u64" where
  "sext16 x = scast (ucast x :: u16)"

definition sext8 :: "u64 \<Rightarrow> u64" where
  "sext8 x = scast (ucast x :: u8)"

definition zext32 :: "u64 \<Rightarrow> u64" where
  "zext32 x = ucast (ucast x :: u32)"

text \<open>C++ division and remainder of signed integers truncate towards zero.\<close>

definition tdiv :: "int \<Rightarrow> int \<Rightarrow> int" where
  "tdiv a b = sgn a * sgn b * (\<bar>a\<bar> div \<bar>b\<bar>)"

definition trem :: "int \<Rightarrow> int \<Rightarrow> int" where
  "trem a b = sgn a * (\<bar>a\<bar> mod \<bar>b\<bar>)"

text \<open>\<open>__builtin_clzll\<close>, defined for nonzero arguments.\<close>

definition clzll :: "u64 \<Rightarrow> nat" where
  "clzll x = length (takeWhile (\<lambda>i. \<not> bit x i) (rev [0..<64]))"

text \<open>\<open>std::countr_zero\<close> and \<open>__builtin_ctz\<close>: the number of trailing zeros, the width for 0.\<close>

definition countr_zero :: "'a::len word \<Rightarrow> nat" where
  "countr_zero x = length (takeWhile (\<lambda>i. \<not> bit x i) [0..<LENGTH('a)])"

section \<open>Bit fields\<close>

definition bf_get :: "nat \<Rightarrow> nat \<Rightarrow> 'a::len word \<Rightarrow> 'a word" where
  "bf_get lo w x = drop_bit lo x AND mask w"

definition bf_set :: "nat \<Rightarrow> nat \<Rightarrow> 'a::len word \<Rightarrow> 'a word \<Rightarrow> 'a word" where
  "bf_set lo w v x = (x AND NOT (push_bit lo (mask w))) OR push_bit lo (v AND mask w)"

section \<open>Computations that can abort the emulator\<close>

text \<open>
  The emulator process ends when one of these leaves the C++ code: the exceptions that
  include/memory_map.hpp and include/mmu.hpp throw and nobody catches, a null pointer, and an
  index outside an array or a \<open>std::vector\<close>, whose behaviour C++ leaves undefined. \<open>Endless_loop\<close>
  stands for a loop that has not ended when its fuel is used up.
\<close>

datatype host_error =
    Out_of_range
  | Invalid_argument
  | Logic_error
  | Null_pointer
  | Vector_index
  | Endless_loop

type_synonym 'a result = "host_error + 'a"

fun and_then :: "'a result \<Rightarrow> ('a \<Rightarrow> 'b result) \<Rightarrow> 'b result" where
  "and_then (Inl e) f = Inl e"
| "and_then (Inr x) f = f x"

text \<open>\<open>v[i]\<close> on a \<open>std::vector\<close> kept as a list.\<close>

definition vec_at :: "'a list \<Rightarrow> nat \<Rightarrow> 'a result" where
  "vec_at xs i = (if i < length xs then Inr (xs ! i) else Inl Vector_index)"

definition vec_put :: "'a list \<Rightarrow> nat \<Rightarrow> 'a \<Rightarrow> 'a list result" where
  "vec_put xs i x = (if i < length xs then Inr (xs[i := x]) else Inl Vector_index)"

section \<open>Vectors\<close>

text \<open>
  A \<open>std::vector\<close> indexed by page numbers: its length and its elements. \<open>vec_resize\<close> is
  \<open>resize(n, 0)\<close>; \<open>vec_grow\<close> the idiom \<open>if(i >= v.size()) v.resize(i + 8192, 0)\<close>.
\<close>

record 'a vec =
  vlen :: nat
  vnth :: "nat \<Rightarrow> 'a"

definition vec_empty :: "'a::zero vec" where
  "vec_empty = \<lparr>vlen = 0, vnth = (\<lambda>_. 0)\<rparr>"

definition vec_resize :: "nat \<Rightarrow> 'a::zero vec \<Rightarrow> 'a vec" where
  "vec_resize n v = \<lparr>vlen = n, vnth = (\<lambda>i. if i < vlen v then vnth v i else 0)\<rparr>"

definition vec_grow :: "nat \<Rightarrow> 'a::zero vec \<Rightarrow> 'a vec" where
  "vec_grow i v = (if vlen v \<le> i then vec_resize (i + 8192) v else v)"

definition vec_set :: "nat \<Rightarrow> 'a \<Rightarrow> 'a vec \<Rightarrow> 'a vec" where
  "vec_set i x v = v\<lparr>vnth := (vnth v)(i := x)\<rparr>"

lemma vlen_grow [simp]: "i < vlen (vec_grow i v)"
  by (auto simp: vec_grow_def vec_resize_def)

lemma vlen_grow_mono: "vlen v \<le> vlen (vec_grow i v)"
  by (auto simp: vec_grow_def vec_resize_def)

lemma vnth_grow: "j < vlen v \<Longrightarrow> vnth (vec_grow i v) j = vnth v j"
  by (auto simp: vec_grow_def vec_resize_def)

lemma vnth_grow_new: "vlen v \<le> j \<Longrightarrow> j < vlen (vec_grow i v) \<Longrightarrow> vnth (vec_grow i v) j = 0"
  by (auto simp: vec_grow_def vec_resize_def split: if_splits)

lemma vec_set_simps [simp]:
  "vlen (vec_set i x v) = vlen v" "vnth (vec_set i x v) j = (if j = i then x else vnth v j)"
  by (simp_all add: vec_set_def)

section \<open>Lemmas on results\<close>

lemma and_then_Inr_iff: "and_then m f = Inr y \<longleftrightarrow> (\<exists>x. m = Inr x \<and> f x = Inr y)"
  by (cases m) auto

lemma and_then_assoc: "and_then (and_then m f) g = and_then m (\<lambda>x. and_then (f x) g)"
  by (cases m) auto

lemma and_then_InrE:
  assumes "and_then m f = Inr y"
  obtains x where "m = Inr x" and "f x = Inr y"
  using assms by (auto simp: and_then_Inr_iff)

section \<open>Lemmas on bits and fields\<close>

lemma bit_mult_2_right [bit_simps]:
  "bit (x * 2) n \<longleftrightarrow> 0 < n \<and> n < LENGTH('a) \<and> bit x (n - 1)" for x :: "'a::len word"
  using bit_double_iff [of x n] by (auto simp: mult.commute)

lemma bit_bf_get [bit_simps]:
  "bit (bf_get lo w x) n \<longleftrightarrow> n < w \<and> bit x (lo + n)" for x :: "'a::len word"
  by (auto simp: bf_get_def bit_simps dest: bit_imp_le_length)

lemma bit_bf_set [bit_simps]:
  "bit (bf_set lo w v x) n \<longleftrightarrow>
     n < LENGTH('a) \<and> (if lo \<le> n \<and> n < lo + w then bit v (n - lo) else bit x n)"
  for x :: "'a::len word"
  by (auto simp: bf_set_def bit_simps dest: bit_imp_le_length)

lemma bf_get_set_same [field_simps_bf]:
  "lo + w \<le> LENGTH('a) \<Longrightarrow> bf_get lo w (bf_set lo w v x) = v AND mask w"
  for x :: "'a::len word"
  by (rule bit_word_eqI) (auto simp: bit_simps)

lemma bf_get_set_other [field_simps_bf]:
  "lo + w \<le> lo' \<or> lo' + w' \<le> lo \<Longrightarrow> bf_get lo w (bf_set lo' w' v x) = bf_get lo w x"
  for x :: "'a::len word"
  by (rule bit_word_eqI) (auto simp: bit_simps dest: bit_imp_le_length)

lemma bf_set_get [field_simps_bf]: "bf_set lo w (bf_get lo w x) x = x" for x :: "'a::len word"
  by (rule bit_word_eqI) (auto simp: bit_simps)

lemma bf_set_set [field_simps_bf]: "bf_set lo w v (bf_set lo w v' x) = bf_set lo w v x"
  for x :: "'a::len word"
  by (rule bit_word_eqI) (auto simp: bit_simps)

lemma bf_set_commute:
  "lo + w \<le> lo' \<or> lo' + w' \<le> lo \<Longrightarrow>
   bf_set lo w v (bf_set lo' w' v' x) = bf_set lo' w' v' (bf_set lo w v x)"
  for x :: "'a::len word"
  by (rule bit_word_eqI) (auto simp: bit_simps)

lemma bf_get_and_mask [field_simps_bf]:
  "bf_get lo w x AND mask w = bf_get lo w x" "bf_get lo (Suc 0) x AND 1 = bf_get lo (Suc 0) x"
  for x :: "'a::len word"
  by (rule bit_word_eqI; auto simp: bit_simps)+

lemma bf_get_bound: "w < LENGTH('a) \<Longrightarrow> unat (bf_get lo w x) < 2 ^ w" for x :: "'a::len word"
proof -
  assume w: "w < LENGTH('a)"
  have "bf_get lo w x = take_bit w (drop_bit lo x)"
    by (simp add: bf_get_def take_bit_eq_mask)
  moreover have "unat (take_bit w (drop_bit lo x)) < 2 ^ w"
    by (simp add: unsigned_take_bit_eq)
  ultimately show ?thesis by simp
qed

lemma bf_get_1_cases: "bf_get lo 1 x = 0 \<or> bf_get lo 1 x = 1" for x :: "'a::len word"
  by (cases "bit x lo") (auto intro!: bit_word_eqI simp: bit_simps)

lemma bf_get_1_iff: "bf_get lo 1 x = 1 \<longleftrightarrow> bit x lo" for x :: "'a::len word"
proof
  assume "bf_get lo 1 x = 1"
  then have "bit (bf_get lo 1 x) 0" by simp
  then show "bit x lo" by (simp add: bit_simps)
qed (auto intro!: bit_word_eqI simp: bit_simps)

lemma bf_get_1_zero_iff: "bf_get lo 1 x = 0 \<longleftrightarrow> \<not> bit x lo" for x :: "'a::len word"
  using bf_get_1_cases [of lo x] bf_get_1_iff [of lo x] by auto

lemma bit_sext32 [bit_simps]: "bit (sext32 x) n \<longleftrightarrow> n < 64 \<and> bit x (min n 31)"
  by (auto simp: sext32_def bit_simps min_def)

lemma bit_sext16 [bit_simps]: "bit (sext16 x) n \<longleftrightarrow> n < 64 \<and> bit x (min n 15)"
  by (auto simp: sext16_def bit_simps min_def)

lemma bit_sext8 [bit_simps]: "bit (sext8 x) n \<longleftrightarrow> n < 64 \<and> bit x (min n 7)"
  by (auto simp: sext8_def bit_simps min_def)

lemma bit_zext32 [bit_simps]: "bit (zext32 x) n \<longleftrightarrow> n < 32 \<and> bit x n"
  by (auto simp: zext32_def bit_simps)

lemma sext32_idem [simp]: "sext32 (sext32 x) = sext32 x"
  by (rule bit_word_eqI) (auto simp: bit_simps min_def)

lemma sint_sext32: "sint (sext32 x) = sint (ucast x :: u32)"
  by (simp add: sext32_def sint_up_scast is_up)

section \<open>Lemmas on 64-bit counters\<close>

lemma unat_of_nat_64: "n < 2 ^ 64 \<Longrightarrow> unat (of_nat n :: u64) = n"
  by (rule of_nat_inverse) simp_all

lemma of_nat_64_eq_iff: "a < 2 ^ 64 \<Longrightarrow> b < 2 ^ 64 \<Longrightarrow> (of_nat a :: u64) = of_nat b \<longleftrightarrow> a = b"
  by (metis unat_of_nat_64)

lemma unat_Suc_64: "unat g + 1 < 2 ^ 64 \<Longrightarrow> unat (g + 1 :: u64) = Suc (unat g)"
  by (simp add: unat_word_ariths)

lemma and_mask_64 [simp]: "v AND mask 64 = v" for v :: u64
  by (rule bit_word_eqI) (auto simp: bit_simps)

section \<open>Leading zeros\<close>

lemma takeWhile_rev_upt:
  "bit x k \<Longrightarrow> k < n \<Longrightarrow> (\<And>i. k < i \<Longrightarrow> i < n \<Longrightarrow> \<not> bit x i) \<Longrightarrow>
   length (takeWhile (\<lambda>i. \<not> bit x i) (rev [0..<n])) = n - 1 - k"
proof (induction n)
  case (Suc n)
  show ?case
  proof (cases "k = n")
    case False
    with Suc have "\<not> bit x n" "k < n" by auto
    with Suc show ?thesis by simp
  qed (use Suc in simp)
qed simp

text \<open>\<open>63 - clzll(x)\<close> is the number of the highest set bit.\<close>

lemma clzll_highest:
  assumes "x \<noteq> 0"
  shows "bit x (63 - clzll x)" and "\<And>i. bit x i \<Longrightarrow> i \<le> 63 - clzll x" and "clzll x < 64"
proof -
  let ?S = "{i. bit x i}"
  have fin: "finite ?S" by (rule finite_subset [of _ "{..<64}"]) (auto dest: bit_imp_le_length)
  have "\<exists>i. bit x i" using assms by (auto simp: bit_eq_iff)
  then have ne: "?S \<noteq> {}" by auto
  let ?k = "Max ?S"
  have k: "bit x ?k" using Max_in [OF fin ne] by simp
  have top: "bit x i \<Longrightarrow> i \<le> ?k" for i using Max_ge [OF fin] by simp
  have lt: "?k < 64" using bit_imp_le_length [OF k] by simp
  have "clzll x = 63 - ?k"
    unfolding clzll_def using takeWhile_rev_upt [OF k lt] top by fastforce
  then have "63 - clzll x = ?k" "clzll x < 64" using lt by auto
  then show "bit x (63 - clzll x)" and "\<And>i. bit x i \<Longrightarrow> i \<le> 63 - clzll x" and "clzll x < 64"
    using k top by simp_all
qed

section \<open>Trailing zeros\<close>

lemma length_takeWhile_upt:
  "k < n \<Longrightarrow> P k \<Longrightarrow> (\<And>i. i < k \<Longrightarrow> \<not> P i) \<Longrightarrow> length (takeWhile (\<lambda>i. \<not> P i) [0..<n]) = k"
proof -
  assume k: "k < n" "P k" and low: "\<And>i. i < k \<Longrightarrow> \<not> P i"
  have "[0..<n] = [0..<k] @ [k..<n]" 
    using upt_add_eq_append [of 0 k "n - k"] k(1) by simp
  also have "[k..<n] = k # [Suc k..<n]" using k(1) by (rule upt_conv_Cons)
  finally have split: "[0..<n] = [0..<k] @ k # [Suc k..<n]" .
  have "takeWhile (\<lambda>i. \<not> P i) [0..<n] = [0..<k] @ takeWhile (\<lambda>i. \<not> P i) (k # [Suc k..<n])"
    unfolding split by (rule takeWhile_append2) (use low in auto)
  then have "takeWhile (\<lambda>i. \<not> P i) [0..<n] = [0..<k]" using k(2) by simp
  then show ?thesis by simp
qed

lemma countr_zero_spec:
  fixes x :: "'a::len word"
  assumes "x \<noteq> 0"
  shows "bit x (countr_zero x)" and "\<And>i. i < countr_zero x \<Longrightarrow> \<not> bit x i" and "countr_zero x < LENGTH('a)"
proof -
  have "\<exists>i. bit x i" using assms by (auto simp: bit_eq_iff)
  then have l: "bit x (LEAST i. bit x i)" by (rule LeastI_ex)
  have low: "i < (LEAST i. bit x i) \<Longrightarrow> \<not> bit x i" for i by (rule not_less_Least)
  have lt: "(LEAST i. bit x i) < LENGTH('a)" using bit_imp_le_length [OF l] .
  have eq: "countr_zero x = (LEAST i. bit x i)"
    unfolding countr_zero_def using lt l low by (rule length_takeWhile_upt)
  show "bit x (countr_zero x)" unfolding eq by (rule l)
  show "i < countr_zero x \<Longrightarrow> \<not> bit x i" for i unfolding eq by (rule low)
  show "countr_zero x < LENGTH('a)" unfolding eq by (rule lt)
qed

text \<open>\<open>x & (x - 1)\<close> drops the lowest set bit.\<close>

lemma bit_drop_lowest:
  fixes x :: "'a::len word"
  assumes "x \<noteq> 0"
  shows "bit (x AND (x - 1)) n \<longleftrightarrow> bit x n \<and> n \<noteq> countr_zero x"
proof -
  let ?k = "countr_zero x" let ?m = "push_bit (Suc ?k) (drop_bit (Suc ?k) x)"
  note c = countr_zero_spec [OF assms]
  have "x = ?m OR 2 ^ ?k"
  proof (rule bit_word_eqI)
    fix i assume "i < LENGTH('a)"
    consider "i < ?k" | "i = ?k" | "Suc ?k \<le> i" by linarith
    then show "bit x i = bit (?m OR 2 ^ ?k) i"
      using \<open>i < LENGTH('a)\<close> by cases (use c in \<open>auto simp: bit_simps\<close>)
  qed
  moreover have "?m AND 2 ^ ?k = 0" by (rule bit_word_eqI) (auto simp: bit_simps)
  ultimately have "x = ?m + 2 ^ ?k" by (metis disjunctive_add_eq_or)
  then have "x - 1 = ?m + mask ?k" by (simp add: mask_eq_exp_minus_1)
  moreover have "?m AND mask ?k = 0" by (rule bit_word_eqI) (auto simp: bit_simps)
  ultimately have "x - 1 = ?m OR mask ?k" by (simp add: disjunctive_add_eq_or)
  then have "bit (x - 1) n \<longleftrightarrow> n < LENGTH('a) \<and> (Suc ?k \<le> n \<and> bit x n \<or> n < ?k)"
    by (auto simp: bit_simps)
  then show ?thesis using c(2) [of n] by (auto simp: bit_and_iff dest: bit_imp_le_length)
qed

lemma drop_lowest_less:
  fixes x :: "'a::len word"
  assumes "x \<noteq> 0"
  shows "unat (x AND (x - 1)) < unat x"
proof -
  have "x AND (x - 1) \<noteq> x"
    using bit_drop_lowest [OF assms, of "countr_zero x"] countr_zero_spec(1) [OF assms] by auto
  moreover have "x AND (x - 1) \<le> x" by (rule word_and_le2)
  ultimately show ?thesis by (simp add: word_less_nat_alt [symmetric])
qed

end
