(* ===== verification/Machine_Types.thy ===== *)
theory Machine_Types
  imports Prelude
begin

text \<open>
  The shared types of include/defines/traps.hpp and include/defines/csr.hpp: what an instruction
  handler and a memory access return, access kinds, exception codes, CSR numbers, the privilege
  modes of include/hart.hpp, and the bit fields of the status, interrupt, \<open>satp\<close> and \<open>fcsr\<close>
  unions.
\<close>

section \<open>Results of instructions and memory accesses\<close>

record exec_return =
  is_success :: bool
  can_change_pc :: bool
  increase_pc :: u8
  cause :: u8
  tval :: u64

record memory_return =
  mem_success :: bool
  exc_code :: u8
  mem_tval :: u64

text \<open>The aggregate initialisers \<open>{ ok, change, inc, cause, tval }\<close> and \<open>{ ok, code, tval }\<close>.\<close>

abbreviation ER :: "bool \<Rightarrow> bool \<Rightarrow> u8 \<Rightarrow> u8 \<Rightarrow> u64 \<Rightarrow> exec_return" where
  "ER ok ch inc c t \<equiv>
     \<lparr>is_success = ok, can_change_pc = ch, increase_pc = inc, cause = c, tval = t\<rparr>"

abbreviation MR :: "bool \<Rightarrow> u8 \<Rightarrow> u64 \<Rightarrow> memory_return" where
  "MR ok c t \<equiv> \<lparr>mem_success = ok, exc_code = c, mem_tval = t\<rparr>"

text \<open>
  \<open>MemorySize\<close> is an enumeration over \<open>int\<close> with the values 1, 2, 4 and 8, but src/mmio.cpp casts
  the length of a fragment of a page-crossing access to it, so it is a number here.
\<close>

type_synonym memory_size = nat

abbreviation (input) MS_Byte :: memory_size where "MS_Byte \<equiv> 1"
abbreviation (input) MS_Short :: memory_size where "MS_Short \<equiv> 2"
abbreviation (input) MS_Int :: memory_size where "MS_Int \<equiv> 4"
abbreviation (input) MS_Long :: memory_size where "MS_Long \<equiv> 8"

datatype access_type = LOAD | STORE | EXEC

section \<open>Exception codes\<close>

abbreviation (input) EXC_INST_ADDR_MISALIGNED :: u8 where "EXC_INST_ADDR_MISALIGNED \<equiv> 0"
abbreviation (input) EXC_INST_ACCESS_FAULT :: u8 where "EXC_INST_ACCESS_FAULT \<equiv> 1"
abbreviation (input) EXC_ILLEGAL_INSTRUCTION :: u8 where "EXC_ILLEGAL_INSTRUCTION \<equiv> 2"
abbreviation (input) EXC_BREAKPOINT :: u8 where "EXC_BREAKPOINT \<equiv> 3"
abbreviation (input) EXC_LOAD_ACCESS_FAULT :: u8 where "EXC_LOAD_ACCESS_FAULT \<equiv> 5"
abbreviation (input) EXC_STORE_ACCESS_FAULT :: u8 where "EXC_STORE_ACCESS_FAULT \<equiv> 7"
abbreviation (input) EXC_ENV_CALL_FROM_U :: u8 where "EXC_ENV_CALL_FROM_U \<equiv> 8"
abbreviation (input) EXC_ENV_CALL_FROM_S :: u8 where "EXC_ENV_CALL_FROM_S \<equiv> 9"
abbreviation (input) EXC_ENV_CALL_FROM_M :: u8 where "EXC_ENV_CALL_FROM_M \<equiv> 11"
abbreviation (input) EXC_INST_PAGE_FAULT :: u8 where "EXC_INST_PAGE_FAULT \<equiv> 12"
abbreviation (input) EXC_LOAD_PAGE_FAULT :: u8 where "EXC_LOAD_PAGE_FAULT \<equiv> 13"
abbreviation (input) EXC_STORE_PAGE_FAULT :: u8 where "EXC_STORE_PAGE_FAULT \<equiv> 15"

section \<open>Privilege modes\<close>

datatype privilege_mode = User | Supervisor | Hypervisor | Machine

fun mode_num :: "privilege_mode \<Rightarrow> u64" where
  "mode_num User = 0"
| "mode_num Supervisor = 1"
| "mode_num Hypervisor = 2"
| "mode_num Machine = 3"

text \<open>\<open>static_cast<PrivilegeMode>\<close> of the two-bit field MPP.\<close>

definition mode_of :: "u64 \<Rightarrow> privilege_mode" where
  "mode_of n = (if n = 0 then User else if n = 1 then Supervisor
                else if n = 2 then Hypervisor else Machine)"

lemma mode_of_num [simp]: "mode_of (mode_num m) = m"
  by (cases m) (simp_all add: mode_of_def)

lemma mode_num_inj [simp]: "mode_num a = mode_num b \<longleftrightarrow> a = b"
  by (metis mode_of_num)

lemma mode_num_le: "mode_num m \<le> 3"
  by (cases m) simp_all

lemma mode_num_mask [simp]: "mode_num m AND mask 2 = mode_num m"
  by (cases m) (simp_all add: mask_eq_exp_minus_1)

section \<open>CSR numbers\<close>

abbreviation (input) CSR_FFLAGS :: u16 where "CSR_FFLAGS \<equiv> 0x001"
abbreviation (input) CSR_FRM :: u16 where "CSR_FRM \<equiv> 0x002"
abbreviation (input) CSR_FCSR :: u16 where "CSR_FCSR \<equiv> 0x003"
abbreviation (input) CSR_SSTATUS :: u16 where "CSR_SSTATUS \<equiv> 0x100"
abbreviation (input) CSR_SIE :: u16 where "CSR_SIE \<equiv> 0x104"
abbreviation (input) CSR_STVEC :: u16 where "CSR_STVEC \<equiv> 0x105"
abbreviation (input) CSR_SCOUNTEREN :: u16 where "CSR_SCOUNTEREN \<equiv> 0x106"
abbreviation (input) CSR_SSTATEEN0 :: u16 where "CSR_SSTATEEN0 \<equiv> 0x10C"
abbreviation (input) CSR_SSTATEEN3 :: u16 where "CSR_SSTATEEN3 \<equiv> 0x10F"
abbreviation (input) CSR_SEPC :: u16 where "CSR_SEPC \<equiv> 0x141"
abbreviation (input) CSR_SCAUSE :: u16 where "CSR_SCAUSE \<equiv> 0x142"
abbreviation (input) CSR_STVAL :: u16 where "CSR_STVAL \<equiv> 0x143"
abbreviation (input) CSR_SIP :: u16 where "CSR_SIP \<equiv> 0x144"
abbreviation (input) CSR_STIMECMP :: u16 where "CSR_STIMECMP \<equiv> 0x14D"
abbreviation (input) CSR_SATP :: u16 where "CSR_SATP \<equiv> 0x180"
abbreviation (input) CSR_MSTATUS :: u16 where "CSR_MSTATUS \<equiv> 0x300"
abbreviation (input) CSR_MISA :: u16 where "CSR_MISA \<equiv> 0x301"
abbreviation (input) CSR_MEDELEG :: u16 where "CSR_MEDELEG \<equiv> 0x302"
abbreviation (input) CSR_MIDELEG :: u16 where "CSR_MIDELEG \<equiv> 0x303"
abbreviation (input) CSR_MIE :: u16 where "CSR_MIE \<equiv> 0x304"
abbreviation (input) CSR_MTVEC :: u16 where "CSR_MTVEC \<equiv> 0x305"
abbreviation (input) CSR_MCOUNTEREN :: u16 where "CSR_MCOUNTEREN \<equiv> 0x306"
abbreviation (input) CSR_MSTATEEN0 :: u16 where "CSR_MSTATEEN0 \<equiv> 0x30C"
abbreviation (input) CSR_MSTATEEN3 :: u16 where "CSR_MSTATEEN3 \<equiv> 0x30F"
abbreviation (input) CSR_MCYCLECFG :: u16 where "CSR_MCYCLECFG \<equiv> 0x321"
abbreviation (input) CSR_MEPC :: u16 where "CSR_MEPC \<equiv> 0x341"
abbreviation (input) CSR_MCAUSE :: u16 where "CSR_MCAUSE \<equiv> 0x342"
abbreviation (input) CSR_MTVAL :: u16 where "CSR_MTVAL \<equiv> 0x343"
abbreviation (input) CSR_MIP :: u16 where "CSR_MIP \<equiv> 0x344"
abbreviation (input) CSR_TSELECT :: u16 where "CSR_TSELECT \<equiv> 0x7A0"
abbreviation (input) CSR_TDATA1 :: u16 where "CSR_TDATA1 \<equiv> 0x7A1"
abbreviation (input) CSR_TDATA3 :: u16 where "CSR_TDATA3 \<equiv> 0x7A3"
abbreviation (input) CSR_MCYCLE :: u16 where "CSR_MCYCLE \<equiv> 0xB00"
abbreviation (input) CSR_MINSTRET :: u16 where "CSR_MINSTRET \<equiv> 0xB02"
abbreviation (input) CSR_CYCLE :: u16 where "CSR_CYCLE \<equiv> 0xC00"
abbreviation (input) CSR_TIME :: u16 where "CSR_TIME \<equiv> 0xC01"
abbreviation (input) CSR_INSTRET :: u16 where "CSR_INSTRET \<equiv> 0xC02"
abbreviation (input) CSR_HPMCOUNTER3 :: u16 where "CSR_HPMCOUNTER3 \<equiv> 0xC03"
abbreviation (input) CSR_HPMCOUNTER31 :: u16 where "CSR_HPMCOUNTER31 \<equiv> 0xC1F"
abbreviation (input) CSR_SCOUNTOVF :: u16 where "CSR_SCOUNTOVF \<equiv> 0xDA0"
abbreviation (input) CSR_MVENDORID :: u16 where "CSR_MVENDORID \<equiv> 0xF11"
abbreviation (input) CSR_MARCHID :: u16 where "CSR_MARCHID \<equiv> 0xF12"
abbreviation (input) CSR_MIMPID :: u16 where "CSR_MIMPID \<equiv> 0xF13"
abbreviation (input) CSR_MHARTID :: u16 where "CSR_MHARTID \<equiv> 0xF14"
abbreviation (input) CSR_MTOPI :: u16 where "CSR_MTOPI \<equiv> 0xFB0"

section \<open>Bit fields of the unions\<close>

type_synonym status_t = u64
type_synonym ip_t = u16
type_synonym ie_t = u16
type_synonym satp_t = u64
type_synonym fcsr_t = u64

abbreviation (input) SSTATUS_MASK :: u64 where "SSTATUS_MASK \<equiv> 0x80000003000DE762"
abbreviation (input) MSTATUS_RO_MASK :: u64 where "MSTATUS_RO_MASK \<equiv> 0xF00000000"
abbreviation (input) SE_MASK :: u64 where "SE_MASK \<equiv> 0x222"

abbreviation st_SIE :: "status_t \<Rightarrow> u64" where "st_SIE s \<equiv> bf_get 1 1 s"
abbreviation st_MIE :: "status_t \<Rightarrow> u64" where "st_MIE s \<equiv> bf_get 3 1 s"
abbreviation st_SPIE :: "status_t \<Rightarrow> u64" where "st_SPIE s \<equiv> bf_get 5 1 s"
abbreviation st_MPIE :: "status_t \<Rightarrow> u64" where "st_MPIE s \<equiv> bf_get 7 1 s"
abbreviation st_SPP :: "status_t \<Rightarrow> u64" where "st_SPP s \<equiv> bf_get 8 1 s"
abbreviation st_MPP :: "status_t \<Rightarrow> u64" where "st_MPP s \<equiv> bf_get 11 2 s"
abbreviation st_FS :: "status_t \<Rightarrow> u64" where "st_FS s \<equiv> bf_get 13 2 s"
abbreviation st_MPRV :: "status_t \<Rightarrow> u64" where "st_MPRV s \<equiv> bf_get 17 1 s"
abbreviation st_SUM :: "status_t \<Rightarrow> u64" where "st_SUM s \<equiv> bf_get 18 1 s"
abbreviation st_MXR :: "status_t \<Rightarrow> u64" where "st_MXR s \<equiv> bf_get 19 1 s"
abbreviation st_TVM :: "status_t \<Rightarrow> u64" where "st_TVM s \<equiv> bf_get 20 1 s"
abbreviation st_TW :: "status_t \<Rightarrow> u64" where "st_TW s \<equiv> bf_get 21 1 s"
abbreviation st_TSR :: "status_t \<Rightarrow> u64" where "st_TSR s \<equiv> bf_get 22 1 s"
abbreviation st_UXL :: "status_t \<Rightarrow> u64" where "st_UXL s \<equiv> bf_get 32 2 s"
abbreviation st_SXL :: "status_t \<Rightarrow> u64" where "st_SXL s \<equiv> bf_get 34 2 s"

abbreviation set_SIE :: "u64 \<Rightarrow> status_t \<Rightarrow> status_t" where "set_SIE v s \<equiv> bf_set 1 1 v s"
abbreviation set_MIE :: "u64 \<Rightarrow> status_t \<Rightarrow> status_t" where "set_MIE v s \<equiv> bf_set 3 1 v s"
abbreviation set_SPIE :: "u64 \<Rightarrow> status_t \<Rightarrow> status_t" where "set_SPIE v s \<equiv> bf_set 5 1 v s"
abbreviation set_MPIE :: "u64 \<Rightarrow> status_t \<Rightarrow> status_t" where "set_MPIE v s \<equiv> bf_set 7 1 v s"
abbreviation set_SPP :: "u64 \<Rightarrow> status_t \<Rightarrow> status_t" where "set_SPP v s \<equiv> bf_set 8 1 v s"
abbreviation set_MPP :: "u64 \<Rightarrow> status_t \<Rightarrow> status_t" where "set_MPP v s \<equiv> bf_set 11 2 v s"
abbreviation set_FS :: "u64 \<Rightarrow> status_t \<Rightarrow> status_t" where "set_FS v s \<equiv> bf_set 13 2 v s"
abbreviation set_MPRV :: "u64 \<Rightarrow> status_t \<Rightarrow> status_t" where "set_MPRV v s \<equiv> bf_set 17 1 v s"
abbreviation set_UXL :: "u64 \<Rightarrow> status_t \<Rightarrow> status_t" where "set_UXL v s \<equiv> bf_set 32 2 v s"
abbreviation set_SXL :: "u64 \<Rightarrow> status_t \<Rightarrow> status_t" where "set_SXL v s \<equiv> bf_set 34 2 v s"

abbreviation set_MSIP :: "u16 \<Rightarrow> ip_t \<Rightarrow> ip_t" where "set_MSIP v p \<equiv> bf_set 3 1 v p"
abbreviation set_STIP :: "u16 \<Rightarrow> ip_t \<Rightarrow> ip_t" where "set_STIP v p \<equiv> bf_set 5 1 v p"
abbreviation set_MTIP :: "u16 \<Rightarrow> ip_t \<Rightarrow> ip_t" where "set_MTIP v p \<equiv> bf_set 7 1 v p"
abbreviation set_SEIP :: "u16 \<Rightarrow> ip_t \<Rightarrow> ip_t" where "set_SEIP v p \<equiv> bf_set 9 1 v p"
abbreviation set_MEIP :: "u16 \<Rightarrow> ip_t \<Rightarrow> ip_t" where "set_MEIP v p \<equiv> bf_set 11 1 v p"

abbreviation satp_ppn :: "satp_t \<Rightarrow> u64" where "satp_ppn s \<equiv> bf_get 0 44 s"
abbreviation satp_asid :: "satp_t \<Rightarrow> u64" where "satp_asid s \<equiv> bf_get 44 16 s"
abbreviation satp_mode :: "satp_t \<Rightarrow> u64" where "satp_mode s \<equiv> bf_get 60 4 s"

abbreviation fflags :: "fcsr_t \<Rightarrow> u64" where "fflags f \<equiv> bf_get 0 5 f"
abbreviation frm :: "fcsr_t \<Rightarrow> u64" where "frm f \<equiv> bf_get 5 3 f"
abbreviation set_fflags :: "u64 \<Rightarrow> fcsr_t \<Rightarrow> fcsr_t" where "set_fflags v f \<equiv> bf_set 0 5 v f"
abbreviation set_frm :: "u64 \<Rightarrow> fcsr_t \<Rightarrow> fcsr_t" where "set_frm v f \<equiv> bf_set 5 3 v f"

end
