(* ===== verification/Decode_Fields.thy ===== *)
theory Decode_Fields
  imports Machine_Types
begin

text \<open>
  The operand and immediate extractors of include/decode.hpp, one definition per C++ function, and
  what they compute: every immediate is the sign- or zero-extension of the bits the RISC-V format
  scatters over the instruction word, and the operand fields stay in the register range.
\<close>

section \<open>Helpers of include/decode.hpp\<close>

definition sext :: "u32 \<Rightarrow> nat \<Rightarrow> u32" where
  "sext val bits = (let shift = 32 - bits in signed_drop_bit shift (push_bit shift val))"

definition get_bits :: "u32 \<Rightarrow> nat \<Rightarrow> nat \<Rightarrow> u32" where
  "get_bits inst hi lo = drop_bit lo inst AND (push_bit (hi - lo + 1) 1 - 1)"

section \<open>Operand fields and immediates of 32-bit instructions\<close>

definition d_rd :: "u32 \<Rightarrow> u64" where "d_rd inst = ucast (drop_bit 7 inst AND 0x1f)"
definition d_rs1 :: "u32 \<Rightarrow> u64" where "d_rs1 inst = ucast (drop_bit 15 inst AND 0x1f)"
definition d_rs2 :: "u32 \<Rightarrow> u64" where "d_rs2 inst = ucast (drop_bit 20 inst AND 0x1f)"
definition d_rs3 :: "u32 \<Rightarrow> u64" where "d_rs3 inst = ucast (drop_bit 27 inst AND 0x1f)"
definition d_rm :: "u32 \<Rightarrow> u64" where "d_rm inst = ucast (drop_bit 12 inst AND 0x7)"

definition imm_Zicsr :: "u32 \<Rightarrow> u64" where "imm_Zicsr inst = ucast (drop_bit 20 inst)"

definition imm_I :: "u32 \<Rightarrow> u64" where "imm_I inst = scast (sext (drop_bit 20 inst) 12)"

definition imm_S :: "u32 \<Rightarrow> u64" where
  "imm_S inst =
     (let imm = (drop_bit 7 inst AND 0x1f) OR (drop_bit 20 inst AND 0xfe0)
      in scast (sext imm 12))"

definition imm_B :: "u32 \<Rightarrow> u64" where
  "imm_B inst = scast (sext (push_bit 1 (get_bits inst 11 8) OR push_bit 5 (get_bits inst 30 25)
     OR push_bit 11 (get_bits inst 7 7) OR push_bit 12 (get_bits inst 31 31)) 13)"

definition imm_U :: "u32 \<Rightarrow> u64" where
  "imm_U inst = scast (inst AND 0xFFFFF000)"

definition imm_J :: "u32 \<Rightarrow> u64" where
  "imm_J inst = scast (sext (push_bit 1 (get_bits inst 30 21) OR push_bit 11 (get_bits inst 20 20)
     OR push_bit 12 (get_bits inst 19 12) OR push_bit 20 (get_bits inst 31 31)) 21)"

definition shamt :: "u32 \<Rightarrow> u64" where
  "shamt inst = ucast (ucast (imm_I inst AND 0x1f) :: u32)"

definition shamt64 :: "u32 \<Rightarrow> u64" where
  "shamt64 inst = ucast (ucast (imm_I inst AND 0x3f) :: u32)"

section \<open>Operand fields and immediates of compressed instructions\<close>

definition d_c_rd :: "u16 \<Rightarrow> u64" where "d_c_rd inst = ucast (drop_bit 2 inst AND 0x7)"
definition d_c_rs1 :: "u16 \<Rightarrow> u8" where "d_c_rs1 inst = ucast (drop_bit 7 inst AND 0x7)"
definition d_c_rs2 :: "u16 \<Rightarrow> u8" where "d_c_rs2 inst = ucast (drop_bit 2 inst AND 0x1f)"

definition d_c_uimm :: "u32 \<Rightarrow> u64" where
  "d_c_uimm inst = ucast ((drop_bit 1 inst AND 0x3c0) OR (drop_bit 7 inst AND 0x30)
     OR (drop_bit 2 inst AND 0x8) OR (drop_bit 4 inst AND 0x4))"

definition d_c_uimm_cl :: "u32 \<Rightarrow> u64" where
  "d_c_uimm_cl inst = ucast (push_bit 2 (get_bits inst 6 6)
     OR push_bit 3 (drop_bit 10 inst AND 0x7) OR push_bit 6 (get_bits inst 5 5))"

definition d_c_uimm_cl1 :: "u32 \<Rightarrow> u64" where
  "d_c_uimm_cl1 inst = ucast (push_bit 7 (get_bits inst 6 6)
     OR push_bit 3 (drop_bit 10 inst AND 0x7) OR push_bit 6 (get_bits inst 5 5))"

definition d_c_nzimm :: "u32 \<Rightarrow> u64" where
  "d_c_nzimm inst =
     scast (sext ((drop_bit 2 inst AND 0x1f) OR push_bit 5 (drop_bit 12 inst AND 0x1)) 6)"

definition d_c_uimm_arith :: "u32 \<Rightarrow> u64" where
  "d_c_uimm_arith inst =
     ucast ((drop_bit 2 inst AND 0x1f) OR push_bit 5 (drop_bit 12 inst AND 0x1))"

definition d_c_nzimm_9 :: "u32 \<Rightarrow> u64" where
  "d_c_nzimm_9 inst = scast (sext (push_bit 4 (drop_bit 6 inst AND 1)
     OR push_bit 5 (drop_bit 2 inst AND 1) OR push_bit 6 (drop_bit 5 inst AND 1)
     OR push_bit 7 (drop_bit 3 inst AND 1) OR push_bit 8 (drop_bit 4 inst AND 1)
     OR push_bit 9 (drop_bit 12 inst AND 1)) 10)"

definition d_c_j_imm :: "u32 \<Rightarrow> u64" where
  "d_c_j_imm inst = scast (sext (push_bit 1 (drop_bit 3 inst AND 7)
     OR push_bit 4 (drop_bit 11 inst AND 1) OR push_bit 5 (drop_bit 2 inst AND 1)
     OR push_bit 6 (drop_bit 7 inst AND 1) OR push_bit 7 (drop_bit 6 inst AND 1)
     OR push_bit 8 (drop_bit 9 inst AND 1) OR push_bit 9 (drop_bit 10 inst AND 1)
     OR push_bit 10 (drop_bit 8 inst AND 1) OR push_bit 11 (drop_bit 12 inst AND 1)) 12)"

definition d_c_b_imm :: "u32 \<Rightarrow> u64" where
  "d_c_b_imm inst = scast (sext (push_bit 1 (drop_bit 3 inst AND 0x3)
     OR push_bit 3 (drop_bit 10 inst AND 0x3) OR push_bit 5 (drop_bit 2 inst AND 0x1)
     OR push_bit 6 (drop_bit 5 inst AND 0x3) OR push_bit 8 (drop_bit 12 inst AND 0x1)) 9)"

definition d_c_uimm_lwsp :: "u32 \<Rightarrow> u64" where
  "d_c_uimm_lwsp inst = ucast (push_bit 2 (drop_bit 4 inst AND 0x7)
     OR push_bit 5 (drop_bit 12 inst AND 0x1) OR push_bit 6 (drop_bit 2 inst AND 0x3))"

definition d_c_uimm_ldsp :: "u32 \<Rightarrow> u64" where
  "d_c_uimm_ldsp inst = ucast (push_bit 3 (drop_bit 5 inst AND 0x3)
     OR push_bit 5 (drop_bit 12 inst AND 0x1) OR push_bit 6 (drop_bit 2 inst AND 0x3)
     OR push_bit 8 (drop_bit 4 inst AND 0x1))"

definition d_c_uimm_swsp :: "u32 \<Rightarrow> u64" where
  "d_c_uimm_swsp inst = ucast (push_bit 2 (drop_bit 9 inst AND 0xf)
     OR push_bit 6 (drop_bit 7 inst AND 0x1) OR push_bit 7 (drop_bit 8 inst AND 0x1))"

definition d_c_uimm_sdsp :: "u32 \<Rightarrow> u64" where
  "d_c_uimm_sdsp inst = ucast (push_bit 3 (drop_bit 10 inst AND 0x7)
     OR push_bit 6 (drop_bit 7 inst AND 0x1) OR push_bit 7 (drop_bit 8 inst AND 0x1)
     OR push_bit 8 (drop_bit 9 inst AND 0x1))"

section \<open>Decoded operands\<close>

text \<open>\<open>struct InstructionData\<close>, with the FPU operands (\<open>USE_FPU\<close> is on by default).\<close>

record instruction_data =
  d_rs3_f :: u8
  d_rm_f :: u8
  rs1 :: u8
  rs2 :: u8
  rd :: u8
  inst :: u32
  imm :: u64
  isize :: u8

section \<open>Reference instruction formats\<close>

text \<open>
  The assembler's side of the formats: \<open>enc_I v w\<close> is the word \<open>w\<close> with the immediate \<open>v\<close> placed
  where the I format of the RISC-V manual has it, and so on; \<open>fits k v\<close> says that \<open>v\<close> is a
  \<open>k\<close>-bit signed value.
\<close>

definition fits :: "nat \<Rightarrow> u64 \<Rightarrow> bool" where
  "fits k v \<longleftrightarrow> signed_take_bit (k - 1) v = v"

definition enc_I :: "u64 \<Rightarrow> u32 \<Rightarrow> u32" where
  "enc_I v w = bf_set 20 12 (ucast v) w"

definition enc_S :: "u64 \<Rightarrow> u32 \<Rightarrow> u32" where
  "enc_S v w = bf_set 7 5 (ucast v) (bf_set 25 7 (ucast (drop_bit 5 v)) w)"

definition enc_B :: "u64 \<Rightarrow> u32 \<Rightarrow> u32" where
  "enc_B v w = bf_set 8 4 (ucast (drop_bit 1 v)) (bf_set 25 6 (ucast (drop_bit 5 v))
     (bf_set 7 1 (ucast (drop_bit 11 v)) (bf_set 31 1 (ucast (drop_bit 12 v)) w)))"

definition enc_U :: "u64 \<Rightarrow> u32 \<Rightarrow> u32" where
  "enc_U v w = bf_set 12 20 (ucast (drop_bit 12 v)) w"

definition enc_J :: "u64 \<Rightarrow> u32 \<Rightarrow> u32" where
  "enc_J v w = bf_set 21 10 (ucast (drop_bit 1 v)) (bf_set 20 1 (ucast (drop_bit 11 v))
     (bf_set 12 8 (ucast (drop_bit 12 v)) (bf_set 31 1 (ucast (drop_bit 20 v)) w)))"

section \<open>Lemmas\<close>

lemma numeral_masks:
  "(1 :: 'a::len word) = mask 1" "(3 :: 'a word) = mask 2" "(7 :: 'a word) = mask 3"
  "(0xf :: 'a word) = mask 4" "(0x1f :: 'a word) = mask 5" "(0x3f :: 'a word) = mask 6"
  "(0xfe0 :: 'a word) = push_bit 5 (mask 7)" "(0xFFFFF000 :: u32) = push_bit 12 (mask 20)"
  "(0x3c0 :: 'a word) = push_bit 6 (mask 4)" "(0x30 :: 'a word) = push_bit 4 (mask 2)"
  by (simp_all add: mask_eq_exp_minus_1 push_bit_eq_mult)

text \<open>The shift-and-mask expressions of the header, as bit fields.\<close>

lemma shift_mask_field:
  fixes w :: "'a::len word"
  shows "drop_bit k w AND 1 = bf_get k 1 w" "drop_bit k w AND 3 = bf_get k 2 w"
    "drop_bit k w AND 7 = bf_get k 3 w" "drop_bit k w AND 0xf = bf_get k 4 w"
    "drop_bit k w AND 0x1f = bf_get k 5 w"
  by (simp_all add: bf_get_def mask_eq_exp_minus_1)

lemma shift_mask_field_high:
  fixes w :: u32
  shows "drop_bit 20 w AND 0xfe0 = push_bit 5 (bf_get 25 7 w)"
    "drop_bit 1 w AND 0x3c0 = push_bit 6 (bf_get 7 4 w)"
    "drop_bit 7 w AND 0x30 = push_bit 4 (bf_get 11 2 w)"
  unfolding numeral_masks by (rule bit_word_eqI; auto simp: bit_simps)+

lemma bit_4_8: "bit (4 :: int) n \<longleftrightarrow> n = 2" "bit (8 :: int) n \<longleftrightarrow> n = 3"
  using bit_exp_iff [of 2 n, where 'a = int] bit_exp_iff [of 3 n, where 'a = int] by auto

lemma shift_mask_bit:
  fixes w :: u32
  shows "drop_bit 2 w AND 0x8 = push_bit 3 (bf_get 5 1 w)"
    "drop_bit 4 w AND 0x4 = push_bit 2 (bf_get 6 1 w)"
  by (rule bit_word_eqI; auto simp: bit_simps bit_4_8)+

lemmas field_folds = shift_mask_field shift_mask_field_high shift_mask_bit

lemma bit_sext:
  assumes "0 < k" "k \<le> 32"
  shows "bit (sext v k) n \<longleftrightarrow> n < 32 \<and> bit v (min n (k - 1))"
  using assms by (auto simp: sext_def Let_def bit_simps min_def dest: bit_imp_le_length)

lemma bit_scast_sext:
  assumes "0 < k" "k \<le> 32"
  shows "bit (scast (sext v k) :: u64) n \<longleftrightarrow> n < 64 \<and> bit v (min n (k - 1))"
proof -
  have "min 31 (min n (k - 1)) = min n (k - 1)" using assms by auto
  then show ?thesis using assms by (auto simp: bit_simps bit_sext min.left_commute min.commute)
qed

lemma get_bits_alt: "get_bits w hi lo = bf_get lo (hi - lo + 1) w"
  by (simp add: get_bits_def bf_get_def mask_eq_exp_minus_1 push_bit_eq_mult)

lemma bit_imm_I: "bit (imm_I w) n \<longleftrightarrow> n < 64 \<and> bit w (20 + min n 11)"
  by (simp add: imm_I_def bit_scast_sext) (simp add: bit_simps)

lemma bit_imm_S:
  "bit (imm_S w) n \<longleftrightarrow> n < 64 \<and> bit w (if n < 5 then 7 + n else 20 + min n 11)"
  by (simp add: imm_S_def Let_def bit_scast_sext field_folds)
     (auto simp: bit_simps min_def)

lemma bit_imm_B:
  "bit (imm_B w) n \<longleftrightarrow> n < 64 \<and> 0 < n \<and>
     bit w (if n < 5 then 7 + n else if n < 11 then 20 + n else if n = 11 then 7 else 31)"
  by (simp add: imm_B_def bit_scast_sext get_bits_alt)
     (auto simp: bit_simps min_def)

lemma bit_imm_U: "bit (imm_U w) n \<longleftrightarrow> n < 64 \<and> 12 \<le> n \<and> bit w (min n 31)"
  by (auto simp: imm_U_def numeral_masks bit_simps min_def)

lemma bit_imm_J:
  "bit (imm_J w) n \<longleftrightarrow> n < 64 \<and> 0 < n \<and>
     bit w (if n < 11 then 20 + n else if n = 11 then 20 else if n < 20 then n else 31)"
  by (simp add: imm_J_def bit_scast_sext get_bits_alt)
     (auto simp: bit_simps min_def)

lemma bit_d_c_nzimm: "bit (d_c_nzimm w) n \<longleftrightarrow> n < 64 \<and> bit w (if n < 5 then 2 + n else 12)"
  unfolding d_c_nzimm_def field_folds
  by (simp add: bit_scast_sext) (auto simp: bit_simps min_def)

lemma bit_d_c_uimm_arith:
  "bit (d_c_uimm_arith w) n \<longleftrightarrow> n < 6 \<and> bit w (if n < 5 then 2 + n else 12)"
  unfolding d_c_uimm_arith_def field_folds
  by (cases "n < 5"; cases "n = 5") (auto simp: bit_simps)

lemma bit_d_c_j_imm:
  "bit (d_c_j_imm w) n \<longleftrightarrow> n < 64 \<and> 0 < n \<and>
     bit w (if n < 4 then 2 + n else if n = 4 then 11 else if n = 5 then 2 else if n = 6 then 7
            else if n = 7 then 6 else if n = 8 then 9 else if n = 9 then 10
            else if n = 10 then 8 else 12)"
  unfolding d_c_j_imm_def field_folds
  by (simp add: bit_scast_sext) (auto simp: bit_simps min_def)

lemma bit_d_c_b_imm:
  "bit (d_c_b_imm w) n \<longleftrightarrow> n < 64 \<and> 0 < n \<and>
     bit w (if n < 3 then 2 + n else if n < 5 then 7 + n else if n = 5 then 2
            else if n < 8 then n - 1 else 12)"
  unfolding d_c_b_imm_def field_folds
  by (simp add: bit_scast_sext) (auto simp: bit_simps min_def)

section \<open>Round trips\<close>

lemma fits_bit:
  assumes "fits k v" "n < 64"
  shows "bit v (min n (k - 1)) = bit v n"
proof -
  have "bit (signed_take_bit (k - 1) v) n = bit v n"
    using assms by (simp add: fits_def)
  then show ?thesis using assms(2) by (simp add: bit_signed_take_bit_iff min.commute)
qed

lemma fits_eqI:
  assumes "fits k v" and "\<And>n. n < 64 \<Longrightarrow> bit a n = bit v (min n (k - 1))"
  shows "a = v"
  by (rule bit_word_eqI) (use assms fits_bit [OF assms(1)] in auto)

lemma imm_I_enc: "fits 12 v \<Longrightarrow> imm_I (enc_I v w) = v"
  by (rule fits_eqI, assumption) (auto simp: bit_imm_I enc_I_def bit_simps min_def)

lemma imm_S_enc: "fits 12 v \<Longrightarrow> imm_S (enc_S v w) = v"
  by (rule fits_eqI, assumption) (auto simp: bit_imm_S enc_S_def bit_simps min_def)

lemma imm_B_enc:
  assumes "fits 13 v" "\<not> bit v 0" shows "imm_B (enc_B v w) = v"
proof (rule fits_eqI [OF assms(1)])
  fix n :: nat assume "n < 64"
  then show "bit (imm_B (enc_B v w)) n = bit v (min n (13 - 1))"
    using assms(2)
    by (cases "n = 0"; cases "n = 12") (auto simp: bit_imm_B enc_B_def bit_simps min_def)
qed

lemma imm_J_enc:
  assumes "fits 21 v" "\<not> bit v 0" shows "imm_J (enc_J v w) = v"
proof (rule fits_eqI [OF assms(1)])
  fix n :: nat assume "n < 64"
  then show "bit (imm_J (enc_J v w)) n = bit v (min n (21 - 1))"
    using assms(2)
    by (cases "n = 0") (auto simp: bit_imm_J enc_J_def bit_simps min_def)
qed

lemma imm_U_enc:
  assumes "fits 32 v" "take_bit 12 v = 0" shows "imm_U (enc_U v w) = v"
proof (rule fits_eqI [OF assms(1)])
  fix n :: nat assume "n < 64"
  moreover have "\<not> bit v n" if "n < 12"
    using that arg_cong [OF assms(2), of "\<lambda>x. bit x n"] by (simp add: bit_simps)
  ultimately show "bit (imm_U (enc_U v w)) n = bit v (min n (32 - 1))"
    by (auto simp: bit_imm_U enc_U_def bit_simps min_def)
qed

lemma enc_imm:
  "enc_I (imm_I w) w = w" "enc_S (imm_S w) w = w" "enc_U (imm_U w) w = w"
  by (rule bit_word_eqI;
      auto simp: enc_I_def enc_S_def enc_U_def bit_imm_I bit_imm_S bit_imm_U bit_simps min_def)+

lemma enc_imm_B: "enc_B (imm_B w) w = w"
proof (rule bit_word_eqI)
  fix n :: nat assume "n < LENGTH(32)"
  then show "bit (enc_B (imm_B w) w) n = bit w n"
    by (cases "n = 31"; cases "n = 7") (auto simp: enc_B_def bit_imm_B bit_simps min_def)
qed

lemma enc_imm_J: "enc_J (imm_J w) w = w"
proof (rule bit_word_eqI)
  fix n :: nat assume "n < LENGTH(32)"
  then show "bit (enc_J (imm_J w) w) n = bit w n"
    by (cases "n = 31"; cases "n = 20") (auto simp: enc_J_def bit_imm_J bit_simps min_def)
qed

lemma ucast_mask_bound:
  fixes x :: "'a::len word"
  assumes "k < LENGTH('b::len)"
  shows "unat (ucast (x AND mask k) :: 'b word) < 2 ^ k"
proof -
  have "unat (ucast (x AND mask k) :: 'b word) = take_bit (min LENGTH('b) k) (unat x)"
    by (simp add: unsigned_ucast_eq flip: take_bit_eq_mask) (simp add: unsigned_take_bit_eq min.commute)
  also have "\<dots> < 2 ^ k" using assms by (simp add: min_def)
  finally show ?thesis .
qed

lemma operand_bounds:
  "d_rd w < 32" "d_rs1 w < 32" "d_rs2 w < 32" "d_rs3 w < 32" "d_rm w < 8"
  unfolding d_rd_def d_rs1_def d_rs2_def d_rs3_def d_rm_def numeral_masks
  using ucast_mask_bound [of 5, where 'b = 64] ucast_mask_bound [of 3, where 'b = 64]
  by (simp_all add: word_less_nat_alt)

text \<open>
  The immediate extractors invert the RISC-V instruction formats. For each of the formats I,
  S, B, U and J, decoding a word into which an assembler placed a representable immediate gives
  back that immediate (whatever the other bits of the word are), and placing the decoded immediate
  back into the word leaves the word unchanged, so no immediate bit is dropped or duplicated.
\<close>

theorem imm_formats_roundtrip:
  "(fits 12 v \<longrightarrow> imm_I (enc_I v w) = v \<and> imm_S (enc_S v w) = v) \<and>
   (fits 13 v \<and> \<not> bit v 0 \<longrightarrow> imm_B (enc_B v w) = v) \<and>
   (fits 32 v \<and> take_bit 12 v = 0 \<longrightarrow> imm_U (enc_U v w) = v) \<and>
   (fits 21 v \<and> \<not> bit v 0 \<longrightarrow> imm_J (enc_J v w) = v) \<and>
   enc_I (imm_I w) w = w \<and> enc_S (imm_S w) w = w \<and> enc_B (imm_B w) w = w \<and>
   enc_U (imm_U w) w = w \<and> enc_J (imm_J w) w = w"
  using imm_I_enc imm_S_enc imm_B_enc imm_U_enc imm_J_enc enc_imm enc_imm_B enc_imm_J by simp

theorem imm_formats_roundtrip_witness:
  "fits 12 (-16) \<and> imm_I (enc_I (-16) 0x13) = -16 \<and> imm_B (enc_B (-16) 0x63) = -16"
proof -
  have f: "fits 12 (-16)" "fits 13 (-16)" "\<not> bit (-16 :: u64) 0"
    by (simp_all add: fits_def)
  show ?thesis
    using f imm_formats_roundtrip [of "-16" "0x13"] imm_formats_roundtrip [of "-16" "0x63"] by blast
qed

end
