(* ===== verification/Decoder.thy ===== *)
theory Decoder
  imports Decode_Fields
begin

unbundle bit_operations_syntax

text \<open>
  The instruction decoder of include/decode.hpp and src/decode.cpp: registration of mask strings,
  the two lookup tables indexed by extracted bits, the decode routine and its two-way cache. The
  handler of an instruction is a value of an arbitrary type \<open>'f\<close>, which stands for the C++ function
  pointer. A pointer to an \<open>Instruction\<close> is an index into the \<open>instructions\<close> vector.
\<close>

section \<open>Bit extraction\<close>

text \<open>\<open>_pext_u32\<close>: the bits of \<open>val\<close> selected by \<open>msk\<close>, packed to the low end.\<close>

definition pext_u32 :: "u32 \<Rightarrow> u32 \<Rightarrow> u32" where
  "pext_u32 val msk = horner_sum of_bool 2 (map (bit val) (filter (bit msk) [0..<32]))"

text \<open>The replacement used on AArch64, round by round; the state is \<open>(x, m, mk)\<close>.\<close>

definition pext_round :: "nat \<Rightarrow> u32 \<times> u32 \<times> u32 \<Rightarrow> u32 \<times> u32 \<times> u32" where
  "pext_round i = (\<lambda>(x, m, mk).
     let mp = mk XOR push_bit 1 mk;
         mp = mp XOR push_bit 2 mp;
         mp = mp XOR push_bit 4 mp;
         mp = mp XOR push_bit 8 mp;
         mp = mp XOR push_bit 16 mp;
         mv = mp AND m;
         m' = (m XOR mv) OR drop_bit (2 ^ i) mv;
         t = x AND mv;
         x' = (x XOR t) OR drop_bit (2 ^ i) t
     in (x', m', mk AND NOT mp))"

definition pext_u32_soft :: "u32 \<Rightarrow> u32 \<Rightarrow> u32" where
  "pext_u32_soft val msk =
     fst (fold pext_round [0..<5] (val AND msk, msk, push_bit 1 (NOT msk)))"

section \<open>Registered instructions\<close>

record 'f instruction =
  mask_i :: u32
  match_i :: u32
  func :: 'f
  imm_decode_func :: "(u32 \<Rightarrow> u64) option"
  size_i :: u8

text \<open>The loop of \<open>register_instr\<close> over the mask string, from its last character to its first.\<close>

fun mask_loop :: "string \<Rightarrow> nat \<Rightarrow> u32 \<Rightarrow> u32 \<Rightarrow> u32 \<times> u32" where
  "mask_loop [] i inst_mask inst_match = (inst_mask, inst_match)"
| "mask_loop (c # cs) i inst_mask inst_match =
     (if c = CHR ''1'' then mask_loop cs (Suc i) (inst_mask OR push_bit i 1) (inst_match OR push_bit i 1)
      else if c = CHR ''0'' then mask_loop cs (Suc i) (inst_mask OR push_bit i 1) inst_match
      else mask_loop cs (Suc i) inst_mask inst_match)"

definition make_instr :: "string \<Rightarrow> 'f \<Rightarrow> (u32 \<Rightarrow> u64) option \<Rightarrow> 'f instruction" where
  "make_instr msk f dec =
     (case mask_loop (rev msk) 0 0 0 of (m, k) \<Rightarrow>
        \<lparr>mask_i = m, match_i = k, func = f, imm_decode_func = dec,
         size_i = of_nat (length msk div 8)\<rparr>)"

section \<open>Decoder state\<close>

record instruction_cache =
  ic_pc :: u64
  ic_inst :: "nat option"
  ic_data :: instruction_data
  ic_cache_gen :: u64
  ic_smc_gen :: u64

record cache_set =
  ways0 :: instruction_cache
  ways1 :: instruction_cache
  victim :: bool

record 'f decoder =
  instructions :: "'f instruction list"
  lut :: "u32 \<Rightarrow> nat option"
  lut16 :: "u32 \<Rightarrow> nat option"
  cache :: "u64 \<Rightarrow> cache_set"
  cache_generation :: u64
  global_hash_mask :: u32

abbreviation (input) HASH_MASK :: u32 where "HASH_MASK \<equiv> 0xFFF0707F"
abbreviation (input) HASH_MASK_16 :: u32 where "HASH_MASK_16 \<equiv> 0x0000FFFF"
abbreviation (input) LUT_SIZE :: nat where "LUT_SIZE \<equiv> 2 ^ 23"
abbreviation (input) LUT_SIZE_16 :: nat where "LUT_SIZE_16 \<equiv> 2 ^ 18"
abbreviation (input) CACHE_SIZE :: u64 where "CACHE_SIZE \<equiv> 2 * 2 ^ 17"

definition register_instr ::
  "string \<Rightarrow> 'f \<Rightarrow> (u32 \<Rightarrow> u64) option \<Rightarrow> 'f decoder \<Rightarrow> 'f decoder" where
  "register_instr msk f dec d =
     (let ins = make_instr msk f dec in
      d\<lparr>instructions := instructions d @ [ins],
        global_hash_mask := global_hash_mask d OR mask_i ins\<rparr>)"

section \<open>Building the lookup tables\<close>

definition popcount32 :: "u32 \<Rightarrow> nat" where
  "popcount32 w = length (filter (bit w) [0..<32])"

text \<open>\<open>sub_mask = (sub_mask - dont_care_bits) & dont_care_bits\<close>\<close>

definition next_sub :: "u32 \<Rightarrow> u32 \<Rightarrow> u32" where
  "next_sub dc sub = (sub - dc) AND dc"

text \<open>One table entry: the more specific instruction wins, the earlier one on a tie.\<close>

definition lut_put :: "'f instruction list \<Rightarrow> nat \<Rightarrow> u32 \<Rightarrow> (u32 \<Rightarrow> nat option) \<Rightarrow> u32 \<Rightarrow> nat option" where
  "lut_put tbl k idx t =
     (case t idx of
        Some j \<Rightarrow> if popcount32 (mask_i (tbl ! k)) > popcount32 (mask_i (tbl ! j)) then t(idx \<mapsto> k) else t
      | None \<Rightarrow> t(idx \<mapsto> k))"

lemma take_bit_eq_iff_dvd:
  "take_bit k x = take_bit k y \<longleftrightarrow> 2 ^ k dvd x - y" for x y :: "'a::len word"
proof
  assume eq: "take_bit k x = take_bit k y"
  have "x - y = (push_bit k (drop_bit k x) + take_bit k x) - (push_bit k (drop_bit k y) + take_bit k y)"
    by (simp add: bits_ident)
  also have "\<dots> = 2 ^ k * (drop_bit k x - drop_bit k y)"
    by (simp add: eq push_bit_eq_mult algebra_simps)
  finally show "2 ^ k dvd x - y" by simp
next
  assume "2 ^ k dvd x - y"
  then obtain c where x: "x = y + 2 ^ k * c" by (metis diff_add_cancel add.commute dvdE)
  let ?z = "drop_bit k y + c"
  have "push_bit k ?z AND take_bit k y = 0" by (rule bit_word_eqI) (auto simp: bit_simps)
  then have "push_bit k ?z OR take_bit k y = push_bit k ?z + take_bit k y"
    by (simp add: disjunctive_add_eq_or)
  also have "\<dots> = 2 ^ k * c + (push_bit k (drop_bit k y) + take_bit k y)"
    by (simp add: push_bit_eq_mult algebra_simps)
  also have "\<dots> = x" using bits_ident [of k y] by (simp add: x)
  finally have "take_bit k x = take_bit k (push_bit k ?z OR take_bit k y)" by simp
  also have "\<dots> = take_bit k y" by (rule bit_word_eqI) (auto simp: bit_simps)
  finally show "take_bit k x = take_bit k y" .
qed

lemma take_bit_Suc_eqI:
  fixes x y :: "'a::len word"
  assumes "take_bit k x = take_bit k y" "bit x k = bit y k"
  shows "take_bit (Suc k) x = take_bit (Suc k) y"
proof (rule bit_word_eqI)
  fix n assume "n < LENGTH('a)"
  have "bit (take_bit k x) n = bit (take_bit k y) n" using assms(1) by simp
  then show "bit (take_bit (Suc k) x) n = bit (take_bit (Suc k) y) n"
    using assms(2) by (auto simp: bit_simps less_Suc_eq)
qed

lemma uint_disjoint_or:
  "a AND b = 0 \<Longrightarrow> uint (a OR b) = uint a + uint b" for a b :: "'a::len word"
  by (metis disjunctive_add_eq_or unsigned_0 unsigned_and_eq unsigned_or_eq)

lemma sub_bit: "s AND NOT dc = 0 \<Longrightarrow> bit s k \<Longrightarrow> bit dc k" for s :: "'a::len word"
proof -
  assume a: "s AND NOT dc = 0" and b: "bit s k"
  have "\<not> bit (s AND NOT dc) k" using a by simp
  with b show "bit dc k" by (auto simp: bit_simps dest: bit_imp_le_length)
qed

lemma next_sub_subset: "next_sub dc s AND NOT dc = 0"
  by (rule bit_word_eqI) (auto simp: next_sub_def bit_simps)

lemma next_sub_greater:
  assumes sub: "s AND NOT dc = 0" and nz: "next_sub dc s \<noteq> 0"
  shows "s < next_sub dc s"
proof -
  let ?N = "NOT dc" let ?y = "s - dc" let ?s' = "?y AND dc"
  have x: "s + ?N = s OR ?N" using sub by (simp add: disjunctive_add_eq_or)
  have y: "?y = (s OR ?N) + 1" by (simp add: x [symmetric] minus_eq_not_plus_1 [of dc] diff_conv_add_uminus del: add_uminus_conv_diff)
  have "1 + (s OR ?N) \<noteq> 0"
    using nz y by (auto simp: next_sub_def add.commute)
  then have "unat (1 + (s OR ?N)) = Suc (unat (s OR ?N))" by (rule unatSuc)
  then have "unat ?y = Suc (unat (s OR ?N))" by (simp only: y add.commute)
  then have "uint ?y = uint (s OR ?N) + 1" by (simp only: uint_nat)
  then have u: "uint ?y = uint s + uint ?N + 1"
    using uint_disjoint_or [OF sub] by simp
  have d: "?s' AND ?N = 0" by (rule bit_word_eqI) (auto simp: bit_simps)
  have "?s' OR ?N = ?y OR ?N" by (rule bit_word_eqI) (auto simp: bit_simps)
  then have "uint ?s' + uint ?N = uint (?y OR ?N)"
    using uint_disjoint_or [OF d] by simp
  moreover have "uint ?y \<le> uint (?y OR ?N)"
    by (metis le_word_or2 word_le_def)
  ultimately have "uint s < uint ?s'" using u by linarith
  then show ?thesis by (simp add: next_sub_def word_less_def)
qed

lemma next_sub_inj:
  assumes s: "s AND NOT dc = 0" and t: "t AND NOT dc = 0" and eq: "next_sub dc s = next_sub dc t"
  shows "s = t"
proof -
  let ?p = "(s - dc) AND NOT dc" and ?q = "(t - dc) AND NOT dc"
  have split: "a = (a AND dc) + (a AND NOT dc)" for a :: u32
  proof -
    have "(a AND dc) AND (a AND NOT dc) = 0" by (rule bit_word_eqI) (auto simp: bit_simps)
    moreover have "(a AND dc) OR (a AND NOT dc) = a" by (rule bit_word_eqI) (auto simp: bit_simps)
    ultimately show ?thesis by (metis disjunctive_add_eq_or)
  qed
  have "(s - dc) - (t - dc) = ?p - ?q"
    using split [of "s - dc"] split [of "t - dc"] eq [unfolded next_sub_def]
    by (metis add_diff_cancel_left)
  then have st: "s - t = ?p - ?q" by simp
  have nb: "\<not> bit dc k \<Longrightarrow> \<not> bit s k \<and> \<not> bit t k" for k
    using sub_bit [OF s] sub_bit [OF t] by blast
  have "2 ^ k dvd s - t" for k
  proof (induction k)
    case (Suc k)
    show ?case
    proof (cases "bit dc k")
      case True
      then have b: "bit ?p k = bit ?q k" by (simp add: bit_simps)
      have "take_bit k ?p = take_bit k ?q"
        by (rule take_bit_eq_iff_dvd [THEN iffD2]) (rule Suc.IH [unfolded st])
      then have "take_bit (Suc k) ?p = take_bit (Suc k) ?q" using b by (rule take_bit_Suc_eqI)
      then show ?thesis unfolding st by (rule take_bit_eq_iff_dvd [THEN iffD1])
    next
      case False
      then have b: "bit s k = bit t k" using nb by blast
      have "take_bit k s = take_bit k t" by (rule take_bit_eq_iff_dvd [THEN iffD2]) (rule Suc.IH)
      then have "take_bit (Suc k) s = take_bit (Suc k) t" using b by (rule take_bit_Suc_eqI)
      then show ?thesis by (rule take_bit_eq_iff_dvd [THEN iffD1])
    qed
  qed simp
  from this [of 32] have "take_bit 32 s = take_bit 32 t" by (rule take_bit_eq_iff_dvd [THEN iffD2])
  then show ?thesis by (simp add: take_bit_word_eq_self)
qed

definition submask_rank :: "u32 \<Rightarrow> u32 \<Rightarrow> nat" where
  "submask_rank dc sub = (if sub AND NOT dc = 0 then 2 ^ 32 - unat sub else 2 ^ 32 + 1)"

lemma submask_rank_less:
  assumes nz: "next_sub dc sub \<noteq> 0"
  shows "submask_rank dc (next_sub dc sub) < submask_rank dc sub"
proof -
  have "unat sub < unat (next_sub dc sub)" if "sub AND NOT dc = 0"
    using next_sub_greater [OF that] nz by (simp add: word_less_nat_alt)
  moreover have "unat (next_sub dc sub) < 2 ^ 32" using unsigned_less [of "next_sub dc sub"] by simp
  ultimately show ?thesis
    using next_sub_subset [of dc sub] by (auto simp: submask_rank_def)
qed

function submask_seq :: "u32 \<Rightarrow> u32 \<Rightarrow> u32 list" where
  "submask_seq dc sub =
     sub # (let nx = next_sub dc sub in if nx = 0 then [] else submask_seq dc nx)"
  by pat_completeness auto
termination
  by (relation "measure (\<lambda>(dc, sub). submask_rank dc sub)") (auto intro: submask_rank_less)

declare submask_seq.simps [simp del]

lemma submask_seq_mem_next:
  "s \<in> set (submask_seq dc a) \<Longrightarrow> next_sub dc s \<noteq> 0 \<Longrightarrow> next_sub dc s \<in> set (submask_seq dc a)"
proof (induction dc a rule: submask_seq.induct)
  case (1 dc a)
  show ?case
  proof (cases "s = a")
    case True
    with 1(3) have "next_sub dc a \<in> set (submask_seq dc (next_sub dc a))"
      by (subst submask_seq.simps) simp
    with True 1(3) show ?thesis by (subst submask_seq.simps) (simp add: Let_def)
  next
    case False
    with 1 have nz: "next_sub dc a \<noteq> 0" and "s \<in> set (submask_seq dc (next_sub dc a))"
      by (auto simp: submask_seq.simps [of dc a] Let_def split: if_splits)
    with 1 have "next_sub dc s \<in> set (submask_seq dc (next_sub dc a))" by blast
    with nz show ?thesis by (simp add: submask_seq.simps [of dc a] Let_def)
  qed
qed

lemma submask_seq_subset:
  "a AND NOT dc = 0 \<Longrightarrow> s \<in> set (submask_seq dc a) \<Longrightarrow> s AND NOT dc = 0"
proof (induction dc a rule: submask_seq.induct)
  case (1 dc a)
  then show ?case
    using next_sub_subset by (auto simp: submask_seq.simps [of dc a] Let_def split: if_splits)
qed

lemma submask_seq_complete:
  "set (submask_seq dc 0) = {s. s AND NOT dc = 0}" (is "_ = ?S")
proof
  show "set (submask_seq dc 0) \<subseteq> ?S" using submask_seq_subset [of 0 dc] by auto
  have "inj_on (next_sub dc) ?S" by (auto intro!: inj_onI intro: next_sub_inj)
  moreover have "next_sub dc ` ?S \<subseteq> ?S" using next_sub_subset by auto
  ultimately have surj: "next_sub dc ` ?S = ?S" by (intro endo_inj_surj) auto
  have "t \<in> set (submask_seq dc 0)" if "t \<in> ?S" for t
    using that
  proof (induction "unat t" arbitrary: t rule: less_induct)
    case less
    show ?case
    proof (cases "t = 0")
      case True
      then show ?thesis by (subst submask_seq.simps) simp
    next
      case False
      from less(2) surj obtain s where s: "s \<in> ?S" and t: "t = next_sub dc s" by blast
      then have "s < t" using next_sub_greater [of s dc] False by auto
      then have "s \<in> set (submask_seq dc 0)" using less(1) s by (auto simp: word_less_nat_alt)
      then show ?thesis using submask_seq_mem_next [of s dc 0] t False by simp
    qed
  qed
  then show "?S \<subseteq> set (submask_seq dc 0)" by blast
qed

text \<open>
  The do-while loop of \<open>build_lut\<close> for one instruction. The \<open>continue\<close> of an index outside the table
  skips the update of \<open>sub_mask\<close>: from a nonzero \<open>sub_mask\<close> the C++ loop would never end, which is
  the value \<open>None\<close> here.
\<close>

function lut_loop :: "'f instruction list \<Rightarrow> nat \<Rightarrow> u32 \<Rightarrow> nat \<Rightarrow> u32 \<Rightarrow> u32 \<Rightarrow>
    (u32 \<Rightarrow> nat option) \<Rightarrow> (u32 \<Rightarrow> nat option) option" where
  "lut_loop tbl k current_hash_mask current_lut_size dont_care_bits sub_mask t =
     (let test_inst = (match_i (tbl ! k) AND current_hash_mask) OR sub_mask;
          lut_idx = pext_u32 test_inst current_hash_mask
      in if current_lut_size \<le> unat lut_idx then (if sub_mask = 0 then Some t else None)
         else let t' = lut_put tbl k lut_idx t; nx = next_sub dont_care_bits sub_mask
              in if nx = 0 then Some t'
                 else lut_loop tbl k current_hash_mask current_lut_size dont_care_bits nx t')"
  by pat_completeness auto
termination
proof (relation "measure (\<lambda>(tbl, k, hm, n, dc, sub, t). submask_rank dc sub)")
  show "wf (measure (\<lambda>(tbl, k, hm, n, dc, sub, t). submask_rank dc sub))" by simp
qed (auto intro: submask_rank_less)

definition lut_fill ::
  "'f instruction list \<Rightarrow> nat \<Rightarrow> u32 \<Rightarrow> nat \<Rightarrow> (u32 \<Rightarrow> nat option) \<Rightarrow> (u32 \<Rightarrow> nat option) option" where
  "lut_fill tbl k current_hash_mask current_lut_size t =
     (let effective_mask = mask_i (tbl ! k) AND current_hash_mask;
          dont_care_bits = current_hash_mask AND NOT effective_mask
      in lut_loop tbl k current_hash_mask current_lut_size dont_care_bits 0 t)"

definition build_step :: "nat \<Rightarrow> 'f decoder \<Rightarrow> 'f decoder option" where
  "build_step k d =
     (if size_i (instructions d ! k) = 2
      then map_option (\<lambda>t. d\<lparr>lut16 := t\<rparr>)
             (lut_fill (instructions d) k HASH_MASK_16 LUT_SIZE_16 (lut16 d))
      else map_option (\<lambda>t. d\<lparr>lut := t\<rparr>)
             (lut_fill (instructions d) k HASH_MASK LUT_SIZE (lut d)))"

definition build_lut :: "'f decoder \<Rightarrow> 'f decoder option" where
  "build_lut d =
     fold (\<lambda>k r. Option.bind r (build_step k)) [0..<length (instructions d)] (Some d)"

definition find_inst :: "'f decoder \<Rightarrow> u32 \<Rightarrow> nat option" where
  "find_inst d w =
     (let dinst = (if w AND 0x3 \<noteq> 0x3
                   then lut16 d (pext_u32 (w AND 0xFFFF) HASH_MASK_16) else None);
          dinst = (case dinst of None \<Rightarrow> lut d (pext_u32 w HASH_MASK) | Some k \<Rightarrow> Some k)
      in case dinst of
           None \<Rightarrow> None
         | Some k \<Rightarrow> if w AND mask_i (instructions d ! k) = match_i (instructions d ! k)
                    then Some k else None)"

text \<open>
  \<open>decode_inst_slow\<close> fills the victim way of the set; \<open>data_of\<close> is the operand record it stores. A
  word no instruction matches leaves a way with \<open>pc\<close> and \<open>cache_gen\<close> zero, whose \<open>smc_gen\<close> is
  kept.
\<close>

definition data_of :: "'f decoder \<Rightarrow> u32 \<Rightarrow> instruction_data" where
  "data_of d w =
     \<lparr>d_rs3_f = ucast (d_rs3 w), d_rm_f = ucast (d_rm w), rs1 = ucast (d_rs1 w),
      rs2 = ucast (d_rs2 w), rd = ucast (d_rd w), inst = w,
      imm = (case find_inst d w of
               Some k \<Rightarrow> (case imm_decode_func (instructions d ! k) of Some f \<Rightarrow> f w | None \<Rightarrow> 0)
             | None \<Rightarrow> 0),
      isize = (if w AND 0x3 \<noteq> 3 then 2 else 4)\<rparr>"

definition cache_idx :: "u64 \<Rightarrow> u64" where
  "cache_idx pc = drop_bit 2 pc AND (CACHE_SIZE - 1)"

definition fill_entry :: "'f decoder \<Rightarrow> u64 \<Rightarrow> u64 \<Rightarrow> u32 \<Rightarrow> instruction_cache \<Rightarrow> instruction_cache" where
  "fill_entry d epoch pc w e =
     (case find_inst d w of
        Some k \<Rightarrow> e\<lparr>ic_pc := pc, ic_inst := Some k, ic_cache_gen := cache_generation d,
                     ic_smc_gen := epoch, ic_data := data_of d w\<rparr>
      | None \<Rightarrow> e\<lparr>ic_pc := 0, ic_cache_gen := 0, ic_inst := None, ic_data := data_of d w\<rparr>)"

definition decode_inst_slow ::
  "u64 \<Rightarrow> u64 \<Rightarrow> u32 \<Rightarrow> 'f decoder \<Rightarrow> instruction_cache \<times> 'f decoder" where
  "decode_inst_slow epoch pc w d =
     (let idx = cache_idx pc; cset = cache d idx;
          entry = fill_entry d epoch pc w (if victim cset then ways1 cset else ways0 cset);
          cset' = (if victim cset then cset\<lparr>ways1 := entry, victim := False\<rparr>
                   else cset\<lparr>ways0 := entry, victim := True\<rparr>)
      in (entry, d\<lparr>cache := (cache d)(idx := cset')\<rparr>))"

definition way_hit :: "u64 \<Rightarrow> u64 \<Rightarrow> u32 \<Rightarrow> 'f decoder \<Rightarrow> instruction_cache \<Rightarrow> bool" where
  "way_hit epoch pc w d e \<longleftrightarrow>
     ic_pc e = pc \<and> inst (ic_data e) = w \<and> ic_cache_gen e = cache_generation d \<and> ic_smc_gen e = epoch"

definition decode_inst ::
  "u64 \<Rightarrow> u64 \<Rightarrow> u32 \<Rightarrow> 'f decoder \<Rightarrow> instruction_cache \<times> 'f decoder" where
  "decode_inst epoch pc w d =
     (let cset = cache d (cache_idx pc) in
      if way_hit epoch pc w d (ways0 cset) then (ways0 cset, d)
      else if way_hit epoch pc w d (ways1 cset) then (ways1 cset, d)
      else decode_inst_slow epoch pc w d)"

text \<open>\<open>Hart::clear_decode_cache\<close>\<close>

definition clear_decode_cache :: "'f decoder \<Rightarrow> 'f decoder" where
  "clear_decode_cache d = d\<lparr>cache_generation := cache_generation d + 1\<rparr>"

definition empty_entry :: instruction_cache where
  "empty_entry = \<lparr>ic_pc = 0, ic_inst = None,
     ic_data = \<lparr>d_rs3_f = 0, d_rm_f = 0, rs1 = 0, rs2 = 0, rd = 0, inst = 0, imm = 0, isize = 4\<rparr>,
     ic_cache_gen = 0, ic_smc_gen = 0\<rparr>"

text \<open>\<open>new InstructionDecoder()\<close>: all members zero or their initialisers.\<close>

definition new_decoder :: "'f decoder" where
  "new_decoder = \<lparr>instructions = [], lut = (\<lambda>_. None), lut16 = (\<lambda>_. None),
     cache = (\<lambda>_. \<lparr>ways0 = empty_entry, ways1 = empty_entry, victim = False\<rparr>),
     cache_generation = 0, global_hash_mask = 0\<rparr>"

section \<open>Reference decoder\<close>

text \<open>
  What the tables stand for: a linear scan of the registered instructions that keeps the matching
  one with the most mask bits, the first on a tie. \<open>table_ok\<close> is the condition on the registered
  masks that the hashing needs: 32-bit entries are told apart by the bits of \<open>HASH_MASK\<close> alone.
\<close>

definition better :: "'f instruction list \<Rightarrow> nat \<Rightarrow> nat option \<Rightarrow> nat option" where
  "better tbl k acc =
     (case acc of
        None \<Rightarrow> Some k
      | Some j \<Rightarrow> if popcount32 (mask_i (tbl ! j)) < popcount32 (mask_i (tbl ! k)) then Some k else Some j)"

definition scan :: "'f instruction list \<Rightarrow> (nat \<Rightarrow> bool) \<Rightarrow> nat list \<Rightarrow> nat option \<Rightarrow> nat option" where
  "scan tbl P ks acc = fold (\<lambda>k acc. if P k then better tbl k acc else acc) ks acc"

definition matches :: "'f instruction \<Rightarrow> u32 \<Rightarrow> bool" where
  "matches ins w \<longleftrightarrow> w AND mask_i ins = match_i ins"

definition decode_ref :: "'f instruction list \<Rightarrow> u32 \<Rightarrow> nat option" where
  "decode_ref tbl w =
     scan tbl (\<lambda>k. size_i (tbl ! k) = (if w AND 3 = 3 then 4 else 2) \<and> matches (tbl ! k) w)
       [0..<length tbl] None"

definition hash_compat :: "u32 \<Rightarrow> 'f instruction \<Rightarrow> u32 \<Rightarrow> bool" where
  "hash_compat hm ins w \<longleftrightarrow> (w XOR match_i ins) AND mask_i ins AND hm = 0"

definition instr_ok :: "'f instruction \<Rightarrow> bool" where
  "instr_ok ins \<longleftrightarrow>
     match_i ins AND NOT (mask_i ins) = 0 \<and> mask_i ins AND 3 = 3 \<and>
     (if size_i ins = 2 then mask_i ins AND 0xFFFF = mask_i ins \<and> match_i ins AND 3 \<noteq> 3
      else size_i ins = 4 \<and> match_i ins AND 3 = 3)"

definition hash_apart :: "u32 \<Rightarrow> 'f instruction \<Rightarrow> 'f instruction \<Rightarrow> bool" where
  "hash_apart hm a b \<longleftrightarrow> (match_i a XOR match_i b) AND mask_i a AND mask_i b AND hm \<noteq> 0"

definition table_ok :: "'f instruction list \<Rightarrow> bool" where
  "table_ok tbl \<longleftrightarrow> (\<forall>ins \<in> set tbl. instr_ok ins) \<and>
     sorted_wrt (\<lambda>a b. size_i a = 4 \<longrightarrow> size_i b = 4 \<longrightarrow> hash_apart HASH_MASK a b) tbl"

subsection \<open>pext\<close>

lemma pext_bound: "unat (pext_u32 v m) < 2 ^ popcount32 m"
proof -
  have "pext_u32 v m = take_bit (popcount32 m) (pext_u32 v m)"
    by (rule bit_word_eqI) (auto simp: pext_u32_def popcount32_def bit_simps)
  then show ?thesis by (metis unsigned_take_bit_eq take_bit_nat_less_exp)
qed

lemma bit_pext:
  "bit (pext_u32 v m) n \<longleftrightarrow> n < popcount32 m \<and> bit v (filter (bit m) [0..<32] ! n)"
proof -
  have "popcount32 m \<le> 32"
    using length_filter_le [of "bit m" "[0..<32]"] by (simp add: popcount32_def)
  then show ?thesis
    by (auto simp: pext_u32_def popcount32_def bit_horner_sum_bit_word_iff)
qed

lemma pext_eq_iff: "pext_u32 a m = pext_u32 b m \<longleftrightarrow> a AND m = b AND m"
proof
  let ?is = "filter (bit m) [0..<32]"
  assume eq: "pext_u32 a m = pext_u32 b m"
  have "bit a (?is ! n) = bit b (?is ! n)" if "n < length ?is" for n
    using bit_pext [of a m n] bit_pext [of b m n] that unfolding eq popcount32_def by blast
  then have "\<forall>i \<in> set ?is. bit a i = bit b i" by (metis in_set_conv_nth)
  then show "a AND m = b AND m" by (intro bit_word_eqI) (auto simp: bit_simps)
next
  assume eq: "a AND m = b AND m"
  have "bit a i = bit b i" if "bit m i" "i < 32" for i
  proof -
    have "bit (a AND m) i = bit (b AND m) i" using eq by simp
    with that show ?thesis by (simp add: bit_simps)
  qed
  then have "map (bit a) (filter (bit m) [0..<32]) = map (bit b) (filter (bit m) [0..<32])" by simp
  then show "pext_u32 a m = pext_u32 b m" by (simp only: pext_u32_def)
qed

lemma popcount_hash_masks: "popcount32 HASH_MASK = 22" "popcount32 HASH_MASK_16 = 16"
  by (simp_all add: popcount32_def upt_rec)

subsection \<open>lut\<close>

lemma better_idem [simp]: "better tbl k (better tbl k acc) = better tbl k acc"
  by (auto simp: better_def split: option.splits)

lemma lut_put_apply: "lut_put tbl k i t j = (if i = j then better tbl k (t j) else t j)"
  by (auto simp: lut_put_def better_def split: option.splits)

lemma fold_lut_put:
  "fold (\<lambda>s t. lut_put tbl k (f s) t) xs t j =
     (if j \<in> f ` set xs then better tbl k (t j) else t j)"
  by (induction xs arbitrary: t) (auto simp: lut_put_apply)

lemma hash_compat_iff:
  assumes "match_i ins AND NOT (mask_i ins) = 0"
  shows "hash_compat hm ins w \<longleftrightarrow>
    pext_u32 w hm \<in> (\<lambda>s. pext_u32 ((match_i ins AND hm) OR s) hm) `
      {s. s AND NOT (hm AND NOT (mask_i ins AND hm)) = 0}"
proof
  let ?dc = "hm AND NOT (mask_i ins AND hm)"
  assume c: "hash_compat hm ins w"
  have "w AND hm = ((match_i ins AND hm) OR (w AND ?dc)) AND hm"
  proof (rule bit_word_eqI)
    fix n :: nat assume "n < LENGTH(32)"
    moreover have "\<not> bit ((w XOR match_i ins) AND mask_i ins AND hm) n"
      using c by (simp add: hash_compat_def)
    ultimately show "bit (w AND hm) n = bit (((match_i ins AND hm) OR (w AND ?dc)) AND hm) n"
      using sub_bit [OF assms, of n] by (auto simp: bit_simps)
  qed
  moreover have "(w AND ?dc) AND NOT ?dc = 0" by (rule bit_word_eqI) (auto simp: bit_simps)
  ultimately show "pext_u32 w hm \<in> (\<lambda>s. pext_u32 ((match_i ins AND hm) OR s) hm) ` {s. s AND NOT ?dc = 0}"
    by (auto simp: pext_eq_iff intro!: image_eqI [where x = "w AND ?dc"])
next
  let ?dc = "hm AND NOT (mask_i ins AND hm)"
  assume "pext_u32 w hm \<in> (\<lambda>s. pext_u32 ((match_i ins AND hm) OR s) hm) ` {s. s AND NOT ?dc = 0}"
  then obtain s where s: "s AND NOT ?dc = 0" and eq: "w AND hm = ((match_i ins AND hm) OR s) AND hm"
    by (auto simp: pext_eq_iff)
  show "hash_compat hm ins w"
    unfolding hash_compat_def
  proof (rule bit_word_eqI)
    fix n :: nat assume "n < LENGTH(32)"
    moreover have "bit (w AND hm) n = bit (((match_i ins AND hm) OR s) AND hm) n" using eq by simp
    ultimately show "bit ((w XOR match_i ins) AND mask_i ins AND hm) n = bit (0 :: u32) n"
      using sub_bit [OF s, of n] by (auto simp: bit_simps)
  qed
qed

declare lut_loop.simps [simp del]

lemma lut_loop_fold:
  assumes "\<And>v. unat (pext_u32 v hm) < n"
  shows "lut_loop tbl k hm n dc sub t =
    Some (fold (\<lambda>s t. lut_put tbl k (pext_u32 ((match_i (tbl ! k) AND hm) OR s) hm) t)
            (submask_seq dc sub) t)"
  using assms
proof (induction tbl k hm n dc sub t rule: lut_loop.induct)
  case (1 tbl k hm n dc sub t)
  have lt: "\<not> n \<le> unat (pext_u32 ((match_i (tbl ! k) AND hm) OR sub) hm)"
    using 1(2) by (simp add: not_le)
  show ?case
  proof (cases "next_sub dc sub = 0")
    case True
    then show ?thesis
      using lt by (simp add: lut_loop.simps [of tbl k hm n dc sub] submask_seq.simps [of dc sub])
  next
    case False
    then show ?thesis
      using lt 1(1) [OF refl refl lt refl refl False 1(2)]
      by (simp add: lut_loop.simps [of tbl k hm n dc sub] submask_seq.simps [of dc sub])
  qed
qed

lemma lut_fill_apply:
  assumes "match_i (tbl ! k) AND NOT (mask_i (tbl ! k)) = 0" "2 ^ popcount32 hm \<le> lim"
  obtains t' where "lut_fill tbl k hm lim t = Some t'"
    and "\<And>w. t' (pext_u32 w hm) =
      (if hash_compat hm (tbl ! k) w then better tbl k (t (pext_u32 w hm)) else t (pext_u32 w hm))"
proof -
  have b: "unat (pext_u32 v hm) < lim" for v
    using pext_bound [of v hm] assms(2) by linarith
  let ?f = "\<lambda>s. pext_u32 ((match_i (tbl ! k) AND hm) OR s) hm"
  let ?S = "submask_seq (hm AND NOT (mask_i (tbl ! k) AND hm)) 0"
  let ?t = "fold (\<lambda>s t. lut_put tbl k (?f s) t) ?S t"
  have "lut_fill tbl k hm lim t = Some ?t"
    unfolding lut_fill_def Let_def by (rule lut_loop_fold [OF b])
  moreover have "?t (pext_u32 w hm) =
      (if hash_compat hm (tbl ! k) w then better tbl k (t (pext_u32 w hm)) else t (pext_u32 w hm))" for w
    unfolding fold_lut_put submask_seq_complete hash_compat_iff [OF assms(1)] by (rule refl)
  ultimately show thesis by (rule that)
qed

subsection \<open>The scan that the tables represent\<close>

lemma scan_snoc: "scan tbl P (ks @ [k]) acc = (if P k then better tbl k (scan tbl P ks acc) else scan tbl P ks acc)"
  by (simp add: scan_def)

lemma scan_None_iff: "scan tbl P ks None = None \<longleftrightarrow> (\<forall>k \<in> set ks. \<not> P k)"
proof (induction ks rule: rev_induct)
  case Nil
  show ?case by (simp add: scan_def)
next
  case (snoc k ks)
  then show ?case by (auto simp: scan_snoc better_def split: option.splits)
qed

lemma scan_SomeD:
  "scan tbl P ks None = Some k \<Longrightarrow>
     k \<in> set ks \<and> P k \<and> (\<forall>j \<in> set ks. P j \<longrightarrow> popcount32 (mask_i (tbl ! j)) \<le> popcount32 (mask_i (tbl ! k)))"
proof (induction ks arbitrary: k rule: rev_induct)
  case Nil
  then show ?case by (simp add: scan_def)
next
  case (snoc i ks)
  show ?case
  proof (cases "scan tbl P ks None")
    case None
    then show ?thesis
      using snoc.prems scan_None_iff [THEN iffD1, OF None]
      by (auto simp: scan_snoc better_def None split: if_splits)
  next
    case (Some j)
    then show ?thesis
      using snoc.IH [OF Some] snoc.prems by (fastforce simp: scan_snoc better_def split: if_splits)
  qed
qed

lemma scan_cong: "(\<And>k. k \<in> set ks \<Longrightarrow> P k = Q k) \<Longrightarrow> scan tbl P ks acc = scan tbl Q ks acc"
  unfolding scan_def by (rule fold_cong) auto

definition lut_inv :: "'f decoder \<Rightarrow> nat \<Rightarrow> 'f decoder \<Rightarrow> bool" where
  "lut_inv d n d' \<longleftrightarrow> instructions d' = instructions d \<and>
     (\<forall>w. lut16 d' (pext_u32 w HASH_MASK_16) =
        scan (instructions d) (\<lambda>k. size_i (instructions d ! k) = 2 \<and> hash_compat HASH_MASK_16 (instructions d ! k) w)
          [0..<n] (lut16 d (pext_u32 w HASH_MASK_16))) \<and>
     (\<forall>w. lut d' (pext_u32 w HASH_MASK) =
        scan (instructions d) (\<lambda>k. size_i (instructions d ! k) \<noteq> 2 \<and> hash_compat HASH_MASK (instructions d ! k) w)
          [0..<n] (lut d (pext_u32 w HASH_MASK)))"

lemma build_step_inv:
  assumes ok: "match_i (instructions d ! n) AND NOT (mask_i (instructions d ! n)) = 0"
    and inv: "lut_inv d n d'"
  obtains d'' where "build_step n d' = Some d''" and "lut_inv d (Suc n) d''"
proof -
  have tbl: "instructions d' = instructions d" using inv by (simp add: lut_inv_def)
  show thesis
  proof (cases "size_i (instructions d ! n) = 2")
    case True
    have "(2::nat) ^ popcount32 HASH_MASK_16 \<le> LUT_SIZE_16" by (simp add: popcount_hash_masks)
    from lut_fill_apply [OF ok this, of "lut16 d'"] obtain t where
      t: "lut_fill (instructions d) n HASH_MASK_16 LUT_SIZE_16 (lut16 d') = Some t" and
      eq: "\<And>w. t (pext_u32 w HASH_MASK_16) = (if hash_compat HASH_MASK_16 (instructions d ! n) w
           then better (instructions d) n (lut16 d' (pext_u32 w HASH_MASK_16))
           else lut16 d' (pext_u32 w HASH_MASK_16))" by blast
    have "lut_inv d (Suc n) (d'\<lparr>lut16 := t\<rparr>)"
      using inv True by (simp add: lut_inv_def scan_snoc eq)
    then show thesis using that t True by (simp add: build_step_def tbl)
  next
    case False
    have "(2::nat) ^ popcount32 HASH_MASK \<le> LUT_SIZE" by (simp add: popcount_hash_masks)
    from lut_fill_apply [OF ok this, of "lut d'"] obtain t where
      t: "lut_fill (instructions d) n HASH_MASK LUT_SIZE (lut d') = Some t" and
      eq: "\<And>w. t (pext_u32 w HASH_MASK) = (if hash_compat HASH_MASK (instructions d ! n) w
           then better (instructions d) n (lut d' (pext_u32 w HASH_MASK))
           else lut d' (pext_u32 w HASH_MASK))" by blast
    have "lut_inv d (Suc n) (d'\<lparr>lut := t\<rparr>)"
      using inv False by (simp add: lut_inv_def scan_snoc eq)
    then show thesis using that t False by (simp add: build_step_def tbl)
  qed
qed

lemma build_lut_inv:
  assumes "\<forall>ins \<in> set (instructions d). match_i ins AND NOT (mask_i ins) = 0"
  obtains d' where "build_lut d = Some d'" and "lut_inv d (length (instructions d)) d'"
proof -
  have "n \<le> length (instructions d) \<Longrightarrow>
      \<exists>d'. fold (\<lambda>k r. Option.bind r (build_step k)) [0..<n] (Some d) = Some d' \<and> lut_inv d n d'" for n
  proof (induction n)
    case 0
    show ?case by (simp add: lut_inv_def scan_def)
  next
    case (Suc n)
    then obtain d' where d': "fold (\<lambda>k r. Option.bind r (build_step k)) [0..<n] (Some d) = Some d'"
      and inv: "lut_inv d n d'" by auto
    have "match_i (instructions d ! n) AND NOT (mask_i (instructions d ! n)) = 0"
      using assms Suc.prems by auto
    then obtain d'' where "build_step n d' = Some d''" "lut_inv d (Suc n) d''"
      using inv by (rule build_step_inv)
    with d' show ?case by simp
  qed
  from this [of "length (instructions d)"] that show thesis by (auto simp: build_lut_def)
qed

subsection \<open>Lookup against the scan\<close>

lemma low2_eq: "a AND 3 = b AND 3 \<longleftrightarrow> bit a 0 = bit b 0 \<and> bit a 1 = bit b 1" for a b :: u32
proof
  assume eq: "a AND 3 = b AND 3"
  have three: "bit (3 :: u32) 0" "bit (3 :: u32) 1" by simp_all
  have "bit (a AND 3) n = bit (b AND 3) n" for n using eq by (rule arg_cong)
  from this [of 0] this [of 1] three show "bit a 0 = bit b 0 \<and> bit a 1 = bit b 1"
    unfolding bit_and_iff by blast
next
  assume eq: "bit a 0 = bit b 0 \<and> bit a 1 = bit b 1"
  show "a AND 3 = b AND 3"
  proof (rule bit_word_eqI)
    fix n :: nat
    have "bit (3 :: u32) n \<Longrightarrow> n = 0 \<or> n = 1"
      by (cases n) (auto simp: bit_Suc bit_1_iff)
    with eq show "bit (a AND 3) n = bit (b AND 3) n" by (auto simp: bit_and_iff)
  qed
qed

lemma hash_compat_bit:
  "hash_compat hm ins w \<Longrightarrow> bit (mask_i ins) n \<Longrightarrow> bit hm n \<Longrightarrow> bit w n = bit (match_i ins) n"
proof -
  assume c: "hash_compat hm ins w" and b: "bit (mask_i ins) n" "bit hm n"
  have "\<not> bit ((w XOR match_i ins) AND mask_i ins AND hm) n" using c by (simp add: hash_compat_def)
  with b show ?thesis by (auto simp: bit_and_iff bit_xor_iff)
qed

lemma matches_compat:
  assumes "match_i ins AND NOT (mask_i ins) = 0"
  shows "matches ins w \<longleftrightarrow> (w XOR match_i ins) AND mask_i ins = 0"
proof
  assume "matches ins w"
  then have eq: "w AND mask_i ins = match_i ins" by (simp add: matches_def)
  show "(w XOR match_i ins) AND mask_i ins = 0"
    by (rule bit_word_eqI) (auto simp: eq [symmetric] bit_simps)
next
  assume z: "(w XOR match_i ins) AND mask_i ins = 0"
  have "w AND mask_i ins = match_i ins"
  proof (rule bit_word_eqI)
    fix n assume "n < LENGTH(32)"
    have "\<not> bit ((w XOR match_i ins) AND mask_i ins) n" by (simp add: z)
    then show "bit (w AND mask_i ins) n = bit (match_i ins) n"
      using sub_bit [OF assms, of n] by (auto simp: bit_and_iff bit_xor_iff)
  qed
  then show "matches ins w" by (simp add: matches_def)
qed

lemma hash_compat_low2:
  assumes ok: "instr_ok ins" and hm: "bit hm 0" "bit hm 1" and c: "hash_compat hm ins w"
  shows "w AND 3 = match_i ins AND 3"
proof -
  have "mask_i ins AND 3 = (-1) AND 3" using ok by (simp add: instr_ok_def)
  then have "bit (mask_i ins) 0" "bit (mask_i ins) 1" by (simp_all only: low2_eq bit_minus_1_iff) simp_all
  with hm show ?thesis by (simp add: low2_eq hash_compat_bit [OF c])
qed

lemma hash_compat_matches:
  assumes ok: "instr_ok ins"
  shows "matches ins w \<Longrightarrow> hash_compat hm ins w"
    and "size_i ins = 2 \<Longrightarrow> hash_compat HASH_MASK_16 ins w = matches ins w"
proof -
  have sub: "match_i ins AND NOT (mask_i ins) = 0" using ok by (simp add: instr_ok_def)
  note m = matches_compat [OF sub]
  show "matches ins w \<Longrightarrow> hash_compat hm ins w"
    by (simp add: m hash_compat_def and.assoc [symmetric])
  assume "size_i ins = 2"
  then have "mask_i ins AND 0xFFFF = mask_i ins" using ok by (simp add: instr_ok_def)
  then show "hash_compat HASH_MASK_16 ins w = matches ins w"
    by (simp add: m hash_compat_def)
qed

lemma hash_apart_unique:
  assumes "hash_apart hm a b" and a: "hash_compat hm a w" and b: "hash_compat hm b w"
  shows False
proof -
  have "(match_i a XOR match_i b) AND mask_i a AND mask_i b AND hm = 0"
    by (rule bit_word_eqI)
      (use hash_compat_bit [OF a] hash_compat_bit [OF b] in \<open>auto simp: bit_and_iff bit_xor_iff\<close>)
  with assms(1) show False by (simp add: hash_apart_def)
qed

lemma table_compat_unique:
  assumes ok: "table_ok tbl" and ij: "i < length tbl" "j < length tbl"
    and "size_i (tbl ! i) \<noteq> 2" "size_i (tbl ! j) \<noteq> 2"
    and c: "hash_compat HASH_MASK (tbl ! i) w" "hash_compat HASH_MASK (tbl ! j) w"
  shows "i = j"
proof -
  have "instr_ok (tbl ! i)" "instr_ok (tbl ! j)" using ok ij by (auto simp: table_ok_def)
  then have sz: "size_i (tbl ! i) = 4" "size_i (tbl ! j) = 4"
    using assms(4,5) by (simp_all add: instr_ok_def split: if_splits)
  have ap: "hash_apart HASH_MASK (tbl ! a) (tbl ! b)"
    if "a < b" "b < length tbl" "size_i (tbl ! a) = 4" "size_i (tbl ! b) = 4" for a b
    using ok that unfolding table_ok_def sorted_wrt_iff_nth_less by blast
  show ?thesis
  proof (rule ccontr)
    assume "i \<noteq> j"
    then consider "i < j" | "j < i" by linarith
    then show False
    proof cases
      case 1 from hash_apart_unique [OF ap [OF 1 ij(2) sz]] c show ?thesis by blast
    next
      case 2 from hash_apart_unique [OF ap [OF 2 ij(1) sz(2,1)]] c show ?thesis by blast
    qed
  qed
qed

definition fresh_tables :: "'f decoder \<Rightarrow> bool" where
  "fresh_tables d \<longleftrightarrow> lut d = (\<lambda>_. None) \<and> lut16 d = (\<lambda>_. None)"

lemma find_inst_compressed:
  assumes ok: "table_ok (instructions d)" and fresh: "fresh_tables d"
    and inv: "lut_inv d (length (instructions d)) d'" and low: "w AND 3 \<noteq> 3"
  shows "find_inst d' w = decode_ref (instructions d) w"
proof -
  let ?tbl = "instructions d"
  have iok: "k < length ?tbl \<Longrightarrow> instr_ok (?tbl ! k)" for k using ok by (auto simp: table_ok_def)
  have "pext_u32 (w AND 0xFFFF) HASH_MASK_16 = pext_u32 w HASH_MASK_16"
    by (simp add: pext_eq_iff and.assoc)
  then have l16: "lut16 d' (pext_u32 (w AND 0xFFFF) HASH_MASK_16) = decode_ref ?tbl w"
    using inv fresh low
    by (auto simp: lut_inv_def fresh_tables_def decode_ref_def hash_compat_matches iok intro!: scan_cong)
  show ?thesis
  proof (cases "decode_ref ?tbl w")
    case (Some k)
    then have "matches (?tbl ! k) w" unfolding decode_ref_def by (auto dest: scan_SomeD)
    then show ?thesis
      using Some l16 low inv by (simp add: find_inst_def matches_def lut_inv_def)
  next
    case None
    have "\<not> hash_compat HASH_MASK (?tbl ! k) w" if k: "k < length ?tbl" and sz: "size_i (?tbl ! k) \<noteq> 2" for k
    proof
      assume "hash_compat HASH_MASK (?tbl ! k) w"
      then have "w AND 3 = match_i (?tbl ! k) AND 3"
        using iok [OF k] by (intro hash_compat_low2 [where hm = HASH_MASK]) simp_all
      with iok [OF k] sz low show False by (simp add: instr_ok_def split: if_splits)
    qed
    then have "lut d' (pext_u32 w HASH_MASK) = None"
      using inv fresh by (auto simp: lut_inv_def fresh_tables_def scan_None_iff)
    then show ?thesis using None l16 low by (simp add: find_inst_def)
  qed
qed

lemma find_inst_full:
  assumes ok: "table_ok (instructions d)" and fresh: "fresh_tables d"
    and inv: "lut_inv d (length (instructions d)) d'" and low: "w AND 3 = 3"
  shows "find_inst d' w = decode_ref (instructions d) w"
proof -
  let ?tbl = "instructions d"
  let ?P = "\<lambda>k. size_i (?tbl ! k) \<noteq> 2 \<and> hash_compat HASH_MASK (?tbl ! k) w"
  let ?Q = "\<lambda>k. size_i (?tbl ! k) = 4 \<and> matches (?tbl ! k) w"
  have iok: "k < length ?tbl \<Longrightarrow> instr_ok (?tbl ! k)" for k using ok by (auto simp: table_ok_def)
  have PQ: "?Q k \<longleftrightarrow> ?P k \<and> matches (?tbl ! k) w" if "k < length ?tbl" for k
    using iok [OF that] hash_compat_matches(1) [OF iok [OF that]] by (auto simp: instr_ok_def split: if_splits)
  have uniq: "i = j" if "i < length ?tbl" "j < length ?tbl" "?P i" "?P j" for i j
    using table_compat_unique [OF ok that(1,2)] that by blast
  have lut: "lut d' (pext_u32 w HASH_MASK) = scan ?tbl ?P [0..<length ?tbl] None"
    using inv fresh by (simp add: lut_inv_def fresh_tables_def)
  have ref: "decode_ref ?tbl w = scan ?tbl ?Q [0..<length ?tbl] None"
    using low by (simp add: decode_ref_def)
  have tbl: "instructions d' = ?tbl" using inv by (simp add: lut_inv_def)
  show ?thesis
  proof (cases "scan ?tbl ?P [0..<length ?tbl] None")
    case None
    then have "scan ?tbl ?Q [0..<length ?tbl] None = None"
      using PQ by (auto simp: scan_None_iff)
    then show ?thesis using None low lut by (simp add: find_inst_def ref)
  next
    case (Some k)
    then have k: "k < length ?tbl" "?P k" by (auto dest: scan_SomeD)
    have "scan ?tbl ?Q [0..<length ?tbl] None = (if matches (?tbl ! k) w then Some k else None)"
    proof (cases "scan ?tbl ?Q [0..<length ?tbl] None")
      case None
      then have "\<not> ?Q k" using k by (simp add: scan_None_iff)
      with None PQ [OF k(1)] k(2) show ?thesis by simp
    next
      case (Some j)
      then have j: "j < length ?tbl" "?Q j" by (auto dest: scan_SomeD)
      then have "j = k" using uniq [OF j(1) k(1)] k(2) PQ [OF j(1)] by blast
      with Some j show ?thesis by simp
    qed
    then show ?thesis using Some low lut by (simp add: find_inst_def ref tbl matches_def)
  qed
qed

section \<open>The portable bit extraction\<close>

lemma less_32_cases:
  "n < 32 \<Longrightarrow> n \<in> {0, 1, 2, 3, 4, 5, 6, 7, 8, 9, 10, 11, 12, 13, 14, 15, 16, 17, 18, 19, 20, 21, 22, 23,
     24, 25, 26, 27, 28, 29, 30, 31 :: nat}"
proof -
  assume "n < 32"
  then have "n \<in> set [0..<32]" by simp
  moreover have "[0..<32] = [0, 1, 2, 3, 4, 5, 6, 7, 8, 9, 10, 11, 12, 13, 14, 15, 16, 17, 18, 19, 20, 21, 22, 23, 24, 25, 26, 27, 28, 29, 30, 31]" by code_simp
  ultimately show ?thesis by (simp only: list.set)
qed

lemma hash_positions:
  "filter (bit HASH_MASK) [0..<32] =
     [0, 1, 2, 3, 4, 5, 6, 12, 13, 14, 20, 21, 22, 23, 24, 25, 26, 27, 28, 29, 30, 31]"
  by (simp add: upt_rec)

lemma hash_positions_16: "filter (bit HASH_MASK_16) [0..<32] = [0..<16]"
  by (simp add: upt_rec)

definition pext_step :: "nat \<Rightarrow> u32 \<Rightarrow> u32 \<Rightarrow> u32" where
  "pext_step k mv x = (x XOR (x AND mv)) OR drop_bit k (x AND mv)"

lemma bit_pext_step [bit_simps]:
  "bit (pext_step k mv x) n \<longleftrightarrow> (bit x n \<and> \<not> bit mv n) \<or> (bit x (k + n) \<and> bit mv (k + n))"
  by (auto simp: pext_step_def bit_simps)

lemma soft_hash: "pext_u32_soft v HASH_MASK =
   pext_step 8 0x3FFC0000 (pext_step 4 0x3800 (pext_step 2 0xFFF00000 (pext_step 1 0x7000 (v AND HASH_MASK))))"
proof -
  have r: "pext_round 0 (x, 0xFFF0707F, 0x1F1F00) = (pext_step 1 0x7000 x, 0xFFF0387F, 0x150A00)"
       "pext_round 1 (x, 0xFFF0387F, 0x150A00) = (pext_step 2 0xFFF00000 x, 0x3FFC387F, 0x40800)"
       "pext_round 2 (x, 0x3FFC387F, 0x40800) = (pext_step 4 0x3800 x, 0x3FFC03FF, 0x40000)"
       "pext_round 3 (x, 0x3FFC03FF, 0x40000) = (pext_step 8 0x3FFC0000 x, 0x3FFFFF, 0)"
       "pext_round 4 (x, 0x3FFFFF, 0) = (x, 0x3FFFFF, 0)" for x
    by (simp_all add: pext_round_def Let_def pext_step_def)
  have l: "[0..<5] = [0, 1, 2, 3, 4 :: nat]" by code_simp
  have k: "push_bit 1 (NOT HASH_MASK) = 0x1F1F00" by code_simp
  show ?thesis by (simp only: pext_u32_soft_def l k fold_simps r fst_conv)
qed

lemma soft_hash_16: "pext_u32_soft v HASH_MASK_16 = v AND HASH_MASK_16"
proof -
  have r: "pext_round 0 (x, 0xFFFF, 0xFFFE0000) = (x, 0xFFFF, 0x55540000)"
       "pext_round 1 (x, 0xFFFF, 0x55540000) = (x, 0xFFFF, 0x11100000)"
       "pext_round 2 (x, 0xFFFF, 0x11100000) = (x, 0xFFFF, 0x1000000)"
       "pext_round 3 (x, 0xFFFF, 0x1000000) = (x, 0xFFFF, 0)"
       "pext_round 4 (x, 0xFFFF, 0) = (x, 0xFFFF, 0)" for x
    by (simp_all add: pext_round_def Let_def)
  have l: "[0..<5] = [0, 1, 2, 3, 4 :: nat]" by code_simp
  have k: "push_bit 1 (NOT HASH_MASK_16) = 0xFFFE0000" by code_simp
  show ?thesis by (simp only: pext_u32_soft_def l k fold_simps r fst_conv)
qed

lemma build_lut_correct:
  assumes "table_ok (instructions d)" and "fresh_tables d"
  shows "\<exists>d'. build_lut d = Some d' \<and> instructions d' = instructions d \<and>
           (\<forall>w. find_inst d' w = decode_ref (instructions d) w)"
proof -
  have "\<forall>ins \<in> set (instructions d). match_i ins AND NOT (mask_i ins) = 0"
    using assms(1) by (auto simp: table_ok_def instr_ok_def)
  then obtain d' where "build_lut d = Some d'" and inv: "lut_inv d (length (instructions d)) d'"
    by (rule build_lut_inv)
  moreover have "find_inst d' w = decode_ref (instructions d) w" for w
    by (cases "w AND 3 = 3") (auto intro: find_inst_full find_inst_compressed assms inv)
  ultimately show ?thesis by (auto simp: lut_inv_def)
qed

section \<open>The decode cache\<close>

text \<open>
  The contract of a cache in front of a pure lookup: the answer is the one the lookup gives whatever
  the cache holds. Lemmas about clients are proved once from it.
\<close>

text \<open>A run of queries (\<open>Some\<close>) and maintenance steps (\<open>None\<close>) on a cache.\<close>

fun run_ops :: "('q \<Rightarrow> 's \<Rightarrow> 'v \<times> 's) \<Rightarrow> ('s \<Rightarrow> 's) \<Rightarrow> 'q option list \<Rightarrow> 's \<Rightarrow> 'v list \<times> 's" where
  "run_ops query flush [] s = ([], s)"
| "run_ops query flush (None # ops) s = run_ops query flush ops (flush s)"
| "run_ops query flush (Some q # ops) s =
     (case query q s of (v, s') \<Rightarrow>
      case run_ops query flush ops s' of (vs, s'') \<Rightarrow> (v # vs, s''))"

locale transparent_cache =
  fixes inv :: "'s \<Rightarrow> bool" and query :: "'q \<Rightarrow> 's \<Rightarrow> 'v \<times> 's" and flush :: "'s \<Rightarrow> 's"
    and spec :: "'q \<Rightarrow> 'a" and view :: "'v \<Rightarrow> 'a" and admissible :: "'q \<Rightarrow> bool"
  assumes answer: "inv s \<Longrightarrow> admissible q \<Longrightarrow> view (fst (query q s)) = spec q"
    and keep: "inv s \<Longrightarrow> inv (snd (query q s))"
    and flush_keep: "inv s \<Longrightarrow> inv (flush s)"
begin

lemma run_keep: "inv s \<Longrightarrow> inv (snd (run_ops query flush ops s))"
proof (induction ops arbitrary: s)
  case (Cons q ops)
  show ?case
  proof (cases q)
    case None
    then show ?thesis using Cons.IH [OF flush_keep [OF Cons.prems]] by simp
  next
    case (Some x)
    then show ?thesis
      using Cons.IH [OF keep [OF Cons.prems, of x]] by (simp add: case_prod_beta)
  qed
qed simp

lemma run_answers:
  "inv s \<Longrightarrow> \<forall>q. Some q \<in> set ops \<longrightarrow> admissible q \<Longrightarrow>
     map view (fst (run_ops query flush ops s)) = map spec (List.map_filter id ops)"
proof (induction ops arbitrary: s)
  case (Cons q ops)
  show ?case
  proof (cases q)
    case None
    then show ?thesis
      using Cons.IH [of "flush s"] Cons.prems flush_keep [of s] by (simp add: map_filter_simps)
  next
    case (Some x)
    have "inv (snd (query x s))" "view (fst (query x s)) = spec x"
      using keep answer Cons.prems Some by auto
    then show ?thesis
      using Cons.IH [of "snd (query x s)"] Cons.prems Some
      by (auto simp: map_filter_simps split: prod.split)
  qed
qed (simp add: map_filter_simps)

end

text \<open>
  Every way in use holds what decoding its word gives. Physical address zero is left out: the ways
  of a fresh decoder and those of failed decodes carry \<open>pc = 0\<close>.
\<close>

definition entry_ok :: "'f decoder \<Rightarrow> instruction_cache \<Rightarrow> bool" where
  "entry_ok d e \<longleftrightarrow> ic_pc e \<noteq> 0 \<longrightarrow>
     ic_inst e \<noteq> None \<and> ic_inst e = find_inst d (inst (ic_data e)) \<and> ic_data e = data_of d (inst (ic_data e))"

definition decode_cache_inv :: "'f decoder \<Rightarrow> 'f decoder \<Rightarrow> bool" where
  "decode_cache_inv d0 d \<longleftrightarrow>
     instructions d = instructions d0 \<and> lut d = lut d0 \<and> lut16 d = lut16 d0 \<and>
     (\<forall>i. entry_ok d0 (ways0 (cache d i)) \<and> entry_ok d0 (ways1 (cache d i)))"

lemma same_tables:
  assumes "decode_cache_inv d0 d"
  shows "find_inst d = find_inst d0" and "data_of d = data_of d0"
proof -
  have eq: "instructions d = instructions d0" "lut d = lut d0" "lut16 d = lut16 d0"
    using assms by (simp_all add: decode_cache_inv_def)
  show fi: "find_inst d = find_inst d0" by (rule ext) (simp only: find_inst_def eq)
  show "data_of d = data_of d0" by (rule ext) (simp only: data_of_def eq fi)
qed

lemma inst_data_of [simp]: "inst (data_of d w) = w"
  by (simp add: data_of_def)

lemma fill_entry_ok: "decode_cache_inv d0 d \<Longrightarrow> entry_ok d0 (fill_entry d epoch pc w e)"
  using same_tables [of d0 d] by (auto simp: fill_entry_def entry_ok_def split: option.split)

lemma decode_inst_keep: "decode_cache_inv d0 d \<Longrightarrow> decode_cache_inv d0 (snd (decode_inst epoch pc w d))"
  using fill_entry_ok [of d0 d]
  by (auto simp: decode_inst_def decode_inst_slow_def decode_cache_inv_def Let_def)

lemma decode_inst_answer:
  assumes inv: "decode_cache_inv d0 d" and pc: "pc \<noteq> 0"
  shows "ic_inst (fst (decode_inst epoch pc w d)) = find_inst d0 w \<and>
         ic_data (fst (decode_inst epoch pc w d)) = data_of d0 w"
proof -
  have hit: "ic_inst e = find_inst d0 w \<and> ic_data e = data_of d0 w"
    if "entry_ok d0 e" "way_hit epoch pc w d e" for e
    using that pc by (auto simp: entry_ok_def way_hit_def)
  have slow: "ic_inst (fill_entry d epoch pc w e) = find_inst d0 w \<and>
      ic_data (fill_entry d epoch pc w e) = data_of d0 w" for e
    using same_tables [OF inv] by (auto simp: fill_entry_def split: option.split)
  have "entry_ok d0 (ways0 (cache d i))" "entry_ok d0 (ways1 (cache d i))" for i
    using inv by (simp_all add: decode_cache_inv_def)
  then show ?thesis using hit slow by (simp add: decode_inst_def decode_inst_slow_def Let_def)
qed

lemma decode_inst_pc:
  assumes inv: "decode_cache_inv d0 d" and pc: "pc \<noteq> 0"
  shows "ic_pc (fst (decode_inst epoch pc w d)) = (if find_inst d0 w = None then 0 else pc)"
proof -
  have hit: "ic_pc e = (if find_inst d0 w = None then 0 else pc)" if "entry_ok d0 e" "way_hit epoch pc w d e" for e
    using that pc by (auto simp: entry_ok_def way_hit_def)
  have ok: "entry_ok d0 (ways0 (cache d i))" "entry_ok d0 (ways1 (cache d i))" for i
    using inv by (simp_all add: decode_cache_inv_def)
  have "ic_pc (fill_entry d epoch pc w e) = (if find_inst d0 w = None then 0 else pc)" for e
    using same_tables(1) [OF inv] by (simp add: fill_entry_def split: option.split)
  then show ?thesis using hit [OF ok(1)] hit [OF ok(2)] by (simp add: decode_inst_def decode_inst_slow_def Let_def)
qed

lemma clear_keep: "decode_cache_inv d0 d \<Longrightarrow> decode_cache_inv d0 (clear_decode_cache d)"
  by (simp add: decode_cache_inv_def clear_decode_cache_def)

text \<open>A lookup request is an epoch, a physical address and an instruction word.\<close>

definition decode_query :: "u64 \<times> u64 \<times> u32 \<Rightarrow> 'f decoder \<Rightarrow> instruction_cache \<times> 'f decoder" where
  "decode_query = (\<lambda>(epoch, pc, w). decode_inst epoch pc w)"

interpretation dcache: transparent_cache
  "decode_cache_inv d0" decode_query clear_decode_cache
  "\<lambda>(epoch, pc, w). (find_inst d0 w, data_of d0 w)" "\<lambda>e. (ic_inst e, ic_data e)"
  "\<lambda>(epoch, pc, w). pc \<noteq> 0" for d0 :: "'f decoder"
proof
  fix s :: "'f decoder" and q :: "u64 \<times> u64 \<times> u32"
  obtain epoch pc w where q: "q = (epoch, pc, w)" by (cases q)
  assume inv: "decode_cache_inv d0 s"
  then show "decode_cache_inv d0 (snd (decode_query q s))" "decode_cache_inv d0 (clear_decode_cache s)"
    by (simp_all add: q decode_query_def decode_inst_keep clear_keep)
  assume "case q of (epoch, pc, w) \<Rightarrow> pc \<noteq> 0"
  then show "(ic_inst (fst (decode_query q s)), ic_data (fst (decode_query q s))) =
    (case q of (epoch, pc, w) \<Rightarrow> (find_inst d0 w, data_of d0 w))"
    using decode_inst_answer [OF inv, of pc epoch w] by (simp add: q decode_query_def)
qed

section \<open>Properties\<close>

text \<open>
  C2. Building the lookup tables ends without an index outside a table, and afterwards the table
  lookup of \<open>decode_inst_slow\<close> finds, for every instruction word, exactly the instruction a linear
  scan of the registered ones finds: the matching one with the most fixed bits.
\<close>

theorem lut_decode_correct:
  assumes "table_ok (instructions d)" and "fresh_tables d"
  shows "\<exists>d'. build_lut d = Some d' \<and> instructions d' = instructions d \<and>
           (\<forall>w. find_inst d' w = decode_ref (instructions d) w)"
  by (rule build_lut_correct [OF assms])

definition small_table :: "nat decoder" where
  "small_table =
     register_instr ''0000000**********000*****0110011'' 0 None
    (register_instr ''0100000**********000*****0110011'' 1 None
    (register_instr ''000***********01'' 2 (Some d_c_nzimm)
    (register_instr ''0000000000000001'' 3 None new_decoder)))"

theorem lut_decode_correct_witness:
  "\<exists>d'. build_lut small_table = Some d' \<and> find_inst d' 0x40B50533 = Some 2 \<and>
     find_inst d' 0x0001 = Some 0 \<and> find_inst d' 0x0505 = Some 1 \<and> find_inst d' 0xFFFFFFFF = None"
proof -
  have "table_ok (instructions small_table)" "fresh_tables small_table"
    by (simp_all add: table_ok_def small_table_def register_instr_def make_instr_def instr_ok_def
        hash_apart_def new_decoder_def fresh_tables_def Let_def)
  then obtain d' where d': "build_lut small_table = Some d'"
      and f: "\<And>w. find_inst d' w = decode_ref (instructions small_table) w"
    using lut_decode_correct [of small_table] by blast
  have "decode_ref (instructions small_table) 0x40B50533 = Some 2"
       "decode_ref (instructions small_table) 0x0001 = Some 0"
       "decode_ref (instructions small_table) 0x0505 = Some 1"
       "decode_ref (instructions small_table) 0xFFFFFFFF = None"
    by code_simp+
  with d' f show ?thesis by auto
qed

text \<open>
  The AArch64 replacement of the \<open>pext\<close> machine instruction computes the same index as the
  instruction for the masks of both lookup tables.
\<close>

theorem pext_soft_correct:
  "pext_u32_soft v HASH_MASK = pext_u32 v HASH_MASK \<and> pext_u32_soft v HASH_MASK_16 = pext_u32 v HASH_MASK_16"
proof
  show "pext_u32_soft v HASH_MASK = pext_u32 v HASH_MASK"
  proof (rule bit_word_eqI)
    fix n :: nat assume "n < LENGTH(32)"
    then have "n \<in> {0, 1, 2, 3, 4, 5, 6, 7, 8, 9, 10, 11, 12, 13, 14, 15, 16, 17, 18, 19, 20, 21, 22, 23,
     24, 25, 26, 27, 28, 29, 30, 31 :: nat}" using less_32_cases by simp
    then show "bit (pext_u32_soft v HASH_MASK) n = bit (pext_u32 v HASH_MASK) n"
      unfolding soft_hash bit_pext popcount_hash_masks hash_positions
      by (elim insertE emptyE; simp add: bit_simps)
  qed
  show "pext_u32_soft v HASH_MASK_16 = pext_u32 v HASH_MASK_16"
  proof (rule bit_word_eqI)
    fix n :: nat assume "n < LENGTH(32)"
    have "bit (0xFFFF :: u32) n \<longleftrightarrow> n < 16"
      using bit_mask_iff [of 16 n, where 'a = "32 word"] by (auto simp: mask_eq_exp_minus_1)
    then show "bit (pext_u32_soft v HASH_MASK_16) n = bit (pext_u32 v HASH_MASK_16) n"
      unfolding soft_hash_16 bit_pext popcount_hash_masks hash_positions_16
      by (auto simp: bit_simps)
  qed
qed
text \<open>
  C9. The two-way decode cache is transparent: over any sequence of lookups at nonzero physical
  addresses and cache clears, whatever epochs and words occur, each answer carries the instruction
  and the operands that decoding the word from the tables gives.
\<close>

theorem decode_cache_transparent:
  assumes "decode_cache_inv d0 d" and "\<forall>(epoch, pc, w) \<in> set (List.map_filter id ops). pc \<noteq> 0"
  shows "map (\<lambda>e. (ic_inst e, ic_data e)) (fst (run_ops decode_query clear_decode_cache ops d)) =
         map (\<lambda>(epoch, pc, w). (find_inst d0 w, data_of d0 w)) (List.map_filter id ops)"
proof -
  have "case q of (epoch, pc, w) \<Rightarrow> pc \<noteq> 0" if "Some q \<in> set ops" for q
  proof -
    have "q \<in> set (List.map_filter id ops)" using that 
      by (cases q) (auto simp: List.map_filter_def intro!: image_eqI [where x = "Some q"])
    with assms(2) show ?thesis by blast
  qed
  then show ?thesis using dcache.run_answers [OF assms(1), of ops] by blast
qed

theorem decode_cache_transparent_witness:
  "map ic_inst (fst (run_ops decode_query clear_decode_cache
     [Some (0, 0x80000000, 0x13), Some (0, 0x80000000, 0x13), None, Some (1, 0x80000000, 0x13)]
     small_table)) = [None, None, None]"
proof -
  let ?ops = "[Some (0, 0x80000000, 0x13), Some (0, 0x80000000, 0x13), None, Some (1, 0x80000000, 0x13)]
    :: (u64 \<times> u64 \<times> u32) option list"
  have "decode_cache_inv small_table small_table"
    by (simp add: decode_cache_inv_def entry_ok_def small_table_def register_instr_def new_decoder_def
        empty_entry_def Let_def)
  from decode_cache_transparent [OF this, of ?ops]
  have "map (\<lambda>e. (ic_inst e, ic_data e)) (fst (run_ops decode_query clear_decode_cache ?ops small_table)) =
    map (\<lambda>(epoch, pc, w). (find_inst small_table w, data_of small_table w)) (List.map_filter id ?ops)"
    by (simp add: map_filter_simps)
  then have "map fst (map (\<lambda>e. (ic_inst e, ic_data e)) (fst (run_ops decode_query clear_decode_cache ?ops small_table))) =
    map fst (map (\<lambda>(epoch, pc, w). (find_inst small_table w, data_of small_table w)) (List.map_filter id ?ops))"
    by (rule arg_cong)
  moreover have "find_inst small_table 0x13 = None"
    by (simp add: find_inst_def small_table_def register_instr_def new_decoder_def Let_def)
  ultimately show ?thesis by (simp add: map_filter_simps comp_def)
qed

end
