(* ===== verification/Opcodes.thy ===== *)
theory Opcodes
  imports Decoder
begin

text \<open>
  The handlers that the files of src/sets register. The C++ code stores a pointer to the function
  \<open>exec_<name>\<close> in each \<open>Instruction\<close>; the model stores the constructor \<open>H_<name>\<close> under its instruction
  set, and the execution theory maps each constructor to the function it names.
\<close>

datatype (plugins only: code size) op_i =
    H_ADD | H_ADDW | H_SUB | H_SUBW | H_XOR | H_OR | H_AND | H_SLL | H_SLLW | H_SRL | H_SRLW | H_SRA
  | H_SRAW | H_SLT | H_SLTU | H_ADDI | H_ADDIW | H_XORI | H_ORI | H_ANDI | H_SLLI | H_SLLIW
  | H_SRLIW | H_SRAIW | H_SRLI | H_SRAI | H_SLTI | H_SLTIU | H_LB | H_LH | H_LW | H_LD | H_LBU
  | H_LHU | H_LWU | H_SB | H_SH | H_SW | H_SD | H_BEQ | H_BNE | H_BLT | H_BGE | H_BLTU | H_BGEU
  | H_JAL | H_JALR | H_LUI | H_AUIPC | H_ECALL | H_EBREAK | H_FENCE

datatype (plugins only: code size) op_m =
    H_MUL | H_MULW | H_MULH | H_MULHSU | H_MULHU | H_DIV | H_DIVU | H_DIVUW | H_DIVW | H_REM
  | H_REMU | H_REMUW | H_REMW

datatype (plugins only: code size) op_a =
    H_AMOSWAP_W | H_AMOADD_W | H_AMOAND_W | H_AMOXOR_W | H_AMOOR_W | H_AMOMIN_W | H_AMOMINU_W
  | H_AMOMAX_W | H_AMOMAXU_W | H_LR_W | H_SC_W | H_AMOSWAP_D | H_AMOADD_D | H_AMOAND_D | H_AMOXOR_D
  | H_AMOOR_D | H_AMOMIN_D | H_AMOMINU_D | H_AMOMAX_D | H_AMOMAXU_D | H_LR_D | H_SC_D

datatype (plugins only: code size) op_f =
    H_FMADD_S | H_FMSUB_S | H_FNMADD_S | H_FNMSUB_S | H_FADD_S | H_FSUB_S | H_FMUL_S | H_FDIV_S
  | H_FSQRT_S | H_FSGNJ_S | H_FSGNJN_S | H_FSGNJX_S | H_FMIN_S | H_FMAX_S | H_FCVT_W_S | H_FCVT_WU_S
  | H_FCVT_S_W | H_FCVT_S_WU | H_FCVT_L_S | H_FCVT_LU_S | H_FCVT_S_L | H_FCVT_S_LU | H_FMV_X_W
  | H_FMV_W_X | H_FEQ_S | H_FLT_S | H_FLE_S | H_FCLASS_S | H_FLW | H_FSW

datatype (plugins only: code size) op_d =
    H_FMADD_D | H_FMSUB_D | H_FNMADD_D | H_FNMSUB_D | H_FADD_D | H_FSUB_D | H_FMUL_D | H_FDIV_D
  | H_FSQRT_D | H_FSGNJ_D | H_FSGNJN_D | H_FSGNJX_D | H_FMIN_D | H_FMAX_D | H_FCVT_S_D | H_FCVT_D_S
  | H_FCVT_W_D | H_FCVT_WU_D | H_FCVT_D_W | H_FCVT_D_WU | H_FCVT_L_D | H_FCVT_LU_D | H_FCVT_D_L
  | H_FCVT_D_LU | H_FMV_X_D | H_FMV_D_X | H_FEQ_D | H_FLT_D | H_FLE_D | H_FCLASS_D | H_FLD | H_FSD

datatype (plugins only: code size) op_c =
    H_C_ADDI4SPN | H_C_LW | H_C_LD | H_C_SW | H_C_SD | H_C_NOP | H_C_ADDI | H_C_ADDIW | H_C_LI
  | H_C_LUI_ADDI16SP | H_C_SRLI | H_C_SRAI | H_C_ANDI | H_C_SUB | H_C_XOR | H_C_OR | H_C_AND
  | H_C_SUBW | H_C_ADDW | H_C_J | H_C_BEQZ | H_C_BNEZ | H_C_SLLI | H_C_LWSP | H_C_LDSP | H_C_JR
  | H_C_MV | H_C_EBREAK | H_C_JALR | H_C_ADD | H_C_SWSP | H_C_SDSP | H_C_FLD | H_C_FSD | H_C_FLDSP
  | H_C_FSDSP

datatype (plugins only: code size) op_priv =
    H_MRET | H_SRET | H_WFI | H_SFENCE_VMA

datatype (plugins only: code size) op_zicsr =
    H_CSRRW | H_CSRRS | H_CSRRC | H_CSRRWI | H_CSRRSI | H_CSRRCI

datatype (plugins only: code size) op_zifencei =
    H_FENCE_I

datatype (plugins only: code size) op_zba =
    H_ADD_UW | H_SH1ADD | H_SH1ADD_UW | H_SH2ADD | H_SH2ADD_UW | H_SH3ADD | H_SH3ADD_UW | H_SLLI_UW

datatype (plugins only: code size) op_zbb =
    H_ANDN | H_ORN | H_XNOR | H_CLZ | H_CLZW | H_CTZ | H_CTZW | H_CPOP | H_CPOPW | H_MAX | H_MAXU
  | H_MIN | H_MINU | H_SEXT_B | H_SEXT_H | H_ZEXT_H | H_ROL | H_ROLW | H_ROR | H_RORI | H_RORIW
  | H_RORW | H_ORC_B | H_REV8

datatype (plugins only: code size) op_zbc =
    H_CLMUL | H_CLMULH | H_CLMULR

datatype (plugins only: code size) op_zbs =
    H_BCLR | H_BCLRI | H_BEXT | H_BEXTI | H_BINV | H_BINVI | H_BSET | H_BSETI

datatype (plugins only: code size) op_zicboz =
    H_cbo_zero

datatype (plugins only: code size) handler =
    RV_I op_i | RV_M op_m | RV_A op_a | RV_F op_f | RV_D op_d | RV_C op_c | RV_priv op_priv
  | RV_zicsr op_zicsr | RV_zifencei op_zifencei | RV_zba op_zba | RV_zbb op_zbb | RV_zbc op_zbc
  | RV_zbs op_zbs | RV_zicboz op_zicboz

end
