(* ===== verification/Ieee.thy ===== *)
theory Ieee
  imports Prelude
begin

unbundle bit_operations_syntax

text \<open>
  The floating point of the host as C++ and its library promise it on an x86-64 processor: IEEE 754
  binary32 and binary64 with the four rounding directions of <cfenv>, the exception flags, and the
  operations that src/sets/rv64f.cpp and src/sets/rv64d.cpp apply to \<open>float\<close> and \<open>double\<close>. A number is
  its bit pattern; arithmetic decodes patterns to exact values \<open>m * 2 ^ e\<close>, computes exactly and
  rounds once. An operation whose result is a NaN gives the canonical one; its payload is never
  observed, since the handlers replace every NaN result. Underflow is detected after rounding and
  \<open>llrint\<close> of a value outside the range of \<open>long long\<close> is the minimum, as on x86-64.
\<close>

section \<open>Formats and values\<close>

datatype host_round = FE_TONEAREST | FE_TOWARDZERO | FE_DOWNWARD | FE_UPWARD

record host_except =
  fe_invalid :: bool
  fe_divbyzero :: bool
  fe_overflow :: bool
  fe_underflow :: bool
  fe_inexact :: bool

definition no_except :: host_except where
  "no_except = \<lparr>fe_invalid = False, fe_divbyzero = False, fe_overflow = False, fe_underflow = False,
     fe_inexact = False\<rparr>"

text \<open>Precision with the hidden bit, and width of the exponent field.\<close>

record fp_format =
  fprec :: nat
  fexpw :: nat

definition binary32 :: fp_format where "binary32 = \<lparr>fprec = 24, fexpw = 8\<rparr>"
definition binary64 :: fp_format where "binary64 = \<lparr>fprec = 53, fexpw = 11\<rparr>"

text \<open>The exponent of the least subnormal, the pattern of infinity and the weight of the sign bit.\<close>

definition lsb_exp :: "fp_format \<Rightarrow> int" where
  "lsb_exp f = 3 - 2 ^ (fexpw f - 1) - int (fprec f)"

definition inf_mag :: "fp_format \<Rightarrow> nat" where
  "inf_mag f = (2 ^ fexpw f - 1) * 2 ^ (fprec f - 1)"

definition sign_weight :: "fp_format \<Rightarrow> nat" where
  "sign_weight f = 2 ^ (fexpw f + fprec f - 1)"

definition fp_pack :: "fp_format \<Rightarrow> bool \<Rightarrow> nat \<Rightarrow> nat" where
  "fp_pack f s mag = (if s then sign_weight f else 0) + mag"

definition nan_bits :: "fp_format \<Rightarrow> nat" where
  "nan_bits f = inf_mag f + 2 ^ (fprec f - 2)"

text \<open>A NaN with its signalling bit, an infinity, or \<open>(-1) ^ s * m * 2 ^ e\<close>.\<close>

datatype fp_value = FP_nan bool | FP_inf bool | FP_fin bool nat int

definition fp_decode :: "fp_format \<Rightarrow> nat \<Rightarrow> fp_value" where
  "fp_decode f bits =
     (let s = odd (bits div sign_weight f);
          mag = bits mod sign_weight f;
          ex = mag div 2 ^ (fprec f - 1);
          fr = mag mod 2 ^ (fprec f - 1)
      in if inf_mag f < mag then FP_nan (fr < 2 ^ (fprec f - 2))
         else if mag = inf_mag f then FP_inf s
         else if ex = 0 then FP_fin s fr (lsb_exp f)
         else FP_fin s (fr + 2 ^ (fprec f - 1)) (lsb_exp f + int ex - 1))"

fun is_nan :: "fp_value \<Rightarrow> bool" where
  "is_nan (FP_nan q) = True"
| "is_nan (FP_inf s) = False"
| "is_nan (FP_fin s m e) = False"

fun is_snan :: "fp_value \<Rightarrow> bool" where
  "is_snan (FP_nan q) = q"
| "is_snan (FP_inf s) = False"
| "is_snan (FP_fin s m e) = False"

section \<open>Rounding\<close>

fun bitlen :: "nat \<Rightarrow> nat" where
  "bitlen n = (if n = 0 then 0 else Suc (bitlen (n div 2)))"

declare bitlen.simps [simp del]

text \<open>
  Drop the low \<open>k\<close> bits of \<open>m\<close>: the truncated quotient is increased when the direction asks for
  it; the second component says that something was lost.
\<close>

definition round_away :: "host_round \<Rightarrow> bool \<Rightarrow> nat \<Rightarrow> nat \<Rightarrow> nat \<Rightarrow> bool" where
  "round_away rm s n r k \<longleftrightarrow>
     (case rm of
        FE_TONEAREST \<Rightarrow> 2 ^ k < 2 * r \<or> (2 * r = 2 ^ k \<and> odd n)
      | FE_TOWARDZERO \<Rightarrow> False
      | FE_DOWNWARD \<Rightarrow> s \<and> r \<noteq> 0
      | FE_UPWARD \<Rightarrow> \<not> s \<and> r \<noteq> 0)"

definition cut :: "host_round \<Rightarrow> bool \<Rightarrow> nat \<Rightarrow> nat \<Rightarrow> nat \<times> bool" where
  "cut rm s m k =
     (let n = m div 2 ^ k; r = m mod 2 ^ k
      in (n + of_bool (round_away rm s n r k), r \<noteq> 0))"

text \<open>\<open>m * 2 ^ e\<close> as a multiple of \<open>2 ^ q\<close>.\<close>

definition to_grid :: "host_round \<Rightarrow> bool \<Rightarrow> nat \<Rightarrow> int \<Rightarrow> int \<Rightarrow> nat \<times> bool" where
  "to_grid rm s m e q = (if q \<le> e then (m * 2 ^ nat (e - q), False) else cut rm s m (nat (q - e)))"

definition grid_exp :: "fp_format \<Rightarrow> nat \<Rightarrow> int \<Rightarrow> int" where
  "grid_exp f m e = max (e + int (bitlen m) - int (fprec f)) (lsb_exp f)"

definition tiny_after :: "host_round \<Rightarrow> fp_format \<Rightarrow> bool \<Rightarrow> nat \<Rightarrow> int \<Rightarrow> bool" where
  "tiny_after rm f s m e =
     (let q = e + int (bitlen m) - int (fprec f) in
      q < lsb_exp f \<and> (q + 1 < lsb_exp f \<or> fst (to_grid rm s m e q) < 2 ^ fprec f))"

definition to_inf :: "host_round \<Rightarrow> bool \<Rightarrow> bool" where
  "to_inf rm s \<longleftrightarrow> rm = FE_TONEAREST \<or> (rm = FE_DOWNWARD \<and> s) \<or> (rm = FE_UPWARD \<and> \<not> s)"

definition round_pack :: "host_round \<Rightarrow> fp_format \<Rightarrow> bool \<Rightarrow> nat \<Rightarrow> int \<Rightarrow> nat \<times> host_except" where
  "round_pack rm f s m e =
     (let q = grid_exp f m e;
          (n, inexact) = to_grid rm s m e q;
          mag = nat (q - lsb_exp f) * 2 ^ (fprec f - 1) + n
      in if inf_mag f \<le> mag
         then (fp_pack f s (if to_inf rm s then inf_mag f else inf_mag f - 1),
               no_except\<lparr>fe_overflow := True, fe_inexact := True\<rparr>)
         else (fp_pack f s mag,
               no_except\<lparr>fe_inexact := inexact, fe_underflow := inexact \<and> tiny_after rm f s m e\<rparr>))"

section \<open>Operations\<close>

definition fin_int :: "bool \<Rightarrow> nat \<Rightarrow> int" where
  "fin_int s m = (if s then - int m else int m)"

definition invalid_op :: "fp_format \<Rightarrow> nat \<times> host_except" where
  "invalid_op f = (nan_bits f, no_except\<lparr>fe_invalid := True\<rparr>)"

definition exact_bits :: "nat \<Rightarrow> nat \<times> host_except" where
  "exact_bits n = (n, no_except)"

text \<open>A NaN among the operands gives a NaN; a signalling one is an invalid operation.\<close>

definition unless_nan :: "fp_format \<Rightarrow> fp_value list \<Rightarrow> nat \<times> host_except \<Rightarrow> nat \<times> host_except" where
  "unless_nan f vs r =
     (if list_ex is_nan vs then (nan_bits f, no_except\<lparr>fe_invalid := list_ex is_snan vs\<rparr>) else r)"

text \<open>\<open>z * 2 ^ e\<close> with the sign \<open>s0\<close> of an exact zero.\<close>

definition round_int :: "host_round \<Rightarrow> fp_format \<Rightarrow> bool \<Rightarrow> int \<Rightarrow> int \<Rightarrow> nat \<times> host_except" where
  "round_int rm f s0 z e =
     (if z = 0 then exact_bits (fp_pack f s0 0) else round_pack rm f (z < 0) (nat \<bar>z\<bar>) e)"

definition zero_sign :: "host_round \<Rightarrow> bool \<Rightarrow> bool \<Rightarrow> bool" where
  "zero_sign rm s1 s2 = (if s1 = s2 then s1 else rm = FE_DOWNWARD)"

definition common_exp :: "bool \<Rightarrow> nat \<Rightarrow> int \<Rightarrow> int \<Rightarrow> int" where
  "common_exp s m e e' = fin_int s m * 2 ^ nat (e - min e e')"

fun sum_values :: "host_round \<Rightarrow> fp_format \<Rightarrow> fp_value \<Rightarrow> fp_value \<Rightarrow> nat \<times> host_except" where
  "sum_values rm f (FP_inf s1) (FP_inf s2) =
     (if s1 = s2 then exact_bits (fp_pack f s1 (inf_mag f)) else invalid_op f)"
| "sum_values rm f (FP_inf s1) (FP_fin s2 m2 e2) = exact_bits (fp_pack f s1 (inf_mag f))"
| "sum_values rm f (FP_fin s1 m1 e1) (FP_inf s2) = exact_bits (fp_pack f s2 (inf_mag f))"
| "sum_values rm f (FP_fin s1 m1 e1) (FP_fin s2 m2 e2) =
     round_int rm f (zero_sign rm s1 s2) (common_exp s1 m1 e1 e2 + common_exp s2 m2 e2 e1) (min e1 e2)"
| "sum_values rm f x y = invalid_op f"

definition fp_add :: "host_round \<Rightarrow> fp_format \<Rightarrow> fp_value \<Rightarrow> fp_value \<Rightarrow> nat \<times> host_except" where
  "fp_add rm f x y = unless_nan f [x, y] (sum_values rm f x y)"

fun fp_neg :: "fp_value \<Rightarrow> fp_value" where
  "fp_neg (FP_nan q) = FP_nan q"
| "fp_neg (FP_inf s) = FP_inf (\<not> s)"
| "fp_neg (FP_fin s m e) = FP_fin (\<not> s) m e"

text \<open>The exact product; \<open>None\<close> is zero times infinity.\<close>

fun mul_exact :: "fp_value \<Rightarrow> fp_value \<Rightarrow> fp_value option" where
  "mul_exact (FP_inf s1) (FP_inf s2) = Some (FP_inf (s1 \<noteq> s2))"
| "mul_exact (FP_inf s1) (FP_fin s2 m2 e2) = (if m2 = 0 then None else Some (FP_inf (s1 \<noteq> s2)))"
| "mul_exact (FP_fin s1 m1 e1) (FP_inf s2) = (if m1 = 0 then None else Some (FP_inf (s1 \<noteq> s2)))"
| "mul_exact (FP_fin s1 m1 e1) (FP_fin s2 m2 e2) = Some (FP_fin (s1 \<noteq> s2) (m1 * m2) (e1 + e2))"
| "mul_exact x y = None"

fun round_value :: "host_round \<Rightarrow> fp_format \<Rightarrow> fp_value \<Rightarrow> nat \<times> host_except" where
  "round_value rm f (FP_nan q) = (nan_bits f, no_except\<lparr>fe_invalid := q\<rparr>)"
| "round_value rm f (FP_inf s) = exact_bits (fp_pack f s (inf_mag f))"
| "round_value rm f (FP_fin s m e) =
     (if m = 0 then exact_bits (fp_pack f s 0) else round_pack rm f s m e)"

definition fp_mul :: "host_round \<Rightarrow> fp_format \<Rightarrow> fp_value \<Rightarrow> fp_value \<Rightarrow> nat \<times> host_except" where
  "fp_mul rm f x y = unless_nan f [x, y]
     (case mul_exact x y of None \<Rightarrow> invalid_op f | Some v \<Rightarrow> round_value rm f v)"

definition fp_fma :: "host_round \<Rightarrow> fp_format \<Rightarrow> fp_value \<Rightarrow> fp_value \<Rightarrow> fp_value \<Rightarrow> nat \<times> host_except" where
  "fp_fma rm f x y z = unless_nan f [x, y, z]
     (case mul_exact x y of None \<Rightarrow> invalid_op f | Some v \<Rightarrow> sum_values rm f v z)"

text \<open>
  A quotient is computed to two bits more than the precision, a third one tells whether it is exact.
\<close>

fun quotient :: "host_round \<Rightarrow> fp_format \<Rightarrow> fp_value \<Rightarrow> fp_value \<Rightarrow> nat \<times> host_except" where
  "quotient rm f (FP_inf s1) (FP_inf s2) = invalid_op f"
| "quotient rm f (FP_inf s1) (FP_fin s2 m2 e2) = exact_bits (fp_pack f (s1 \<noteq> s2) (inf_mag f))"
| "quotient rm f (FP_fin s1 m1 e1) (FP_inf s2) = exact_bits (fp_pack f (s1 \<noteq> s2) 0)"
| "quotient rm f (FP_fin s1 m1 e1) (FP_fin s2 m2 e2) =
     (if m2 = 0 then
        if m1 = 0 then invalid_op f
        else (fp_pack f (s1 \<noteq> s2) (inf_mag f), no_except\<lparr>fe_divbyzero := True\<rparr>)
      else if m1 = 0 then exact_bits (fp_pack f (s1 \<noteq> s2) 0)
      else let k = fprec f + 2 + bitlen m2;
               q = (m1 * 2 ^ k) div m2;
               r = (m1 * 2 ^ k) mod m2
           in round_pack rm f (s1 \<noteq> s2) (2 * q + of_bool (r \<noteq> 0)) (e1 - e2 - int k - 1))"
| "quotient rm f x y = invalid_op f"

definition fp_div :: "host_round \<Rightarrow> fp_format \<Rightarrow> fp_value \<Rightarrow> fp_value \<Rightarrow> nat \<times> host_except" where
  "fp_div rm f x y = unless_nan f [x, y] (quotient rm f x y)"

text \<open>The integer square root, one bit after the other from bit \<open>k\<close> down.\<close>

fun isqrt_from :: "nat \<Rightarrow> nat \<Rightarrow> nat \<Rightarrow> nat" where
  "isqrt_from 0 n r = r"
| "isqrt_from (Suc k) n r = isqrt_from k n (if (r + 2 ^ k) ^ 2 \<le> n then r + 2 ^ k else r)"

definition isqrt :: "nat \<Rightarrow> nat" where
  "isqrt n = isqrt_from (bitlen n) n 0"

fun root :: "host_round \<Rightarrow> fp_format \<Rightarrow> fp_value \<Rightarrow> nat \<times> host_except" where
  "root rm f (FP_inf s) = (if s then invalid_op f else exact_bits (fp_pack f s (inf_mag f)))"
| "root rm f (FP_fin s m e) =
     (if m = 0 then exact_bits (fp_pack f s 0)
      else if s then invalid_op f
      else let k = 2 * (fprec f + 2) + nat (e mod 2);
               n = m * 2 ^ k;
               r = isqrt n
           in round_pack rm f False (2 * r + of_bool (r * r \<noteq> n)) ((e - int k) div 2 - 1))"
| "root rm f (FP_nan q) = invalid_op f"

definition fp_sqrt :: "host_round \<Rightarrow> fp_format \<Rightarrow> fp_value \<Rightarrow> nat \<times> host_except" where
  "fp_sqrt rm f x = unless_nan f [x] (root rm f x)"

text \<open>Comparisons; a NaN is unordered.\<close>

fun fp_less :: "fp_value \<Rightarrow> fp_value \<Rightarrow> bool" where
  "fp_less (FP_inf s1) (FP_inf s2) \<longleftrightarrow> s1 \<and> \<not> s2"
| "fp_less (FP_inf s1) (FP_fin s2 m2 e2) \<longleftrightarrow> s1"
| "fp_less (FP_fin s1 m1 e1) (FP_inf s2) \<longleftrightarrow> \<not> s2"
| "fp_less (FP_fin s1 m1 e1) (FP_fin s2 m2 e2) \<longleftrightarrow> common_exp s1 m1 e1 e2 < common_exp s2 m2 e2 e1"
| "fp_less x y \<longleftrightarrow> False"

fun fp_eq :: "fp_value \<Rightarrow> fp_value \<Rightarrow> bool" where
  "fp_eq (FP_inf s1) (FP_inf s2) \<longleftrightarrow> s1 = s2"
| "fp_eq (FP_fin s1 m1 e1) (FP_fin s2 m2 e2) \<longleftrightarrow> common_exp s1 m1 e1 e2 = common_exp s2 m2 e2 e1"
| "fp_eq x y \<longleftrightarrow> False"

definition fp_le :: "fp_value \<Rightarrow> fp_value \<Rightarrow> bool" where
  "fp_le x y \<longleftrightarrow> fp_less x y \<or> fp_eq x y"

fun fp_signbit :: "fp_value \<Rightarrow> bool" where
  "fp_signbit (FP_nan q) = False"
| "fp_signbit (FP_inf s) = s"
| "fp_signbit (FP_fin s m e) = s"

section \<open>The types \<open>float\<close> and \<open>double\<close>\<close>

definition flt :: "u32 \<Rightarrow> fp_value" where "flt x = fp_decode binary32 (unat x)"
definition dbl :: "u64 \<Rightarrow> fp_value" where "dbl x = fp_decode binary64 (unat x)"

definition as_float :: "nat \<times> host_except \<Rightarrow> u32 \<times> host_except" where
  "as_float r = (of_nat (fst r), snd r)"

definition as_double :: "nat \<times> host_except \<Rightarrow> u64 \<times> host_except" where
  "as_double r = (of_nat (fst r), snd r)"

text \<open>\<open>static_cast<float>\<close> and \<open>static_cast<double>\<close> of the other type and of integers.\<close>

definition to_float :: "host_round \<Rightarrow> u64 \<Rightarrow> u32 \<times> host_except" where
  "to_float rm x = as_float (round_value rm binary32 (dbl x))"

definition to_double :: "u32 \<Rightarrow> u64" where
  "to_double x = fst (as_double (round_value FE_TONEAREST binary64 (flt x)))"

definition int_to_double :: "host_round \<Rightarrow> int \<Rightarrow> u64" where
  "int_to_double rm z = fst (as_double (round_int rm binary64 False z 0))"

definition d_add :: "host_round \<Rightarrow> u64 \<Rightarrow> u64 \<Rightarrow> u64 \<times> host_except" where
  "d_add rm x y = as_double (fp_add rm binary64 (dbl x) (dbl y))"

definition d_neg :: "u64 \<Rightarrow> u64" where
  "d_neg x = x XOR 0x8000000000000000"

definition d_sub :: "host_round \<Rightarrow> u64 \<Rightarrow> u64 \<Rightarrow> u64 \<times> host_except" where
  "d_sub rm x y = as_double (fp_add rm binary64 (dbl x) (fp_neg (dbl y)))"

definition d_mul :: "host_round \<Rightarrow> u64 \<Rightarrow> u64 \<Rightarrow> u64 \<times> host_except" where
  "d_mul rm x y = as_double (fp_mul rm binary64 (dbl x) (dbl y))"

definition d_div :: "host_round \<Rightarrow> u64 \<Rightarrow> u64 \<Rightarrow> u64 \<times> host_except" where
  "d_div rm x y = as_double (fp_div rm binary64 (dbl x) (dbl y))"

definition d_sqrt :: "host_round \<Rightarrow> u64 \<Rightarrow> u64 \<times> host_except" where
  "d_sqrt rm x = as_double (fp_sqrt rm binary64 (dbl x))"

definition d_fma :: "host_round \<Rightarrow> u64 \<Rightarrow> u64 \<Rightarrow> u64 \<Rightarrow> u64 \<times> host_except" where
  "d_fma rm x y z = as_double (fp_fma rm binary64 (dbl x) (dbl y) (dbl z))"

text \<open>\<open>std::round\<close>, to the nearest integer with halves away from zero, and \<open>std::llrint\<close>.\<close>

fun round_half_away :: "fp_value \<Rightarrow> fp_value" where
  "round_half_away (FP_fin s m e) =
     (if 0 \<le> e then FP_fin s m e
      else FP_fin s ((m + 2 ^ (nat (- e) - 1)) div 2 ^ nat (- e)) 0)"
| "round_half_away x = x"

definition std_round :: "u64 \<Rightarrow> u64" where
  "std_round x = fst (as_double (round_value FE_TONEAREST binary64 (round_half_away (dbl x))))"

fun llrint_value :: "host_round \<Rightarrow> fp_value \<Rightarrow> int" where
  "llrint_value rm (FP_fin s m e) =
     (let z = fin_int s (fst (to_grid rm s m e 0))
      in if - (2 ^ 63) \<le> z \<and> z < 2 ^ 63 then z else - (2 ^ 63))"
| "llrint_value rm x = - (2 ^ 63)"

definition llrint :: "host_round \<Rightarrow> u64 \<Rightarrow> int" where
  "llrint rm x = llrint_value rm (dbl x)"

end
