(* ===== verification/Self_Mod.thy ===== *)
theory Self_Mod
  imports Prelude
begin

unbundle bit_operations_syntax

text \<open>
  Self-modifying-code tracking, include/self_mod.hpp: the global epoch, the pages that were ever
  executed and the epoch at which code was last compiled on a page. The three inline globals are
  the fields of one record. The atomic epoch is read and written by one thread at a time here.
\<close>

record smc =
  g_smc_epoch :: u64
  g_executed_pages :: "u8 vec"
  g_code_page_gen :: "u64 vec"

definition page_of :: "u64 \<Rightarrow> nat" where
  "page_of phys = unat (drop_bit 12 phys)"

definition smc_init :: smc where
  "smc_init = \<lparr>g_smc_epoch = 0, g_executed_pages = vec_empty, g_code_page_gen = vec_empty\<rparr>"

definition mark_page_executed :: "u64 \<Rightarrow> smc \<Rightarrow> smc" where
  "mark_page_executed phys s =
     s\<lparr>g_executed_pages := vec_set (page_of phys) 1 (vec_grow (page_of phys) (g_executed_pages s))\<rparr>"

definition mark_page_code :: "u64 \<Rightarrow> smc \<Rightarrow> smc" where
  "mark_page_code phys s =
     (let s = s\<lparr>g_code_page_gen :=
            vec_set (page_of phys) (g_smc_epoch s) (vec_grow (page_of phys) (g_code_page_gen s))\<rparr>
      in s\<lparr>g_executed_pages := vec_set (page_of phys) 1 (vec_grow (page_of phys) (g_executed_pages s))\<rparr>)"

definition was_page_executed :: "u64 \<Rightarrow> smc \<Rightarrow> bool" where
  "was_page_executed phys s \<longleftrightarrow>
     page_of phys < vlen (g_executed_pages s) \<and> vnth (g_executed_pages s) (page_of phys) \<noteq> 0"

definition page_has_code :: "u64 \<Rightarrow> smc \<Rightarrow> bool" where
  "page_has_code phys s \<longleftrightarrow>
     page_of phys < vlen (g_code_page_gen s) \<and> vnth (g_code_page_gen s) (page_of phys) = g_smc_epoch s"

definition smc_store_hit :: "u64 \<Rightarrow> smc \<Rightarrow> smc" where
  "smc_store_hit phys s =
     (if was_page_executed phys s then
        if page_has_code phys s then s\<lparr>g_smc_epoch := g_smc_epoch s + 1\<rparr>
        else s\<lparr>g_executed_pages := vec_set (page_of phys) 0 (g_executed_pages s)\<rparr>
      else s)"

section \<open>Lemmas\<close>

lemma was_page_executed_mark:
  "was_page_executed p (mark_page_executed q s) \<longleftrightarrow> page_of p = page_of q \<or> was_page_executed p s"
proof (cases "page_of p < vlen (g_executed_pages s)")
  case True
  then show ?thesis
    using vnth_grow [OF True, of "page_of q"] vlen_grow_mono [of "g_executed_pages s" "page_of q"]
    by (auto simp: was_page_executed_def mark_page_executed_def)
next
  case False
  then show ?thesis
    using vnth_grow_new [of "g_executed_pages s" "page_of p" "page_of q"]
    by (force simp: was_page_executed_def mark_page_executed_def not_less)
qed

lemma was_page_executed_mark_code:
  "was_page_executed p (mark_page_code q s) \<longleftrightarrow> page_of p = page_of q \<or> was_page_executed p s"
proof -
  have "g_executed_pages (mark_page_code q s) = g_executed_pages (mark_page_executed q s)"
    by (simp add: mark_page_code_def mark_page_executed_def Let_def)
  then show ?thesis using was_page_executed_mark [of p q s] by (simp add: was_page_executed_def)
qed

lemma page_has_code_mark [simp]: "page_has_code p (mark_page_code p s)"
  by (simp add: page_has_code_def mark_page_code_def Let_def)

lemma page_has_code_mark_other:
  "page_has_code p s \<Longrightarrow> page_has_code p (mark_page_code q s)"
  using vnth_grow [of "page_of p" "g_code_page_gen s" "page_of q"]
    vlen_grow_mono [of "g_code_page_gen s" "page_of q"]
  by (auto simp: page_has_code_def mark_page_code_def Let_def)

text \<open>The operations the rest of the emulator performs on the tracker.\<close>

datatype smc_op = Mark_executed u64 | Mark_code u64 | Store_hit u64

fun smc_step :: "smc_op \<Rightarrow> smc \<Rightarrow> smc" where
  "smc_step (Mark_executed p) s = mark_page_executed p s"
| "smc_step (Mark_code p) s = mark_page_code p s"
| "smc_step (Store_hit p) s = smc_store_hit p s"

definition live_code :: "u64 \<Rightarrow> smc \<Rightarrow> bool" where
  "live_code p s \<longleftrightarrow> page_has_code p s \<and> was_page_executed p s"

lemma epoch_mark [simp]:
  "g_smc_epoch (mark_page_executed p s) = g_smc_epoch s" "g_smc_epoch (mark_page_code p s) = g_smc_epoch s"
  by (simp_all add: mark_page_executed_def mark_page_code_def Let_def)

lemma smc_step_epoch:
  "g_smc_epoch (smc_step x s) = g_smc_epoch s \<or> g_smc_epoch (smc_step x s) = g_smc_epoch s + 1"
  by (cases x) (auto simp: smc_store_hit_def)

lemma smc_step_live:
  assumes "live_code p s" and same: "g_smc_epoch (smc_step x s) = g_smc_epoch s"
  shows "live_code p (smc_step x s) \<and> \<not> (\<exists>q. x = Store_hit q \<and> page_of q = page_of p)"
proof (cases x)
  case (Mark_executed q)
  have "page_has_code p (mark_page_executed q s) = page_has_code p s"
    by (simp add: page_has_code_def mark_page_executed_def)
  then show ?thesis using assms Mark_executed by (simp add: live_code_def was_page_executed_mark)
next
  case (Mark_code q)
  then show ?thesis
    using assms by (simp add: live_code_def was_page_executed_mark_code page_has_code_mark_other)
next
  case (Store_hit q)
  have "page_of q \<noteq> page_of p"
  proof
    assume "page_of q = page_of p"
    then have "was_page_executed q s" "page_has_code q s"
      using assms(1) by (simp_all add: live_code_def was_page_executed_def page_has_code_def)
    then show False using same Store_hit by (simp add: smc_store_hit_def)
  qed
  then show ?thesis
    using assms Store_hit
    by (auto simp: live_code_def was_page_executed_def page_has_code_def smc_store_hit_def split: if_splits)
qed

lemma smc_run_epoch:
  "\<exists>k \<le> length ops. g_smc_epoch (fold smc_step ops s) = g_smc_epoch s + of_nat k"
proof (induction ops arbitrary: s)
  case (Cons x ops)
  then obtain k where k: "k \<le> length ops"
    "g_smc_epoch (fold smc_step ops (smc_step x s)) = g_smc_epoch (smc_step x s) + of_nat k" by blast
  with smc_step_epoch [of x s] show ?case
    by (auto intro: exI [where x = k] exI [where x = "Suc k"])
qed simp

lemma smc_run_live:
  assumes "live_code p s" "length ops < 2 ^ 64" "Store_hit q \<in> set ops" "page_of q = page_of p"
  shows "g_smc_epoch (fold smc_step ops s) \<noteq> g_smc_epoch s"
  using assms
proof (induction ops arbitrary: s)
  case (Cons x ops)
  show ?case
  proof (cases "g_smc_epoch (smc_step x s) = g_smc_epoch s")
    case True
    then show ?thesis
      using smc_step_live [OF Cons.prems(1) True] Cons.IH [of "smc_step x s"] Cons.prems True by auto
  next
    case False
    then have e: "g_smc_epoch (smc_step x s) = g_smc_epoch s + 1" using smc_step_epoch by blast
    obtain k where k: "k \<le> length ops"
      "g_smc_epoch (fold smc_step ops (smc_step x s)) = g_smc_epoch (smc_step x s) + of_nat k"
      using smc_run_epoch by blast
    have "unat (of_nat (Suc k) :: u64) = Suc k"
      using k(1) Cons.prems(2) by (intro unat_of_nat_64) simp
    then have "(of_nat (Suc k) :: u64) \<noteq> 0" by (metis nat.distinct(1) unsigned_0)
    then show ?thesis using k(2) e by (simp add: add.assoc)
  qed
qed simp

section \<open>Properties\<close>

text \<open>
  Self-modifying code is always noticed: after code was compiled from a page, whatever marks and
  stores follow, a store into that page has moved the global epoch away from the one the compiled
  code was stamped with (as long as fewer than \<open>2 ^ 64\<close> operations happen).
\<close>

theorem smc_store_detected:
  assumes "Store_hit q \<in> set ops" and "page_of q = page_of p" and "length ops < 2 ^ 64"
  shows "g_smc_epoch (fold smc_step ops (mark_page_code p s)) \<noteq> g_smc_epoch (mark_page_code p s)"
proof -
  have "live_code p (mark_page_code p s)" by (simp add: live_code_def was_page_executed_mark_code)
  then show ?thesis using assms by (intro smc_run_live)
qed

theorem smc_store_detected_witness:
  "g_smc_epoch (fold smc_step [Mark_executed 0x80001000, Store_hit 0x80000004] (mark_page_code 0x80000000 smc_init)) \<noteq>
   g_smc_epoch (mark_page_code 0x80000000 smc_init)"
  by (rule smc_store_detected [of "0x80000004"]) (simp_all add: page_of_def)

end
