(* ===== verification/Tlb.thy ===== *)
theory Tlb
  imports Machine_Types Self_Mod
begin

unbundle bit_operations_syntax

text \<open>
  The translation lookaside buffer, include/tlb.hpp and src/tlb.cpp: a direct-mapped array indexed
  by virtual page number, entries that are valid while they carry the current generation, the
  flushes of SFENCE.VMA, and the count of resident writable mappings per physical page. The
  global flush counter is a field of the record. \<open>host_ptr\<close>, which only generated code reads, is the
  offset of the page in the RAM array minus the virtual page address, \<open>None\<close> for no host mapping.
\<close>

section \<open>State\<close>

record tlb_entry =
  vpage_mask_inv :: u64
  vpage_base :: u64
  e_generation :: u64
  host_ptr :: "u64 option"
  ppage_base :: u64
  e_asid :: u16
  page_bits :: u8
  perm :: u8
  e_global :: bool

record tlb =
  entries :: "u64 \<Rightarrow> tlb_entry"
  generation :: u64
  w_writable :: "u8 vec"
  w_writable_oversized :: bool
  g_flush_count :: u64

abbreviation (input) PERM_R :: u8 where "PERM_R \<equiv> 1"
abbreviation (input) PERM_W :: u8 where "PERM_W \<equiv> 2"
abbreviation (input) PERM_X :: u8 where "PERM_X \<equiv> 4"
abbreviation (input) PERM_U :: u8 where "PERM_U \<equiv> 8"
abbreviation (input) PERM_A :: u8 where "PERM_A \<equiv> 16"
abbreviation (input) PERM_D :: u8 where "PERM_D \<equiv> 32"
abbreviation (input) TLB_SIZE :: u64 where "TLB_SIZE \<equiv> 2 * 2 ^ 16"
abbreviation (input) W_CREDIT_CAP_PAGES :: u64 where "W_CREDIT_CAP_PAGES \<equiv> 512"

definition new_tlb_entry :: tlb_entry where
  "new_tlb_entry = \<lparr>vpage_mask_inv = NOT 0, vpage_base = NOT 0, e_generation = 0, host_ptr = None,
     ppage_base = 0, e_asid = 0, page_bits = 12, perm = 0, e_global = False\<rparr>"

definition new_tlb :: tlb where
  "new_tlb = \<lparr>entries = (\<lambda>_. new_tlb_entry), generation = 1, w_writable = vec_empty,
     w_writable_oversized = False, g_flush_count = 0\<rparr>"

section \<open>Operations\<close>

definition tlb_index :: "u64 \<Rightarrow> u64" where
  "tlb_index va = drop_bit 12 va AND (TLB_SIZE - 1)"

definition page_mask_of :: "u8 \<Rightarrow> u64" where
  "page_mask_of pb = push_bit (unat pb) 1 - 1"

text \<open>The permission tests of \<open>TLB::lookup\<close>, in its order; \<open>False\<close> is its \<open>return false\<close>.\<close>

definition lookup_perm :: "u8 \<Rightarrow> access_type \<Rightarrow> privilege_mode \<Rightarrow> bool \<Rightarrow> bool \<Rightarrow> bool" where
  "lookup_perm p type mode mxr sm \<longleftrightarrow>
     (case type of
        STORE \<Rightarrow> p AND PERM_W \<noteq> 0 \<and> p AND PERM_D \<noteq> 0
      | EXEC \<Rightarrow> p AND PERM_X \<noteq> 0 \<and> \<not> (mode = Supervisor \<and> p AND PERM_U \<noteq> 0)
      | LOAD \<Rightarrow> p AND PERM_R \<noteq> 0 \<or> p AND PERM_X \<noteq> 0 \<and> mxr) \<and>
     (if mode = User then p AND PERM_U \<noteq> 0
      else if mode = Supervisor then \<not> (p AND PERM_U \<noteq> 0 \<and> \<not> sm)
      else True)"

definition tlb_lookup ::
  "u64 \<Rightarrow> access_type \<Rightarrow> u16 \<Rightarrow> privilege_mode \<Rightarrow> bool \<Rightarrow> bool \<Rightarrow> tlb \<Rightarrow> u64 option" where
  "tlb_lookup va type asid mode mxr sm t =
     (let e = entries t (tlb_index va); page_mask = page_mask_of (page_bits e) in
      if e_generation e \<noteq> generation t then None
      else if va AND NOT page_mask \<noteq> vpage_base e then None
      else if \<not> e_global e \<and> e_asid e \<noteq> asid then None
      else if \<not> lookup_perm (perm e) type mode mxr sm then None
      else Some (ppage_base e OR (va AND page_mask)))"

text \<open>The writable-page census: \<open>add_writable\<close> and \<open>drop_writable\<close>.\<close>

definition entry_pages :: "tlb_entry \<Rightarrow> u64" where
  "entry_pages e = push_bit (unat (page_bits e) - 12) 1"

fun bump_pages :: "nat \<Rightarrow> nat \<Rightarrow> u8 vec \<Rightarrow> u8 vec" where
  "bump_pages first 0 v = v"
| "bump_pages first (Suc i) v =
     (let v' = bump_pages first i v in
      if vnth v' (first + i) \<noteq> 0xFF then vec_set (first + i) (vnth v' (first + i) + 1) v' else v')"

fun unbump_pages :: "nat \<Rightarrow> nat \<Rightarrow> u8 vec \<Rightarrow> u8 vec" where
  "unbump_pages first 0 v = v"
| "unbump_pages first (Suc i) v =
     (let v' = unbump_pages first i v in
      if first + i < vlen v' \<and> vnth v' (first + i) \<noteq> 0
      then vec_set (first + i) (vnth v' (first + i) - 1) v' else v')"

definition add_writable :: "tlb_entry \<Rightarrow> tlb \<Rightarrow> tlb" where
  "add_writable e t =
     (if perm e AND PERM_W = 0 then t
      else let first = unat (drop_bit 12 (ppage_base e)); pages = entry_pages e in
        if W_CREDIT_CAP_PAGES < pages then t\<lparr>w_writable_oversized := True\<rparr>
        else let v = (if vlen (w_writable t) < first + unat pages
                      then vec_resize (first + unat pages + 8192) (w_writable t)
                      else w_writable t)
             in t\<lparr>w_writable := bump_pages first (unat pages) v\<rparr>)"

definition drop_writable :: "tlb_entry \<Rightarrow> tlb \<Rightarrow> tlb" where
  "drop_writable e t =
     (if e_generation e \<noteq> generation t \<or> perm e AND PERM_W = 0 then t
      else let first = unat (drop_bit 12 (ppage_base e)); pages = entry_pages e in
        if W_CREDIT_CAP_PAGES < pages then t\<lparr>w_writable_oversized := True\<rparr>
        else t\<lparr>w_writable := unbump_pages first (unat pages) (w_writable t)\<rparr>)"

definition tlb_insert ::
  "smc \<Rightarrow> u64 \<Rightarrow> u64 \<Rightarrow> u8 \<Rightarrow> u8 \<Rightarrow> u16 \<Rightarrow> bool \<Rightarrow> u64 option \<Rightarrow> tlb \<Rightarrow> tlb" where
  "tlb_insert s va pa pb p asid glob host_page t =
     (let t = drop_writable (entries t (tlb_index va)) t;
          page_mask = page_mask_of pb;
          vpage = va AND NOT page_mask;
          ppage = pa AND NOT page_mask;
          leaf_pa = ppage + (va AND page_mask);
          p' = (if p AND PERM_W \<noteq> 0 \<and> was_page_executed leaf_pa s
                then p AND NOT (PERM_W OR PERM_D) else p);
          e = \<lparr>vpage_mask_inv = NOT page_mask, vpage_base = vpage, e_generation = generation t,
               host_ptr = map_option (\<lambda>h. h - vpage) host_page, ppage_base = ppage, e_asid = asid,
               page_bits = pb, perm = p', e_global = glob\<rparr>
      in add_writable e (t\<lparr>entries := (entries t)(tlb_index va := e)\<rparr>))"

definition flush_all :: "tlb \<Rightarrow> tlb" where
  "flush_all t = t\<lparr>generation := generation t + 1,
     w_writable := (w_writable t)\<lparr>vnth := (\<lambda>_. 0)\<rparr>, w_writable_oversized := False,
     g_flush_count := g_flush_count t + 1\<rparr>"

text \<open>Dropping the entry of one slot: \<open>drop_writable(e); e.generation = 0\<close>.\<close>

definition drop_slot :: "u64 \<Rightarrow> tlb \<Rightarrow> tlb" where
  "drop_slot i t =
     (let t = drop_writable (entries t i) t in
      t\<lparr>entries := (entries t)(i := (entries t i)\<lparr>e_generation := 0\<rparr>)\<rparr>)"

definition flush_addr :: "u64 \<Rightarrow> tlb \<Rightarrow> tlb" where
  "flush_addr va t =
     (if e_generation (entries t (tlb_index va)) = generation t then drop_slot (tlb_index va) t else t)"

definition asid_match :: "u16 \<Rightarrow> u64 \<Rightarrow> tlb \<Rightarrow> bool" where
  "asid_match asid i t \<longleftrightarrow>
     e_generation (entries t i) = generation t \<and> \<not> e_global (entries t i) \<and> e_asid (entries t i) = asid"

definition flush_asid :: "u16 \<Rightarrow> tlb \<Rightarrow> tlb" where
  "flush_asid asid t =
     fold (\<lambda>i t. if asid_match asid (of_nat i) t then drop_slot (of_nat i) t else t)
       [0..<unat TLB_SIZE] t"

definition flush_addr_asid :: "u64 \<Rightarrow> u16 \<Rightarrow> tlb \<Rightarrow> tlb" where
  "flush_addr_asid va asid t =
     (if asid_match asid (tlb_index va) t then drop_slot (tlb_index va) t else t)"

definition note_exec :: "u64 \<Rightarrow> tlb \<Rightarrow> tlb" where
  "note_exec phys t =
     (if \<not> w_writable_oversized t \<and> page_of phys < vlen (w_writable t) \<and>
         vnth (w_writable t) (page_of phys) \<noteq> 0
      then flush_all t else t)"

section \<open>Lemmas\<close>

lemma add_writable_frame [frame_simps]:
  "entries (add_writable e t) = entries t" "generation (add_writable e t) = generation t"
  by (simp_all add: add_writable_def Let_def)

lemma drop_writable_frame [frame_simps]:
  "entries (drop_writable e t) = entries t" "generation (drop_writable e t) = generation t"
  by (simp_all add: drop_writable_def Let_def)

lemma drop_slot_frame [frame_simps]:
  "generation (drop_slot i t) = generation t"
  "entries (drop_slot i t) = (entries t)(i := (entries t i)\<lparr>e_generation := 0\<rparr>)"
  by (simp_all add: drop_slot_def Let_def frame_simps)

lemma tlb_insert_frame [frame_simps]:
  "generation (tlb_insert s va pa pb p asid g h t) = generation t"
  "i \<noteq> tlb_index va \<Longrightarrow> entries (tlb_insert s va pa pb p asid g h t) i = entries t i"
  by (simp_all add: tlb_insert_def Let_def frame_simps)

lemma page_mask_of_alt: "page_mask_of pb = mask (unat pb)"
  by (simp add: page_mask_of_def mask_eq_exp_minus_1 push_bit_eq_mult)

lemma flush_asid_frame:
  "generation (flush_asid asid t) = generation t \<and>
   entries (flush_asid asid t) i =
     (if unat i < unat TLB_SIZE \<and> asid_match asid i t then (entries t i)\<lparr>e_generation := 0\<rparr> else entries t i)"
proof -
  have "n \<le> unat TLB_SIZE \<Longrightarrow>
     generation (fold (\<lambda>i t. if asid_match asid (of_nat i) t then drop_slot (of_nat i) t else t) [0..<n] t) = generation t \<and>
     entries (fold (\<lambda>i t. if asid_match asid (of_nat i) t then drop_slot (of_nat i) t else t) [0..<n] t) i =
       (if unat i < n \<and> asid_match asid i t then (entries t i)\<lparr>e_generation := 0\<rparr> else entries t i)" for n i
  proof (induction n arbitrary: i)
    case (Suc n)
    let ?t = "fold (\<lambda>i t. if asid_match asid (of_nat i) t then drop_slot (of_nat i) t else t) [0..<n] t"
    have n: "unat (of_nat n :: u64) = n" using Suc.prems by (intro unat_of_nat_64) simp
    have IH: "generation ?t = generation t"
      "\<And>i. entries ?t i = (if unat i < n \<and> asid_match asid i t then (entries t i)\<lparr>e_generation := 0\<rparr> else entries t i)"
      using Suc by auto
    have am: "asid_match asid (of_nat n) ?t = asid_match asid (of_nat n) t"
      using IH n by (simp add: asid_match_def)
    have lt: "unat i < Suc n \<longleftrightarrow> unat i < n \<or> i = of_nat n"
      using n by (metis less_Suc_eq word_unat_eq_iff)
    show ?case using IH am lt n by (auto simp: frame_simps)
  qed simp
  from this [of "unat TLB_SIZE"] show ?thesis unfolding flush_asid_def by blast
qed

section \<open>The contract of a translation cache\<close>

text \<open>
  \<open>hit t q\<close> is the answer to the request \<open>q\<close>; \<open>serves x q\<close> what the entry inserted by \<open>x\<close> answers
  on its own. Every operation uses up one unit of the generation counter's budget \<open>n\<close>.
\<close>

locale translation_cache =
  fixes ok :: "nat \<Rightarrow> 't \<Rightarrow> bool" and hit :: "'t \<Rightarrow> 'q \<Rightarrow> u64 option"
    and put :: "'x \<Rightarrow> 't \<Rightarrow> 't" and serves :: "'x \<Rightarrow> 'q \<Rightarrow> u64 option"
    and clear :: "'t \<Rightarrow> 't" and shrink :: "'y \<Rightarrow> 't \<Rightarrow> 't"
  assumes clear_hit: "ok (Suc n) t \<Longrightarrow> hit (clear t) q = None"
    and put_hit: "ok (Suc n) t \<Longrightarrow> hit (put x t) q = Some pa \<Longrightarrow> serves x q = Some pa \<or> hit t q = Some pa"
    and shrink_hit: "ok (Suc n) t \<Longrightarrow> hit (shrink y t) q = Some pa \<Longrightarrow> hit t q = Some pa"
    and ok_keep: "ok (Suc n) t \<Longrightarrow> ok n (clear t)" "ok (Suc n) t \<Longrightarrow> ok n (put x t)"
      "ok (Suc n) t \<Longrightarrow> ok n (shrink y t)"
begin

lemma hit_source:
  "ok (length ops + n) t \<Longrightarrow> hit (fold (case_sum put shrink) ops t) q = Some pa \<Longrightarrow>
     hit t q = Some pa \<or> (\<exists>x. Inl x \<in> set ops \<and> serves x q = Some pa)"
proof (induction ops arbitrary: t)
  case (Cons z ops)
  have ok: "ok (length ops + n) (case_sum put shrink z t)"
    using Cons.prems(1) ok_keep by (cases z) auto
  with Cons have "hit (case_sum put shrink z t) q = Some pa \<or> (\<exists>x. Inl x \<in> set ops \<and> serves x q = Some pa)" by simp
  moreover have "hit (case_sum put shrink z t) q = Some pa \<Longrightarrow> hit t q = Some pa \<or> (\<exists>x. z = Inl x \<and> serves x q = Some pa)"
    using Cons.prems(1) put_hit [of "length ops + n" t] shrink_hit [of "length ops + n" t]
    by (cases z) auto
  ultimately show ?case by auto
qed simp

lemma no_stale:
  assumes "ok (Suc (length ops + n)) t" and "hit (fold (case_sum put shrink) ops (clear t)) q = Some pa"
  shows "\<exists>x. Inl x \<in> set ops \<and> serves x q = Some pa"
  using hit_source [OF ok_keep(1) [OF assms(1)] assms(2)] clear_hit [OF assms(1)] by auto

end

section \<open>The TLB meets it\<close>

definition tlb_ok :: "nat \<Rightarrow> tlb \<Rightarrow> bool" where
  "tlb_ok n t \<longleftrightarrow> generation t \<noteq> 0 \<and> unat (generation t) + n < 2 ^ 64 \<and>
     (\<forall>i. unat (e_generation (entries t i)) \<le> unat (generation t))"

record tlb_query =
  q_va :: u64
  q_type :: access_type
  q_asid :: u16
  q_mode :: privilege_mode
  q_mxr :: bool
  q_sum :: bool

definition tlb_hit :: "tlb \<Rightarrow> tlb_query \<Rightarrow> u64 option" where
  "tlb_hit t q = tlb_lookup (q_va q) (q_type q) (q_asid q) (q_mode q) (q_mxr q) (q_sum q) t"

record tlb_fill =
  f_smc :: smc
  f_va :: u64
  f_pa :: u64
  f_page_bits :: u8
  f_perm :: u8
  f_asid :: u16
  f_global :: bool
  f_host :: "u64 option"

definition tlb_put :: "tlb_fill \<Rightarrow> tlb \<Rightarrow> tlb" where
  "tlb_put x = tlb_insert (f_smc x) (f_va x) (f_pa x) (f_page_bits x) (f_perm x) (f_asid x) (f_global x) (f_host x)"

text \<open>What a fill answers alone in an empty TLB.\<close>

definition fill_serves :: "tlb_fill \<Rightarrow> tlb_query \<Rightarrow> u64 option" where
  "fill_serves x q = tlb_hit (tlb_put x new_tlb) q"

datatype tlb_flush =
    Flush_all
  | Flush_addr u64
  | Flush_asid u16
  | Flush_addr_asid u64 u16
  | Note_exec u64

fun tlb_shrink :: "tlb_flush \<Rightarrow> tlb \<Rightarrow> tlb" where
  "tlb_shrink Flush_all = flush_all"
| "tlb_shrink (Flush_addr va) = flush_addr va"
| "tlb_shrink (Flush_asid asid) = flush_asid asid"
| "tlb_shrink (Flush_addr_asid va asid) = flush_addr_asid va asid"
| "tlb_shrink (Note_exec p) = note_exec p"

lemma tlb_hit_entry:
  "tlb_hit t q = (let e = entries t (tlb_index (q_va q)) in
     if e_generation e = generation t then tlb_hit (new_tlb\<lparr>entries := (\<lambda>_. e\<lparr>e_generation := 1\<rparr>)\<rparr>) q else None)"
  by (simp add: tlb_hit_def tlb_lookup_def Let_def new_tlb_def)

lemma flush_all_hit: "tlb_ok (Suc n) t \<Longrightarrow> tlb_hit (flush_all t) q = None"
proof -
  assume ok: "tlb_ok (Suc n) t"
  then have "unat (generation t + 1) = Suc (unat (generation t))"
    by (intro unat_Suc_64) (simp add: tlb_ok_def)
  moreover have "unat (e_generation (entries t (tlb_index (q_va q)))) \<le> unat (generation t)"
    using ok by (simp add: tlb_ok_def)
  ultimately have "e_generation (entries t (tlb_index (q_va q))) \<noteq> generation t + 1" by auto
  then show ?thesis by (simp add: tlb_hit_def tlb_lookup_def flush_all_def Let_def)
qed

lemma flush_all_ok: "tlb_ok (Suc n) t \<Longrightarrow> tlb_ok n (flush_all t)"
proof -
  assume ok: "tlb_ok (Suc n) t"
  then have "unat (generation t + 1) = Suc (unat (generation t))"
    by (intro unat_Suc_64) (simp add: tlb_ok_def)
  then show ?thesis using ok by (auto simp: tlb_ok_def flush_all_def intro: le_SucI)
qed

lemma insert_entry:
  "entries (tlb_insert s va pa pb p asid g h t) (tlb_index va) =
     (entries (tlb_insert s va pa pb p asid g h new_tlb) (tlb_index va))\<lparr>e_generation := generation t\<rparr>"
  by (simp add: tlb_insert_def Let_def frame_simps)

lemma insert_generation:
  "e_generation (entries (tlb_insert s va pa pb p asid g h t) (tlb_index va)) = generation t"
  by (simp add: tlb_insert_def Let_def frame_simps)

lemma tlb_ok_less: "tlb_ok (Suc n) t \<Longrightarrow> tlb_ok n t"
  by (simp add: tlb_ok_def)

lemma drop_slot_ok: "tlb_ok n t \<Longrightarrow> tlb_ok n (drop_slot i t)"
  by (simp add: tlb_ok_def frame_simps)

lemma put_ok:
  assumes "tlb_ok n t"
  shows "tlb_ok n (tlb_put x t)"
proof -
  have "unat (e_generation (entries (tlb_put x t) i)) \<le> unat (generation t)" for i
    using assms
    by (cases "i = tlb_index (f_va x)") (simp_all add: tlb_put_def tlb_ok_def frame_simps insert_generation)
  then show ?thesis using assms by (simp add: tlb_ok_def tlb_put_def frame_simps)
qed

lemma shrink_ok: "tlb_ok (Suc n) t \<Longrightarrow> tlb_ok n (tlb_shrink y t)"
proof (cases y)
  case (Flush_asid asid)
  assume "tlb_ok (Suc n) t"
  then show ?thesis using flush_asid_frame [of asid t] Flush_asid by (simp add: tlb_ok_def)
qed (auto simp: flush_all_ok flush_addr_def flush_addr_asid_def note_exec_def
    intro: tlb_ok_less drop_slot_ok)

lemma drop_slot_hit: "tlb_ok n t \<Longrightarrow> tlb_hit (drop_slot i t) q = (if tlb_index (q_va q) = i then None else tlb_hit t q)"
  by (simp add: tlb_hit_def tlb_lookup_def frame_simps Let_def tlb_ok_def)

lemma flush_asid_hit:
  "tlb_ok n t \<Longrightarrow> tlb_hit (flush_asid asid t) q = Some pa \<Longrightarrow> tlb_hit t q = Some pa"
  using flush_asid_frame [of asid t "tlb_index (q_va q)"]
  by (auto simp: tlb_hit_def tlb_lookup_def Let_def tlb_ok_def split: if_splits)

lemma put_hit_cases:
  "tlb_ok n t \<Longrightarrow> tlb_hit (tlb_put x t) q =
     (if tlb_index (q_va q) = tlb_index (f_va x) then fill_serves x q else tlb_hit t q)"
  using insert_entry [of "f_smc x" "f_va x" "f_pa x" "f_page_bits x" "f_perm x" "f_asid x"
      "f_global x" "f_host x" t]
  by (simp add: fill_serves_def tlb_hit_def tlb_lookup_def tlb_put_def frame_simps Let_def
      insert_generation)

interpretation tl: translation_cache tlb_ok tlb_hit tlb_put fill_serves flush_all tlb_shrink
proof
  fix n t q x y pa
  assume ok: "tlb_ok (Suc n) t"
  show "tlb_hit (flush_all t) q = None" using ok by (rule flush_all_hit)
  show "tlb_ok n (flush_all t)" "tlb_ok n (tlb_put x t)" "tlb_ok n (tlb_shrink y t)"
    using ok by (auto intro: flush_all_ok put_ok tlb_ok_less shrink_ok)
  show "tlb_hit (tlb_put x t) q = Some pa \<Longrightarrow> fill_serves x q = Some pa \<or> tlb_hit t q = Some pa"
    using put_hit_cases [OF ok] by (simp split: if_splits)
  show "tlb_hit (tlb_shrink y t) q = Some pa \<Longrightarrow> tlb_hit t q = Some pa"
    using ok flush_all_hit [OF ok] drop_slot_hit [OF ok] flush_asid_hit [OF ok]
    by (cases y) (auto simp: flush_addr_def flush_addr_asid_def note_exec_def split: if_splits)
qed

section \<open>Properties\<close>

text \<open>
  C28. No stale translation survives SFENCE.VMA: after \<open>flush_all\<close>, over any further insertions,
  flushes and \<open>note_exec\<close> calls, every answer the TLB gives is one that an insertion made after the
  flush gives on its own (while the generation counter does not wrap around).
\<close>

theorem tlb_no_stale:
  assumes "tlb_ok (Suc (length ops)) t"
    and "tlb_hit (fold (case_sum tlb_put tlb_shrink) ops (flush_all t)) q = Some pa"
  shows "\<exists>x. Inl x \<in> set ops \<and> fill_serves x q = Some pa"
  using tl.no_stale [of ops 0 t q pa] assms by simp

definition sample_fill :: tlb_fill where
  "sample_fill = \<lparr>f_smc = smc_init, f_va = 0x1000, f_pa = 0x80002000, f_page_bits = 12,
     f_perm = 0x3F, f_asid = 3, f_global = False, f_host = Some 0x2000\<rparr>"

definition sample_query :: tlb_query where
  "sample_query = \<lparr>q_va = 0x1008, q_type = STORE, q_asid = 3, q_mode = User, q_mxr = False, q_sum = False\<rparr>"

lemmas tlb_eval = fill_serves_def tlb_hit_def tlb_put_def tlb_insert_def tlb_lookup_def frame_simps
  flush_all_def Let_def new_tlb_def new_tlb_entry_def lookup_perm_def page_mask_of_def tlb_index_def
  was_page_executed_def smc_init_def vec_empty_def sample_fill_def sample_query_def

theorem tlb_no_stale_witness:
  "fill_serves sample_fill sample_query = Some 0x80002008"
proof -
  have "tlb_ok (Suc (length [Inl sample_fill :: tlb_fill + tlb_flush])) new_tlb"
    by (simp add: tlb_ok_def new_tlb_def new_tlb_entry_def)
  moreover have "tlb_hit (fold (case_sum tlb_put tlb_shrink) [Inl sample_fill] (flush_all new_tlb)) sample_query =
      Some 0x80002008"
    by (simp add: tlb_eval)
  ultimately show ?thesis using tlb_no_stale [of "[Inl sample_fill]"] by auto
qed

text \<open>
  What the flushes of SFENCE.VMA remove: \<open>flush_all\<close> everything; \<open>flush_addr\<close> exactly the slot of the
  address, so every answer for it; \<open>flush_asid\<close> exactly the non-global entries of the address space;
  \<open>flush_addr_asid\<close> the slot of the address if it holds such an entry. All other answers stay.
\<close>

theorem tlb_flush_effect:
  assumes "tlb_ok 1 t"
  shows "tlb_hit (flush_all t) q = None \<and>
    tlb_hit (flush_addr va t) q = (if tlb_index (q_va q) = tlb_index va then None else tlb_hit t q) \<and>
    tlb_hit (flush_asid asid t) q = (if asid_match asid (tlb_index (q_va q)) t then None else tlb_hit t q) \<and>
    tlb_hit (flush_addr_asid va asid t) q =
      (if tlb_index (q_va q) = tlb_index va \<and> asid_match asid (tlb_index va) t then None else tlb_hit t q)"
proof (intro conjI)
  show "tlb_hit (flush_all t) q = None" using assms by (intro flush_all_hit [where n = 0]) simp
  show "tlb_hit (flush_addr va t) q = (if tlb_index (q_va q) = tlb_index va then None else tlb_hit t q)"
  proof (cases "e_generation (entries t (tlb_index va)) = generation t")
    case True
    then show ?thesis using drop_slot_hit [OF assms] by (simp add: flush_addr_def)
  next
    case False
    then have "tlb_hit t q = None" if "tlb_index (q_va q) = tlb_index va"
      using that by (simp add: tlb_hit_def tlb_lookup_def Let_def)
    then show ?thesis using False by (simp add: flush_addr_def)
  qed
  have "unat (tlb_index (q_va q)) < unat TLB_SIZE"
    using word_and_le1 [of "drop_bit 12 (q_va q)" "TLB_SIZE - 1"]
    by (simp add: tlb_index_def word_le_nat_alt)
  then show "tlb_hit (flush_asid asid t) q =
      (if asid_match asid (tlb_index (q_va q)) t then None else tlb_hit t q)"
    using flush_asid_frame [of asid t "tlb_index (q_va q)"] assms
    by (simp add: tlb_hit_def tlb_lookup_def Let_def tlb_ok_def)
  show "tlb_hit (flush_addr_asid va asid t) q =
      (if tlb_index (q_va q) = tlb_index va \<and> asid_match asid (tlb_index va) t then None else tlb_hit t q)"
    using drop_slot_hit [OF assms] by (simp add: flush_addr_asid_def)
qed

theorem tlb_flush_effect_witness:
  "tlb_hit (tlb_put sample_fill new_tlb) sample_query = Some 0x80002008 \<and>
   tlb_hit (flush_addr 0x1000 (tlb_put sample_fill new_tlb)) sample_query = None"
proof -
  have "tlb_ok 1 (tlb_put sample_fill new_tlb)"
    by (rule put_ok) (simp add: tlb_ok_def new_tlb_def new_tlb_entry_def)
  from tlb_flush_effect [OF this, of sample_query "0x1000" 0]
  have "tlb_hit (flush_addr 0x1000 (tlb_put sample_fill new_tlb)) sample_query = None"
    by (simp add: sample_query_def tlb_index_def)
  moreover have "tlb_hit (tlb_put sample_fill new_tlb) sample_query = Some 0x80002008" by (simp add: tlb_eval)
  ultimately show ?thesis by simp
qed



end
