(* ===== verification/Hart_State.thy ===== *)
theory Hart_State
  imports Tlb
begin

unbundle bit_operations_syntax

text \<open>
  The hart of include/hart.hpp and src/hart.cpp: registers and CSRs, trap entry, interrupt
  selection, CSR reads and writes. The general registers are a map from register numbers, the
  floating registers hold the bit patterns of the C++ \<open>double\<close> array. The pointers to the
  memory map, the MMIO bus and the decoder belong to the machine around the hart; the TLB is
  the one of the hart's MMU. The operations of this theory change the hart only.
\<close>

section \<open>State\<close>

record reservation_t =
  res_paddr :: u64
  res_size :: memory_size
  res_valid :: bool

record hart =
  hid :: u8
  GPR :: "u8 \<Rightarrow> u64"
  FPR :: "u8 \<Rightarrow> u64"
  pc :: u64
  mode :: privilege_mode
  status :: status_t
  ie :: ie_t
  ip :: ip_t
  stimecmp :: u64
  fcsr :: fcsr_t
  satp :: satp_t
  cycle :: u64
  instret :: u64
  ctime :: u64
  WFI :: bool
  csrs :: "u16 \<Rightarrow> u64"
  reservation :: reservation_t
  htlb :: tlb
  memsize :: u64

definition set_reg :: "u8 \<Rightarrow> u64 \<Rightarrow> hart \<Rightarrow> hart" where
  "set_reg r v h = h\<lparr>GPR := (GPR h)(r := v)\<rparr>"

definition set_csr :: "u16 \<Rightarrow> u64 \<Rightarrow> hart \<Rightarrow> hart" where
  "set_csr c v h = h\<lparr>csrs := (csrs h)(c := v)\<rparr>"

definition new_hart :: "u8 \<Rightarrow> u64 \<Rightarrow> hart" where
  "new_hart i msize = \<lparr>hid = i, GPR = (\<lambda>_. 0), FPR = (\<lambda>_. 0), pc = 0, mode = User, status = 0, ie = 0,
     ip = 0, stimecmp = 0, fcsr = 0, satp = 0, cycle = 0, instret = 0, ctime = 0, WFI = False,
     csrs = (\<lambda>_. 0), reservation = \<lparr>res_paddr = 0, res_size = 0, res_valid = False\<rparr>,
     htlb = new_tlb, memsize = msize\<rparr>"

text \<open>\<open>Hart::init\<close>; the MISA value is RV64 with the extensions ABCDFIMSU.\<close>

definition hart_init :: "u64 \<Rightarrow> u64 \<Rightarrow> hart \<Rightarrow> hart" where
  "hart_init dtb_pos_at_memory entry_pc h =
     (let h = h\<lparr>pc := entry_pc, mode := Machine\<rparr>;
          h = set_reg 10 (ucast (hid h)) h;
          h = set_reg 11 dtb_pos_at_memory h;
          h = set_csr CSR_MISA (push_bit 63 1 OR push_bit 8 1 OR push_bit 12 1 OR push_bit 0 1 OR push_bit 5 1 OR
                push_bit 3 1 OR push_bit 2 1 OR push_bit 1 1 OR push_bit 18 1 OR push_bit 20 1) h;
          h = set_csr CSR_MHARTID (ucast (hid h)) h;
          h = h\<lparr>status := set_SXL 2 (status h)\<rparr>
      in h\<lparr>status := set_UXL 2 (status h)\<rparr>)"

section \<open>Effective mode and reservations\<close>

definition get_effective_mode :: "access_type \<Rightarrow> hart \<Rightarrow> privilege_mode" where
  "get_effective_mode access_type h =
     (if mode h = Machine \<and> st_MPRV (status h) \<noteq> 0 \<and> (access_type = LOAD \<or> access_type = STORE)
      then mode_of (st_MPP (status h)) else mode h)"

definition amo_check_reservation :: "u64 \<Rightarrow> hart \<Rightarrow> hart" where
  "amo_check_reservation pa h =
     (let r = reservation h in
      if res_valid r \<and> pa \<le> res_paddr r \<and> pa \<le> res_paddr r + of_nat (res_size r)
      then h\<lparr>reservation := r\<lparr>res_valid := False\<rparr>\<rparr> else h)"

section \<open>Traps\<close>

definition trap :: "u64 \<Rightarrow> u64 \<Rightarrow> bool \<Rightarrow> hart \<Rightarrow> hart" where
  "trap cause_t tval_t interrupt h =
     (let h = h\<lparr>reservation := (reservation h)\<lparr>res_valid := False\<rparr>, WFI := False\<rparr>;
          trap_pc = pc h;
          prev_mode = mode h;
          medeleg = csrs h CSR_MEDELEG;
          mideleg = csrs h CSR_MIDELEG;
          delegate_to_s = (prev_mode \<noteq> Machine \<and>
            (if interrupt then drop_bit (unat cause_t) mideleg AND 1 \<noteq> 0
             else drop_bit (unat cause_t) medeleg AND 1 \<noteq> 0));
          h = h\<lparr>status := set_MPRV 0 (status h)\<rparr>
      in if delegate_to_s then
           let h = h\<lparr>mode := Supervisor\<rparr>;
               vector = (if csrs h CSR_STVEC AND 3 = 1 \<and> interrupt then 4 * cause_t else 0);
               h = h\<lparr>pc := (csrs h CSR_STVEC AND NOT 3) + vector\<rparr>;
               h = set_csr CSR_SEPC trap_pc h;
               h = set_csr CSR_SCAUSE ((if interrupt then push_bit 63 1 else 0) OR cause_t) h;
               h = set_csr CSR_STVAL tval_t h;
               h = h\<lparr>status := set_SPIE (st_SIE (status h)) (status h)\<rparr>;
               h = h\<lparr>status := set_SIE 0 (status h)\<rparr>
           in h\<lparr>status := set_SPP (if prev_mode \<noteq> User then 1 else 0) (status h)\<rparr>
         else
           let h = h\<lparr>mode := Machine\<rparr>;
               vector = (if csrs h CSR_MTVEC AND 3 = 1 \<and> interrupt then 4 * cause_t else 0);
               h = h\<lparr>pc := (csrs h CSR_MTVEC AND NOT 3) + vector\<rparr>;
               h = set_csr CSR_MEPC trap_pc h;
               h = set_csr CSR_MCAUSE ((if interrupt then push_bit 63 1 else 0) OR cause_t) h;
               h = set_csr CSR_MTVAL tval_t h;
               h = h\<lparr>status := set_MPIE (st_MIE (status h)) (status h)\<rparr>;
               h = h\<lparr>status := set_MIE 0 (status h)\<rparr>
           in h\<lparr>status := set_MPP (mode_num prev_mode) (status h)\<rparr>)"

section \<open>Interrupt selection\<close>

definition int_local_pending :: "hart \<Rightarrow> bool" where
  "int_local_pending h =
     (let pending_all = ucast (ip h AND ie h) :: u64; mideleg = csrs h CSR_MIDELEG in
      if pending_all = 0 then False
      else if pending_all AND NOT mideleg \<noteq> 0 then True
      else mode_num (mode h) \<le> mode_num Supervisor \<and> pending_all AND SE_MASK AND mideleg \<noteq> 0)"

definition check_ints :: "hart \<Rightarrow> bool \<times> hart" where
  "check_ints h =
     (let pending_all = ucast (ip h AND ie h) :: u64;
          mideleg = csrs h CSR_MIDELEG;
          m_global = (if mode h = Machine then st_MIE (status h) \<noteq> 0
                      else mode_num (mode h) < mode_num Machine);
          pending_m = pending_all AND NOT mideleg;
          s_global = (if mode h = Supervisor then st_SIE (status h) \<noteq> 0
                      else mode_num (mode h) < mode_num Supervisor);
          pending_s = (ucast (ip h) AND SE_MASK AND mideleg) AND (ucast (ie h) AND SE_MASK)
      in if pending_all = 0 then (False, h)
         else if m_global \<and> pending_m \<noteq> 0 then (True, trap (of_nat (63 - clzll pending_m)) 0 True h)
         else if s_global \<and> pending_s \<noteq> 0 then (True, trap (of_nat (63 - clzll pending_s)) 0 True h)
         else (False, h))"

section \<open>CSR access\<close>

definition csr_write :: "u16 \<Rightarrow> u64 \<Rightarrow> hart \<Rightarrow> hart" where
  "csr_write csr v h =
     (if csr = CSR_MSTATUS then
        h\<lparr>status := (status h AND MSTATUS_RO_MASK) OR (v AND NOT MSTATUS_RO_MASK)\<rparr>
      else if csr = CSR_SSTATUS then
        h\<lparr>status := (status h AND NOT SSTATUS_MASK) OR (v AND SSTATUS_MASK)\<rparr>
      else if csr = CSR_SIE then h\<lparr>ie := ucast ((ucast (ie h) AND NOT SE_MASK) OR (v AND SE_MASK))\<rparr>
      else if csr = CSR_SIP then h\<lparr>ip := ucast ((ucast (ip h) AND NOT SE_MASK) OR (v AND SE_MASK))\<rparr>
      else if csr = CSR_MIE then h\<lparr>ie := ucast v\<rparr>
      else if csr = CSR_MIP then h\<lparr>ip := ucast v\<rparr>
      else if csr = CSR_STIMECMP then h\<lparr>stimecmp := v\<rparr>
      else if csr = CSR_SATP then
        (let old_val = satp h; h = h\<lparr>satp := v\<rparr> in
         if satp_mode (satp h) = 9 \<or> satp_mode (satp h) = 10 then h\<lparr>satp := old_val\<rparr>
         else if satp h \<noteq> v then h\<lparr>satp := v, htlb := flush_all (htlb h)\<rparr>
         else h)
      else if csr = CSR_FCSR then
        (if st_FS (status h) = 0 then trap (ucast EXC_ILLEGAL_INSTRUCTION) (ucast csr) False h
         else h\<lparr>status := set_FS 3 (status h), fcsr := v\<rparr>)
      else if csr = CSR_FFLAGS then
        (if st_FS (status h) = 0 then trap (ucast EXC_ILLEGAL_INSTRUCTION) (ucast csr) False h
         else h\<lparr>fcsr := set_fflags v (fcsr h)\<rparr>)
      else if csr = CSR_FRM then
        (if st_FS (status h) = 0 then trap (ucast EXC_ILLEGAL_INSTRUCTION) (ucast csr) False h
         else h\<lparr>fcsr := set_frm v (fcsr h)\<rparr>)
      else if csr = CSR_MVENDORID \<or> csr = CSR_MARCHID \<or> csr = CSR_MIMPID then h
      else set_csr csr v h)"

text \<open>A read of a floating-point CSR with the unit off enters a trap and yields 0.\<close>

definition csr_read :: "u16 \<Rightarrow> hart \<Rightarrow> u64 \<times> hart" where
  "csr_read csr h =
     (if csr = CSR_MSTATUS then (status h, h)
      else if csr = CSR_SSTATUS then (status h AND SSTATUS_MASK, h)
      else if csr = CSR_SIE then (ucast (ie h) AND SE_MASK, h)
      else if csr = CSR_SIP then (ucast (ip h) AND SE_MASK, h)
      else if csr = CSR_MIP then (ucast (ip h), h)
      else if csr = CSR_MIE then (ucast (ie h), h)
      else if csr = CSR_CYCLE \<or> csr = CSR_MCYCLE then (cycle h, h)
      else if csr = CSR_TIME then (ctime h, h)
      else if csr = CSR_INSTRET \<or> csr = CSR_MINSTRET then (instret h, h)
      else if CSR_HPMCOUNTER3 \<le> csr \<and> csr \<le> CSR_HPMCOUNTER31 then (csrs h (csr - 0x100), h)
      else if csr = CSR_STIMECMP then (stimecmp h, h)
      else if csr = CSR_SATP then (satp h, h)
      else if csr = CSR_FCSR then
        (if st_FS (status h) = 0 then (0, trap (ucast EXC_ILLEGAL_INSTRUCTION) (ucast csr) False h) else (fcsr h, h))
      else if csr = CSR_FFLAGS then
        (if st_FS (status h) = 0 then (0, trap (ucast EXC_ILLEGAL_INSTRUCTION) (ucast csr) False h) else (fflags (fcsr h), h))
      else if csr = CSR_FRM then
        (if st_FS (status h) = 0 then (0, trap (ucast EXC_ILLEGAL_INSTRUCTION) (ucast csr) False h) else (frm (fcsr h), h))
      else (csrs h csr, h))"

section \<open>Lemmas\<close>

lemma set_reg_simps [simp]:
  "GPR (set_reg r v h) = (GPR h)(r := v)" "pc (set_reg r v h) = pc h" "mode (set_reg r v h) = mode h"
  "status (set_reg r v h) = status h" "csrs (set_reg r v h) = csrs h" "FPR (set_reg r v h) = FPR h"
  "htlb (set_reg r v h) = htlb h" "satp (set_reg r v h) = satp h" "memsize (set_reg r v h) = memsize h"
  "reservation (set_reg r v h) = reservation h" "hid (set_reg r v h) = hid h" "instret (set_reg r v h) = instret h"
  "WFI (set_reg r v h) = WFI h" "ip (set_reg r v h) = ip h" "ie (set_reg r v h) = ie h" "fcsr (set_reg r v h) = fcsr h"
  by (simp_all add: set_reg_def)

lemma set_csr_simps [simp]:
  "csrs (set_csr c v h) = (csrs h)(c := v)" "GPR (set_csr c v h) = GPR h" "pc (set_csr c v h) = pc h"
  "mode (set_csr c v h) = mode h" "status (set_csr c v h) = status h" "FPR (set_csr c v h) = FPR h"
  "htlb (set_csr c v h) = htlb h" "satp (set_csr c v h) = satp h" "memsize (set_csr c v h) = memsize h"
  "reservation (set_csr c v h) = reservation h" "hid (set_csr c v h) = hid h" "instret (set_csr c v h) = instret h"
  "WFI (set_csr c v h) = WFI h" "ip (set_csr c v h) = ip h" "ie (set_csr c v h) = ie h" "fcsr (set_csr c v h) = fcsr h"
  "stimecmp (set_csr c v h) = stimecmp h" "cycle (set_csr c v h) = cycle h" "ctime (set_csr c v h) = ctime h"
  by (simp_all add: set_csr_def)

lemma drop_bit_and_1: "drop_bit n x AND 1 \<noteq> 0 \<longleftrightarrow> bit x n" for x :: "'a::len word"
  by (metis and_one_eq bit_iff_odd_drop_bit odd_iff_mod_2_eq_one of_bool_eq_0_iff even_iff_mod_2_eq_zero
      mod_2_eq_odd)

text \<open>Delegation and trap vectors as the privileged architecture states them.\<close>

definition delegated :: "u64 \<Rightarrow> bool \<Rightarrow> hart \<Rightarrow> bool" where
  "delegated c interrupt h \<longleftrightarrow>
     mode h \<noteq> Machine \<and> bit (csrs h (if interrupt then CSR_MIDELEG else CSR_MEDELEG)) (unat c)"

definition vector_target :: "u64 \<Rightarrow> u64 \<Rightarrow> bool \<Rightarrow> u64" where
  "vector_target tvec c interrupt = (tvec AND NOT 3) + (if tvec AND 3 = 1 \<and> interrupt then 4 * c else 0)"

definition cause_word :: "u64 \<Rightarrow> bool \<Rightarrow> u64" where
  "cause_word c interrupt = (if interrupt then push_bit 63 1 OR c else c)"

lemma trap_S:
  assumes "delegated c i h"
  shows "trap c tv i h =
    h\<lparr>reservation := (reservation h)\<lparr>res_valid := False\<rparr>, WFI := False, mode := Supervisor,
      pc := vector_target (csrs h CSR_STVEC) c i,
      csrs := (csrs h)(CSR_SEPC := pc h, CSR_SCAUSE := cause_word c i, CSR_STVAL := tv),
      status := set_SPP (if mode h \<noteq> User then 1 else 0) (set_SIE 0 (set_SPIE (st_SIE (status h)) (set_MPRV 0 (status h))))\<rparr>"
  using assms
  by (simp add: trap_def delegated_def Let_def drop_bit_and_1 vector_target_def cause_word_def
      set_csr_def field_simps_bf split: if_splits)

lemma trap_M:
  assumes "\<not> delegated c i h"
  shows "trap c tv i h =
    h\<lparr>reservation := (reservation h)\<lparr>res_valid := False\<rparr>, WFI := False, mode := Machine,
      pc := vector_target (csrs h CSR_MTVEC) c i,
      csrs := (csrs h)(CSR_MEPC := pc h, CSR_MCAUSE := cause_word c i, CSR_MTVAL := tv),
      status := set_MPP (mode_num (mode h)) (set_MIE 0 (set_MPIE (st_MIE (status h)) (set_MPRV 0 (status h))))\<rparr>"
  using assms
  by (cases "mode h = Machine"; cases i)
    (simp_all add: trap_def delegated_def Let_def drop_bit_and_1 vector_target_def cause_word_def
      set_csr_def field_simps_bf)

lemmas trap_eqs = trap_S trap_M

text \<open>What a trap leaves alone.\<close>

lemma trap_frame [frame_simps]:
  "GPR (trap c tv i h) = GPR h" "FPR (trap c tv i h) = FPR h" "ie (trap c tv i h) = ie h"
  "ip (trap c tv i h) = ip h" "satp (trap c tv i h) = satp h" "htlb (trap c tv i h) = htlb h"
  "fcsr (trap c tv i h) = fcsr h" "memsize (trap c tv i h) = memsize h" "hid (trap c tv i h) = hid h"
  "instret (trap c tv i h) = instret h" "cycle (trap c tv i h) = cycle h" "stimecmp (trap c tv i h) = stimecmp h"
  by (cases "delegated c i h"; simp add: trap_eqs)+

section \<open>Properties\<close>

text \<open>
  C7. Trap entry: a trap taken outside M-mode whose delegation bit is set enters S-mode at the
  \<open>stvec\<close> target, any other enters M-mode at the \<open>mtvec\<close> target; the interrupted pc, the cause and the
  trap value are saved in the CSRs of the mode entered and the interrupt-enable and previous-mode
  fields of that mode are stacked, those of the other mode kept. No trap lowers the privilege, and
  MPRV, WFI and the reservation are cleared.
\<close>

theorem trap_entry:
  assumes "mode h \<noteq> Hypervisor"
  shows "let h' = trap c tv i h; s = status h; s' = status h' in
    mode_num (mode h) \<le> mode_num (mode h') \<and> st_MPRV s' = 0 \<and> \<not> WFI h' \<and> \<not> res_valid (reservation h') \<and>
    (if delegated c i h then
       mode h' = Supervisor \<and> pc h' = vector_target (csrs h CSR_STVEC) c i \<and>
       csrs h' = (csrs h)(CSR_SEPC := pc h, CSR_SCAUSE := cause_word c i, CSR_STVAL := tv) \<and>
       st_SIE s' = 0 \<and> st_SPIE s' = st_SIE s \<and> st_SPP s' = (if mode h = User then 0 else 1) \<and>
       st_MIE s' = st_MIE s \<and> st_MPIE s' = st_MPIE s \<and> st_MPP s' = st_MPP s
     else
       mode h' = Machine \<and> pc h' = vector_target (csrs h CSR_MTVEC) c i \<and>
       csrs h' = (csrs h)(CSR_MEPC := pc h, CSR_MCAUSE := cause_word c i, CSR_MTVAL := tv) \<and>
       st_MIE s' = 0 \<and> st_MPIE s' = st_MIE s \<and> st_MPP s' = mode_num (mode h) \<and>
       st_SIE s' = st_SIE s \<and> st_SPIE s' = st_SPIE s \<and> st_SPP s' = st_SPP s)"
proof (cases "delegated c i h")
  case True
  then have "mode h \<noteq> Machine" by (simp add: delegated_def)
  with assms have "mode_num (mode h) \<le> 1" by (cases "mode h") simp_all
  then show ?thesis using True by (simp add: Let_def trap_S field_simps_bf)
next
  case False
  then show ?thesis using mode_num_le [of "mode h"] by (simp add: Let_def trap_M field_simps_bf)
qed

definition sample_user :: hart where
  "sample_user = (new_hart 0 0x1000)\<lparr>pc := 0x80000100, mode := User,
     csrs := (\<lambda>_. 0)(CSR_MEDELEG := 0x100, CSR_STVEC := 0x80001000, CSR_MTVEC := 0x80002001)\<rparr>"

theorem trap_entry_witness:
  "mode (trap 8 0 False sample_user) = Supervisor \<and> csrs (trap 8 0 False sample_user) CSR_SEPC = 0x80000100 \<and>
   mode (trap 2 0 False sample_user) = Machine \<and> pc (trap 7 0 True sample_user) = 0x8000201C"
proof -
  have m: "mode sample_user \<noteq> Hypervisor" by (simp add: sample_user_def)
  have d: "delegated 8 False sample_user" "\<not> delegated 2 False sample_user" "\<not> delegated 7 True sample_user"
    by (simp_all add: delegated_def sample_user_def)
  show ?thesis
    using trap_entry [OF m, of 8 0 False] trap_entry [OF m, of 2 0 False] trap_entry [OF m, of 7 0 True] d
    by (simp add: Let_def vector_target_def) (simp add: sample_user_def)
qed

definition m_pending :: "hart \<Rightarrow> u64" where
  "m_pending h = ucast (ip h AND ie h) AND NOT (csrs h CSR_MIDELEG)"

definition s_pending :: "hart \<Rightarrow> u64" where
  "s_pending h = ucast (ip h AND ie h) AND csrs h CSR_MIDELEG AND SE_MASK"

definition m_enabled :: "hart \<Rightarrow> bool" where
  "m_enabled h \<longleftrightarrow> mode h \<noteq> Machine \<or> st_MIE (status h) = 1"

definition s_enabled :: "hart \<Rightarrow> bool" where
  "s_enabled h \<longleftrightarrow> mode h = User \<or> mode h = Supervisor \<and> st_SIE (status h) = 1"

lemma check_ints_alt:
  "check_ints h =
     (if m_enabled h \<and> m_pending h \<noteq> 0 then (True, trap (of_nat (63 - clzll (m_pending h))) 0 True h)
      else if s_enabled h \<and> s_pending h \<noteq> 0 then (True, trap (of_nat (63 - clzll (s_pending h))) 0 True h)
      else (False, h))"
proof -
  have s: "(ucast (ip h) AND SE_MASK AND csrs h CSR_MIDELEG) AND (ucast (ie h) AND SE_MASK) = s_pending h"
    by (rule bit_word_eqI) (auto simp: s_pending_def bit_simps)
  have z: "ucast (ip h AND ie h) = (0 :: u64) \<Longrightarrow> m_pending h = 0 \<and> s_pending h = 0"
    by (simp add: m_pending_def s_pending_def)
  have bits: "bf_get k 1 x \<noteq> 0 \<longleftrightarrow> bf_get k 1 x = 1" for k and x :: u64
    using bf_get_1_cases [of k x] by auto
  show ?thesis
    using z bits [of 3 "status h"] bits [of 1 "status h"]
    by (cases "mode h") (simp_all add: check_ints_def Let_def s m_pending_def [symmetric] m_enabled_def s_enabled_def)
qed


definition sample_irq :: hart where
  "sample_irq = sample_user\<lparr>ip := 0xA2, ie := 0xFFFF, csrs := (csrs sample_user)(CSR_MIDELEG := 0x222)\<rparr>"


definition csr_plain :: "u16 \<Rightarrow> bool" where
  "csr_plain c \<longleftrightarrow> c \<notin> {CSR_MSTATUS, CSR_SSTATUS, CSR_SIE, CSR_SIP, CSR_MIE, CSR_MIP, CSR_SATP, CSR_FCSR, CSR_FFLAGS,
     CSR_FRM, CSR_MVENDORID, CSR_MARCHID, CSR_MIMPID, CSR_CYCLE, CSR_MCYCLE, CSR_TIME, CSR_INSTRET, CSR_MINSTRET} \<and>
     \<not> (CSR_HPMCOUNTER3 \<le> c \<and> c \<le> CSR_HPMCOUNTER31)"

definition csr_legal :: "u16 \<Rightarrow> u64 \<Rightarrow> hart \<Rightarrow> u64" where
  "csr_legal c v h =
     (if c = CSR_MSTATUS then (status h AND MSTATUS_RO_MASK) OR (v AND NOT MSTATUS_RO_MASK)
      else if c = CSR_SSTATUS then v AND SSTATUS_MASK
      else if c = CSR_SIE \<or> c = CSR_SIP then v AND SE_MASK
      else if c = CSR_MIE \<or> c = CSR_MIP then v AND 0xFFFF
      else if c = CSR_SATP then (if satp_mode v \<in> {9, 10} then satp h else v)
      else if csr_plain c then v
      else fst (csr_read c h))"

lemma ucast_16_64: "ucast (ucast x :: u16) = x AND 0xFFFF" for x :: u64
proof -
  have "ucast (ucast x :: u16) = x AND mask 16" by (rule bit_word_eqI) (auto simp: bit_simps)
  then show ?thesis by (simp add: mask_eq_exp_minus_1)
qed

lemma csr_read_write_plain: "csr_plain c \<Longrightarrow> fst (csr_read c (csr_write c v h)) = v"
  by (auto simp: csr_plain_def csr_read_def csr_write_def)

lemma masked_write_read: "((x AND NOT m) OR (v AND m)) AND m = v AND m" for x :: "'a::len word"
  by (rule bit_word_eqI) (auto simp: bit_simps)

lemma sstatus_read: "fst (csr_read CSR_SSTATUS (csr_write CSR_SSTATUS v h)) = v AND SSTATUS_MASK"
  using masked_write_read [of "status h" SSTATUS_MASK v] by (simp add: csr_read_def csr_write_def)

lemma se_read:
  "fst (csr_read CSR_SIE (csr_write CSR_SIE v h)) = v AND SE_MASK"
  "fst (csr_read CSR_SIP (csr_write CSR_SIP v h)) = v AND SE_MASK"
proof -
  have "((x AND 0xFFFF) AND SE_MASK) = x AND SE_MASK" for x :: u64 by (simp add: and.assoc)
  then have *: "ucast (ucast (x :: u64) :: u16) AND SE_MASK = x AND SE_MASK" for x by (simp add: ucast_16_64)
  note mw = masked_write_read [of _ SE_MASK v]
  show "fst (csr_read CSR_SIE (csr_write CSR_SIE v h)) = v AND SE_MASK"
       "fst (csr_read CSR_SIP (csr_write CSR_SIP v h)) = v AND SE_MASK"
    using * [of "(ucast (ie h) AND NOT SE_MASK) OR (v AND SE_MASK)"]
      * [of "(ucast (ip h) AND NOT SE_MASK) OR (v AND SE_MASK)"] mw [of "ucast (ie h)"] mw [of "ucast (ip h)"]
    by (simp_all add: csr_read_def csr_write_def)
qed



end
