(* ===== verification/Memory_Map.thy ===== *)
theory Memory_Map
  imports Prelude
begin

unbundle bit_operations_syntax

text \<open>
  Guest memory, include/memory_map.hpp: regions of bytes, the region that serves every address from
  0x80000000 on, and the little-endian loads and stores the page-table walker uses. A host pointer
  into a region is the pair of its index and an offset; bytes beyond the end of the array are
  the value \<open>Inl Vector_index\<close>. A load or store size is in bits, as in the code.
\<close>

section \<open>Bytes\<close>

fun load_bytes :: "(u64 \<Rightarrow> u8) \<Rightarrow> u64 \<Rightarrow> nat \<Rightarrow> u64" where
  "load_bytes p off 0 = 0"
| "load_bytes p off (Suc n) = load_bytes p off n OR push_bit (8 * n) (ucast (p (off + of_nat n)))"

fun store_bytes :: "(u64 \<Rightarrow> u8) \<Rightarrow> u64 \<Rightarrow> nat \<Rightarrow> u64 \<Rightarrow> u64 \<Rightarrow> u8" where
  "store_bytes p off 0 v = p"
| "store_bytes p off (Suc n) v = (store_bytes p off n v)(off + of_nat n := ucast (drop_bit (8 * n) v))"

section \<open>Regions\<close>

record memory_region =
  base_addr :: u64
  rsize :: u64
  rdata :: "u64 \<Rightarrow> u8"

record memory_map =
  regions :: "memory_region list"
  ram_direct :: "nat option"

definition new_region :: "u64 \<Rightarrow> u64 \<Rightarrow> memory_region" where
  "new_region base sz = \<lparr>base_addr = base, rsize = sz, rdata = (\<lambda>_. 0)\<rparr>"

definition empty_map :: memory_map where
  "empty_map = \<lparr>regions = [], ram_direct = None\<rparr>"

definition add_region :: "u64 \<Rightarrow> u64 \<Rightarrow> memory_map \<Rightarrow> memory_map" where
  "add_region base sz m =
     (let m = m\<lparr>regions := regions m @ [new_region base sz]\<rparr> in
      if 0x80000000 \<le> base then m\<lparr>ram_direct := Some (length (regions m) - 1)\<rparr> else m)"

text \<open>\<open>MemoryRegion::ptr\<close>: the offset of a guest address in the region.\<close>

definition region_ptr :: "memory_region \<Rightarrow> u64 \<Rightarrow> u64 result" where
  "region_ptr r addr =
     (if addr < base_addr r \<or> base_addr r + rsize r \<le> addr then Inl Out_of_range
      else Inr (addr - base_addr r))"

fun scan_regions :: "memory_region list \<Rightarrow> nat \<Rightarrow> u64 \<Rightarrow> nat option" where
  "scan_regions [] i addr = None"
| "scan_regions (r # rs) i addr =
     (if base_addr r \<le> addr \<and> addr < base_addr r + rsize r then Some i
      else scan_regions rs (Suc i) addr)"

text \<open>The result is a pointer: \<open>Inr None\<close> is the null pointer.\<close>

definition find_region :: "u64 \<Rightarrow> memory_map \<Rightarrow> nat option result" where
  "find_region addr m =
     (if 0x80000000 \<le> addr then Inr (ram_direct m)
      else case scan_regions (regions m) 0 addr of
             Some i \<Rightarrow> Inr (Some i)
           | None \<Rightarrow> Inl Out_of_range)"

definition guest_ptr :: "u64 \<Rightarrow> memory_map \<Rightarrow> (nat \<times> u64) result" where
  "guest_ptr addr m =
     and_then (find_region addr m) (\<lambda>r.
       case r of
         None \<Rightarrow> Inl Null_pointer
       | Some i \<Rightarrow> and_then (region_ptr (regions m ! i) addr) (\<lambda>off. Inr (i, off)))"

section \<open>Loads and stores\<close>

text \<open>The number of bytes of an access of \<open>size\<close> bits; other sizes throw.\<close>

definition access_bytes :: "u64 \<Rightarrow> nat result" where
  "access_bytes sz =
     (if sz = 8 then Inr 1
      else if sz = 16 then Inr 2
      else if sz = 32 then Inr 4
      else if sz = 64 then Inr 8
      else if sz = 0 \<or> 64 < sz \<or> sz AND 7 \<noteq> 0 then Inl Invalid_argument
      else Inr (unat (drop_bit 3 sz)))"

definition array_ok :: "memory_region \<Rightarrow> u64 \<Rightarrow> nat \<Rightarrow> bool" where
  "array_ok r off n \<longleftrightarrow> unat off + n \<le> unat (rsize r)"

definition mem_load :: "u64 \<Rightarrow> u64 \<Rightarrow> memory_map \<Rightarrow> u64 result" where
  "mem_load addr sz m =
     and_then (guest_ptr addr m) (\<lambda>(i, off).
     and_then (access_bytes sz) (\<lambda>n.
       if array_ok (regions m ! i) off n then Inr (load_bytes (rdata (regions m ! i)) off n)
       else Inl Vector_index))"

definition region_store :: "nat \<Rightarrow> u64 \<Rightarrow> nat \<Rightarrow> u64 \<Rightarrow> memory_map \<Rightarrow> memory_map" where
  "region_store i off n v m =
     m\<lparr>regions := (regions m)[i := (regions m ! i)
        \<lparr>rdata := store_bytes (rdata (regions m ! i)) off n v\<rparr>]\<rparr>"

definition mem_store :: "u64 \<Rightarrow> u64 \<Rightarrow> u64 \<Rightarrow> memory_map \<Rightarrow> memory_map result" where
  "mem_store addr sz v m =
     and_then (guest_ptr addr m) (\<lambda>(i, off).
     and_then (access_bytes sz) (\<lambda>n.
       if array_ok (regions m ! i) off n then Inr (region_store i off n v m)
       else Inl Vector_index))"

text \<open>
  The binary branch of \<open>load_buffer\<close>: \<open>memcpy\<close> of the buffer into the region at \<open>memory_path\<close>.
  ELF images go to the parser of src/elfparser.cpp instead.
\<close>

fun copy_bytes :: "u8 list \<Rightarrow> u64 \<Rightarrow> (u64 \<Rightarrow> u8) \<Rightarrow> u64 \<Rightarrow> u8" where
  "copy_bytes [] off p = p"
| "copy_bytes (b # bs) off p = copy_bytes bs (off + 1) (p(off := b))"

definition load_binary :: "u64 \<Rightarrow> u8 list \<Rightarrow> memory_map \<Rightarrow> memory_map result" where
  "load_binary memory_path buf m =
     and_then (guest_ptr memory_path m) (\<lambda>(i, off).
       if array_ok (regions m ! i) off (length buf)
       then Inr (m\<lparr>regions := (regions m)[i := (regions m ! i)
              \<lparr>rdata := copy_bytes buf off (rdata (regions m ! i))\<rparr>]\<rparr>)
       else Inl Vector_index)"

section \<open>Lemmas on bytes\<close>

lemma bit_load_bytes:
  "bit (load_bytes p off n) k \<longleftrightarrow> k < 64 \<and> k < 8 * n \<and> bit (p (off + of_nat (k div 8))) (k mod 8)"
proof (induction n)
  case (Suc n)
  show ?case
  proof (cases "8 * n \<le> k \<and> k < 8 * Suc n")
    case True
    then have "k div 8 = n" by (auto intro: div_nat_eqI)
    moreover from this have "k mod 8 = k - 8 * n" by (simp add: minus_mult_div_eq_mod [symmetric])
    ultimately show ?thesis using True by (auto simp: Suc bit_simps)
  next
    case False
    then show ?thesis
      using bit_imp_le_length [of "p (off + of_nat n)" "k - 8 * n"] by (auto simp: Suc bit_simps)
  qed
qed simp

lemma store_bytes_outside:
  "(\<And>j. j < n \<Longrightarrow> a \<noteq> off + of_nat j) \<Longrightarrow> store_bytes p off n v a = p a"
  by (induction n) auto

lemma store_bytes_inside:
  "n \<le> 2 ^ 64 \<Longrightarrow> j < n \<Longrightarrow> store_bytes p off n v (off + of_nat j) = ucast (drop_bit (8 * j) v)"
proof (induction n)
  case (Suc n)
  show ?case
  proof (cases "j = n")
    case False
    then have "(of_nat j :: u64) \<noteq> of_nat n"
      using Suc.prems by (subst of_nat_64_eq_iff) auto
    then show ?thesis using Suc False by simp
  qed simp
qed simp

lemma load_store_same: "n \<le> 8 \<Longrightarrow> load_bytes (store_bytes p off n v) off n = v AND mask (8 * n)"
  by (rule bit_word_eqI)
    (auto simp: bit_load_bytes bit_simps store_bytes_inside [of n] less_mult_imp_div_less mult.commute)

lemma load_bytes_cong:
  "(\<And>j. j < n \<Longrightarrow> p (off + of_nat j) = q (off + of_nat j)) \<Longrightarrow> load_bytes p off n = load_bytes q off n"
  by (induction n) auto

lemma scan_regions_bound: "scan_regions rs k addr = Some i \<Longrightarrow> k \<le> i \<and> i < k + length rs"
proof (induction rs arbitrary: k)
  case (Cons r rs)
  then show ?case by (cases "base_addr r \<le> addr \<and> addr < base_addr r + rsize r") force+
qed simp

section \<open>The contract of a byte store\<close>

text \<open>Two byte ranges that share no address, on wrapping addresses.\<close>

definition apart :: "u64 \<Rightarrow> nat \<Rightarrow> u64 \<Rightarrow> nat \<Rightarrow> bool" where
  "apart a n b k \<longleftrightarrow> (\<forall>i < n. \<forall>j < k. a + of_nat i \<noteq> b + of_nat j)"

lemma apart_sym: "apart a n b k \<Longrightarrow> apart b k a n"
  unfolding apart_def by metis

lemma apart_diff: "apart (a - c) n (b - c) k \<longleftrightarrow> apart a n b k"
proof -
  have "a - c + x = b - c + y \<longleftrightarrow> a + x = b + y" for x y :: u64
    by (simp add: diff_add_eq)
  then show ?thesis by (simp add: apart_def)
qed

lemma apart_above:
  assumes "unat a + n \<le> unat b" and "unat b + k \<le> 2 ^ 64"
  shows "apart b k a n"
proof -
  have "unat (c + of_nat i) = unat c + i" if "unat c + i < 2 ^ 64" for c :: u64 and i
    using that by (simp add: unat_word_ariths unat_of_nat_64)
  then have "unat (b + of_nat j) = unat b + j" "unat (a + of_nat i) = unat a + i" if "i < n" "j < k" for i j
    using assms that by simp_all
  then have "b + of_nat j \<noteq> a + of_nat i" if "i < n" "j < k" for i j
    using assms that by (auto dest!: arg_cong [where f = unat])
  then show ?thesis by (simp add: apart_def)
qed

text \<open>
  What the page-table walker and the MMIO bus rely on: accesses inside the memory succeed, a read
  returns the low bytes of what was written there, and a write elsewhere does not change it.
\<close>

locale byte_store =
  fixes inside :: "'m \<Rightarrow> u64 \<Rightarrow> nat \<Rightarrow> bool"
    and rd :: "u64 \<Rightarrow> nat \<Rightarrow> 'm \<Rightarrow> u64 result"
    and wr :: "u64 \<Rightarrow> nat \<Rightarrow> u64 \<Rightarrow> 'm \<Rightarrow> 'm result"
  assumes rd_total: "inside m a n \<Longrightarrow> \<exists>v. rd a n m = Inr v"
    and wr_total: "inside m a n \<Longrightarrow> \<exists>m'. wr a n v m = Inr m'"
    and wr_inside: "inside m a n \<Longrightarrow> wr a n v m = Inr m' \<Longrightarrow> inside m' b k = inside m b k"
    and rd_wr_same: "inside m a n \<Longrightarrow> wr a n v m = Inr m' \<Longrightarrow> rd a n m' = Inr (v AND mask (8 * n))"
    and rd_wr_apart: "inside m a n \<Longrightarrow> inside m b k \<Longrightarrow> apart a n b k \<Longrightarrow>
          wr a n v m = Inr m' \<Longrightarrow> rd b k m' = rd b k m"
begin

fun wr_all :: "(u64 \<times> nat \<times> u64) list \<Rightarrow> 'm \<Rightarrow> 'm result" where
  "wr_all [] m = Inr m"
| "wr_all ((a, n, v) # ws) m = and_then (wr a n v m) (wr_all ws)"

lemma wr_all_frame:
  "inside m b k \<Longrightarrow> \<forall>(a, n, v) \<in> set ws. inside m a n \<and> apart a n b k \<Longrightarrow>
   \<exists>m'. wr_all ws m = Inr m' \<and> rd b k m' = rd b k m \<and> (\<forall>c l. inside m' c l = inside m c l)"
proof (induction ws arbitrary: m)
  case (Cons w ws)
  obtain a n v where w: "w = (a, n, v)" by (cases w)
  with Cons.prems have ia: "inside m a n" and ap: "apart a n b k" by auto
  obtain m1 where m1: "wr a n v m = Inr m1" using wr_total [OF ia] by blast
  have same: "inside m1 c l = inside m c l" for c l using wr_inside [OF ia m1] by blast
  have "\<exists>m'. wr_all ws m1 = Inr m' \<and> rd b k m' = rd b k m1 \<and> (\<forall>c l. inside m' c l = inside m1 c l)"
    using Cons.prems same by (intro Cons.IH) auto
  then obtain m' where "wr_all ws m1 = Inr m'" "rd b k m' = rd b k m1"
      "\<forall>c l. inside m' c l = inside m1 c l" by blast
  with m1 same rd_wr_apart [OF ia Cons.prems(1) ap m1] show ?case by (auto simp: w)
qed simp

lemma rd_after_wr_then_frame:
  assumes "inside m a n" and "\<forall>(b, k, v) \<in> set ws. inside m b k \<and> apart b k a n"
  shows "\<exists>m'. wr_all ((a, n, v) # ws) m = Inr m' \<and> rd a n m' = Inr (v AND mask (8 * n))"
proof -
  obtain m1 where m1: "wr a n v m = Inr m1" using wr_total [OF assms(1)] by blast
  have same: "inside m1 c l = inside m c l" for c l using wr_inside [OF assms(1) m1] by blast
  have "\<exists>m'. wr_all ws m1 = Inr m' \<and> rd a n m' = rd a n m1 \<and> (\<forall>c l. inside m' c l = inside m1 c l)"
    using assms same by (intro wr_all_frame) auto
  with m1 rd_wr_same [OF assms(1) m1] show ?thesis by auto
qed

lemma wr_twice:
  assumes "inside m a n" "wr a n v m = Inr m1" "wr a n v' m1 = Inr m2"
  shows "rd a n m2 = Inr (v' AND mask (8 * n))"
  using assms wr_inside [OF assms(1,2), of a n] by (auto intro: rd_wr_same)

end

section \<open>The memory map meets it\<close>

definition map_inside :: "memory_map \<Rightarrow> u64 \<Rightarrow> nat \<Rightarrow> bool" where
  "map_inside m a n \<longleftrightarrow> n \<in> {1, 2, 4, 8} \<and>
     (case guest_ptr a m of
        Inr (i, off) \<Rightarrow> i < length (regions m) \<and> array_ok (regions m ! i) off n
      | Inl e \<Rightarrow> False)"

abbreviation map_rd :: "u64 \<Rightarrow> nat \<Rightarrow> memory_map \<Rightarrow> u64 result" where
  "map_rd a n m \<equiv> mem_load a (of_nat (8 * n)) m"

abbreviation map_wr :: "u64 \<Rightarrow> nat \<Rightarrow> u64 \<Rightarrow> memory_map \<Rightarrow> memory_map result" where
  "map_wr a n v m \<equiv> mem_store a (of_nat (8 * n)) v m"

lemma access_bytes_simps [simp]:
  "access_bytes 8 = Inr 1" "access_bytes 16 = Inr 2" "access_bytes 32 = Inr 4" "access_bytes 64 = Inr 8"
  by (simp_all add: access_bytes_def)

lemma map_insideE:
  assumes "map_inside m a n"
  obtains i where "n \<le> 8" "access_bytes (of_nat (8 * n)) = Inr n"
    "guest_ptr a m = Inr (i, a - base_addr (regions m ! i))" "i < length (regions m)"
    "array_ok (regions m ! i) (a - base_addr (regions m ! i)) n"
  using assms
  by (force simp: map_inside_def guest_ptr_def region_ptr_def and_then_Inr_iff
      split: sum.splits option.splits if_splits)

lemma same_shape:
  assumes "i < length (regions m)"
  shows "find_region a (region_store i off n v m) = find_region a m"
    and "guest_ptr a (region_store i off n v m) = guest_ptr a m"
    and "base_addr (regions (region_store i off n v m) ! j) = base_addr (regions m ! j)"
    and "rsize (regions (region_store i off n v m) ! j) = rsize (regions m ! j)"
    and "length (regions (region_store i off n v m)) = length (regions m)"
proof -
  have sc: "scan_regions (rs[i := r]) k a = scan_regions rs k a"
    if "i < length rs" "base_addr r = base_addr (rs ! i)" "rsize r = rsize (rs ! i)" for rs i r k
    using that
  proof (induction rs arbitrary: i k)
    case (Cons x rs)
    then show ?case by (cases i) auto
  qed simp
  show fr: "find_region a (region_store i off n v m) = find_region a m"
    using sc [OF assms] by (simp add: find_region_def region_store_def)
  show ba: "base_addr (regions (region_store i off n v m) ! j) = base_addr (regions m ! j)"
    and rs: "rsize (regions (region_store i off n v m) ! j) = rsize (regions m ! j)" for j
    using assms by (cases "j = i", simp_all add: region_store_def)+
  have "region_ptr (regions (region_store i off n v m) ! j) a = region_ptr (regions m ! j) a" for j
    by (simp only: region_ptr_def ba rs)
  then show "guest_ptr a (region_store i off n v m) = guest_ptr a m"
    by (simp only: guest_ptr_def fr)
  show "length (regions (region_store i off n v m)) = length (regions m)"
    by (simp add: region_store_def)
qed

interpretation mm: byte_store map_inside map_rd map_wr
proof
  fix m m' :: memory_map and a b v :: u64 and n k :: nat
  assume ia: "map_inside m a n"
  from ia obtain i where n: "n \<le> 8" "access_bytes (of_nat (8 * n)) = Inr n"
    and g: "guest_ptr a m = Inr (i, a - base_addr (regions m ! i))" and i: "i < length (regions m)"
    and ar: "array_ok (regions m ! i) (a - base_addr (regions m ! i)) n" by (rule map_insideE)
  let ?off = "a - base_addr (regions m ! i)"
  have wr: "map_wr a n v m = Inr (region_store i ?off n v m)"
    using n g i ar by (simp add: mem_store_def)
  show "\<exists>v. map_rd a n m = Inr v" using n g ar by (simp add: mem_load_def)
  show "\<exists>m'. map_wr a n v m = Inr m'" using wr by blast
  assume m': "map_wr a n v m = Inr m'"
  then have eq: "m' = region_store i ?off n v m" using wr by simp
  note shape = same_shape [OF i, where off = ?off and n = n and v = v]
  show "map_inside m' b k = map_inside m b k"
    by (auto simp: eq map_inside_def shape array_ok_def split: sum.split)
  show "map_rd a n m' = Inr (v AND mask (8 * n))"
    using n g ar i load_store_same [OF n(1)]
    by (simp add: eq mem_load_def shape array_ok_def) (simp add: region_store_def)
  assume ib: "map_inside m b k" and ap: "apart a n b k"
  from ib obtain j where k: "access_bytes (of_nat (8 * k)) = Inr k"
    and gb: "guest_ptr b m = Inr (j, b - base_addr (regions m ! j))"
    and arb: "array_ok (regions m ! j) (b - base_addr (regions m ! j)) k" by (rule map_insideE)
  have "load_bytes (rdata (regions m' ! j)) (b - base_addr (regions m ! j)) k =
        load_bytes (rdata (regions m ! j)) (b - base_addr (regions m ! j)) k"
  proof (cases "i = j")
    case True
    then have "apart ?off n (b - base_addr (regions m ! j)) k" using ap by (simp add: apart_diff)
    then have "store_bytes (rdata (regions m ! i)) ?off n v (b - base_addr (regions m ! j) + of_nat l) =
        rdata (regions m ! i) (b - base_addr (regions m ! j) + of_nat l)" if "l < k" for l
      using that by (intro store_bytes_outside) (metis apart_def)
    then show ?thesis using True i by (intro load_bytes_cong) (simp add: eq region_store_def)
  next
    case False
    then show ?thesis by (simp add: eq region_store_def)
  qed
  then show "map_rd b k m' = map_rd b k m"
    using k gb arb by (simp add: mem_load_def eq shape array_ok_def)
qed

end
