(* ===== verification/Mmu.thy ===== *)
theory Mmu
  imports Hart_State Memory_Map
begin

unbundle bit_operations_syntax

text \<open>
  The memory management unit, include/mmu.hpp and include/mmu.inl: bare and machine-mode identity
  mapping, TLB lookup, and the Sv39 page walk with its permission checks, update of the accessed
  and dirty bits, and TLB refill. An address translation returns the memory result, the physical
  address, the hart (its TLB changes) and the memory map (the page table changes). The walk counter
  is not kept.
\<close>

section \<open>Page table entries and virtual addresses\<close>

definition sv39_isvalid :: "u64 \<Rightarrow> bool" where
  "sv39_isvalid raw = (let shifted = signed_drop_bit 38 raw in shifted = 0 \<or> shifted = -1)"

definition get_vpn :: "nat \<Rightarrow> u64 \<Rightarrow> u64" where
  "get_vpn i raw = drop_bit (12 + 9 * i) raw AND 0x1FF"

definition get_solid_ppn :: "u64 \<Rightarrow> u64" where
  "get_solid_ppn raw = drop_bit 10 raw AND 0xFFFFFFFFFFF"

abbreviation pte_V :: "u64 \<Rightarrow> bool" where "pte_V x \<equiv> bit x 0"
abbreviation pte_R :: "u64 \<Rightarrow> bool" where "pte_R x \<equiv> bit x 1"
abbreviation pte_W :: "u64 \<Rightarrow> bool" where "pte_W x \<equiv> bit x 2"
abbreviation pte_X :: "u64 \<Rightarrow> bool" where "pte_X x \<equiv> bit x 3"
abbreviation pte_U :: "u64 \<Rightarrow> bool" where "pte_U x \<equiv> bit x 4"
abbreviation pte_G :: "u64 \<Rightarrow> bool" where "pte_G x \<equiv> bit x 5"
abbreviation pte_A :: "u64 \<Rightarrow> bool" where "pte_A x \<equiv> bit x 6"
abbreviation pte_D :: "u64 \<Rightarrow> bool" where "pte_D x \<equiv> bit x 7"

definition access_fault :: "access_type \<Rightarrow> u8" where
  "access_fault type =
     (case type of LOAD \<Rightarrow> EXC_LOAD_PAGE_FAULT | STORE \<Rightarrow> EXC_STORE_PAGE_FAULT | EXEC \<Rightarrow> EXC_INST_PAGE_FAULT)"

text \<open>Reading and writing an entry: direct RAM access, or the bounds-checked path outside.\<close>

definition pte_in_ram :: "u64 \<Rightarrow> memory_region \<Rightarrow> bool" where
  "pte_in_ram addr r \<longleftrightarrow> base_addr r \<le> addr \<and> addr - base_addr r \<le> rsize r - 64"

definition pte_load :: "u64 \<Rightarrow> memory_map \<Rightarrow> u64 result" where
  "pte_load addr m =
     (case ram_direct m of
        None \<Rightarrow> Inl Null_pointer
      | Some i \<Rightarrow>
          let r = regions m ! i in
          if pte_in_ram addr r then
            if array_ok r (addr - base_addr r) 8 then Inr (load_bytes (rdata r) (addr - base_addr r) 8)
            else Inl Vector_index
          else mem_load addr 64 m)"

definition pte_store :: "u64 \<Rightarrow> u64 \<Rightarrow> memory_map \<Rightarrow> memory_map result" where
  "pte_store addr v m =
     (case ram_direct m of
        None \<Rightarrow> Inl Null_pointer
      | Some i \<Rightarrow>
          let r = regions m ! i in
          if pte_in_ram addr r then
            if array_ok r (addr - base_addr r) 8 then Inr (region_store i (addr - base_addr r) 8 v m)
            else Inl Vector_index
          else mem_store addr 64 v m)"

section \<open>The walk\<close>

text \<open>The outcome of the loop: a page fault, or a leaf with its level, value and address.\<close>

datatype walk_result = Walk_fault | Walk_leaf nat u64 u64

primrec walk :: "nat \<Rightarrow> u64 \<Rightarrow> memory_map \<Rightarrow> u64 \<Rightarrow> walk_result result" where
  "walk 0 va m a =
     (let addr = a + get_vpn 0 va * 8 in
      and_then (pte_load addr m) (\<lambda>pte.
        if \<not> pte_V pte \<or> pte_W pte \<and> \<not> pte_R pte then Inr Walk_fault
        else if pte_R pte \<or> pte_X pte then Inr (Walk_leaf 0 pte addr)
        else Inr Walk_fault))"
| "walk (Suc i) va m a =
     (let addr = a + get_vpn (Suc i) va * 8 in
      and_then (pte_load addr m) (\<lambda>pte.
        if \<not> pte_V pte \<or> pte_W pte \<and> \<not> pte_R pte then Inr Walk_fault
        else if pte_R pte \<or> pte_X pte then Inr (Walk_leaf (Suc i) pte addr)
        else walk i va m (get_solid_ppn pte * 4096)))"

text \<open>The checks on a leaf: superpage alignment, user/supervisor pages, and the access kind.\<close>

definition leaf_allowed :: "access_type \<Rightarrow> nat \<Rightarrow> u64 \<Rightarrow> hart \<Rightarrow> bool" where
  "leaf_allowed type i pte h =
     (if 0 < i \<and> get_solid_ppn pte AND (push_bit (i * 9) 1 - 1) \<noteq> 0 then False
      else if get_effective_mode type h = User \<and> \<not> pte_U pte then False
      else if get_effective_mode type h = Supervisor \<and> pte_U pte \<and> (type = EXEC \<or> st_SUM (status h) = 0) then False
      else case type of
             LOAD \<Rightarrow> pte_R pte \<or> pte_X pte \<and> st_MXR (status h) \<noteq> 0
           | STORE \<Rightarrow> pte_W pte
           | EXEC \<Rightarrow> pte_X pte)"

definition pte_accessed :: "access_type \<Rightarrow> u64 \<Rightarrow> u64" where
  "pte_accessed type pte =
     (if \<not> pte_A pte \<or> type = STORE \<and> \<not> pte_D pte then
        let pte = set_bit 6 pte in if type = STORE then set_bit 7 pte else pte
      else pte)"

definition leaf_perm :: "access_type \<Rightarrow> smc \<Rightarrow> u64 \<Rightarrow> u64 \<Rightarrow> u8" where
  "leaf_perm type s pte pa =
     (let p = (if pte_R pte then PERM_R else 0) OR (if pte_W pte then PERM_W else 0) OR
              (if pte_X pte then PERM_X else 0) OR (if pte_U pte then PERM_U else 0) OR
              (if pte_A pte then PERM_A else 0) OR (if pte_D pte then PERM_D else 0)
      in if was_page_executed pa s \<or> type = EXEC then p AND NOT (PERM_W OR PERM_D) else p)"

text \<open>The host mapping of a page that lies in RAM as a whole: its offset in the RAM array.\<close>

definition host_page_of :: "u64 \<Rightarrow> u64 \<Rightarrow> memory_map \<Rightarrow> u64 option" where
  "host_page_of base sz m =
     (case ram_direct m of
        None \<Rightarrow> None
      | Some i \<Rightarrow>
          let r = regions m ! i in
          if base_addr r \<le> base \<and> base - base_addr r + sz \<le> rsize r then Some (base - base_addr r) else None)"

definition translate_impl :: "access_type \<Rightarrow> u64 \<Rightarrow> smc \<Rightarrow> hart \<Rightarrow> memory_map \<Rightarrow>
    (memory_return \<times> u64 \<times> hart \<times> memory_map) result" where
  "translate_impl type raw_va s h m =
     (if \<not> sv39_isvalid raw_va then Inr (MR False (access_fault type) raw_va, 0, h, m)
      else and_then (walk 2 raw_va m (satp_ppn (satp h) * 4096)) (\<lambda>w.
        case w of
          Walk_fault \<Rightarrow> Inr (MR False (access_fault type) raw_va, 0, h, m)
        | Walk_leaf i pte addr \<Rightarrow>
            if \<not> leaf_allowed type i pte h then Inr (MR False (access_fault type) raw_va, 0, h, m)
            else
              let need_update = (\<not> pte_A pte \<or> type = STORE \<and> \<not> pte_D pte);
                  pte' = pte_accessed type pte
              in and_then (if need_update then pte_store addr pte' m else Inr m) (\<lambda>m.
                let bit_off = 12 + i * 9;
                    vmask = push_bit bit_off 1 - 1;
                    pa = push_bit 12 (get_solid_ppn pte') OR (raw_va AND vmask);
                    pbits = of_nat (12 + i * 9) :: u8;
                    pa_aligned = pa AND NOT (push_bit (unat pbits) 1 - 1);
                    host = host_page_of pa_aligned (push_bit (unat pbits) 1) m;
                    t = tlb_insert s raw_va pa_aligned pbits (leaf_perm type s pte' pa)
                          (ucast (satp_asid (satp h))) (pte_G pte') host (htlb h)
                in Inr (MR True 0 0, pa, h\<lparr>htlb := t\<rparr>, m))))"

definition translate :: "access_type \<Rightarrow> u64 \<Rightarrow> smc \<Rightarrow> hart \<Rightarrow> memory_map \<Rightarrow>
    (memory_return \<times> u64 \<times> hart \<times> memory_map) result" where
  "translate type va s h m =
     (let md = get_effective_mode type h;
          asid = ucast (satp_asid (satp h)) :: u16;
          mxr = (st_MXR (status h) \<noteq> 0);
          sm = (st_SUM (status h) \<noteq> 0)
      in if md = Machine \<or> satp_mode (satp h) = 0 then
           let base = va AND NOT 0xFFF;
               host = host_page_of base 0x1000 m;
               p = PERM_R OR PERM_W OR PERM_X OR PERM_U OR PERM_A OR PERM_D;
               p = (if was_page_executed va s then p AND NOT (PERM_W OR PERM_D) else p)
           in Inr (MR True 0 0, va, h\<lparr>htlb := tlb_insert s va base 12 p asid True host (htlb h)\<rparr>, m)
         else case tlb_lookup va type asid md mxr sm (htlb h) of
                Some pa \<Rightarrow> Inr (MR True 0 0, pa, h, m)
              | None \<Rightarrow>
                  if satp_mode (satp h) = 8 then translate_impl type va s h m
                  else Inl Logic_error)"

section \<open>The walk against the Sv39 specification\<close>

text \<open>
  The leaf of a virtual address as the privileged architecture defines it: from the entry at the
  given level, follow valid pointers until an entry grants read or execute permission.
\<close>

definition pte_valid :: "u64 \<Rightarrow> bool" where
  "pte_valid pte \<longleftrightarrow> pte_V pte \<and> (pte_W pte \<longrightarrow> pte_R pte)"

inductive sv39_leaf :: "memory_map \<Rightarrow> u64 \<Rightarrow> nat \<Rightarrow> u64 \<Rightarrow> nat \<Rightarrow> u64 \<Rightarrow> u64 \<Rightarrow> bool" for m va where
  leaf: "pte_load (a + get_vpn l va * 8) m = Inr pte \<Longrightarrow> pte_valid pte \<Longrightarrow> pte_R pte \<or> pte_X pte \<Longrightarrow>
     sv39_leaf m va l a l pte (a + get_vpn l va * 8)"
| pointer: "pte_load (a + get_vpn (Suc l) va * 8) m = Inr pte \<Longrightarrow> pte_valid pte \<Longrightarrow> \<not> pte_R pte \<Longrightarrow> \<not> pte_X pte \<Longrightarrow>
     sv39_leaf m va l (get_solid_ppn pte * 4096) i leaf_pte addr \<Longrightarrow>
     sv39_leaf m va (Suc l) a i leaf_pte addr"

inductive_simps sv39_leaf_0: "sv39_leaf m va 0 a i pte addr"
inductive_simps sv39_leaf_Suc: "sv39_leaf m va (Suc l) a i pte addr"

definition sv39_permits :: "access_type \<Rightarrow> privilege_mode \<Rightarrow> bool \<Rightarrow> bool \<Rightarrow> nat \<Rightarrow> u64 \<Rightarrow> bool" where
  "sv39_permits type md mxr sm i pte \<longleftrightarrow>
     (\<forall>k < 9 * i. \<not> bit pte (10 + k)) \<and>
     (md = User \<longrightarrow> pte_U pte) \<and>
     (md = Supervisor \<longrightarrow> pte_U pte \<longrightarrow> type \<noteq> EXEC \<and> sm) \<and>
     (case type of LOAD \<Rightarrow> pte_R pte \<or> pte_X pte \<and> mxr | STORE \<Rightarrow> pte_W pte | EXEC \<Rightarrow> pte_X pte)"

definition sv39_canonical :: "u64 \<Rightarrow> bool" where
  "sv39_canonical va \<longleftrightarrow> (\<forall>k. 38 \<le> k \<and> k < 64 \<longrightarrow> bit va k = bit va 38)"

lemma isvalid_canonical: "sv39_isvalid va = sv39_canonical va"
proof -
  let ?d = "signed_drop_bit 38 va"
  have b: "bit ?d n \<longleftrightarrow> n < 64 \<and> bit va (if 26 \<le> n then 63 else 38 + n)" for n
    using bit_signed_drop_bit_iff [of 38 va n] bit_imp_le_length [of va "38 + n"] by auto
  have "?d = 0 \<longleftrightarrow> (\<forall>k. 38 \<le> k \<and> k < 64 \<longrightarrow> \<not> bit va k)"
  proof
    assume z: "?d = 0"
    show "\<forall>k. 38 \<le> k \<and> k < 64 \<longrightarrow> \<not> bit va k"
    proof (intro allI impI)
      fix k :: nat assume k: "38 \<le> k \<and> k < 64"
      have "\<not> bit ?d (k - 38)" by (simp add: z)
      with b [of "k - 38"] k show "\<not> bit va k" by (auto split: if_splits)
    qed
  qed (auto intro!: bit_word_eqI simp: b)
  moreover have "?d = - 1 \<longleftrightarrow> (\<forall>k. 38 \<le> k \<and> k < 64 \<longrightarrow> bit va k)"
  proof
    assume z: "?d = - 1"
    show "\<forall>k. 38 \<le> k \<and> k < 64 \<longrightarrow> bit va k"
    proof (intro allI impI)
      fix k :: nat assume k: "38 \<le> k \<and> k < 64"
      have "bit ?d (k - 38)" using k by (auto simp: z)
      with b [of "k - 38"] k show "bit va k" by (auto split: if_splits)
    qed
  qed (auto intro!: bit_word_eqI simp: b)
  ultimately show ?thesis by (auto simp: sv39_isvalid_def sv39_canonical_def Let_def)
qed

lemma walk_leaf_iff:
  "walk l va m a = Inr (Walk_leaf i pte addr) \<longleftrightarrow> sv39_leaf m va l a i pte addr"
proof (induction l arbitrary: a)
  case 0
  show ?case by (auto simp: sv39_leaf_0 Let_def and_then_Inr_iff pte_valid_def)
next
  case (Suc l)
  show ?case by (auto simp: sv39_leaf_Suc Let_def and_then_Inr_iff pte_valid_def Suc split: if_splits)
qed

lemma bit_solid_ppn: "bit (get_solid_ppn pte) k \<longleftrightarrow> k < 44 \<and> bit pte (10 + k)"
proof -
  have "get_solid_ppn pte = drop_bit 10 pte AND mask 44" by (simp add: get_solid_ppn_def mask_eq_exp_minus_1)
  then show ?thesis by (auto simp: bit_simps)
qed

lemma leaf_allowed_permits:
  assumes "i \<le> 2"
  shows "leaf_allowed type i pte h =
    sv39_permits type (get_effective_mode type h) (st_MXR (status h) \<noteq> 0) (st_SUM (status h) \<noteq> 0) i pte"
proof -
  have m: "push_bit (i * 9) 1 - 1 = (mask (9 * i) :: u64)"
    by (simp add: mask_eq_exp_minus_1 push_bit_eq_mult mult.commute)
  define P where "P \<longleftrightarrow> (\<forall>k < 9 * i. \<not> bit pte (10 + k))"
  have al: "get_solid_ppn pte AND mask (9 * i) = 0 \<longleftrightarrow> P"
  proof -
    have "k < 9 * i \<Longrightarrow> k < 44 \<and> k < 64" for k using assms by linarith
    then show ?thesis by (auto simp: P_def bit_eq_iff bit_simps bit_solid_ppn)
  qed
  have "i = 0 \<Longrightarrow> P" by (simp add: P_def)
  then show ?thesis
    unfolding leaf_allowed_def sv39_permits_def m al P_def [symmetric] by (cases type) auto
qed

lemma sv39_leaf_level: "sv39_leaf m va l a i pte addr \<Longrightarrow> i \<le> l"
  by (induction rule: sv39_leaf.induct) auto

lemma sv39_leaf_load: "sv39_leaf m va l a i pte addr \<Longrightarrow> pte_load addr m = Inr pte"
  by (induction rule: sv39_leaf.induct) auto

section \<open>The page table update\<close>

lemma pte_store_load:
  assumes wf: "\<And>i. ram_direct m = Some i \<Longrightarrow> i < length (regions m)"
    and st: "pte_store addr v m = Inr m'"
  shows "pte_load addr m' = Inr v"
proof (cases "ram_direct m")
  case None
  then show ?thesis using st by (simp add: pte_store_def)
next
  case (Some i)
  let ?r = "regions m ! i"
  have i: "i < length (regions m)" using wf Some by blast
  show ?thesis
  proof (cases "pte_in_ram addr ?r")
    case True
    then have ar: "array_ok ?r (addr - base_addr ?r) 8" and m': "m' = region_store i (addr - base_addr ?r) 8 v m"
      using st Some by (auto simp: pte_store_def Let_def split: if_splits)
    have "load_bytes (store_bytes (rdata ?r) (addr - base_addr ?r) 8 v) (addr - base_addr ?r) 8 = v"
      using load_store_same [of 8 "rdata ?r" "addr - base_addr ?r" v] by simp
    then show ?thesis
      using Some True ar i by (simp add: m' pte_load_def pte_in_ram_def array_ok_def region_store_def)
  next
    case False
    then have s: "mem_store addr 64 v m = Inr m'" using st Some by (auto simp: pte_store_def Let_def)
    then obtain j off where g: "guest_ptr addr m = Inr (j, off)"
      and ar: "array_ok (regions m ! j) off 8" and m': "m' = region_store j off 8 v m"
      by (auto simp: mem_store_def and_then_Inr_iff split: if_splits)
    have j: "j < length (regions m)"
      using g i Some wf by (auto simp: guest_ptr_def find_region_def and_then_Inr_iff
          split: if_splits option.splits dest: scan_regions_bound)
    then have "map_inside m addr 8" using g ar by (simp add: map_inside_def)
    then have "mem_load addr 64 m' = Inr v"
      using mm.rd_wr_same [of m addr 8 v m'] s by simp
    moreover have "ram_direct m' = Some i" "pte_in_ram addr (regions m' ! i) = pte_in_ram addr ?r"
      using Some same_shape [OF j, where off = off and n = 8 and v = v]
      by (simp_all add: m' pte_in_ram_def) (simp add: region_store_def)
    ultimately show ?thesis using False by (simp add: pte_load_def)
  qed
qed

lemma bit_pte_accessed:
  "bit (pte_accessed type pte) k \<longleftrightarrow> bit pte k \<or> k = 6 \<or> k = 7 \<and> type = STORE"
  by (auto simp: pte_accessed_def Let_def bit_simps bit_set_bit_iff)

lemma pte_accessed_same: "\<not> (\<not> pte_A pte \<or> type = STORE \<and> \<not> pte_D pte) \<Longrightarrow> pte_accessed type pte = pte"
  by (auto simp: pte_accessed_def)

lemma solid_ppn_accessed: "get_solid_ppn (pte_accessed type pte) = get_solid_ppn pte"
  by (rule bit_word_eqI) (simp add: bit_solid_ppn bit_pte_accessed)

lemma sv39_pa_bits:
  assumes pa: "pa = push_bit 12 (get_solid_ppn pte) OR (va AND (push_bit (12 + i * 9) 1 - 1))"
    and al: "\<forall>k < 9 * i. \<not> bit pte (10 + k)" and i: "i \<le> 2"
  shows "bit pa k \<longleftrightarrow> (if k < 12 + 9 * i then bit va k else k < 56 \<and> bit pte (k - 2))"
proof -
  have m: "push_bit (12 + i * 9) 1 - 1 = (mask (12 + 9 * i) :: u64)"
    by (simp add: mask_eq_exp_minus_1 push_bit_eq_mult mult.commute)
  have pb: "bit pa k \<longleftrightarrow> k < 64 \<and> (12 \<le> k \<and> k - 12 < 44 \<and> bit pte (10 + (k - 12)) \<or> bit va k \<and> k < 12 + 9 * i)"
    unfolding pa m by (auto simp: bit_simps bit_solid_ppn dest: bit_imp_le_length)
  show ?thesis
  proof (cases "k < 12 + 9 * i")
    case True
    then have "12 \<le> k \<Longrightarrow> \<not> bit pte (10 + (k - 12))" using al [rule_format, of "k - 12"] by linarith
    then show ?thesis using True pb by (auto dest: bit_imp_le_length)
  next
    case False
    then have "10 + (k - 12) = k - 2" "k - 12 < 44 \<longleftrightarrow> k < 56" by linarith+
    then show ?thesis using False pb by auto
  qed
qed

section \<open>Properties\<close>

text \<open>
  C3. The Sv39 page walk implements the privileged architecture. A translation succeeds exactly when
  the address is canonical and its page-table walk reaches a leaf that permits the access in the
  effective mode (user and supervisor pages, SUM, MXR, aligned superpages). Then the physical
  address has the page bits of the leaf and the offset bits of the address, and the leaf in memory
  afterwards is the old one with the accessed bit, and for stores the dirty bit, set. Otherwise
  the result is the page fault of the access kind with the faulting address, and hart and memory are
  unchanged.
\<close>

theorem sv39_translation:
  assumes tr: "translate_impl type va s h m = Inr (r, pa, h', m')"
    and wf: "\<forall>i. ram_direct m = Some i \<longrightarrow> i < length (regions m)"
  shows "let root = satp_ppn (satp h) * 4096;
             permits = sv39_permits type (get_effective_mode type h) (st_MXR (status h) \<noteq> 0) (st_SUM (status h) \<noteq> 0)
    in if sv39_canonical va \<and> (\<exists>i pte addr. sv39_leaf m va 2 root i pte addr \<and> permits i pte)
    then r = MR True 0 0 \<and> (\<exists>i pte addr pte'. sv39_leaf m va 2 root i pte addr \<and> permits i pte \<and>
           (\<forall>k. bit pa k \<longleftrightarrow> (if k < 12 + 9 * i then bit va k else k < 56 \<and> bit pte (k - 2))) \<and>
           pte_load addr m' = Inr pte' \<and>
           (\<forall>k. bit pte' k \<longleftrightarrow> bit pte k \<or> k = 6 \<or> k = 7 \<and> type = STORE))
    else r = MR False (access_fault type) va \<and> pa = 0 \<and> h' = h \<and> m' = m"
proof -
  let ?root = "satp_ppn (satp h) * 4096"
  let ?permits = "sv39_permits type (get_effective_mode type h) (st_MXR (status h) \<noteq> 0) (st_SUM (status h) \<noteq> 0)"
  have fault: ?thesis if "r = MR False (access_fault type) va \<and> pa = 0 \<and> h' = h \<and> m' = m"
      "\<not> (sv39_canonical va \<and> (\<exists>i pte addr. sv39_leaf m va 2 ?root i pte addr \<and> ?permits i pte))"
    using that by (simp add: Let_def)
  show ?thesis
  proof (cases "sv39_canonical va")
    case False
    then show ?thesis using tr fault by (simp add: translate_impl_def isvalid_canonical)
  next
    case True
    then obtain w where w: "walk 2 va m ?root = Inr w"
      using tr by (auto simp: translate_impl_def isvalid_canonical and_then_Inr_iff)
    show ?thesis
    proof (cases w)
      case Walk_fault
      then have "\<not> (\<exists>i pte addr. sv39_leaf m va 2 ?root i pte addr)"
        using w by (simp add: walk_leaf_iff [symmetric])
      then show ?thesis using tr fault w Walk_fault True by (simp add: translate_impl_def isvalid_canonical)
    next
      case (Walk_leaf i pte addr)
      have leaf: "sv39_leaf m va 2 ?root i pte addr" using w Walk_leaf by (simp add: walk_leaf_iff [symmetric])
      have only: "sv39_leaf m va 2 ?root j q b \<longleftrightarrow> j = i \<and> q = pte \<and> b = addr" for j q b
        using w Walk_leaf by (auto simp: walk_leaf_iff [symmetric])
      have i: "i \<le> 2" using sv39_leaf_level [OF leaf] .
      note al = leaf_allowed_permits [OF i, of type pte h]
      show ?thesis
      proof (cases "?permits i pte")
        case False
        then have "\<not> leaf_allowed type i pte h" using al by simp
        then show ?thesis using tr fault w Walk_leaf True only False
          by (simp add: translate_impl_def isvalid_canonical)
      next
        case perm: True
        then have la: "leaf_allowed type i pte h" using al by simp
        let ?upd = "\<not> pte_A pte \<or> type = STORE \<and> \<not> pte_D pte"
        have m': "(if ?upd then pte_store addr (pte_accessed type pte) m else Inr m) = Inr m'"
          and r: "r = MR True 0 0"
          and pa: "pa = push_bit 12 (get_solid_ppn pte) OR (va AND (push_bit (12 + i * 9) 1 - 1))"
          using tr w Walk_leaf True la
          by (auto simp: translate_impl_def isvalid_canonical and_then_Inr_iff Let_def solid_ppn_accessed)
        have ld: "pte_load addr m' = Inr (pte_accessed type pte)"
        proof (cases ?upd)
          case True
          then show ?thesis using m' wf by (intro pte_store_load [of m]) auto
        next
          case False
          then show ?thesis
            using m' sv39_leaf_load [OF leaf] pte_accessed_same [of pte type] by auto
        qed
        have pb: "bit pa k \<longleftrightarrow> (if k < 12 + 9 * i then bit va k else k < 56 \<and> bit pte (k - 2))" for k
          using perm i by (intro sv39_pa_bits [OF pa]) (simp_all add: sv39_permits_def)
        have ok: "sv39_canonical va \<and> (\<exists>i pte addr. sv39_leaf m va 2 ?root i pte addr \<and> ?permits i pte)"
          using leaf perm True by blast
        have "\<exists>i pte addr pte'. sv39_leaf m va 2 ?root i pte addr \<and> ?permits i pte \<and>
            (\<forall>k. bit pa k \<longleftrightarrow> (if k < 12 + 9 * i then bit va k else k < 56 \<and> bit pte (k - 2))) \<and>
            pte_load addr m' = Inr pte' \<and> (\<forall>k. bit pte' k \<longleftrightarrow> bit pte k \<or> k = 6 \<or> k = 7 \<and> type = STORE)"
          using leaf perm ld pb bit_pte_accessed [of type pte] by blast
        with r show ?thesis unfolding Let_def if_P [OF ok] by (rule conjI)
      qed
    qed
  qed
qed

definition sample_ram :: memory_map where
  "sample_ram = \<lparr>regions = [\<lparr>base_addr = 0x80000000, rsize = 0x4000,
     rdata = (\<lambda>_. 0)(0x1000 := 0x0F, 0x1003 := 0x20)\<rparr>], ram_direct = Some 0\<rparr>"

definition sample_paged :: hart where
  "sample_paged = (new_hart 0 0x4000)\<lparr>mode := Supervisor, satp := 0x8000000000080001\<rparr>"

lemma sample_walk:
  "walk 2 0x1008 sample_ram 0x80001000 = Inr (Walk_leaf 2 0x2000000F 0x80001000)"
proof -
  have eight: "load_bytes p off 8 = ucast (p off) OR push_bit 8 (ucast (p (off + 1))) OR
      push_bit 16 (ucast (p (off + 2))) OR push_bit 24 (ucast (p (off + 3))) OR
      push_bit 32 (ucast (p (off + 4))) OR push_bit 40 (ucast (p (off + 5))) OR
      push_bit 48 (ucast (p (off + 6))) OR push_bit 56 (ucast (p (off + 7)))" for p off
    by (simp add: numeral_eq_Suc [of "Num.Bit0 (Num.Bit0 (Num.Bit0 Num.One))"] numeral_eq_Suc or.assoc)
  have "pte_load 0x80001000 sample_ram = Inr 0x2000000F"
    by (simp add: pte_load_def sample_ram_def pte_in_ram_def array_ok_def eight)
  moreover have "get_vpn (Suc (Suc 0)) 0x1008 = 0" by (simp add: get_vpn_def)
  ultimately have "walk (Suc (Suc 0)) 0x1008 sample_ram 0x80001000 =
      Inr (Walk_leaf (Suc (Suc 0)) 0x2000000F 0x80001000)" by simp
  then show ?thesis by (simp only: numeral_2_eq_2)
qed

theorem sv39_translation_witness:
  "\<exists>i pte addr. sv39_leaf sample_ram 0x1008 2 0x80001000 i pte addr \<and>
     sv39_permits LOAD Supervisor False False i pte"
proof -
  have st: "satp_ppn (satp sample_paged) * 4096 = 0x80001000" "get_effective_mode LOAD sample_paged = Supervisor"
      "st_MXR (status sample_paged) = 0" "st_SUM (status sample_paged) = 0"
    by (simp_all add: sample_paged_def new_hart_def bf_get_def mask_eq_exp_minus_1 get_effective_mode_def)
  have al: "leaf_allowed LOAD 2 0x2000000F sample_paged"
    by (simp add: leaf_allowed_def st get_solid_ppn_def)
  have "\<exists>m'. pte_store 0x80001000 (pte_accessed LOAD 0x2000000F) sample_ram = Inr m'"
    by (simp add: pte_store_def sample_ram_def pte_in_ram_def array_ok_def)
  then obtain pa h' m' where tr: "translate_impl LOAD 0x1008 smc_init sample_paged sample_ram = Inr (MR True 0 0, pa, h', m')"
    using al by (auto simp: translate_impl_def st sample_walk sv39_isvalid_def Let_def)
  have wf: "\<forall>i. ram_direct sample_ram = Some i \<longrightarrow> i < length (regions sample_ram)" by (simp add: sample_ram_def)
  show ?thesis
    using sv39_translation [OF tr wf] unfolding st Let_def by (auto split: if_splits)
qed

text \<open>
  What the identity mapping leaves behind: a machine-mode access seeds the TLB with a global entry
  that a user-mode lookup of the same virtual address then hits, whatever the page table says.
\<close>

theorem machine_fill_visible_to_user:
  assumes "mode h = Machine" and "st_MPRV (status h) = 0"
  shows "\<exists>h'. translate LOAD va s h m = Inr (MR True 0 0, va, h', m) \<and>
    tlb_lookup va LOAD asid User mxr sm (htlb h') = Some va"
proof -
  have va: "(va AND NOT 0xFFF) OR (va AND 0xFFF) = va" by (rule bit_word_eqI) (auto simp: bit_simps)
  have md: "get_effective_mode LOAD h = Machine" using assms by (simp add: get_effective_mode_def)
  show ?thesis
    using va by (auto simp: translate_def md Let_def tlb_lookup_def tlb_insert_def frame_simps
        page_mask_of_def lookup_perm_def and.assoc)
qed

theorem machine_fill_visible_to_user_witness:
  "\<exists>h'. translate LOAD 0x80001000 smc_init ((new_hart 0 0x4000)\<lparr>mode := Machine\<rparr>) sample_ram =
      Inr (MR True 0 0, 0x80001000, h', sample_ram) \<and>
    tlb_lookup 0x80001000 LOAD 0 User False False (htlb h') = Some 0x80001000"
  by (rule machine_fill_visible_to_user) (simp_all add: new_hart_def bf_get_def)

end
