(* ===== verification/Plic.thy ===== *)
theory Plic
  imports Hart_State
begin

unbundle bit_operations_syntax

text \<open>
  The platform-level interrupt controller, include/devices/plic.hpp and src/devices/plic.cpp:
  priorities, pending and enable bits, claim and complete, and the external interrupt lines of the
  harts. Its operations work on the controller and the list of harts whose \<open>ip\<close> register they drive;
  an index outside a vector, or a hart the machine does not have, is an \<open>Inl\<close> value. The
  device-tree nodes that the constructor emits are not part of the state.
\<close>

section \<open>State\<close>

record plic_context =
  threshold :: u32
  enables :: "u32 list"
  hart_id :: nat
  supervisor_mode :: bool
  interrupt_line :: bool

record plic =
  plic_start :: u64
  max_sources :: u32
  num_contexts :: u32
  pending_words_count :: u32
  enable_words_count :: u32
  last_irq_registered :: u32
  priorities :: "u32 list"
  pending_words :: "u32 list"
  contexts :: "plic_context list"

type_synonym 'd board_op = "'d \<Rightarrow> hart list \<Rightarrow> ('d \<times> hart list) result"

definition word_count :: "u32 \<Rightarrow> u32" where
  "word_count n = (n + 31) div 32"

definition new_context :: "u32 \<Rightarrow> nat \<Rightarrow> plic_context" where
  "new_context words i = \<lparr>threshold = 0, enables = replicate (unat words) 0, hart_id = i div 2,
     supervisor_mode = (i mod 2 = 1), interrupt_line = False\<rparr>"

text \<open>The constructor, and \<open>init_auto\<close>, which fixes 64 sources.\<close>

definition new_plic :: "u64 \<Rightarrow> nat \<Rightarrow> u32 \<Rightarrow> plic" where
  "new_plic start_a hart_count sources =
     \<lparr>plic_start = start_a, max_sources = sources, num_contexts = of_nat (hart_count * 2),
      pending_words_count = word_count sources, enable_words_count = word_count sources,
      last_irq_registered = 1, priorities = replicate (unat sources + 1) 0,
      pending_words = replicate (unat (word_count sources)) 0,
      contexts = map (new_context (word_count sources)) [0..<hart_count * 2]\<rparr>"

definition plic_init_auto :: "nat \<Rightarrow> plic" where
  "plic_init_auto hart_count = new_plic 0x0C000000 hart_count 64"

definition acquire_irq :: "plic \<Rightarrow> u32 \<times> plic" where
  "acquire_irq p = (last_irq_registered p, p\<lparr>last_irq_registered := last_irq_registered p + 1\<rparr>)"

section \<open>Arbitration\<close>

text \<open>
  The body of the inner loop of \<open>find_highest_pending_enabled\<close> for one source, and the loop over the
  set bits of a word; the accumulator is \<open>(best_id, best_priority)\<close>.
\<close>

definition consider_source :: "plic \<Rightarrow> u32 \<Rightarrow> u32 \<Rightarrow> u32 \<times> u32 \<Rightarrow> (u32 \<times> u32) result" where
  "consider_source p th i = (\<lambda>(best_id, best_priority).
     if i \<noteq> 0 \<and> i \<le> max_sources p then
       and_then (vec_at (priorities p) (unat i)) (\<lambda>prio.
         if th < prio \<and> (best_priority < prio \<or> prio = best_priority \<and> i < best_id) then Inr (i, prio)
         else Inr (best_id, best_priority))
     else Inr (best_id, best_priority))"

function scan_active :: "plic \<Rightarrow> u32 \<Rightarrow> u32 \<Rightarrow> u32 \<Rightarrow> u32 \<times> u32 \<Rightarrow> (u32 \<times> u32) result" where
  "scan_active p th w active best =
     (if active = 0 then Inr best
      else case consider_source p th (w * 32 + of_nat (countr_zero active)) best of
             Inl e \<Rightarrow> Inl e
           | Inr best' \<Rightarrow> scan_active p th w (active AND (active - 1)) best')"
  by pat_completeness auto
termination
  by (relation "measure (\<lambda>(p, th, w, active, best). unat active)") (auto simp: drop_lowest_less)

declare scan_active.simps [simp del]

definition scan_word :: "plic \<Rightarrow> plic_context \<Rightarrow> nat \<Rightarrow> u32 \<times> u32 \<Rightarrow> (u32 \<times> u32) result" where
  "scan_word p ctx w best =
     and_then (vec_at (pending_words p) w) (\<lambda>pw.
     and_then (vec_at (enables ctx) w) (\<lambda>en.
       scan_active p (threshold ctx) (of_nat w) (pw AND en) best))"

definition find_highest_pending_enabled :: "plic \<Rightarrow> nat \<Rightarrow> u32 result" where
  "find_highest_pending_enabled p ctx_idx =
     and_then (vec_at (contexts p) ctx_idx) (\<lambda>ctx.
     and_then (fold (\<lambda>w acc. and_then acc (scan_word p ctx w))
                 [0..<unat (word_count (max_sources p))] (Inr (0, 0)))
       (\<lambda>(best_id, best_priority). Inr best_id))"

section \<open>Interrupt lines\<close>

definition signal_cpu_interrupt :: "nat \<Rightarrow> bool \<Rightarrow> bool \<Rightarrow> hart list \<Rightarrow> hart list result" where
  "signal_cpu_interrupt i supervisor level harts =
     (if 64 \<le> i then Inr harts
      else if length harts \<le> i then Inl Out_of_range
      else let h = harts ! i; lv = (if level then 1 else 0) in
        Inr (harts[i := (if supervisor then h\<lparr>ip := set_SEIP lv (ip h)\<rparr>
                         else h\<lparr>ip := set_MEIP lv (ip h)\<rparr>)]))"

definition update_context :: "nat \<Rightarrow> plic board_op" where
  "update_context ctx_idx p harts =
     and_then (vec_at (contexts p) ctx_idx) (\<lambda>ctx.
     and_then (find_highest_pending_enabled p ctx_idx) (\<lambda>best.
       let should_raise = (best \<noteq> 0) in
       if should_raise \<noteq> interrupt_line ctx then
         and_then (signal_cpu_interrupt (hart_id ctx) (supervisor_mode ctx) should_raise harts) (\<lambda>harts'.
           Inr (p\<lparr>contexts := (contexts p)[ctx_idx := ctx\<lparr>interrupt_line := should_raise\<rparr>]\<rparr>, harts'))
       else Inr (p, harts)))"

definition update_all_contexts :: "plic board_op" where
  "update_all_contexts p harts =
     fold (\<lambda>i acc. and_then acc (\<lambda>(p, harts). update_context i p harts))
       [0..<unat (num_contexts p)] (Inr (p, harts))"

definition set_pending :: "u32 \<Rightarrow> bool \<Rightarrow> plic board_op" where
  "set_pending source_id pending p harts =
     (if source_id = 0 \<or> max_sources p < source_id then Inr (p, harts)
      else let word_idx = unat (source_id div 32); bit_mask = push_bit (unat (source_id mod 32)) 1 in
        and_then (vec_at (pending_words p) word_idx) (\<lambda>pw.
        let pw' = (if pending then pw OR bit_mask else pw AND NOT bit_mask) in
        update_all_contexts (p\<lparr>pending_words := (pending_words p)[word_idx := pw']\<rparr>) harts))"

definition clear_pending_bit :: "u32 \<Rightarrow> plic \<Rightarrow> plic result" where
  "clear_pending_bit i p =
     (let word = unat (i div 32); b = unat (i mod 32) in
      and_then (vec_at (pending_words p) word) (\<lambda>pw.
        Inr (p\<lparr>pending_words := (pending_words p)[word := pw AND NOT (push_bit b 1)]\<rparr>)))"

definition claim_interrupt :: "nat \<Rightarrow> plic \<Rightarrow> hart list \<Rightarrow> (u32 \<times> plic \<times> hart list) result" where
  "claim_interrupt ctx_idx p harts =
     and_then (find_highest_pending_enabled p ctx_idx) (\<lambda>i.
       if i \<noteq> 0 then
         and_then (clear_pending_bit i p) (\<lambda>p.
         and_then (update_context ctx_idx p harts) (\<lambda>(p, harts). Inr (i, p, harts)))
       else Inr (i, p, harts))"

definition complete_interrupt :: "nat \<Rightarrow> u32 \<Rightarrow> plic board_op" where
  "complete_interrupt ctx_idx i p harts =
     (if i = 0 \<or> max_sources p < i then Inr (p, harts)
      else and_then (clear_pending_bit i p) (\<lambda>p. update_context ctx_idx p harts))"

section \<open>Registers\<close>

definition plic_read :: "u64 \<Rightarrow> memory_size \<Rightarrow> plic \<Rightarrow> hart list \<Rightarrow> (u64 \<times> plic \<times> hart list) result" where
  "plic_read addr sz p harts =
     (let offset = addr - plic_start p in
      if sz \<noteq> MS_Int then Inr (0, p, harts)
      else if offset < 0x1000 then
        (let idx = ucast (offset div 4) :: u32 in
         if 1 \<le> idx \<and> idx \<le> max_sources p
         then and_then (vec_at (priorities p) (unat idx)) (\<lambda>v. Inr (ucast v, p, harts))
         else Inr (0, p, harts))
      else if 0x1000 \<le> offset \<and> offset < 0x1080 then
        (let word_idx = ucast ((offset - 0x1000) div 4) :: u32 in
         if word_idx < pending_words_count p
         then and_then (vec_at (pending_words p) (unat word_idx)) (\<lambda>v. Inr (ucast v, p, harts))
         else Inr (0, p, harts))
      else if 0x2000 \<le> offset \<and> offset < 0x200000 then
        (let ctx_idx = ucast ((offset - 0x2000) div 0x80) :: u32;
             word_offset = ucast (((offset - 0x2000) mod 0x80) div 4) :: u32 in
         if num_contexts p \<le> ctx_idx then Inr (0, p, harts)
         else if word_offset < enable_words_count p
         then and_then (vec_at (contexts p) (unat ctx_idx)) (\<lambda>ctx.
              and_then (vec_at (enables ctx) (unat word_offset)) (\<lambda>v. Inr (ucast v, p, harts)))
         else Inr (0, p, harts))
      else if 0x200000 \<le> offset \<and> offset < ucast (0x200000 + num_contexts p * 0x1000) then
        (let ctx_idx = ucast ((offset - 0x200000) div 0x1000) :: u32;
             sub_offset = ucast ((offset - 0x200000) mod 0x1000) :: u32 in
         if num_contexts p \<le> ctx_idx then Inr (0, p, harts)
         else if sub_offset = 0
         then and_then (vec_at (contexts p) (unat ctx_idx)) (\<lambda>ctx. Inr (ucast (threshold ctx), p, harts))
         else if sub_offset = 4
         then and_then (claim_interrupt (unat ctx_idx) p harts) (\<lambda>(i, p, harts). Inr (ucast i, p, harts))
         else Inr (0, p, harts))
      else Inr (0, p, harts))"

definition plic_write :: "u64 \<Rightarrow> memory_size \<Rightarrow> u64 \<Rightarrow> plic board_op" where
  "plic_write addr sz v p harts =
     (let offset = addr - plic_start p in
      if sz \<noteq> MS_Int then Inr (p, harts)
      else if offset < 0x1000 then
        (let idx = ucast (offset div 4) :: u32 in
         if 1 \<le> idx \<and> idx \<le> max_sources p then
           and_then (vec_put (priorities p) (unat idx) (ucast (v AND 0x7FFFFFFF))) (\<lambda>prios.
             update_all_contexts (p\<lparr>priorities := prios\<rparr>) harts)
         else Inr (p, harts))
      else if 0x1000 \<le> offset \<and> offset < 0x1080 then Inr (p, harts)
      else if 0x2000 \<le> offset \<and> offset < 0x200000 then
        (let ctx_idx = ucast ((offset - 0x2000) div 0x80) :: u32;
             word_offset = ucast (((offset - 0x2000) mod 0x80) div 4) :: u32 in
         if num_contexts p \<le> ctx_idx then Inr (p, harts)
         else if word_offset < enable_words_count p then
           and_then (vec_at (contexts p) (unat ctx_idx)) (\<lambda>ctx.
           and_then (vec_put (enables ctx) (unat word_offset) (ucast v)) (\<lambda>ens.
             update_context (unat ctx_idx)
               (p\<lparr>contexts := (contexts p)[unat ctx_idx := ctx\<lparr>enables := ens\<rparr>]\<rparr>) harts))
         else Inr (p, harts))
      else if 0x200000 \<le> offset \<and> offset < ucast (0x200000 + num_contexts p * 0x1000) then
        (let ctx_idx = ucast ((offset - 0x200000) div 0x1000) :: u32;
             sub_offset = ucast ((offset - 0x200000) mod 0x1000) :: u32 in
         if num_contexts p \<le> ctx_idx then Inr (p, harts)
         else if sub_offset = 0 then
           and_then (vec_at (contexts p) (unat ctx_idx)) (\<lambda>ctx.
             update_context (unat ctx_idx)
               (p\<lparr>contexts := (contexts p)[unat ctx_idx := ctx\<lparr>threshold := ucast (v AND 0x7FFFFFFF)\<rparr>]\<rparr>) harts)
         else if sub_offset = 4 then complete_interrupt (unat ctx_idx) (ucast v) p harts
         else Inr (p, harts))
      else Inr (p, harts))"

section \<open>Arbitration against its specification\<close>

text \<open>The shape that construction establishes and every operation keeps.\<close>

definition plic_wf :: "plic \<Rightarrow> bool" where
  "plic_wf p \<longleftrightarrow> unat (max_sources p) < 2 ^ 31 \<and>
     length (priorities p) = unat (max_sources p) + 1 \<and>
     length (pending_words p) = unat (word_count (max_sources p)) \<and>
     (\<forall>ctx \<in> set (contexts p). length (enables ctx) = unat (word_count (max_sources p)))"

definition source_bit :: "u32 list \<Rightarrow> nat \<Rightarrow> bool" where
  "source_bit ws i \<longleftrightarrow> i div 32 < length ws \<and> bit (ws ! (i div 32)) (i mod 32)"

text \<open>The sources a context may see: pending, enabled and above its threshold.\<close>

definition candidate :: "plic \<Rightarrow> plic_context \<Rightarrow> nat \<Rightarrow> bool" where
  "candidate p ctx i \<longleftrightarrow> 0 < i \<and> i \<le> unat (max_sources p) \<and>
     source_bit (pending_words p) i \<and> source_bit (enables ctx) i \<and> threshold ctx < priorities p ! i"

definition best_of :: "plic \<Rightarrow> nat set \<Rightarrow> u32 \<times> u32 \<Rightarrow> bool" where
  "best_of p S b \<longleftrightarrow>
     (if S = {} then b = (0, 0)
      else unat (fst b) \<in> S \<and> snd b = priorities p ! unat (fst b) \<and>
        (\<forall>j \<in> S. priorities p ! j < snd b \<or> priorities p ! j = snd b \<and> unat (fst b) \<le> j))"

definition source_set :: "plic \<Rightarrow> u32 \<Rightarrow> nat \<Rightarrow> u32 \<Rightarrow> nat set" where
  "source_set p th w active =
     {i. i div 32 = w \<and> bit active (i mod 32) \<and> 0 < i \<and> i \<le> unat (max_sources p) \<and> th < priorities p ! i}"

lemma best_of_insert:
  assumes "best_of p S (bi, bp)" and th: "th < priorities p ! unat i" and nz: "i \<noteq> 0"
  shows "best_of p (insert (unat i) S)
    (if bp < priorities p ! unat i \<or> priorities p ! unat i = bp \<and> i < bi
     then (i, priorities p ! unat i) else (bi, bp))"
proof (cases "S = {}")
  case True
  have "0 < priorities p ! unat i" by (rule le_less_trans [OF word_zero_le th])
  then show ?thesis using assms True by (simp add: best_of_def)
next
  case False
  let ?pi = "priorities p ! unat i"
  have S: "unat bi \<in> S" "bp = priorities p ! unat bi"
    and all: "\<And>j. j \<in> S \<Longrightarrow> priorities p ! j < bp \<or> priorities p ! j = bp \<and> unat bi \<le> j"
    using assms(1) False by (auto simp: best_of_def)
  show ?thesis
  proof (cases "bp < ?pi \<or> ?pi = bp \<and> i < bi")
    case True
    have "priorities p ! j < ?pi \<or> priorities p ! j = ?pi \<and> unat i \<le> j" if "j \<in> S" for j
    proof (cases "bp < ?pi")
      case True
      then show ?thesis using all [OF that] by (metis order.strict_trans)
    next
      case False
      then have "?pi = bp" "unat i < unat bi" using \<open>bp < ?pi \<or> _\<close> by (auto simp: word_less_nat_alt)
      then show ?thesis using all [OF that] by auto
    qed
    then show ?thesis using True by (simp add: best_of_def)
  next
    case False
    then have "?pi < bp \<or> ?pi = bp \<and> unat bi \<le> unat i"
      by (metis linorder_neqE not_less word_le_nat_alt)
    then show ?thesis using False S all by (auto simp: best_of_def)
  qed
qed

lemma consider_source_spec:
  assumes wf: "plic_wf p" and best: "best_of p S best" and lt: "32 * w + b < 2 ^ 32" and b: "b < 32"
  shows "\<exists>best'. consider_source p th (of_nat w * 32 + of_nat b) best = Inr best' \<and>
    best_of p (S \<union> {i. i = 32 * w + b \<and> 0 < i \<and> i \<le> unat (max_sources p) \<and> th < priorities p ! i}) best'"
proof -
  let ?i = "of_nat w * 32 + of_nat b :: u32"
  have i: "?i = of_nat (32 * w + b)" by simp
  have u: "unat ?i = 32 * w + b" unfolding i by (rule of_nat_inverse [OF refl]) (use lt in simp)
  then have nz: "?i \<noteq> 0 \<longleftrightarrow> 0 < 32 * w + b" by (metis neq0_conv unat_eq_zero)
  have le: "?i \<le> max_sources p \<longleftrightarrow> 32 * w + b \<le> unat (max_sources p)" by (simp only: word_le_nat_alt u)
  obtain bi bp where bb: "best = (bi, bp)" by (cases best)
  show ?thesis
  proof (cases "0 < 32 * w + b \<and> 32 * w + b \<le> unat (max_sources p) \<and> th < priorities p ! (32 * w + b)")
    case True
    have at: "vec_at (priorities p) (unat ?i) = Inr (priorities p ! (32 * w + b))"
      using wf True by (simp add: vec_at_def plic_wf_def u)
    have "{i. i = 32 * w + b \<and> 0 < i \<and> i \<le> unat (max_sources p) \<and> th < priorities p ! i} = {32 * w + b}"
      using True by auto
    moreover have "consider_source p th ?i best =
        Inr (if bp < priorities p ! unat ?i \<or> priorities p ! unat ?i = bp \<and> ?i < bi
             then (?i, priorities p ! unat ?i) else (bi, bp))" (is "_ = Inr ?new")
      unfolding bb consider_source_def using True nz le at u by simp
    moreover have "best_of p (insert (unat ?i) S) ?new"
      using best [unfolded bb] by (rule best_of_insert [where th = th]) (use True nz u in simp_all)
    ultimately show ?thesis by (simp only: u Un_insert_right Un_empty_right) blast
  next
    case False
    have "consider_source p th ?i best = Inr best"
    proof (cases "?i \<noteq> 0 \<and> ?i \<le> max_sources p")
      case True
      then have "vec_at (priorities p) (unat ?i) = Inr (priorities p ! (32 * w + b))"
        using wf le by (simp add: vec_at_def plic_wf_def u)
      then show ?thesis using True False nz le by (simp add: consider_source_def bb)
    next
      case False
      then show ?thesis unfolding bb consider_source_def by (simp only: case_prod_conv if_False)
    qed
    moreover have none: "{i. i = 32 * w + b \<and> 0 < i \<and> i \<le> unat (max_sources p) \<and> th < priorities p ! i} = {}"
      using False by auto
    ultimately show ?thesis using best unfolding none by simp
  qed
qed

lemma scan_active_spec:
  assumes "plic_wf p" and "best_of p S best" and "w < 2 ^ 27"
  shows "\<exists>best'. scan_active p th (of_nat w) active best = Inr best' \<and>
    best_of p (S \<union> source_set p th w active) best'"
  using assms
proof (induction p th "of_nat w :: u32" active best arbitrary: S rule: scan_active.induct)
  case (1 p th active best)
  show ?case
  proof (cases "active = 0")
    case True
    then show ?thesis using 1 by (simp add: scan_active.simps source_set_def)
  next
    case False
    let ?b = "countr_zero active" let ?rest = "active AND (active - 1)"
    have b: "?b < 32" "bit active ?b" using countr_zero_spec [OF False] by simp_all
    let ?N = "{i. i = 32 * w + ?b \<and> 0 < i \<and> i \<le> unat (max_sources p) \<and> th < priorities p ! i}"
    obtain best' where c: "consider_source p th (of_nat w * 32 + of_nat ?b) best = Inr best'"
      and b': "best_of p (S \<union> ?N) best'"
      using consider_source_spec [OF 1(2,3), of w ?b th] b 1(4) by auto
    have "i div 32 = w \<and> i mod 32 = ?b \<longleftrightarrow> i = 32 * w + ?b" for i
      using b(1) by (metis div_mult_mod_eq div_mult_self4 div_less add.commute add_0 mod_mult_self4 mod_less mult.commute
          zero_neq_numeral)
    then have "source_set p th w active = ?N \<union> source_set p th w ?rest"
      using b bit_drop_lowest [OF False] by (auto simp: source_set_def)
    then show ?thesis
      using 1(1) [OF False c 1(2) b' 1(4)] False c
      by (subst scan_active.simps) (simp add: Un_assoc)
  qed
qed

lemma scan_words_spec:
  assumes wf: "plic_wf p" and len: "length (enables ctx) = unat (word_count (max_sources p))"
  shows "n \<le> unat (word_count (max_sources p)) \<Longrightarrow>
    \<exists>best. fold (\<lambda>w acc. and_then acc (scan_word p ctx w)) [0..<n] (Inr (0, 0)) = Inr best \<and>
      best_of p {i. candidate p ctx i \<and> i < 32 * n} best"
proof (induction n)
  case 0
  show ?case by (simp add: best_of_def)
next
  case (Suc n)
  then obtain best where f: "fold (\<lambda>w acc. and_then acc (scan_word p ctx w)) [0..<n] (Inr (0, 0)) = Inr best"
    and b: "best_of p {i. candidate p ctx i \<and> i < 32 * n} best" by auto
  have pl: "length (pending_words p) = unat (word_count (max_sources p))" using wf by (simp add: plic_wf_def)
  have wc: "unat (word_count (max_sources p)) < 2 ^ 27"
    using wf by (simp add: word_count_def plic_wf_def unat_div unat_word_ariths) linarith
  let ?act = "pending_words p ! n AND enables ctx ! n"
  obtain best' where s: "scan_active p (threshold ctx) (of_nat n) ?act best = Inr best'"
    and b': "best_of p ({i. candidate p ctx i \<and> i < 32 * n} \<union> source_set p (threshold ctx) n ?act) best'"
    using scan_active_spec [OF wf b, of n] Suc.prems wc by fastforce
  have "{i. candidate p ctx i \<and> i < 32 * Suc n} =
      {i. candidate p ctx i \<and> i < 32 * n} \<union> source_set p (threshold ctx) n ?act"
  proof (rule set_eqI)
    fix i
    show "i \<in> {i. candidate p ctx i \<and> i < 32 * Suc n} \<longleftrightarrow>
      i \<in> {i. candidate p ctx i \<and> i < 32 * n} \<union> source_set p (threshold ctx) n ?act"
    proof (cases "i div 32 = n")
      case True
      then have "i < 32 * Suc n" "\<not> i < 32 * n" by auto
      then show ?thesis
        using True Suc.prems pl len by (auto simp: candidate_def source_bit_def source_set_def bit_and_iff)
    next
      case False
      moreover have "i < 32 * m \<longleftrightarrow> i div 32 < m" for m
        using div_less_iff_less_mult [of 32 i m] by (simp add: mult.commute)
      ultimately have "i < 32 * Suc n \<longleftrightarrow> i < 32 * n" by (simp only: less_Suc_eq) simp
      then show ?thesis using False by (auto simp: source_set_def)
    qed
  qed
  moreover have "scan_word p ctx n best = Inr best'"
    using s Suc.prems pl len by (simp add: scan_word_def vec_at_def)
  ultimately show ?case using f b' by (simp del: mult_Suc_right)
qed

lemma find_highest_spec:
  assumes wf: "plic_wf p" and c: "ctx_idx < length (contexts p)"
  shows "\<exists>i. find_highest_pending_enabled p ctx_idx = Inr i \<and>
    (if \<exists>j. candidate p (contexts p ! ctx_idx) j
     then candidate p (contexts p ! ctx_idx) (unat i) \<and>
       (\<forall>j. candidate p (contexts p ! ctx_idx) j \<longrightarrow> priorities p ! j < priorities p ! unat i \<or>
          priorities p ! j = priorities p ! unat i \<and> unat i \<le> j)
     else i = 0)"
proof -
  let ?ctx = "contexts p ! ctx_idx" let ?n = "unat (word_count (max_sources p))"
  have len: "length (enables ?ctx) = ?n" using wf c by (simp add: plic_wf_def)
  obtain best where f: "fold (\<lambda>w acc. and_then acc (scan_word p ?ctx w)) [0..<?n] (Inr (0, 0)) = Inr best"
    and b: "best_of p {i. candidate p ?ctx i \<and> i < 32 * ?n} best"
    using scan_words_spec [OF wf len, of ?n] by auto
  have "candidate p ?ctx i \<Longrightarrow> i < 32 * ?n" for i
    using wf by (auto simp: candidate_def source_bit_def plic_wf_def)
  then have "{i. candidate p ?ctx i \<and> i < 32 * ?n} = {i. candidate p ?ctx i}" by auto
  with b have b: "best_of p {i. candidate p ?ctx i} best" by simp
  have "find_highest_pending_enabled p ctx_idx = Inr (fst best)"
    using f c by (simp add: find_highest_pending_enabled_def vec_at_def case_prod_beta)
  then show ?thesis using b by (cases best) (auto simp: best_of_def split: if_splits)
qed

section \<open>Claim, complete and the interrupt lines\<close>

definition ext_bit :: "plic_context \<Rightarrow> nat" where
  "ext_bit ctx = (if supervisor_mode ctx then 9 else 11)"

text \<open>The line of a context agrees with the external-interrupt bit of its hart.\<close>

definition line_ok :: "plic_context \<Rightarrow> hart list \<Rightarrow> bool" where
  "line_ok ctx harts \<longleftrightarrow> hart_id ctx < 64 \<and> hart_id ctx < length harts \<and>
     (bit (ip (harts ! hart_id ctx)) (ext_bit ctx) \<longleftrightarrow> interrupt_line ctx)"

lemma candidate_line [simp]: "candidate (p\<lparr>contexts := cs\<rparr>) (ctx\<lparr>interrupt_line := b\<rparr>) i = candidate p ctx i"
  by (simp add: candidate_def)

lemma signal_bits:
  assumes "i < length harts" "i < 64"
  obtains harts' where "signal_cpu_interrupt i sv level harts = Inr harts'" "length harts' = length harts"
    "bit (ip (harts' ! i)) (if sv then 9 else 11) = level"
    "\<And>j. j \<noteq> i \<Longrightarrow> harts' ! j = harts ! j"
    "\<And>n. n \<noteq> (if sv then 9 else 11) \<Longrightarrow> bit (ip (harts' ! i)) n = bit (ip (harts ! i)) n"
proof -
  let ?h = "harts ! i" let ?lv = "if level then 1 else 0 :: u16"
  let ?h' = "if sv then ?h\<lparr>ip := set_SEIP ?lv (ip ?h)\<rparr> else ?h\<lparr>ip := set_MEIP ?lv (ip ?h)\<rparr>"
  have "bit (ip ?h') (if sv then 9 else 11) = level"
    "n \<noteq> (if sv then 9 else 11) \<Longrightarrow> bit (ip ?h') n = bit (ip ?h) n" for n
    by (auto simp: bit_simps dest: bit_imp_le_length)
  with assms show thesis
    by (intro that [of "harts[i := ?h']"]) (simp_all add: signal_cpu_interrupt_def Let_def)
qed

lemma update_context_spec:
  assumes wf: "plic_wf p" and c: "ctx_idx < length (contexts p)" and ok: "line_ok (contexts p ! ctx_idx) harts"
  obtains p' harts' where "update_context ctx_idx p harts = Inr (p', harts')"
    and "p' = p\<lparr>contexts := (contexts p)[ctx_idx := (contexts p ! ctx_idx)
           \<lparr>interrupt_line := (\<exists>j. candidate p (contexts p ! ctx_idx) j)\<rparr>]\<rparr>"
    and "line_ok (contexts p' ! ctx_idx) harts'" and "length harts' = length harts"
proof -
  let ?ctx = "contexts p ! ctx_idx" let ?raise = "\<exists>j. candidate p ?ctx j"
  obtain i where f: "find_highest_pending_enabled p ctx_idx = Inr i"
    and if_raise: "if ?raise then candidate p ?ctx (unat i) else i = 0"
    using find_highest_spec [OF wf c] by (cases ?raise) auto
  have "candidate p ?ctx (unat i) \<Longrightarrow> i \<noteq> 0" by (auto simp: candidate_def)
  with if_raise have i: "i \<noteq> 0 \<longleftrightarrow> ?raise" by (auto split: if_splits)
  show thesis
  proof (cases "?raise = interrupt_line ?ctx")
    case True
    then have "(i \<noteq> 0) = interrupt_line ?ctx" using i by simp
    then have u: "update_context ctx_idx p harts = Inr (p, harts)"
      using f c by (auto simp: update_context_def vec_at_def Let_def)
    show thesis by (rule that [OF u]) (simp_all add: True c ok)
  next
    case False
    have hb: "hart_id ?ctx < length harts" "hart_id ?ctx < 64" using ok by (auto simp: line_ok_def)
    obtain harts' where s: "signal_cpu_interrupt (hart_id ?ctx) (supervisor_mode ?ctx) ?raise harts = Inr harts'"
      and l: "length harts' = length harts"
      and b: "bit (ip (harts' ! hart_id ?ctx)) (if supervisor_mode ?ctx then 9 else 11) = ?raise"
      by (rule signal_bits [OF hb, of "supervisor_mode ?ctx" ?raise])
    have ne: "(i \<noteq> 0) \<noteq> interrupt_line ?ctx" using False i by simp
    have u: "update_context ctx_idx p harts =
        Inr (p\<lparr>contexts := (contexts p)[ctx_idx := ?ctx\<lparr>interrupt_line := ?raise\<rparr>]\<rparr>, harts')"
      using f c s ne i by (simp add: update_context_def vec_at_def Let_def)
    have "line_ok (?ctx\<lparr>interrupt_line := ?raise\<rparr>) harts'"
      using hb l b by (simp add: line_ok_def ext_bit_def)
    then show thesis using c l by (intro that [OF u]) simp_all
  qed
qed

lemma clear_pending_spec:
  assumes "unat i div 32 < length (pending_words p)"
  shows "clear_pending_bit i p = Inr (p\<lparr>pending_words := (pending_words p)[unat i div 32 :=
      pending_words p ! (unat i div 32) AND NOT (push_bit (unat i mod 32) 1)]\<rparr>)"
  using assms by (simp add: clear_pending_bit_def Let_def unat_div unat_mod vec_at_def)

lemma source_bit_clear:
  "source_bit (ws[i div 32 := ws ! (i div 32) AND NOT (push_bit (i mod 32) 1)]) j \<longleftrightarrow> source_bit ws j \<and> j \<noteq> i"
proof (cases "j div 32 = i div 32")
  case True
  have "i mod 32 = j mod 32 \<longleftrightarrow> j = i" using True by (metis div_mult_mod_eq)
  moreover have "bit (push_bit n 1 :: u32) m \<longleftrightarrow> m = n \<and> n < 32" for n m
    by (auto simp: bit_simps bit_1_iff)
  ultimately show ?thesis using True by (auto simp: source_bit_def bit_simps)
next
  case False
  then show ?thesis by (auto simp: source_bit_def)
qed

section \<open>Properties\<close>


definition sample_plic :: plic where
  "sample_plic = \<lparr>plic_start = 0x0C000000, max_sources = 8, num_contexts = 1, pending_words_count = 1,
     enable_words_count = 1, last_irq_registered = 8, priorities = [0, 0, 0, 0, 0, 3, 2, 3, 9],
     pending_words = [0xE0],
     contexts = [\<lparr>threshold = 1, enables = [0xFE], hart_id = 0, supervisor_mode = True, interrupt_line = True\<rparr>]\<rparr>"


end
