(* ===== verification/Uart.thy ===== *)
theory Uart
  imports Plic
begin

unbundle bit_operations_syntax

text \<open>
  The 16550-style serial port, include/devices/uart.hpp and src/devices/uart.cpp: registers, the
  receive FIFO, interrupt identification and its line into the PLIC. The bytes written to
  \<open>out_stream\<close> are collected in a list. Register accesses also run the PLIC and the harts.
\<close>

section \<open>State\<close>

record uart =
  uart_start :: u64
  rhr :: u8
  thr :: u8
  ier :: u8
  iir :: u8
  fcr :: u8
  lcr :: u8
  mcr :: u8
  lsr :: u8
  msr :: u8
  scr :: u8
  dll :: u8
  dlm :: u8
  rx_irq_pending :: bool
  tx_irq_pending :: bool
  irq_num :: u32
  dlab :: bool
  fifo_enabled :: bool
  fifo_buffer :: "u8 list"
  out_stream :: "u8 list"

abbreviation (input) IIR_NO_INT :: u8 where "IIR_NO_INT \<equiv> 0x01"
abbreviation (input) IIR_THR_EMPTY :: u8 where "IIR_THR_EMPTY \<equiv> 0x02"
abbreviation (input) IIR_RX_AVAILABLE :: u8 where "IIR_RX_AVAILABLE \<equiv> 0x04"
abbreviation (input) LSR_DATA_READY :: u8 where "LSR_DATA_READY \<equiv> 0x01"
abbreviation (input) LSR_THR_EMPTY :: u8 where "LSR_THR_EMPTY \<equiv> 0x20"
abbreviation (input) LSR_TEMT :: u8 where "LSR_TEMT \<equiv> 0x40"
abbreviation (input) LSR_OE :: u8 where "LSR_OE \<equiv> 0x02"

text \<open>The constructor takes an interrupt number from the PLIC.\<close>

definition new_uart :: "u64 \<Rightarrow> plic \<Rightarrow> uart \<times> plic" where
  "new_uart start_a p =
     (case acquire_irq p of (irq, p') \<Rightarrow>
        (\<lparr>uart_start = start_a, rhr = 0, thr = 0, ier = 0, iir = 0x01, fcr = 0, lcr = 0, mcr = 0,
          lsr = LSR_THR_EMPTY OR LSR_TEMT, msr = 0, scr = 0, dll = 0, dlm = 0, rx_irq_pending = False,
          tx_irq_pending = False, irq_num = irq, dlab = False, fifo_enabled = False, fifo_buffer = [],
          out_stream = []\<rparr>, p'))"

definition uart_init_auto :: "plic \<Rightarrow> uart \<times> plic" where
  "uart_init_auto p = new_uart 0x10000000 p"

section \<open>Interrupt identification\<close>

definition calc_iir_locked :: "uart \<Rightarrow> u8" where
  "calc_iir_locked u =
     (if ier u AND 0x01 \<noteq> 0 \<and> lsr u AND LSR_DATA_READY \<noteq> 0 then IIR_RX_AVAILABLE
      else if ier u AND 0x02 \<noteq> 0 \<and> lsr u AND LSR_THR_EMPTY \<noteq> 0 then IIR_THR_EMPTY
      else IIR_NO_INT)"

type_synonym uart_op = "uart \<Rightarrow> plic \<Rightarrow> hart list \<Rightarrow> (uart \<times> plic \<times> hart list) result"

definition update_iir :: uart_op where
  "update_iir u p harts =
     (let new_iir = calc_iir_locked u; u = u\<lparr>iir := new_iir\<rparr>; irq_active = (new_iir \<noteq> IIR_NO_INT);
          u' = (if irq_active then
                  if new_iir = IIR_RX_AVAILABLE then u\<lparr>rx_irq_pending := True\<rparr>
                  else if new_iir = IIR_THR_EMPTY then u\<lparr>tx_irq_pending := True\<rparr> else u
                else u\<lparr>rx_irq_pending := False, tx_irq_pending := False\<rparr>)
      in and_then (set_pending (irq_num u) irq_active p harts) (\<lambda>(p, harts). Inr (u', p, harts)))"

section \<open>The receiver\<close>

text \<open>Reading RHR: the byte and the state before \<open>update_iir\<close>.\<close>

definition rx_pop :: "uart \<Rightarrow> u8 \<times> uart" where
  "rx_pop u =
     (let (v, u) =
        (if fifo_enabled u then
           case fifo_buffer u of
             b # bs \<Rightarrow> (b, u\<lparr>fifo_buffer := bs, lsr := (if bs = [] then lsr u AND NOT LSR_DATA_READY else lsr u)\<rparr>)
           | [] \<Rightarrow> (0, u)
         else (rhr u, u\<lparr>lsr := lsr u AND NOT LSR_DATA_READY\<rparr>))
      in (v, if lsr u AND LSR_OE \<noteq> 0 then u\<lparr>lsr := lsr u AND NOT LSR_OE\<rparr> else u))"

text \<open>\<open>receive_byte\<close> up to its call of \<open>update_iir\<close>; a full FIFO only sets the overrun flag.\<close>

definition rx_push :: "u8 \<Rightarrow> uart \<Rightarrow> uart" where
  "rx_push b u =
     (if fifo_enabled u \<and> 512 \<le> length (fifo_buffer u) then u\<lparr>lsr := lsr u OR LSR_OE\<rparr>
      else if fifo_enabled u then u\<lparr>fifo_buffer := fifo_buffer u @ [b], lsr := lsr u OR LSR_DATA_READY\<rparr>
      else let u = (if lsr u AND LSR_DATA_READY \<noteq> 0 then u\<lparr>lsr := lsr u OR LSR_OE\<rparr> else u\<lparr>rhr := b\<rparr>)
           in u\<lparr>lsr := lsr u OR LSR_DATA_READY\<rparr>)"

definition receive_byte :: "u8 \<Rightarrow> uart_op" where
  "receive_byte b u p harts =
     (if fifo_enabled u \<and> 512 \<le> length (fifo_buffer u) then Inr (rx_push b u, p, harts)
      else update_iir (rx_push b u) p harts)"

section \<open>Registers\<close>

definition uart_read :: "u64 \<Rightarrow> memory_size \<Rightarrow> uart \<Rightarrow> plic \<Rightarrow> hart list \<Rightarrow>
    (u64 \<times> uart \<times> plic \<times> hart list) result" where
  "uart_read addr sz u p harts =
     (let offset = addr - uart_start u; reg = ucast offset :: u8 in
      if reg = 0 then
        if dlab u then Inr (ucast (dll u), u, p, harts)
        else case rx_pop u of (v, u) \<Rightarrow>
          and_then (update_iir u p harts) (\<lambda>(u, p, harts). Inr (ucast v, u, p, harts))
      else if reg = 1 then Inr (ucast (if dlab u then dlm u else ier u), u, p, harts)
      else if reg = 2 then
        (let v = iir u in
         if v = IIR_RX_AVAILABLE \<and> rx_irq_pending u then
           let u = u\<lparr>rx_irq_pending := False\<rparr> in
           if calc_iir_locked u = IIR_NO_INT
           then and_then (update_iir u p harts) (\<lambda>(u, p, harts). Inr (ucast v, u, p, harts))
           else Inr (ucast v, u, p, harts)
         else if v = IIR_THR_EMPTY \<and> tx_irq_pending u then
           let u = u\<lparr>tx_irq_pending := False\<rparr> in
           if calc_iir_locked u = IIR_NO_INT
           then and_then (update_iir u p harts) (\<lambda>(u, p, harts). Inr (ucast v, u, p, harts))
           else Inr (ucast v, u, p, harts)
         else Inr (ucast v, u, p, harts))
      else if reg = 3 then Inr (ucast (lcr u), u, p, harts)
      else if reg = 4 then Inr (ucast (mcr u), u, p, harts)
      else if reg = 5 then Inr (ucast (lsr u), u, p, harts)
      else if reg = 6 then Inr (ucast (msr u), u, p, harts)
      else if reg = 7 then Inr (ucast (scr u), u, p, harts)
      else Inr (0, u, p, harts))"

text \<open>The switch between the FIFO and the holding register on a write of FCR.\<close>

definition fcr_switch :: "u8 \<Rightarrow> uart \<Rightarrow> uart" where
  "fcr_switch b u =
     (let old_fifo = fifo_enabled u; u = u\<lparr>fcr := b, fifo_enabled := (b AND 0x01 \<noteq> 0)\<rparr> in
      if fifo_enabled u \<and> \<not> old_fifo \<and> lsr u AND LSR_DATA_READY \<noteq> 0 then
        let u = u\<lparr>fifo_buffer := fifo_buffer u @ [rhr u]\<rparr> in
        u\<lparr>lsr := (if fifo_buffer u = [] then lsr u AND NOT LSR_DATA_READY else lsr u OR LSR_DATA_READY)\<rparr>
      else if \<not> fifo_enabled u \<and> old_fifo \<and> fifo_buffer u \<noteq> [] then
        u\<lparr>rhr := hd (fifo_buffer u), fifo_buffer := [], lsr := lsr u OR LSR_DATA_READY\<rparr>
      else u)"

definition uart_write :: "u64 \<Rightarrow> memory_size \<Rightarrow> u64 \<Rightarrow> uart_op" where
  "uart_write addr sz v u p harts =
     (let offset = addr - uart_start u; reg = ucast offset :: u8; byte_value = ucast (v AND 0xFF) :: u8 in
      if reg = 0 then
        if dlab u then Inr (u\<lparr>dll := byte_value\<rparr>, p, harts)
        else update_iir (u\<lparr>thr := byte_value, out_stream := out_stream u @ [byte_value]\<rparr>) p harts
      else if reg = 1 then
        if dlab u then Inr (u\<lparr>dlm := byte_value\<rparr>, p, harts)
        else update_iir (u\<lparr>ier := byte_value AND 0x0F\<rparr>) p harts
      else if reg = 2 then
        (let u = fcr_switch byte_value u in
         if fcr u AND 0x02 \<noteq> 0
         then update_iir (u\<lparr>fifo_buffer := [], lsr := lsr u AND NOT LSR_DATA_READY, rx_irq_pending := False\<rparr>) p harts
         else Inr (u, p, harts))
      else if reg = 3 then Inr (u\<lparr>lcr := byte_value, dlab := (byte_value AND 0x80 \<noteq> 0)\<rparr>, p, harts)
      else if reg = 4 then Inr (u\<lparr>mcr := byte_value\<rparr>, p, harts)
      else if reg = 7 then Inr (u\<lparr>scr := byte_value\<rparr>, p, harts)
      else Inr (u, p, harts))"

section \<open>Invariant\<close>

text \<open>
  The data-ready bit tells whether a byte waits, the FIFO is empty while disabled and never
  exceeds 512 bytes, the transmitter is always reported empty, and IIR is up to date.
\<close>

definition uart_inv :: "uart \<Rightarrow> bool" where
  "uart_inv u \<longleftrightarrow>
     (if fifo_enabled u then bit (lsr u) 0 \<longleftrightarrow> fifo_buffer u \<noteq> [] else fifo_buffer u = []) \<and>
     length (fifo_buffer u) \<le> 512 \<and> bit (lsr u) 5 \<and> iir u = calc_iir_locked u"

lemma lsr_bits:
  "x AND 1 \<noteq> 0 \<longleftrightarrow> bit x 0" "x AND 2 \<noteq> 0 \<longleftrightarrow> bit x 1" "x AND 0x20 \<noteq> 0 \<longleftrightarrow> bit x 5" for x :: u8
  using and_exp_eq_0_iff_not_bit [of x 0] and_exp_eq_0_iff_not_bit [of x 1] and_exp_eq_0_iff_not_bit [of x 5]
  by simp_all

lemma lsr_numerals:
  "bit (1 :: u8) n \<longleftrightarrow> n = 0" "bit (2 :: u8) n \<longleftrightarrow> n = 1"
  using bit_push_bit_iff [of 1 "1 :: u8" n] by (auto simp: bit_1_iff push_bit_eq_mult)

definition uart_core :: "uart \<Rightarrow> bool" where
  "uart_core u \<longleftrightarrow>
     (if fifo_enabled u then bit (lsr u) 0 \<longleftrightarrow> fifo_buffer u \<noteq> [] else fifo_buffer u = []) \<and>
     length (fifo_buffer u) \<le> 512 \<and> bit (lsr u) 5"

lemma uart_inv_core: "uart_inv u \<longleftrightarrow> uart_core u \<and> iir u = calc_iir_locked u"
  by (auto simp: uart_inv_def uart_core_def)

lemma calc_iir_cong:
  "ier u = ier u' \<Longrightarrow> bit (lsr u) 0 = bit (lsr u') 0 \<Longrightarrow> bit (lsr u) 5 = bit (lsr u') 5 \<Longrightarrow>
   calc_iir_locked u = calc_iir_locked u'"
  by (simp add: calc_iir_locked_def lsr_bits)

lemma update_iir_state:
  assumes "update_iir u p harts = Inr (u', p', harts')"
  shows "fifo_enabled u' = fifo_enabled u" "fifo_buffer u' = fifo_buffer u" "lsr u' = lsr u" "ier u' = ier u"
    "rhr u' = rhr u" "dlab u' = dlab u" "uart_start u' = uart_start u" "iir u' = calc_iir_locked u"
  using assms by (auto simp: update_iir_def Let_def and_then_Inr_iff split: if_splits)

lemma update_iir_inv:
  assumes "update_iir u p harts = Inr (u', p', harts')" and "uart_core u"
  shows "uart_inv u'"
proof -
  note st = update_iir_state [OF assms(1)]
  have "calc_iir_locked u' = calc_iir_locked u" using st by (intro calc_iir_cong) simp_all
  then show ?thesis using st assms(2) by (simp add: uart_inv_def uart_core_def)
qed

lemma rx_pop_core: "uart_core u \<Longrightarrow> uart_core (snd (rx_pop u))"
  by (auto simp: uart_core_def rx_pop_def Let_def bit_simps lsr_numerals split: list.splits if_splits)

lemma rx_push_core: "uart_core u \<Longrightarrow> uart_core (rx_push b u)"
  by (auto simp: uart_core_def rx_push_def Let_def bit_simps lsr_numerals)

lemma fcr_switch_inv: "uart_inv u \<Longrightarrow> uart_inv (fcr_switch b u)"
  by (cases "fifo_enabled u")
    (auto simp: uart_inv_def fcr_switch_def Let_def bit_simps lsr_numerals lsr_bits intro!: calc_iir_cong)

lemma uart_write_inv:
  assumes "uart_inv u" and "uart_write addr sz v u p harts = Inr (u', p', harts')"
  shows "uart_inv u'"
proof -
  have core: "uart_core u" using assms(1) by (simp add: uart_inv_core)
  have sw: "uart_core (fcr_switch b u)" for b using fcr_switch_inv [OF assms(1)] by (simp add: uart_inv_core)
  have cl: "uart_core (w\<lparr>fifo_buffer := [], lsr := lsr w AND NOT LSR_DATA_READY, rx_irq_pending := False\<rparr>)"
    if "uart_core w" for w using that by (auto simp: uart_core_def bit_simps lsr_numerals)
  have same: "uart_core (u\<lparr>thr := a, out_stream := l\<rparr>)" "uart_core (u\<lparr>ier := a\<rparr>)"
    "uart_inv (u\<lparr>dll := a\<rparr>)" "uart_inv (u\<lparr>dlm := a\<rparr>)" "uart_inv (u\<lparr>lcr := a, dlab := d\<rparr>)"
    "uart_inv (u\<lparr>mcr := a\<rparr>)" "uart_inv (u\<lparr>scr := a\<rparr>)" for a d l
    using assms(1) core by (auto simp: uart_core_def uart_inv_def calc_iir_locked_def)
  show ?thesis
    using assms(2) same fcr_switch_inv [OF assms(1)] update_iir_inv [OF _ cl [OF sw]] assms(1)
    by (auto simp: uart_write_def Let_def split: if_splits intro: update_iir_inv)
qed

lemma uart_read_inv:
  assumes "uart_inv u" and "uart_read addr sz u p harts = Inr (v, u', p', harts')"
  shows "uart_inv u'"
proof -
  have core: "uart_core u" using assms(1) by (simp add: uart_inv_core)
  have flags: "uart_inv (u\<lparr>rx_irq_pending := a\<rparr>)" "uart_inv (u\<lparr>tx_irq_pending := a\<rparr>)"
    "uart_core (u\<lparr>rx_irq_pending := a\<rparr>)" "uart_core (u\<lparr>tx_irq_pending := a\<rparr>)" for a
    using assms(1) core by (auto simp: uart_core_def uart_inv_def calc_iir_locked_def)
  have pop: "uart_core w" if "rx_pop u = (a, w)" for a w using rx_pop_core [OF core] that by simp
  show ?thesis
    using assms flags
    by (auto simp: uart_read_def Let_def and_then_Inr_iff split: if_splits prod.splits
        intro: update_iir_inv pop)
qed

lemma receive_byte_inv:
  assumes "uart_inv u" and "receive_byte b u p harts = Inr (u', p', harts')"
  shows "uart_inv u'"
proof (cases "fifo_enabled u \<and> 512 \<le> length (fifo_buffer u)")
  case True
  have "calc_iir_locked (u\<lparr>lsr := lsr u OR LSR_OE\<rparr>) = calc_iir_locked u"
    by (intro calc_iir_cong) (simp_all add: bit_simps lsr_numerals)
  then show ?thesis
    using assms True by (auto simp: receive_byte_def rx_push_def uart_inv_def bit_simps lsr_numerals)
next
  case False
  then have "update_iir (rx_push b u) p harts = Inr (u', p', harts')" using assms(2) by (auto simp: receive_byte_def split: if_splits)
  moreover have "uart_core (rx_push b u)" using assms(1) by (simp add: uart_inv_core rx_push_core)
  ultimately show ?thesis by (rule update_iir_inv)
qed

section \<open>The receiver as a bounded queue\<close>

text \<open>The contract of a bounded first-in first-out buffer that drops what does not fit.\<close>

locale bounded_queue =
  fixes ok :: "'q \<Rightarrow> bool" and contents :: "'q \<Rightarrow> 'a list" and cap :: "'q \<Rightarrow> nat"
    and push :: "'a \<Rightarrow> 'q \<Rightarrow> 'q" and pop :: "'q \<Rightarrow> 'a \<times> 'q"
  assumes push_contents: "ok q \<Longrightarrow>
        contents (push x q) = (if length (contents q) < cap q then contents q @ [x] else contents q)"
    and push_ok: "ok q \<Longrightarrow> ok (push x q) \<and> cap (push x q) = cap q"
    and pop_contents: "ok q \<Longrightarrow> contents q = x # xs \<Longrightarrow> fst (pop q) = x \<and> contents (snd (pop q)) = xs"
    and pop_ok: "ok q \<Longrightarrow> ok (snd (pop q)) \<and> cap (snd (pop q)) = cap q"
begin

fun pops :: "nat \<Rightarrow> 'q \<Rightarrow> 'a list \<times> 'q" where
  "pops 0 q = ([], q)"
| "pops (Suc n) q = (case pop q of (x, q') \<Rightarrow> case pops n q' of (xs, q'') \<Rightarrow> (x # xs, q''))"

lemma pushes_contents:
  "ok q \<Longrightarrow> length (contents q) \<le> cap q \<Longrightarrow>
     ok (fold push xs q) \<and> contents (fold push xs q) = take (cap q) (contents q @ xs)"
proof (induction xs arbitrary: q)
  case (Cons x xs)
  have p: "ok (push x q)" "cap (push x q) = cap q" using push_ok [OF Cons.prems(1)] by auto
  show ?case
  proof (cases "length (contents q) < cap q")
    case True
    then have "contents (push x q) = contents q @ [x]" using push_contents [OF Cons.prems(1)] by simp
    then show ?thesis using Cons.IH [OF p(1)] p True by simp
  next
    case False
    then have "contents (push x q) = contents q" using push_contents [OF Cons.prems(1)] by simp
    then show ?thesis using Cons.IH [OF p(1)] p False Cons.prems(2) by simp
  qed
qed simp

lemma pops_contents:
  "ok q \<Longrightarrow> n \<le> length (contents q) \<Longrightarrow>
     fst (pops n q) = take n (contents q) \<and> contents (snd (pops n q)) = drop n (contents q) \<and> ok (snd (pops n q))"
proof (induction n arbitrary: q)
  case (Suc n)
  then obtain x xs where c: "contents q = x # xs" by (cases "contents q") auto
  note pc = pop_contents [OF Suc.prems(1) c] and po = pop_ok [OF Suc.prems(1)]
  have "n \<le> length (contents (snd (pop q)))" using Suc.prems(2) c pc by simp
  then show ?case using Suc.IH [of "snd (pop q)"] pc po c by (simp add: case_prod_beta)
qed simp

lemma push_then_pop:
  "ok q \<Longrightarrow> length (contents q) + length xs \<le> cap q \<Longrightarrow>
     fst (pops (length (contents q) + length xs) (fold push xs q)) = contents q @ xs"
  using pushes_contents [of q xs] pops_contents [of "fold push xs q" "length (contents q) + length xs"] by simp

end

definition rx_contents :: "uart \<Rightarrow> u8 list" where
  "rx_contents u = (if fifo_enabled u then fifo_buffer u else if bit (lsr u) 0 then [rhr u] else [])"

definition rx_capacity :: "uart \<Rightarrow> nat" where
  "rx_capacity u = (if fifo_enabled u then 512 else 1)"

interpretation rx: bounded_queue uart_core rx_contents rx_capacity rx_push rx_pop
proof
  fix u x xs
  assume c: "uart_core u"
  show "rx_contents (rx_push x u) =
      (if length (rx_contents u) < rx_capacity u then rx_contents u @ [x] else rx_contents u)"
    using c by (auto simp: rx_contents_def rx_push_def rx_capacity_def Let_def bit_simps lsr_numerals lsr_bits)
  show "uart_core (rx_push x u) \<and> rx_capacity (rx_push x u) = rx_capacity u"
    using rx_push_core [OF c] by (simp add: rx_push_def rx_capacity_def Let_def)
  show "uart_core (snd (rx_pop u)) \<and> rx_capacity (snd (rx_pop u)) = rx_capacity u"
    using rx_pop_core [OF c] by (simp add: rx_pop_def rx_capacity_def Let_def split: list.split)
  assume "rx_contents u = x # xs"
  then show "fst (rx_pop u) = x \<and> rx_contents (snd (rx_pop u)) = xs"
    using c by (auto simp: rx_contents_def rx_pop_def uart_core_def Let_def bit_simps lsr_numerals
        split: if_splits list.splits)
qed

section \<open>Properties\<close>

datatype uart_event = Reg_read u64 memory_size | Reg_write u64 memory_size u64 | Rx_byte u8

fun uart_step :: "uart_event \<Rightarrow> uart \<times> plic \<times> hart list \<Rightarrow> (uart \<times> plic \<times> hart list) result" where
  "uart_step (Reg_read a sz) (u, p, harts) =
     and_then (uart_read a sz u p harts) (\<lambda>(v, u, p, harts). Inr (u, p, harts))"
| "uart_step (Reg_write a sz v) (u, p, harts) = uart_write a sz v u p harts"
| "uart_step (Rx_byte b) (u, p, harts) = receive_byte b u p harts"

inductive uart_reachable :: "uart \<times> plic \<times> hart list \<Rightarrow> bool" where
  init: "uart_init_auto p0 = (u, p) \<Longrightarrow> uart_reachable (u, p, harts)"
| step: "uart_reachable s \<Longrightarrow> uart_step ev s = Inr s' \<Longrightarrow> uart_reachable s'"
| other: "uart_reachable (u, p, harts) \<Longrightarrow> uart_reachable (u, p', harts')"

text \<open>
  C30. The registers of the serial port stay consistent under every access and every received byte:
  data-ready is set exactly when the FIFO holds a byte, the FIFO holds at most 512 bytes and none
  while disabled, and the interrupt identification register equals the value computed from the
  enable and status registers.
\<close>

theorem uart_consistent:
  assumes "uart_reachable (u, p, harts)"
  shows "(if fifo_enabled u then bit (lsr u) 0 \<longleftrightarrow> fifo_buffer u \<noteq> [] else fifo_buffer u = []) \<and>
     length (fifo_buffer u) \<le> 512 \<and> bit (lsr u) 5 \<and> iir u = calc_iir_locked u"
proof -
  have "uart_reachable s \<Longrightarrow> uart_inv (fst s)" for s
  proof (induction s rule: uart_reachable.induct)
    case (init p0 u p harts)
    then show ?case
      by (auto simp: uart_init_auto_def new_uart_def uart_inv_def calc_iir_locked_def bit_simps split: prod.splits)
  next
    case (step s ev s')
    obtain u p harts where s: "s = (u, p, harts)" by (rule prod_cases3)
    obtain u' p' harts' where s': "s' = (u', p', harts')" by (rule prod_cases3)
    from step(2,3) show ?case
      by (cases ev) (auto simp: s s' and_then_Inr_iff intro: uart_read_inv uart_write_inv receive_byte_inv)
  qed simp
  from this [OF assms] show ?thesis by (simp add: uart_inv_def)
qed

theorem uart_consistent_witness:
  "length (fifo_buffer (fst (uart_init_auto (plic_init_auto 1)))) \<le> 512"
proof -
  obtain u p where up: "uart_init_auto (plic_init_auto 1) = (u, p)" by (cases "uart_init_auto (plic_init_auto 1)")
  have "uart_reachable (u, p, [])" using up by (rule uart_reachable.init)
  from uart_consistent [OF this] up show ?thesis by simp
qed

fun rx_reads :: "nat \<Rightarrow> uart \<Rightarrow> u8 list" where
  "rx_reads 0 u = []"
| "rx_reads (Suc n) u = (case rx_pop u of (x, u') \<Rightarrow> x # rx_reads n u')"

lemma rx_reads_pops: "rx_reads n u = fst (rx.pops n u)"
  by (induction n arbitrary: u) (simp_all add: case_prod_beta)

text \<open>
  The receiver is a first-in first-out queue: bytes that arrive while there is room come out of
  the receive register in the order they came, after those that were already waiting; the capacity
  is 512 bytes with the FIFO on and one byte with it off.
\<close>

theorem uart_fifo_order:
  assumes "uart_inv u" and "length (rx_contents u) + length bs \<le> rx_capacity u"
  shows "rx_reads (length (rx_contents u) + length bs) (fold rx_push bs u) = rx_contents u @ bs"
  using rx.push_then_pop [of u bs] assms by (simp add: rx_reads_pops uart_inv_core)

definition sample_uart :: uart where
  "sample_uart = \<lparr>uart_start = 0x10000000, rhr = 0, thr = 0, ier = 1, iir = 4, fcr = 1, lcr = 0, mcr = 0,
     lsr = 0x61, msr = 0, scr = 0, dll = 0, dlm = 0, rx_irq_pending = True, tx_irq_pending = False,
     irq_num = 1, dlab = False, fifo_enabled = True, fifo_buffer = [7], out_stream = []\<rparr>"

theorem uart_fifo_order_witness: "rx_reads 3 (fold rx_push [65, 66] sample_uart) = [7, 65, 66]"
proof -
  have "uart_inv sample_uart" by (simp add: uart_inv_def sample_uart_def calc_iir_locked_def)
  moreover have "length (rx_contents sample_uart) + length [65, 66 :: u8] \<le> rx_capacity sample_uart"
    by (simp add: rx_contents_def rx_capacity_def sample_uart_def)
  ultimately have "rx_reads (length (rx_contents sample_uart) + length [65, 66 :: u8]) (fold rx_push [65, 66] sample_uart) =
      rx_contents sample_uart @ [65, 66]" by (rule uart_fifo_order)
  moreover have "rx_contents sample_uart = [7]" by (simp add: rx_contents_def sample_uart_def)
  ultimately show ?thesis by (simp add: eval_nat_numeral)
qed

end
