(* ===== verification/Clint.thy ===== *)
theory Clint
  imports Hart_State
begin

unbundle bit_operations_syntax

text \<open>
  The core-local interruptor, include/devices/clint.hpp and src/devices/clint.cpp, with the timers of
  include/structs: software interrupts, the machine timer and its comparators, and the supervisor
  comparators of the harts. The host's monotonic clock in nanoseconds is an argument of the
  operations that read it. \<open>update_mip\<close> is what the device's thread runs every 100 microseconds
  and what every register write runs.
\<close>

section \<open>Timers\<close>

record timer_st =
  t_begin :: u64
  t_freq :: u64

definition timer_clocksource :: "u64 \<Rightarrow> u64 \<Rightarrow> u64" where
  "timer_clocksource ns freq = (ns div 1000000000) * freq + (ns mod 1000000000) * freq div 1000000000"

definition timer_get :: "u64 \<Rightarrow> timer_st \<Rightarrow> u64" where
  "timer_get ns t = timer_clocksource ns (t_freq t) - t_begin t"

definition timer_set :: "u64 \<Rightarrow> u64 \<Rightarrow> timer_st \<Rightarrow> timer_st" where
  "timer_set ns time t = t\<lparr>t_begin := timer_clocksource ns (t_freq t) - time\<rparr>"

definition timer_init :: "u64 \<Rightarrow> u64 \<Rightarrow> timer_st" where
  "timer_init ns freq = timer_set ns 0 \<lparr>t_begin = 0, t_freq = freq\<rparr>"

definition timer_convert_freq :: "u64 \<Rightarrow> u64 \<Rightarrow> u64 \<Rightarrow> u64" where
  "timer_convert_freq clk src_freq dst_freq =
     (let clk_div = clk div src_freq; clk_rem = clk - (clk_div * src_freq) in
      (clk_div * dst_freq) + (clk_rem * dst_freq div src_freq))"

section \<open>State and operations\<close>

record clint =
  clint_start :: u64
  msip :: "u32 list"
  mtimecmp :: "u64 list"
  mtime :: timer_st

abbreviation (input) CLINT_MSWI_SIZE :: u64 where "CLINT_MSWI_SIZE \<equiv> 0x4000"
abbreviation (input) CLINT_MTIMER_SIZE :: u64 where "CLINT_MTIMER_SIZE \<equiv> 0x8000"

text \<open>The constructor; it also disarms the supervisor comparators of the harts.\<close>

definition new_clint :: "u64 \<Rightarrow> u64 \<Rightarrow> u64 \<Rightarrow> hart list \<Rightarrow> clint \<times> hart list" where
  "new_clint ns start_a timebase harts =
     (\<lparr>clint_start = start_a, msip = replicate (length harts) 0,
       mtimecmp = replicate (length harts) 0xFFFFFFFFFFFFFFFF, mtime = timer_init ns timebase\<rparr>,
      map (\<lambda>h. h\<lparr>stimecmp := 0xFFFFFFFFFFFFFFFF\<rparr>) harts)"

definition clint_init_auto :: "u64 \<Rightarrow> u64 \<Rightarrow> hart list \<Rightarrow> clint \<times> hart list" where
  "clint_init_auto ns timebase harts = new_clint ns 0x02000000 timebase harts"

definition update_hart_mip :: "u64 \<Rightarrow> clint \<Rightarrow> hart \<Rightarrow> hart result" where
  "update_hart_mip now c h =
     and_then (vec_at (msip c) (unat (hid h))) (\<lambda>sw.
     and_then (vec_at (mtimecmp c) (unat (hid h))) (\<lambda>cmp.
       let h = h\<lparr>ctime := now\<rparr>;
           h = h\<lparr>ip := set_MSIP (if sw AND 1 \<noteq> 0 then 1 else 0) (ip h)\<rparr>;
           h = h\<lparr>ip := set_MTIP (if cmp \<le> now then 1 else 0) (ip h)\<rparr>;
           sc = stimecmp h
       in Inr (h\<lparr>ip := set_STIP (if sc \<le> now \<and> sc \<noteq> 0xFFFFFFFFFFFFFFFF then 1 else 0) (ip h)\<rparr>)))"

fun update_harts :: "u64 \<Rightarrow> clint \<Rightarrow> hart list \<Rightarrow> hart list result" where
  "update_harts now c [] = Inr []"
| "update_harts now c (h # hs) =
     and_then (update_hart_mip now c h) (\<lambda>h'. and_then (update_harts now c hs) (\<lambda>hs'. Inr (h' # hs')))"

definition update_mip :: "u64 \<Rightarrow> clint \<Rightarrow> hart list \<Rightarrow> hart list result" where
  "update_mip ns c harts = update_harts (timer_get ns (mtime c)) c harts"

definition read_mswi :: "u64 \<Rightarrow> clint \<Rightarrow> u64 result" where
  "read_mswi offset c = and_then (vec_at (msip c) (unat (drop_bit 2 offset))) (\<lambda>v. Inr (ucast v))"

definition read_mtimer :: "u64 \<Rightarrow> u64 \<Rightarrow> clint \<Rightarrow> u64 result" where
  "read_mtimer ns offset c =
     (if offset = 0x7FF8 then Inr (timer_get ns (mtime c))
      else vec_at (mtimecmp c) (unat (drop_bit 3 offset)))"

definition write_mswi :: "u64 \<Rightarrow> u64 \<Rightarrow> u64 \<Rightarrow> clint \<Rightarrow> hart list \<Rightarrow> (clint \<times> hart list) result" where
  "write_mswi ns offset v c harts =
     and_then (vec_put (msip c) (unat (drop_bit 2 offset)) (ucast v)) (\<lambda>m.
       let c = c\<lparr>msip := m\<rparr> in and_then (update_mip ns c harts) (\<lambda>harts. Inr (c, harts)))"

definition write_mtimer :: "u64 \<Rightarrow> u64 \<Rightarrow> u64 \<Rightarrow> clint \<Rightarrow> hart list \<Rightarrow> (clint \<times> hart list) result" where
  "write_mtimer ns offset v c harts =
     (if offset = 0x7FF8 then
        let c = c\<lparr>mtime := timer_set ns v (mtime c)\<rparr> in
        and_then (update_mip ns c harts) (\<lambda>harts. Inr (c, harts))
      else
        and_then (vec_put (mtimecmp c) (unat (drop_bit 3 offset)) v) (\<lambda>m.
          let c = c\<lparr>mtimecmp := m\<rparr> in and_then (update_mip ns c harts) (\<lambda>harts. Inr (c, harts))))"

definition clint_read :: "u64 \<Rightarrow> u64 \<Rightarrow> memory_size \<Rightarrow> clint \<Rightarrow> u64 result" where
  "clint_read ns addr sz c =
     (let off = addr - clint_start c in
      if off < CLINT_MSWI_SIZE then read_mswi off c
      else if CLINT_MSWI_SIZE \<le> off \<and> off < CLINT_MSWI_SIZE + CLINT_MTIMER_SIZE
      then read_mtimer ns (off - CLINT_MSWI_SIZE) c
      else Inr 0)"

definition clint_write :: "u64 \<Rightarrow> u64 \<Rightarrow> memory_size \<Rightarrow> u64 \<Rightarrow> clint \<Rightarrow> hart list \<Rightarrow> (clint \<times> hart list) result" where
  "clint_write ns addr sz v c harts =
     (let off = addr - clint_start c in
      if off < CLINT_MSWI_SIZE then write_mswi ns off v c harts
      else if CLINT_MSWI_SIZE \<le> off \<and> off < CLINT_MSWI_SIZE + CLINT_MTIMER_SIZE
      then write_mtimer ns (off - CLINT_MSWI_SIZE) v c harts
      else Inr (c, harts))"

section \<open>Lemmas\<close>

definition clint_wf :: "clint \<Rightarrow> hart list \<Rightarrow> bool" where
  "clint_wf c harts \<longleftrightarrow> length (msip c) = length harts \<and> length (mtimecmp c) = length harts \<and>
     length harts \<le> 256 \<and> (\<forall>i < length harts. hid (harts ! i) = of_nat i)"

text \<open>The timer interrupts of one hart as the privileged architecture states them.\<close>

definition mip_ok :: "u64 \<Rightarrow> clint \<Rightarrow> nat \<Rightarrow> hart \<Rightarrow> hart \<Rightarrow> bool" where
  "mip_ok now c i h h' \<longleftrightarrow>
     (bit (ip h') 3 \<longleftrightarrow> bit (msip c ! i) 0) \<and> (bit (ip h') 7 \<longleftrightarrow> mtimecmp c ! i \<le> now) \<and>
     (bit (ip h') 5 \<longleftrightarrow> stimecmp h \<le> now \<and> stimecmp h \<noteq> 0xFFFFFFFFFFFFFFFF) \<and>
     (\<forall>n. n \<notin> {3, 5, 7} \<longrightarrow> bit (ip h') n = bit (ip h) n) \<and>
     h' = h\<lparr>ctime := now, ip := ip h'\<rparr>"

lemma update_hart_mip_spec:
  assumes "i < length (msip c)" "i < length (mtimecmp c)" "unat (hid h) = i"
  shows "\<exists>h'. update_hart_mip now c h = Inr h' \<and> mip_ok now c i h h'"
proof -
  have one: "x AND 1 \<noteq> 0 \<longleftrightarrow> bit x 0" for x :: u32
    using and_exp_eq_0_iff_not_bit [of x 0] by simp
  show ?thesis
    using assms
    by (auto simp: update_hart_mip_def mip_ok_def vec_at_def Let_def one bit_simps dest: bit_imp_le_length)
qed

lemma update_harts_spec:
  "\<forall>i < length hs. \<exists>h'. update_hart_mip now c (hs ! i) = Inr h' \<and> P i (hs ! i) h' \<Longrightarrow>
   \<exists>hs'. update_harts now c hs = Inr hs' \<and> length hs' = length hs \<and> (\<forall>i < length hs. P i (hs ! i) (hs' ! i))"
proof (induction hs arbitrary: P)
  case (Cons h hs)
  obtain h' where h': "update_hart_mip now c h = Inr h'" "P 0 h h'" using Cons.prems by force
  have "\<forall>i < length hs. \<exists>h'. update_hart_mip now c (hs ! i) = Inr h' \<and> P (Suc i) (hs ! i) h'"
    using Cons.prems by force
  from Cons.IH [where P = "\<lambda>i. P (Suc i)", OF this] obtain hs' where
    "update_harts now c hs = Inr hs'" "length hs' = length hs" "\<forall>i < length hs. P (Suc i) (hs ! i) (hs' ! i)" by blast
  then show ?case using h' by (auto simp: less_Suc_eq_0_disj)
qed simp

section \<open>Properties\<close>

text \<open>
  After an update of the core-local interruptor every hart sees its timer and software
  interrupts as they are: MSIP follows its \<open>msip\<close> register, MTIP is set exactly when the timer has
  reached its \<open>mtimecmp\<close>, STIP exactly when it has reached an armed \<open>stimecmp\<close>; the other pending
  bits are unchanged, \<open>ctime\<close> is the current time and nothing else of the hart changes.
\<close>

theorem clint_update_correct:
  assumes wf: "clint_wf c harts"
  shows "\<exists>harts'. update_mip ns c harts = Inr harts' \<and> length harts' = length harts \<and>
    (\<forall>i < length harts. mip_ok (timer_get ns (mtime c)) c i (harts ! i) (harts' ! i))"
proof -
  have "\<exists>h'. update_hart_mip (timer_get ns (mtime c)) c (harts ! i) = Inr h' \<and>
      mip_ok (timer_get ns (mtime c)) c i (harts ! i) h'" if i: "i < length harts" for i
  proof (rule update_hart_mip_spec)
    show "i < length (msip c)" "i < length (mtimecmp c)" using wf i by (simp_all add: clint_wf_def)
    have "i < 256" using wf i by (simp add: clint_wf_def)
    then have "unat (of_nat i :: u8) = i" by (intro of_nat_inverse [OF refl]) simp
    then show "unat (hid (harts ! i)) = i" using wf i by (simp add: clint_wf_def)
  qed
  then show ?thesis unfolding update_mip_def by (intro update_harts_spec) blast
qed

definition sample_clint :: clint where
  "sample_clint = \<lparr>clint_start = 0x02000000, msip = [1], mtimecmp = [100], mtime = \<lparr>t_begin = 0, t_freq = 1000000\<rparr>\<rparr>"

theorem clint_update_correct_witness:
  "\<exists>h'. update_mip 100000 sample_clint [new_hart 0 0] = Inr [h'] \<and> bit (ip h') 7 \<and> bit (ip h') 3 \<and> bit (ip h') 5"
proof -
  have "clint_wf sample_clint [new_hart 0 0]" by (simp add: clint_wf_def sample_clint_def new_hart_def)
  from clint_update_correct [OF this, of 100000] obtain harts' where
    u: "update_mip 100000 sample_clint [new_hart 0 0] = Inr harts'" and l: "length harts' = 1"
    and ok: "mip_ok (timer_get 100000 (mtime sample_clint)) sample_clint 0 (new_hart 0 0) (harts' ! 0)" by auto
  have t: "timer_get 100000 (mtime sample_clint) = 100"
    by (simp add: timer_get_def timer_clocksource_def sample_clint_def)
  from l obtain h' where "harts' = [h']" by (auto simp: length_Suc_conv)
  with u ok show ?thesis by (auto simp: mip_ok_def t) (simp_all add: sample_clint_def new_hart_def)
qed

text \<open>
  The split multiplication of the clock source is exact and cannot overflow: for every
  nanosecond count of 64 bits and every frequency up to one gigahertz it equals the integer part of
  \<open>ns * freq / 10^9\<close>; and setting the timer makes it read the value set.
\<close>

theorem timer_exact:
  assumes "freq \<le> 1000000000"
  shows "unat (timer_clocksource ns freq) = unat ns * unat freq div 1000000000 \<and>
         timer_get ns (timer_set ns v \<lparr>t_begin = b, t_freq = freq\<rparr>) = v"
proof -
  let ?B = "1000000000 :: nat" let ?n = "unat ns" let ?f = "unat freq"
  have f: "?f \<le> ?B" using assms by (simp add: word_le_nat_alt)
  have n: "?n < 2 ^ 64" using unsigned_less [of ns] by simp
  have dm: "(?n div ?B) * ?B + ?n mod ?B = ?n" by (rule div_mult_mod_eq)
  have m: "?n mod ?B < ?B" by simp
  have q: "(?n div ?B) * ?f \<le> (?n div ?B) * ?B" using f by (rule mult_le_mono2)
  have r: "(?n mod ?B) * ?f \<le> (?n mod ?B) * ?B" using f by (rule mult_le_mono2)
  have r2: "(?n mod ?B) * ?f div ?B \<le> ?n mod ?B" using div_le_mono [OF r, of ?B] by simp
  have u1: "unat ((ns div 1000000000) * freq) = (?n div ?B) * ?f"
  proof -
    have "(?n div ?B) * ?f < 2 ^ 64" using q dm n by linarith
    then show ?thesis by (simp add: unat_word_ariths(2) unat_div)
  qed
  have u2: "unat ((ns mod 1000000000) * freq) = (?n mod ?B) * ?f"
  proof -
    have "(?n mod ?B) * ?f < ?B * ?B" using r m by linarith
    then have "(?n mod ?B) * ?f < 2 ^ 64" by simp
    then show ?thesis by (simp add: unat_word_ariths(2) unat_mod)
  qed
  have "?n * ?f = ((?n div ?B) * ?B + ?n mod ?B) * ?f" by (simp only: dm)
  also have "\<dots> = (?n mod ?B) * ?f + (?n div ?B) * ?f * ?B"
  proof -
    have "(x * c + y) * z = y * z + x * z * c" for x y z c :: nat by (simp add: algebra_simps)
    then show ?thesis .
  qed
  finally have split: "?n * ?f div ?B = (?n div ?B) * ?f + (?n mod ?B) * ?f div ?B" by simp
  have u3: "unat ((ns mod 1000000000) * freq div 1000000000) = (?n mod ?B) * ?f div ?B"
    by (simp add: unat_div u2)
  have "(?n div ?B) * ?f + (?n mod ?B) * ?f div ?B < 2 ^ 64" using q r2 dm n by linarith
  then have "unat (timer_clocksource ns freq) = (?n div ?B) * ?f + (?n mod ?B) * ?f div ?B"
    unfolding timer_clocksource_def unat_word_ariths(1) u1 u3 by simp
  then show ?thesis using split by (simp add: timer_get_def timer_set_def)
qed

theorem timer_exact_witness:
  "unat (timer_clocksource 0xFFFFFFFFFFFFFFFF 10000000) = 18446744073709551615 * 10000000 div 1000000000"
  using timer_exact [of 10000000 "0xFFFFFFFFFFFFFFFF" 0 0] by simp

end
