(* ===== verification/Syscon.thy ===== *)
theory Syscon
  imports Machine_Types
begin

unbundle bit_operations_syntax

text \<open>
  The power-off and reset device, src/devices/syscon.cpp, with the part of \<open>Machine::stop\<close> and
  \<open>Machine::reset\<close> (src/machine.cpp) that a guest write reaches: the state the work loop reads. A
  reset request on a machine that is already off rebuilds the harts while one of them is executing,
  a dangling reference in C++.
\<close>

datatype machine_state = Off | Halted | Running | Resetting

record syscon =
  syscon_start :: u64

definition syscon_init_auto :: syscon where
  "syscon_init_auto = \<lparr>syscon_start = 0x1000000\<rparr>"

definition machine_stop :: "machine_state \<Rightarrow> machine_state" where
  "machine_stop st = Off"

definition machine_reset :: "machine_state \<Rightarrow> machine_state result" where
  "machine_reset st = (if st = Off then Inl Null_pointer else Inr Resetting)"

definition syscon_read :: "u64 \<Rightarrow> memory_size \<Rightarrow> syscon \<Rightarrow> u64" where
  "syscon_read addr sz s = 0"

text \<open>The offset is \<open>start - addr\<close>; only offset zero is decoded.\<close>

definition syscon_write :: "u64 \<Rightarrow> memory_size \<Rightarrow> u64 \<Rightarrow> syscon \<Rightarrow> machine_state \<Rightarrow> machine_state result" where
  "syscon_write addr sz v s st =
     (let offset = syscon_start s - addr in
      if offset = 0 then
        if v = 0x5555 then Inr (machine_stop st)
        else if v = 0x7777 then machine_reset st
        else Inr st
      else Inr st)"

lemma syscon_write_other: "addr \<noteq> syscon_start s \<Longrightarrow> syscon_write addr sz v s st = Inr st"
  by (auto simp: syscon_write_def Let_def)

end
