(* ===== verification/Fdt.thy ===== *)
theory Fdt
  imports Prelude
begin

unbundle bit_operations_syntax

text \<open>
  The flattened device tree of src/libfdt.cpp: the tree of named nodes with properties, and its
  serialization into a buffer, with the sizes computed in advance. The second half proves that the
  computed size is exact, so that no write leaves the buffer, and that a reader of the device tree
  format gets the tree back.
\<close>

section \<open>Helpers\<close>

definition to_be32 :: "u32 \<Rightarrow> u32" where
  "to_be32 v = push_bit 24 (v AND 0x000000FF) OR push_bit 8 (v AND 0x0000FF00) OR
     drop_bit 8 (v AND 0x00FF0000) OR drop_bit 24 (v AND 0xFF000000)"

definition to_be64 :: "u64 \<Rightarrow> u64" where
  "to_be64 v = push_bit 32 (ucast (to_be32 (ucast (v AND 0xFFFFFFFF)))) OR
     ucast (to_be32 (ucast (drop_bit 32 v AND 0xFFFFFFFF)))"

definition align_up :: "u64 \<Rightarrow> u64 \<Rightarrow> u64" where
  "align_up v align = (v + align - 1) AND NOT (align - 1)"

text \<open>The bytes that \<open>memcpy\<close> copies out of an integer on a little-endian host.\<close>

definition bytes32 :: "u32 \<Rightarrow> u8 list" where
  "bytes32 w = map (\<lambda>i. ucast (drop_bit (8 * i) w)) [0, 1, 2, 3]"

definition bytes64 :: "u64 \<Rightarrow> u8 list" where
  "bytes64 w = map (\<lambda>i. ucast (drop_bit (8 * i) w)) [0, 1, 2, 3, 4, 5, 6, 7]"

definition be32_bytes :: "u32 \<Rightarrow> u8 list" where
  "be32_bytes v = bytes32 (to_be32 v)"

definition be64_bytes :: "u64 \<Rightarrow> u8 list" where
  "be64_bytes v = bytes64 (to_be64 v)"

text \<open>Lower case hexadecimal digits as \<open>%llx\<close> prints them; sixteen digits are enough for 64 bits.\<close>

definition hex_digit :: "u64 \<Rightarrow> char" where
  "hex_digit d = ''0123456789abcdef'' ! unat (d AND 0xF)"

fun hex_digits :: "nat \<Rightarrow> u64 \<Rightarrow> string \<Rightarrow> string" where
  "hex_digits 0 v acc = acc"
| "hex_digits (Suc k) v acc =
     (let acc = hex_digit v # acc in if drop_bit 4 v = 0 then acc else hex_digits k (drop_bit 4 v) acc)"

text \<open>\<open>c_str()\<close> read as a C string ends at the first NUL.\<close>

definition c_str :: "string \<Rightarrow> string" where
  "c_str s = takeWhile (\<lambda>c. c \<noteq> CHR 0x00) s"

text \<open>\<open>snprintf\<close> into 64 characters keeps 63 of them.\<close>

definition name_with_addr :: "string \<Rightarrow> u64 \<Rightarrow> string" where
  "name_with_addr name addr = take 63 (c_str name @ ''@'' @ hex_digits 16 addr [])"

section \<open>Nodes\<close>

record fdt_prop =
  prop_name :: string
  prop_data :: "u8 list"

text \<open>
  \<open>parent\<close> is the position in the tree: a node is addressed by the path of child indices that leads
  to it from the root.
\<close>

datatype node = Node (node_name: string) (props: "fdt_prop list") (children: "node list") (phandle: u32)

definition new_node :: "string \<Rightarrow> node" where
  "new_node nm = Node nm [] [] 0"

definition create_reg :: "string \<Rightarrow> u64 \<Rightarrow> node" where
  "create_reg nm addr = new_node (name_with_addr nm addr)"

fun add_child :: "node option \<Rightarrow> node \<Rightarrow> node" where
  "add_child None nd = nd"
| "add_child (Some c) (Node nm ps cs ph) = Node nm ps (cs @ [c]) ph"

definition find_node :: "string \<Rightarrow> node \<Rightarrow> node option" where
  "find_node nm nd = find (\<lambda>c. node_name c = nm) (children nd)"

definition find_reg :: "string \<Rightarrow> u64 \<Rightarrow> node \<Rightarrow> node option" where
  "find_reg nm addr nd = find_node (name_with_addr nm addr) nd"

definition find_reg_any :: "string \<Rightarrow> node \<Rightarrow> node option" where
  "find_reg_any nm nd = find (\<lambda>c. take (length nm + 1) (node_name c) = nm @ ''@'') (children nd)"

fun put_prop :: "string \<Rightarrow> u8 list \<Rightarrow> fdt_prop list \<Rightarrow> fdt_prop list" where
  "put_prop nm d [] = [\<lparr>prop_name = nm, prop_data = d\<rparr>]"
| "put_prop nm d (p # ps) = (if prop_name p = nm then p\<lparr>prop_data := d\<rparr> # ps else p # put_prop nm d ps)"

fun add_prop :: "string \<Rightarrow> u8 list \<Rightarrow> node \<Rightarrow> node" where
  "add_prop nm d (Node n ps cs ph) = (if nm = [] then Node n ps cs ph else Node n (put_prop nm d ps) cs ph)"

definition add_prop_u32 :: "string \<Rightarrow> u32 \<Rightarrow> node \<Rightarrow> node" where
  "add_prop_u32 nm val = add_prop nm (be32_bytes val)"

definition add_prop_u64 :: "string \<Rightarrow> u64 \<Rightarrow> node \<Rightarrow> node" where
  "add_prop_u64 nm val = add_prop nm (be64_bytes val)"

definition add_prop_cells :: "string \<Rightarrow> u32 list \<Rightarrow> nat \<Rightarrow> node \<Rightarrow> node result" where
  "add_prop_cells nm cells count nd =
     (if count = 0 then Inr (add_prop nm [] nd)
      else if length cells < count then Inl Vector_index
      else Inr (add_prop nm (concat (map be32_bytes (take count cells))) nd))"

definition add_prop_str :: "string \<Rightarrow> string \<Rightarrow> node \<Rightarrow> node" where
  "add_prop_str nm val = add_prop nm (map of_char val @ [0])"

definition add_prop_reg :: "string \<Rightarrow> u64 \<Rightarrow> u64 \<Rightarrow> node \<Rightarrow> node" where
  "add_prop_reg nm from len = add_prop nm (be64_bytes from @ be64_bytes len)"

text \<open>The null pointer stands for a property that is absent or empty.\<close>

definition get_prop_data :: "string \<Rightarrow> node \<Rightarrow> u8 list option" where
  "get_prop_data nm nd =
     (case find (\<lambda>p. prop_name p = nm) (props nd) of
        None \<Rightarrow> None
      | Some p \<Rightarrow> if prop_data p = [] then None else Some (prop_data p))"

definition get_prop_size :: "string \<Rightarrow> node \<Rightarrow> nat" where
  "get_prop_size nm nd =
     (case find (\<lambda>p. prop_name p = nm) (props nd) of None \<Rightarrow> 0 | Some p \<Rightarrow> length (prop_data p))"

fun drop_prop :: "string \<Rightarrow> fdt_prop list \<Rightarrow> bool \<times> fdt_prop list" where
  "drop_prop nm [] = (False, [])"
| "drop_prop nm (p # ps) =
     (if prop_name p = nm then (True, ps) else case drop_prop nm ps of (b, ps) \<Rightarrow> (b, p # ps))"

fun del_prop :: "string \<Rightarrow> node \<Rightarrow> bool \<times> node" where
  "del_prop nm (Node n ps cs ph) = (case drop_prop nm ps of (b, ps) \<Rightarrow> (b, Node n ps cs ph))"

section \<open>Phandles\<close>

fun node_at :: "nat list \<Rightarrow> node \<Rightarrow> node option" where
  "node_at [] nd = Some nd"
| "node_at (k # ks) nd = (if k < length (children nd) then node_at ks (children nd ! k) else None)"

fun upd_node_at :: "nat list \<Rightarrow> (node \<Rightarrow> node) \<Rightarrow> node \<Rightarrow> node" where
  "upd_node_at [] f nd = f nd"
| "upd_node_at (k # ks) f (Node nm ps cs ph) =
     (if k < length cs then Node nm ps (cs[k := upd_node_at ks f (cs ! k)]) ph else Node nm ps cs ph)"

fun set_phandle :: "u32 \<Rightarrow> node \<Rightarrow> node" where
  "set_phandle p (Node nm ps cs ph) = Node nm ps cs p"

definition is_illegal_phandle :: "u32 \<Rightarrow> bool" where
  "is_illegal_phandle ph \<longleftrightarrow> ph = 0 \<or> ph = 0xFFFFFFFF"

definition allocate_new_phandle :: "node \<Rightarrow> u32 \<times> node" where
  "allocate_new_phandle root = (phandle root + 1, set_phandle (phandle root + 1) root)"

text \<open>\<open>get_phandle\<close> of the node that a path of the tree leads to.\<close>

definition get_phandle :: "nat list \<Rightarrow> node \<Rightarrow> (u32 \<times> node) result" where
  "get_phandle path root =
     (case node_at path root of
        None \<Rightarrow> Inl Null_pointer
      | Some nd \<Rightarrow>
          if path = [] \<or> node_name nd = [] then Inr (0, root)
          else if is_illegal_phandle (phandle nd) then
            let (p, root) = allocate_new_phandle root in
            Inr (p, upd_node_at path (\<lambda>nd. add_prop_u32 ''phandle'' p (set_phandle p nd)) root)
          else Inr (phandle nd, root))"

section \<open>Serialization\<close>

abbreviation (input) FDT_MAGIC :: u32 where "FDT_MAGIC \<equiv> 0xD00DFEED"
abbreviation (input) FDT_VERSION :: u32 where "FDT_VERSION \<equiv> 17"
abbreviation (input) FDT_COMP_VERSION :: u32 where "FDT_COMP_VERSION \<equiv> 16"
abbreviation (input) FDT_BEGIN_NODE :: u32 where "FDT_BEGIN_NODE \<equiv> 1"
abbreviation (input) FDT_END_NODE :: u32 where "FDT_END_NODE \<equiv> 2"
abbreviation (input) FDT_PROP :: u32 where "FDT_PROP \<equiv> 3"
abbreviation (input) FDT_END :: u32 where "FDT_END \<equiv> 9"
abbreviation (input) FDT_HDR_SIZE :: u32 where "FDT_HDR_SIZE \<equiv> 40"
abbreviation (input) FDT_RSV_SIZE :: u32 where "FDT_RSV_SIZE \<equiv> 16"

record size_desc =
  struct_size :: u32
  string_size :: u32

definition prop_sizes :: "fdt_prop \<Rightarrow> size_desc \<Rightarrow> size_desc" where
  "prop_sizes p d =
     (let d = d\<lparr>struct_size := struct_size d + 4 * 3\<rparr>;
          d = d\<lparr>struct_size := struct_size d + ucast (align_up (of_nat (length (prop_data p))) 4)\<rparr>
      in d\<lparr>string_size := string_size d + ucast (align_up (of_nat (length (prop_name p) + 1)) 4)\<rparr>)"

fun get_tree_size :: "node \<Rightarrow> size_desc \<Rightarrow> size_desc" and get_trees_size :: "node list \<Rightarrow> size_desc \<Rightarrow> size_desc" where
  "get_tree_size (Node nm ps cs ph) d =
     (let name_len = align_up (if nm = [] then 1 else of_nat (length nm + 1)) 4;
          d = d\<lparr>struct_size := struct_size d + (4 + ucast name_len)\<rparr>;
          d = fold prop_sizes ps d;
          d = get_trees_size cs d
      in d\<lparr>struct_size := struct_size d + 4\<rparr>)"
| "get_trees_size [] d = d"
| "get_trees_size (c # cs) d = get_trees_size cs (get_tree_size c d)"

record serializer_ctx =
  sbuf :: "u8 list"
  struct_off :: u32
  strings_begin :: u32
  strings_off :: u32
  reserve_off :: u32

text \<open>A copy into the buffer; one that would leave it is undefined.\<close>

definition copy_to :: "nat \<Rightarrow> u8 list \<Rightarrow> u8 list \<Rightarrow> u8 list result" where
  "copy_to off bs buf =
     (if off + length bs \<le> length buf then Inr (take off buf @ bs @ drop (off + length bs) buf)
      else Inl Vector_index)"

definition ser_u32 :: "u32 \<Rightarrow> serializer_ctx \<Rightarrow> serializer_ctx result" where
  "ser_u32 value ctx =
     and_then (copy_to (unat (struct_off ctx)) (be32_bytes value) (sbuf ctx)) (\<lambda>b.
     Inr (ctx\<lparr>sbuf := b, struct_off := struct_off ctx + 4\<rparr>))"

definition ser_string :: "string \<Rightarrow> serializer_ctx \<Rightarrow> serializer_ctx result" where
  "ser_string s ctx =
     (let s = c_str s in
      and_then (copy_to (unat (struct_off ctx)) (map of_char s @ [0]) (sbuf ctx)) (\<lambda>b.
      Inr (ctx\<lparr>sbuf := b, struct_off := ucast (align_up (ucast (struct_off ctx) + of_nat (length s) + 1) 4)\<rparr>)))"

definition ser_data :: "u8 list \<Rightarrow> serializer_ctx \<Rightarrow> serializer_ctx result" where
  "ser_data d ctx =
     and_then (if d = [] then Inr (sbuf ctx) else copy_to (unat (struct_off ctx)) d (sbuf ctx)) (\<lambda>b.
     Inr (ctx\<lparr>sbuf := b, struct_off := ucast (align_up (ucast (struct_off ctx + of_nat (length d))) 4)\<rparr>))"

definition ser_name :: "string \<Rightarrow> serializer_ctx \<Rightarrow> serializer_ctx result" where
  "ser_name s ctx =
     (let s = c_str s in
      and_then (copy_to (unat (strings_off ctx)) (map of_char s @ [0]) (sbuf ctx)) (\<lambda>b.
      Inr (ctx\<lparr>sbuf := b, strings_off := ucast (align_up (ucast (strings_off ctx) + of_nat (length s) + 1) 4)\<rparr>)))"

definition ser_prop :: "fdt_prop \<Rightarrow> serializer_ctx \<Rightarrow> serializer_ctx result" where
  "ser_prop p ctx =
     and_then (ser_u32 FDT_PROP ctx) (\<lambda>ctx.
     and_then (ser_u32 (of_nat (length (prop_data p))) ctx) (\<lambda>ctx.
     and_then (ser_u32 (strings_off ctx - strings_begin ctx) ctx) (\<lambda>ctx.
     and_then (ser_data (prop_data p) ctx) (\<lambda>ctx.
     ser_name (prop_name p) ctx))))"

fun ser_props :: "fdt_prop list \<Rightarrow> serializer_ctx \<Rightarrow> serializer_ctx result" where
  "ser_props [] ctx = Inr ctx"
| "ser_props (p # ps) ctx = and_then (ser_prop p ctx) (ser_props ps)"

fun ser_tree :: "node \<Rightarrow> serializer_ctx \<Rightarrow> serializer_ctx result"
  and ser_trees :: "node list \<Rightarrow> serializer_ctx \<Rightarrow> serializer_ctx result" where
  "ser_tree (Node nm ps cs ph) ctx =
     and_then (ser_u32 FDT_BEGIN_NODE ctx) (\<lambda>ctx.
     and_then (ser_string nm ctx) (\<lambda>ctx.
     and_then (ser_props ps ctx) (\<lambda>ctx.
     and_then (ser_trees cs ctx) (\<lambda>ctx.
     ser_u32 FDT_END_NODE ctx))))"
| "ser_trees [] ctx = Inr ctx"
| "ser_trees (c # cs) ctx = and_then (ser_tree c ctx) (ser_trees cs)"

definition tree_desc :: "node \<Rightarrow> size_desc" where
  "tree_desc nd =
     (let d = get_tree_size nd \<lparr>struct_size = 0, string_size = 0\<rparr> in d\<lparr>struct_size := struct_size d + 4\<rparr>)"

definition size_of_tree :: "node \<Rightarrow> u64" where
  "size_of_tree nd =
     ucast (FDT_HDR_SIZE + FDT_RSV_SIZE + struct_size (tree_desc nd) + string_size (tree_desc nd))"

definition fdt_header :: "u32 \<Rightarrow> u32 \<Rightarrow> serializer_ctx \<Rightarrow> size_desc \<Rightarrow> u8 list" where
  "fdt_header buf_size boot_cpuid ctx desc = concat (map be32_bytes
     [FDT_MAGIC, buf_size, struct_off ctx, strings_off ctx, reserve_off ctx, FDT_VERSION, FDT_COMP_VERSION,
      boot_cpuid, string_size desc, struct_size desc])"

text \<open>\<open>None\<close> is the null pointer, with which only the size is computed; \<open>size\<close> is what the caller says of the buffer.\<close>

definition serialize :: "node \<Rightarrow> u8 list option \<Rightarrow> u64 \<Rightarrow> u32 \<Rightarrow> (u64 \<times> u8 list option) result" where
  "serialize nd buffer bsize boot_cpuid =
     (let desc = tree_desc nd;
          buf_size = FDT_HDR_SIZE + FDT_RSV_SIZE + struct_size desc;
          ctx = \<lparr>sbuf = [], struct_off = FDT_HDR_SIZE + FDT_RSV_SIZE, strings_begin = buf_size,
                 strings_off = buf_size, reserve_off = FDT_HDR_SIZE\<rparr>;
          buf_size = buf_size + string_size desc
      in case buffer of
           None \<Rightarrow> Inr (ucast buf_size, None)
         | Some b \<Rightarrow>
             if bsize < ucast buf_size then Inr (0, Some b)
             else and_then (copy_to 0 (replicate (unat buf_size) 0) b) (\<lambda>b.
               and_then (copy_to 0 (fdt_header buf_size boot_cpuid ctx desc) b) (\<lambda>b.
               and_then (ser_tree nd (ctx\<lparr>sbuf := b\<rparr>)) (\<lambda>ctx.
               and_then (ser_u32 FDT_END ctx) (\<lambda>ctx.
               Inr (ucast buf_size, Some (sbuf ctx)))))))"

section \<open>The device tree format\<close>

text \<open>The encoding of a tree: the structure block, given the offset of its names, and the strings block.\<close>

definition align4 :: "nat \<Rightarrow> nat" where
  "align4 n = 4 * ((n + 3) div 4)"

definition enc_data :: "u8 list \<Rightarrow> u8 list" where
  "enc_data d = d @ replicate (align4 (length d) - length d) 0"

definition enc_str :: "string \<Rightarrow> u8 list" where
  "enc_str s = enc_data (map of_char s @ [0])"

primrec enc_props :: "fdt_prop list \<Rightarrow> nat \<Rightarrow> u8 list" where
  "enc_props [] so = []"
| "enc_props (p # ps) so = be32_bytes FDT_PROP @ be32_bytes (of_nat (length (prop_data p))) @ be32_bytes (of_nat so) @
     enc_data (prop_data p) @ enc_props ps (so + length (enc_str (prop_name p)))"

definition props_strs :: "fdt_prop list \<Rightarrow> u8 list" where
  "props_strs ps = concat (map (\<lambda>p. enc_str (prop_name p)) ps)"

fun node_strs :: "node \<Rightarrow> u8 list" and nodes_strs :: "node list \<Rightarrow> u8 list" where
  "node_strs (Node nm ps cs ph) = props_strs ps @ nodes_strs cs"
| "nodes_strs [] = []"
| "nodes_strs (c # cs) = node_strs c @ nodes_strs cs"

fun enc_node :: "node \<Rightarrow> nat \<Rightarrow> u8 list" and enc_nodes :: "node list \<Rightarrow> nat \<Rightarrow> u8 list" where
  "enc_node (Node nm ps cs ph) so = be32_bytes FDT_BEGIN_NODE @ enc_str nm @ enc_props ps so @
     enc_nodes cs (so + length (props_strs ps)) @ be32_bytes FDT_END_NODE"
| "enc_nodes [] so = []"
| "enc_nodes (c # cs) so = enc_node c so @ enc_nodes cs (so + length (node_strs c))"

text \<open>A reader of the format.\<close>

fun rd32 :: "u8 list \<Rightarrow> (u32 \<times> u8 list) option" where
  "rd32 (a # b # c # d # bs) =
     Some (push_bit 24 (ucast a) OR push_bit 16 (ucast b) OR push_bit 8 (ucast c) OR ucast d, bs)"
| "rd32 bs = None"

definition cstr_at :: "u8 list \<Rightarrow> string" where
  "cstr_at bs = map (\<lambda>b. char_of (unat b)) (takeWhile (\<lambda>b. b \<noteq> 0) bs)"

definition rd_str :: "u8 list \<Rightarrow> string \<times> u8 list" where
  "rd_str bs = (cstr_at bs, drop (align4 (length (cstr_at bs) + 1)) bs)"

fun parse_items :: "nat \<Rightarrow> u8 list \<Rightarrow> u8 list \<Rightarrow> (fdt_prop list \<times> node list \<times> u8 list) option" where
  "parse_items 0 strs bs = None"
| "parse_items (Suc f) strs bs =
     (case rd32 bs of
        None \<Rightarrow> None
      | Some (t, bs) \<Rightarrow>
          if t = FDT_END_NODE then Some ([], [], bs)
          else if t = FDT_PROP then
            (case rd32 bs of None \<Rightarrow> None | Some (len, bs) \<Rightarrow>
             case rd32 bs of None \<Rightarrow> None | Some (off, bs) \<Rightarrow>
             case parse_items f strs (drop (align4 (unat len)) bs) of None \<Rightarrow> None | Some (ps, cs, r) \<Rightarrow>
               Some (\<lparr>prop_name = cstr_at (drop (unat off) strs), prop_data = take (unat len) bs\<rparr> # ps, cs, r))
          else if t = FDT_BEGIN_NODE then
            (case rd_str bs of (nm, bs) \<Rightarrow>
             case parse_items f strs bs of None \<Rightarrow> None | Some (ps, cs, bs) \<Rightarrow>
             case parse_items f strs bs of None \<Rightarrow> None | Some (ps', cs', r) \<Rightarrow>
               Some (ps', Node nm ps cs 0 # cs', r))
          else None)"

definition parse_dtb :: "u8 list \<Rightarrow> node option" where
  "parse_dtb buf =
     (case (rd32 buf, rd32 (drop 8 buf), rd32 (drop 12 buf)) of
        (Some (magic, _), Some (off_struct, _), Some (off_strings, _)) \<Rightarrow>
          if magic \<noteq> FDT_MAGIC then None
          else (case rd32 (drop (unat off_struct) buf) of None \<Rightarrow> None | Some (t, bs) \<Rightarrow>
            if t \<noteq> FDT_BEGIN_NODE then None
            else (case rd_str bs of (nm, bs) \<Rightarrow>
              case parse_items (length buf) (drop (unat off_strings) buf) bs of None \<Rightarrow> None | Some (ps, cs, bs) \<Rightarrow>
              (case rd32 bs of None \<Rightarrow> None | Some (t, _) \<Rightarrow>
                 if t = FDT_END then Some (Node nm ps cs 0) else None)))
      | _ \<Rightarrow> None)"

text \<open>What the format does not carry: the allocation state of phandles. Names must not contain NUL.\<close>

fun erase :: "node \<Rightarrow> node" where
  "erase (Node nm ps cs ph) = Node nm ps (map erase cs) 0"

definition str_ok :: "string \<Rightarrow> bool" where
  "str_ok s \<longleftrightarrow> CHR 0x00 \<notin> set s"

fun names_ok :: "node \<Rightarrow> bool" where
  "names_ok (Node nm ps cs ph) \<longleftrightarrow> str_ok nm \<and> list_all (\<lambda>p. str_ok (prop_name p)) ps \<and> list_all names_ok cs"

section \<open>Integers and alignment\<close>

lemma be32_bytes_eq: "be32_bytes v = [ucast (drop_bit 24 v), ucast (drop_bit 16 v), ucast (drop_bit 8 v), ucast v]"
proof -
  have m: "(0xFF :: u32) = mask 8" "(0xFF00 :: u32) = push_bit 8 (mask 8)" "(0xFF0000 :: u32) = push_bit 16 (mask 8)"
    "(0xFF000000 :: u32) = push_bit 24 (mask 8)"
    by (simp_all add: mask_eq_exp_minus_1)
  have "ucast (to_be32 v) = (ucast (drop_bit 24 v) :: u8)" "ucast (drop_bit 8 (to_be32 v)) = (ucast (drop_bit 16 v) :: u8)"
    "ucast (drop_bit 16 (to_be32 v)) = (ucast (drop_bit 8 v) :: u8)" "ucast (drop_bit 24 (to_be32 v)) = (ucast v :: u8)"
    unfolding to_be32_def m by (rule bit_word_eqI; auto simp: bit_simps)+
  then show ?thesis by (simp add: be32_bytes_def bytes32_def)
qed

lemma length_be32 [simp]: "length (be32_bytes v) = 4"
  by (simp add: be32_bytes_eq)

lemma rd32_be32 [simp]: "rd32 (be32_bytes v @ bs) = Some (v, bs)"
proof -
  have "push_bit 24 (ucast (ucast (drop_bit 24 v) :: u8)) OR push_bit 16 (ucast (ucast (drop_bit 16 v) :: u8)) OR
      push_bit 8 (ucast (ucast (drop_bit 8 v) :: u8)) OR ucast (ucast v :: u8) = v"
    (is "?l = v")
  proof (rule bit_word_eqI)
    fix n :: nat assume "n < LENGTH(32)"
    then show "bit ?l n = bit v n" by (cases "n < 8"; cases "n < 16"; cases "n < 24") (auto simp: bit_simps)
  qed
  then show ?thesis by (simp add: be32_bytes_eq)
qed

lemma align4_bounds: "n \<le> align4 n" "align4 n < n + 4" "4 dvd align4 n"
  by (auto simp: align4_def)

lemma align4_add: "4 dvd a \<Longrightarrow> align4 (a + n) = a + align4 n"
  unfolding align4_def by presburger

lemma length_enc_data [simp]: "length (enc_data d) = align4 (length d)"
  using align4_bounds(1) [of "length d"] by (simp add: enc_data_def)

lemma length_enc_str [simp]: "length (enc_str s) = align4 (length s + 1)"
  by (simp add: enc_str_def)

lemma align_up_4:
  assumes "n + 3 < 2 ^ 64"
  shows "align_up (of_nat n) 4 = of_nat (align4 n)"
proof -
  have "align_up (of_nat n) 4 = of_nat (n + 3) AND NOT (3 :: u64)" by (simp add: align_up_def add.commute)
  also have "\<dots> = push_bit 2 (drop_bit 2 (of_nat (n + 3)))"
  proof -
    have "x AND NOT (mask 2) = push_bit 2 (drop_bit 2 x)" for x :: u64
    proof (rule bit_word_eqI)
      fix n :: nat assume "n < LENGTH(64)"
      then show "bit (x AND NOT (mask 2)) n = bit (push_bit 2 (drop_bit 2 x)) n"
        using le_Suc_ex [of 2 n] by (cases "n < 2") (auto simp: bit_simps)
    qed
    moreover have "(3 :: u64) = mask 2" by (simp add: mask_eq_exp_minus_1)
    ultimately show ?thesis by metis
  qed
  also have "drop_bit 2 (of_nat (n + 3)) = (of_nat ((n + 3) div 4) :: u64)"
  proof (rule word_unat_eq_iff [THEN iffD2])
    have "unat (of_nat (n + 3) :: u64) = n + 3" using assms by (simp only: unat_of_nat) simp
    then have "unat (drop_bit 2 (of_nat (n + 3)) :: u64) = (n + 3) div 4"
      unfolding unat_drop_bit_eq by (simp only:) (simp add: drop_bit_eq_div)
    moreover have "(n + 3) div 4 < 2 ^ 64" using assms by simp
    ultimately show "unat (drop_bit 2 (of_nat (n + 3)) :: u64) = unat (of_nat ((n + 3) div 4) :: u64)"
      by (simp only: unat_of_nat) simp
  qed
  also have "push_bit 2 (of_nat ((n + 3) div 4)) = (of_nat (align4 n) :: u64)"
    by (simp add: push_bit_eq_mult align4_def mult.commute)
  finally show ?thesis .
qed

lemma align_up_off:
  assumes "4 dvd a" and "a + n + 3 < 2 ^ 32"
  shows "ucast (align_up (of_nat (a + n)) 4) = (of_nat (a + align4 n) :: u32)"
proof -
  have "ucast (of_nat m :: u64) = (of_nat m :: u32)" for m by transfer (simp add: take_bit_take_bit)
  moreover have "align_up (of_nat (a + n)) 4 = (of_nat (a + align4 n) :: u64)"
    using assms align_up_4 [of "a + n"] align4_add [of a n] by (simp del: of_nat_add)
  ultimately show ?thesis by (simp only:)
qed

lemma ucast_of_nat_small: "n < 2 ^ 32 \<Longrightarrow> ucast (of_nat n :: u32) = (of_nat n :: u64)"
  by (simp add: unsigned_of_nat take_bit_nat_eq_self)

lemma of_char_inverse: "char_of (unat (of_char c :: u8)) = c" and of_char_zero: "(of_char c :: u8) = 0 \<longleftrightarrow> c = CHR 0x00"
proof -
  have "(of_char c :: u8) = of_nat (of_char c)" by (rule of_nat_of_char [symmetric])
  moreover have "of_char c < (256 :: nat)" by simp
  ultimately have u: "unat (of_char c :: u8) = of_char c" by (simp add: unat_of_nat)
  show "char_of (unat (of_char c :: u8)) = c" by (simp only: u char_of_char)
  show "(of_char c :: u8) = 0 \<longleftrightarrow> c = CHR 0x00"
  proof
    assume "(of_char c :: u8) = 0"
    with u have "of_char c = (of_char (CHR 0x00) :: nat)" by simp
    then show "c = CHR 0x00" by (rule of_char_eqI)
  qed simp
qed

lemma c_str_ok: "str_ok s \<Longrightarrow> c_str s = s"
  by (auto simp: str_ok_def c_str_def takeWhile_eq_all_conv)

lemma cstr_at_enc: "str_ok s \<Longrightarrow> cstr_at (enc_str s @ bs) = s"
proof -
  assume "str_ok s"
  then have "\<forall>b \<in> set (map of_char s). b \<noteq> (0 :: u8)" by (auto simp: str_ok_def of_char_zero)
  then have "takeWhile (\<lambda>b. b \<noteq> (0 :: u8)) (map of_char s @ 0 # ys) = map of_char s" for ys
    by (subst takeWhile_append2) auto
  then show ?thesis by (simp add: cstr_at_def enc_str_def enc_data_def comp_def of_char_inverse)
qed

lemma rd_str_enc: "str_ok s \<Longrightarrow> rd_str (enc_str s @ bs) = (s, bs)"
  by (simp add: rd_str_def cstr_at_enc)

section \<open>The buffer\<close>

text \<open>
  The buffer while it is filled: the structure block written so far, zeros, the strings written so
  far, zeros.
\<close>

definition filling :: "u8 list \<Rightarrow> serializer_ctx \<Rightarrow> u8 list \<Rightarrow> nat \<Rightarrow> u8 list \<Rightarrow> nat \<Rightarrow> bool" where
  "filling X ctx S r T q \<longleftrightarrow> sbuf ctx = S @ replicate r 0 @ T @ replicate q 0 @ X \<and>
     struct_off ctx = of_nat (length S) \<and> strings_begin ctx = of_nat (length S + r) \<and>
     strings_off ctx = of_nat (length S + r + length T) \<and>
     4 dvd length S \<and> 4 dvd r \<and> 4 dvd length T \<and> length S + r + length T + q + 3 < 2 ^ 32"

lemma copy_to_zeros:
  assumes "length bs \<le> r"
  shows "copy_to (length S) bs (S @ replicate r 0 @ X) = Inr (S @ bs @ replicate (r - length bs) 0 @ X)"
  using assms by (simp add: copy_to_def drop_replicate)

lemma copy_to_padded:
  assumes "length (enc_data bs) \<le> r"
  shows "copy_to (length S) bs (S @ replicate r 0 @ X) = Inr (S @ enc_data bs @ replicate (r - length (enc_data bs)) 0 @ X)"
proof -
  have le: "length bs \<le> align4 (length bs)" by (rule align4_bounds)
  then have "replicate (r - length bs) (0 :: u8) =
      replicate (align4 (length bs) - length bs) 0 @ replicate (r - align4 (length bs)) 0"
    using assms unfolding replicate_add [symmetric] by simp
  with copy_to_zeros [of bs r S X] le assms show ?thesis by (simp add: enc_data_def)
qed

lemma ser_u32_filling:
  assumes "filling X ctx S r T q" and "4 \<le> r"
  shows "\<exists>ctx'. ser_u32 v ctx = Inr ctx' \<and> filling X ctx' (S @ be32_bytes v) (r - 4) T q"
proof -
  have so: "unat (struct_off ctx) = length S" using assms(1) by (simp add: filling_def unat_of_nat)
  have "ser_u32 v ctx = Inr (ctx\<lparr>sbuf := S @ be32_bytes v @ replicate (r - 4) 0 @ T @ replicate q 0 @ X,
      struct_off := struct_off ctx + 4\<rparr>)"
    using assms copy_to_zeros [of "be32_bytes v" r S "T @ replicate q 0 @ X"]
    by (simp add: ser_u32_def so) (simp add: filling_def)
  with assms show ?thesis by (auto simp: filling_def algebra_simps)
qed

lemma ser_string_filling:
  assumes "filling X ctx S r T q" and "str_ok s" and "length (enc_str s) \<le> r"
  shows "\<exists>ctx'. ser_string s ctx = Inr ctx' \<and> filling X ctx' (S @ enc_str s) (r - length (enc_str s)) T q"
proof -
  have f: "sbuf ctx = S @ replicate r 0 @ T @ replicate q 0 @ X" "struct_off ctx = of_nat (length S)" "4 dvd length S"
    "length S + r + length T + q + 3 < 2 ^ 32"
    using assms(1) by (simp_all add: filling_def)
  have so: "unat (struct_off ctx) = length S" using f by (simp add: unat_of_nat)
  have n: "length s + 1 \<le> r" using assms(3) align4_bounds(1) [of "length s + 1"] by simp
  have off: "ucast (align_up (ucast (struct_off ctx) + of_nat (length s) + 1) 4) = (of_nat (length S + align4 (length s + 1)) :: u32)"
    using align_up_off [OF f(3), of "length s + 1"] f(4) n by (simp add: f(2) ucast_of_nat_small algebra_simps)
  have "ser_string s ctx = Inr (ctx\<lparr>sbuf := S @ enc_str s @ replicate (r - length (enc_str s)) 0 @ T @ replicate q 0 @ X,
      struct_off := of_nat (length S + align4 (length s + 1))\<rparr>)"
    using copy_to_padded [of "map of_char s @ [0]" r S "T @ replicate q 0 @ X"] assms(3)
    unfolding enc_str_def [symmetric] by (simp add: ser_string_def c_str_ok [OF assms(2)] so f(1) off)
  with assms align4_bounds(3) [of "length s + 1"] show ?thesis by (auto simp: filling_def)
qed

lemma ser_data_filling:
  assumes "filling X ctx S r T q" and "length (enc_data d) \<le> r"
  shows "\<exists>ctx'. ser_data d ctx = Inr ctx' \<and> filling X ctx' (S @ enc_data d) (r - length (enc_data d)) T q"
proof -
  have f: "sbuf ctx = S @ replicate r 0 @ T @ replicate q 0 @ X" "struct_off ctx = of_nat (length S)" "4 dvd length S"
    "length S + r + length T + q + 3 < 2 ^ 32"
    using assms(1) by (simp_all add: filling_def)
  have so: "unat (struct_off ctx) = length S" using f by (simp add: unat_of_nat)
  have n: "length d \<le> r" using assms(2) align4_bounds(1) [of "length d"] by simp
  have off: "ucast (align_up (ucast (struct_off ctx + of_nat (length d))) 4) = (of_nat (length S + align4 (length d)) :: u32)"
    using align_up_off [OF f(3), of "length d"] f(4) n ucast_of_nat_small [of "length S + length d"] by (simp add: f(2))
  have "(if d = [] then Inr (sbuf ctx) else copy_to (unat (struct_off ctx)) d (sbuf ctx)) =
      Inr (S @ enc_data d @ replicate (r - length (enc_data d)) 0 @ T @ replicate q 0 @ X)"
    using copy_to_padded [of d r S "T @ replicate q 0 @ X"] assms(2) by (auto simp: so f(1) enc_data_def align4_def)
  then have "ser_data d ctx = Inr (ctx\<lparr>sbuf := S @ enc_data d @ replicate (r - length (enc_data d)) 0 @ T @ replicate q 0 @ X,
      struct_off := of_nat (length S + align4 (length d))\<rparr>)"
    by (simp add: ser_data_def off)
  with assms align4_bounds(3) [of "length d"] show ?thesis by (auto simp: filling_def)
qed

lemma ser_name_filling:
  assumes "filling X ctx S r T q" and "str_ok s" and "length (enc_str s) \<le> q"
  shows "\<exists>ctx'. ser_name s ctx = Inr ctx' \<and> filling X ctx' S r (T @ enc_str s) (q - length (enc_str s))"
proof -
  let ?S = "S @ replicate r 0 @ T"
  have f: "sbuf ctx = ?S @ replicate q 0 @ X" "strings_off ctx = of_nat (length ?S)" "4 dvd length ?S"
    "length ?S + q + 3 < 2 ^ 32"
    using assms(1) by (simp_all add: filling_def add.assoc)
  have so: "unat (strings_off ctx) = length ?S" unfolding f(2) unat_of_nat using f(4) by simp
  have n: "length s + 1 \<le> q" using assms(3) align4_bounds(1) [of "length s + 1"] by simp
  have off: "ucast (align_up (ucast (strings_off ctx) + of_nat (length s) + 1) 4) = (of_nat (length ?S + align4 (length s + 1)) :: u32)"
    using align_up_off [OF f(3), of "length s + 1"] f(4) n ucast_of_nat_small [of "length ?S"]
    by (simp add: f(2) algebra_simps)
  have "ser_name s ctx = Inr (ctx\<lparr>sbuf := ?S @ enc_str s @ replicate (q - length (enc_str s)) 0 @ X,
      strings_off := of_nat (length ?S + align4 (length s + 1))\<rparr>)"
    using copy_to_padded [of "map of_char s @ [0]" q ?S X] assms(3)
    unfolding enc_str_def [symmetric] by (simp only: ser_name_def c_str_ok [OF assms(2)] so f(1) off Let_def and_then.simps)
  with assms align4_bounds(3) [of "length s + 1"] show ?thesis by (auto simp: filling_def)
qed

lemma ser_prop_filling:
  assumes "filling X ctx S r T q" and "str_ok (prop_name p)" and "12 + length (enc_data (prop_data p)) \<le> r"
    and "length (enc_str (prop_name p)) \<le> q"
  shows "\<exists>ctx'. ser_prop p ctx = Inr ctx' \<and>
    filling X ctx' (S @ enc_props [p] (length T)) (r - length (enc_props [p] (length T)))
      (T @ enc_str (prop_name p)) (q - length (enc_str (prop_name p)))"
proof -
  have le: "4 \<le> r" "4 \<le> r - 4" "4 \<le> r - 4 - 4" "length (enc_data (prop_data p)) \<le> r - 4 - 4 - 4"
    using assms(3) by auto
  obtain c1 where c1: "ser_u32 3 ctx = Inr c1" "filling X c1 (S @ be32_bytes 3) (r - 4) T q"
    using ser_u32_filling [OF assms(1) le(1)] by blast
  obtain c2 where c2: "ser_u32 (of_nat (length (prop_data p))) c1 = Inr c2"
    "filling X c2 ((S @ be32_bytes 3) @ be32_bytes (of_nat (length (prop_data p)))) (r - 4 - 4) T q"
    using ser_u32_filling [OF c1(2) le(2)] by blast
  have off: "strings_off c2 - strings_begin c2 = of_nat (length T)" using c2(2) by (simp add: filling_def)
  obtain c3 where c3: "ser_u32 (of_nat (length T)) c2 = Inr c3"
    "filling X c3 (((S @ be32_bytes 3) @ be32_bytes (of_nat (length (prop_data p)))) @ be32_bytes (of_nat (length T))) (r - 4 - 4 - 4) T q"
    using ser_u32_filling [OF c2(2) le(3)] by blast
  obtain c4 where c4: "ser_data (prop_data p) c3 = Inr c4"
    "filling X c4 ((((S @ be32_bytes 3) @ be32_bytes (of_nat (length (prop_data p)))) @ be32_bytes (of_nat (length T))) @
       enc_data (prop_data p)) (r - 4 - 4 - 4 - length (enc_data (prop_data p))) T q"
    using ser_data_filling [OF c3(2) le(4)] by blast
  from ser_name_filling [OF c4(2) assms(2,4)] show ?thesis
    by (simp add: ser_prop_def c1(1) c2(1) c3(1) c4(1) off diff_diff_left)
qed

lemma enc_props_Cons: "enc_props (p # ps) so = enc_props [p] so @ enc_props ps (so + length (enc_str (prop_name p)))"
  by simp

lemma ser_props_filling:
  assumes "filling X ctx S r T q" and "list_all (\<lambda>p. str_ok (prop_name p)) ps"
    and "length (enc_props ps (length T)) \<le> r" and "length (props_strs ps) \<le> q"
  shows "\<exists>ctx'. ser_props ps ctx = Inr ctx' \<and>
    filling X ctx' (S @ enc_props ps (length T)) (r - length (enc_props ps (length T)))
      (T @ props_strs ps) (q - length (props_strs ps))"
  using assms
proof (induction ps arbitrary: ctx S r T q)
  case (Cons p ps)
  let ?e = "enc_props [p] (length T)" let ?n = "enc_str (prop_name p)"
  note [simp del] = enc_props.simps
  have st: "props_strs (p # ps) = ?n @ props_strs ps" by (simp add: props_strs_def)
  obtain c1 where c1: "ser_prop p ctx = Inr c1" "filling X c1 (S @ ?e) (r - length ?e) (T @ ?n) (q - length ?n)"
    using ser_prop_filling [OF Cons.prems(1), of p] Cons.prems(2-4) by (auto simp: enc_props_Cons [of p ps] st enc_props.simps)
  have "length (enc_props ps (length (T @ ?n))) \<le> r - length ?e" "length (props_strs ps) \<le> q - length ?n"
    using Cons.prems(3,4) by (simp_all add: enc_props_Cons [of p ps] st)
  from Cons.IH [OF c1(2) _ this] Cons.prems(2) show ?case
    by (auto simp: c1(1) enc_props_Cons [of p ps] st diff_diff_left)
qed (simp add: props_strs_def)

lemma ser_tree_filling:
  "filling X ctx S r T q \<Longrightarrow> names_ok t \<Longrightarrow> length (enc_node t (length T)) \<le> r \<Longrightarrow> length (node_strs t) \<le> q \<Longrightarrow>
     \<exists>ctx'. ser_tree t ctx = Inr ctx' \<and>
       filling X ctx' (S @ enc_node t (length T)) (r - length (enc_node t (length T))) (T @ node_strs t) (q - length (node_strs t))"
  "filling X ctx S r T q \<Longrightarrow> list_all names_ok ts \<Longrightarrow> length (enc_nodes ts (length T)) \<le> r \<Longrightarrow> length (nodes_strs ts) \<le> q \<Longrightarrow>
     \<exists>ctx'. ser_trees ts ctx = Inr ctx' \<and>
       filling X ctx' (S @ enc_nodes ts (length T)) (r - length (enc_nodes ts (length T))) (T @ nodes_strs ts) (q - length (nodes_strs ts))"
proof (induction t ctx and ts ctx arbitrary: S r T q and S r T q rule: ser_tree_ser_trees.induct)
  case (1 nm ps cs ph ctx)
  note [simp del] = length_enc_str
  let ?so = "length T + length (props_strs ps)"
  have le: "4 \<le> r" "length (enc_str nm) \<le> r - 4"
    "length (enc_props ps (length T)) \<le> r - 4 - length (enc_str nm)"
    "length (enc_nodes cs (length (T @ props_strs ps))) \<le> r - 4 - length (enc_str nm) - length (enc_props ps (length T))"
    "4 \<le> r - 4 - length (enc_str nm) - length (enc_props ps (length T)) - length (enc_nodes cs ?so)"
    "length (props_strs ps) \<le> q" "length (nodes_strs cs) \<le> q - length (props_strs ps)"
    using "1.prems"(3,4) by auto
  have ok: "str_ok nm" "list_all (\<lambda>p. str_ok (prop_name p)) ps" "list_all names_ok cs" using "1.prems"(2) by auto
  obtain c1 where c1: "ser_u32 1 ctx = Inr c1" "filling X c1 (S @ be32_bytes 1) (r - 4) T q"
    using ser_u32_filling [OF "1.prems"(1) le(1)] by blast
  obtain c2 where c2: "ser_string nm c1 = Inr c2"
    "filling X c2 ((S @ be32_bytes 1) @ enc_str nm) (r - 4 - length (enc_str nm)) T q"
    using ser_string_filling [OF c1(2) ok(1) le(2)] by blast
  obtain c3 where c3: "ser_props ps c2 = Inr c3"
    "filling X c3 (((S @ be32_bytes 1) @ enc_str nm) @ enc_props ps (length T))
       (r - 4 - length (enc_str nm) - length (enc_props ps (length T))) (T @ props_strs ps) (q - length (props_strs ps))"
    using ser_props_filling [OF c2(2) ok(2) le(3,6)] by blast
  obtain c4 where c4: "ser_trees cs c3 = Inr c4"
    "filling X c4 ((((S @ be32_bytes 1) @ enc_str nm) @ enc_props ps (length T)) @ enc_nodes cs ?so)
       (r - 4 - length (enc_str nm) - length (enc_props ps (length T)) - length (enc_nodes cs ?so))
       ((T @ props_strs ps) @ nodes_strs cs) (q - length (props_strs ps) - length (nodes_strs cs))"
    using "1.IH" [OF c3(2) ok(3) le(4,7)] by auto
  from ser_u32_filling [OF c4(2) le(5), of 2] show ?case
    by (simp add: c1(1) c2(1) c3(1) c4(1) diff_diff_left add.assoc)
next
  case (3 c cs ctx)
  let ?e = "enc_node c (length T)" let ?n = "node_strs c"
  obtain c1 where c1: "ser_tree c ctx = Inr c1" "filling X c1 (S @ ?e) (r - length ?e) (T @ ?n) (q - length ?n)"
    using "3.IH"(1) [OF "3.prems"(1)] "3.prems"(2-4) by auto
  have "length (enc_nodes cs (length (T @ ?n))) \<le> r - length ?e" "length (nodes_strs cs) \<le> q - length ?n"
    using "3.prems"(3,4) by simp_all
  from "3.IH"(2) [OF c1(2) _ this] "3.prems"(2) show ?case by (auto simp: c1(1) diff_diff_left)
qed simp

section \<open>Sizes\<close>

lemma prop_sizes_eq:
  assumes "length (prop_data p) + 3 < 2 ^ 64" and "length (prop_name p) + 4 < 2 ^ 64"
  shows "prop_sizes p d = \<lparr>struct_size = struct_size d + of_nat (length (enc_props [p] so)),
     string_size = string_size d + of_nat (length (enc_str (prop_name p)))\<rparr>"
proof -
  have u: "ucast (of_nat m :: u64) = (of_nat m :: u32)" for m by transfer (simp add: take_bit_take_bit)
  show ?thesis
    using align_up_4 [OF assms(1)] align_up_4 [of "length (prop_name p) + 1"] assms(2)
    by (simp add: prop_sizes_def Let_def u del: of_nat_Suc)
qed

lemma props_sizes_eq:
  assumes "length (enc_props ps so) + length (props_strs ps) < 2 ^ 63"
  shows "fold prop_sizes ps d = \<lparr>struct_size = struct_size d + of_nat (length (enc_props ps so)),
     string_size = string_size d + of_nat (length (props_strs ps))\<rparr>"
  using assms
proof (induction ps arbitrary: d so)
  case (Cons p ps)
  have "length (prop_data p) + 3 < 2 ^ 64" "length (prop_name p) + 4 < 2 ^ 64"
    using Cons.prems align4_bounds(1) [of "length (prop_data p)"] align4_bounds(1) [of "length (prop_name p) + 1"]
    by (simp_all add: props_strs_def)
  note p = prop_sizes_eq [OF this, of d so]
  have "length (enc_props ps (so + length (enc_str (prop_name p)))) + length (props_strs ps) < 2 ^ 63"
    using Cons.prems by (simp add: props_strs_def)
  from Cons.IH [OF this, of "prop_sizes p d"] show ?case
    by (simp add: p props_strs_def algebra_simps)
qed (simp add: props_strs_def)

lemma get_tree_size_eq:
  "length (enc_node t so) + length (node_strs t) < 2 ^ 63 \<Longrightarrow>
     get_tree_size t d = \<lparr>struct_size = struct_size d + of_nat (length (enc_node t so)),
       string_size = string_size d + of_nat (length (node_strs t))\<rparr>"
  "length (enc_nodes ts so) + length (nodes_strs ts) < 2 ^ 63 \<Longrightarrow>
     get_trees_size ts d = \<lparr>struct_size = struct_size d + of_nat (length (enc_nodes ts so)),
       string_size = string_size d + of_nat (length (nodes_strs ts))\<rparr>"
proof (induction t d and ts d arbitrary: so and so rule: get_tree_size_get_trees_size.induct)
  case (1 nm ps cs ph d)
  let ?d = "d\<lparr>struct_size := struct_size d + of_nat (4 + length (enc_str nm))\<rparr>"
  let ?so = "so + length (props_strs ps)"
  have u: "ucast (of_nat m :: u64) = (of_nat m :: u32)" for m by transfer (simp add: take_bit_take_bit)
  have "length nm + 1 + 3 < 2 ^ 64" using "1.prems" align4_bounds(1) [of "length nm + 1"] by simp
  from align_up_4 [OF this] have nl: "ucast (align_up (if nm = [] then 1 else of_nat (length nm + 1)) 4) = (of_nat (length (enc_str nm)) :: u32)"
    by (cases "nm = []") (simp_all add: u del: of_nat_Suc, simp add: u)
  have "fold prop_sizes ps ?d = \<lparr>struct_size = struct_size ?d + of_nat (length (enc_props ps so)),
     string_size = string_size ?d + of_nat (length (props_strs ps))\<rparr>"
    using "1.prems" by (intro props_sizes_eq) simp
  moreover have "get_trees_size cs e = \<lparr>struct_size = struct_size e + of_nat (length (enc_nodes cs ?so)),
     string_size = string_size e + of_nat (length (nodes_strs cs))\<rparr>" if "e = fold prop_sizes ps ?d" for e
    using "1.IH" [OF refl refl refl, of ?so] "1.prems" that by (simp add: nl)
  ultimately show ?case by (simp add: Let_def nl algebra_simps)
next
  case (3 c cs d)
  have "length (enc_node c so) + length (node_strs c) < 2 ^ 63"
    "length (enc_nodes cs (so + length (node_strs c))) + length (nodes_strs cs) < 2 ^ 63"
    using "3.prems" by simp_all
  from "3.IH"(1) [OF this(1)] "3.IH"(2) [OF this(2)] show ?case by (simp add: algebra_simps)
qed simp

section \<open>Reading back\<close>

fun weight :: "node \<Rightarrow> nat" and weights :: "node list \<Rightarrow> nat" where
  "weight (Node nm ps cs ph) = length ps + weights cs + 2"
| "weights [] = 0"
| "weights (c # cs) = weight c + weights cs"

lemma parse_props:
  assumes "list_all (\<lambda>p. str_ok (prop_name p)) ps" and "length (enc_props ps (length T)) < 2 ^ 32"
    and "length T + length (props_strs ps) < 2 ^ 32"
  shows "parse_items (length ps + f) (T @ props_strs ps @ T') (enc_props ps (length T) @ bs) =
    (case parse_items f (T @ props_strs ps @ T') bs of None \<Rightarrow> None | Some (ps', cs, r) \<Rightarrow> Some (ps @ ps', cs, r))"
  using assms
proof (induction ps arbitrary: T)
  case Nil
  then show ?case by (auto simp: props_strs_def split: option.split)
next
  case (Cons p ps)
  let ?n = "enc_str (prop_name p)"
  have st: "props_strs (p # ps) = ?n @ props_strs ps" by (simp add: props_strs_def)
  have len: "length (prop_data p) \<le> align4 (length (prop_data p))" by (rule align4_bounds)
  have u: "unat (of_nat (length (prop_data p)) :: u32) = length (prop_data p)" "unat (of_nat (length T) :: u32) = length T"
    using Cons.prems(2,3) len by (simp_all add: unat_of_nat)
  have d: "take (length (prop_data p)) (enc_data (prop_data p)) = prop_data p"
    "length (prop_data p) - align4 (length (prop_data p)) = 0"
    "length (prop_data p) - (align4 (length (prop_data p)) + k) = 0" for k
    using len by (simp_all add: enc_data_def)
  have IH: "parse_items (length ps + f) (T @ ?n @ props_strs ps @ T') (enc_props ps (length (T @ ?n)) @ bs) =
    (case parse_items f (T @ ?n @ props_strs ps @ T') bs of None \<Rightarrow> None | Some (ps', cs, r) \<Rightarrow> Some (ps @ ps', cs, r))"
    using Cons.IH [of "T @ ?n"] Cons.prems by (simp add: st)
  have "str_ok (prop_name p)" using Cons.prems(1) by simp
  then show ?case
    using IH by (cases "parse_items f (T @ ?n @ props_strs ps @ T') bs") (auto simp: st u d cstr_at_enc)
qed

lemma parse_nodes:
  "names_ok t \<Longrightarrow> length (enc_node t (length T)) + length T + length (node_strs t) < 2 ^ 32 \<Longrightarrow> weight t \<le> f \<Longrightarrow>
     (case t of Node nm ps cs ph \<Rightarrow>
       parse_items f (T @ node_strs t @ T') (enc_props ps (length T) @ enc_nodes cs (length T + length (props_strs ps)) @
         be32_bytes 2 @ bs) = Some (ps, map erase cs, bs))"
  "list_all names_ok ts \<Longrightarrow> length (enc_nodes ts (length T)) + length T + length (nodes_strs ts) < 2 ^ 32 \<Longrightarrow> weights ts < f \<Longrightarrow>
     parse_items f (T @ nodes_strs ts @ T') (enc_nodes ts (length T) @ be32_bytes 2 @ bs) = Some ([], map erase ts, bs)"
proof (induction t and ts arbitrary: f T T' bs and f T T' bs rule: weight_weights.induct)
  case (1 nm ps cs ph)
  obtain g where f: "f = length ps + g" "weights cs < g" using "1.prems"(3) le_Suc_ex [of "length ps" f] by auto
  have T: "T @ node_strs (Node nm ps cs ph) @ T' = (T @ props_strs ps) @ nodes_strs cs @ T'"
    "T @ node_strs (Node nm ps cs ph) @ T' = T @ props_strs ps @ nodes_strs cs @ T'" by simp_all
  have "parse_items g ((T @ props_strs ps) @ nodes_strs cs @ T') (enc_nodes cs (length (T @ props_strs ps)) @ be32_bytes 2 @ bs) =
      Some ([], map erase cs, bs)"
    using "1.prems" by (intro "1.IH" f(2)) auto
  with parse_props [of ps T g "nodes_strs cs @ T'" "enc_nodes cs (length T + length (props_strs ps)) @ be32_bytes 2 @ bs"] "1.prems"
  show ?case by (simp add: f(1))
next
  case 2
  then show ?case by (cases f) simp_all
next
  case (3 c cs)
  obtain g where f: "f = Suc g" "weight c \<le> g" "weights cs < g"
    using "3.prems"(3) by (cases f) (auto, cases c, auto)
  obtain nm ps ks ph where c: "c = Node nm ps ks ph" by (cases c)
  have "parse_items g (T @ node_strs c @ nodes_strs cs @ T') (enc_props ps (length T) @ enc_nodes ks (length T + length (props_strs ps)) @
      be32_bytes 2 @ x) = Some (ps, map erase ks, x)" for x
    using "3.IH"(1) [of T g "nodes_strs cs @ T'" x] "3.prems" f(2) by (simp add: c)
  moreover have "parse_items g ((T @ node_strs c) @ nodes_strs cs @ T') (enc_nodes cs (length (T @ node_strs c)) @ be32_bytes 2 @ bs) =
      Some ([], map erase cs, bs)"
    using "3.prems" f(3) by (intro "3.IH"(2)) auto
  moreover have "str_ok nm" using "3.prems"(1) by (simp add: c)
  ultimately show ?case by (simp add: f(1) c rd_str_enc)
qed

lemma enc_dvd:
  "4 dvd length (enc_node t so) \<and> 4 dvd length (node_strs t) \<and> weight t \<le> length (enc_node t so)"
  "4 dvd length (enc_nodes ts so) \<and> 4 dvd length (nodes_strs ts) \<and> weights ts \<le> length (enc_nodes ts so)"
proof (induction t so and ts so rule: enc_node_enc_nodes.induct)
  case (1 nm ps cs ph so)
  have "4 dvd length (enc_props ps k) \<and> length ps \<le> length (enc_props ps k)" for k
    by (induction ps arbitrary: k) (auto simp: align4_bounds(3) trans_le_add2)
  moreover have "4 dvd length (props_strs ps)"
    by (induction ps) (simp_all add: props_strs_def align4_bounds(3))
  ultimately show ?case using 1 by (simp add: align4_bounds(3) add_mono trans_le_add2)
qed auto

definition tree_bytes :: "node \<Rightarrow> nat" where
  "tree_bytes t = 60 + length (enc_node t 0) + length (node_strs t)"

definition tree_image :: "node \<Rightarrow> u32 \<Rightarrow> u8 list" where
  "tree_image t boot_cpuid =
     concat (map be32_bytes [FDT_MAGIC, of_nat (tree_bytes t), 56, of_nat (60 + length (enc_node t 0)), 40,
       FDT_VERSION, FDT_COMP_VERSION, boot_cpuid, of_nat (length (node_strs t)), of_nat (length (enc_node t 0) + 4)]) @
     replicate 16 0 @ enc_node t 0 @ be32_bytes FDT_END @ node_strs t"

lemma tree_desc_eq:
  assumes "tree_bytes t + 3 < 2 ^ 32"
  shows "tree_desc t = \<lparr>struct_size = of_nat (length (enc_node t 0) + 4), string_size = of_nat (length (node_strs t))\<rparr>"
  using get_tree_size_eq(1) [of t 0] assms by (simp add: tree_desc_def tree_bytes_def)

lemma serialize_image:
  assumes ok: "names_ok t" and small: "tree_bytes t + 3 < 2 ^ 32" and b: "tree_bytes t \<le> length b" "length b = unat bsize"
  shows "serialize t (Some b) bsize boot_cpuid =
    Inr (of_nat (tree_bytes t), Some (tree_image t boot_cpuid @ drop (tree_bytes t) b))"
proof -
  let ?N = "tree_bytes t" let ?X = "drop ?N b" let ?e = "enc_node t 0" let ?s = "node_strs t"
  define hdr where "hdr = concat (map be32_bytes [FDT_MAGIC, of_nat ?N, 56, of_nat (60 + length ?e), 40,
       FDT_VERSION, FDT_COMP_VERSION, boot_cpuid, of_nat (length ?s), of_nat (length ?e + 4)])"
  have hl: "length hdr = 40" by (simp add: hdr_def)
  have z: "copy_to 0 (replicate ?N 0) b = Inr (replicate ?N 0 @ ?X)" using b(1) by (simp add: copy_to_def)
  have sz: "?N = 40 + (16 + (length ?e + 4) + length ?s)" by (simp add: tree_bytes_def)
  have "copy_to 0 hdr (replicate ?N 0 @ ?X) = Inr (hdr @ replicate (?N - 40) 0 @ ?X)"
    using copy_to_zeros [of hdr ?N "[]" ?X] hl sz by simp
  moreover have "replicate (?N - 40) (0 :: u8) = replicate 16 0 @ replicate (length ?e + 4) 0 @ replicate (length ?s) 0"
    unfolding sz replicate_add [symmetric] by simp
  ultimately have h: "copy_to 0 hdr (replicate ?N 0 @ ?X) =
      Inr ((hdr @ replicate 16 0) @ replicate (length ?e + 4) 0 @ [] @ replicate (length ?s) 0 @ ?X)" by simp
  define c0 where "c0 = \<lparr>sbuf = (hdr @ replicate 16 0) @ replicate (length ?e + 4) 0 @ [] @ replicate (length ?s) 0 @ ?X,
    struct_off = 56, strings_begin = of_nat (60 + length ?e), strings_off = of_nat (60 + length ?e), reserve_off = 40\<rparr>"
  have fl0: "filling ?X c0 (hdr @ replicate 16 0) (length ?e + 4) [] (length ?s)"
    using enc_dvd(1) [of t 0] small sz by (simp add: filling_def c0_def hl)
  obtain c1 where c1: "ser_tree t c0 = Inr c1" "filling ?X c1 ((hdr @ replicate 16 0) @ ?e) (length ?e + 4 - length ?e) ([] @ ?s) 0"
    using ser_tree_filling(1) [OF fl0 ok] by auto
  obtain c2 where c2: "ser_u32 9 c1 = Inr c2" "filling ?X c2 (((hdr @ replicate 16 0) @ ?e) @ be32_bytes 9) 0 ([] @ ?s) 0"
    using ser_u32_filling [OF c1(2), of 9] by auto
  have img: "sbuf c2 = tree_image t boot_cpuid @ ?X" using c2(2) by (simp add: filling_def tree_image_def hdr_def)
  note d = tree_desc_eq [OF small]
  have bs: "(40 :: u32) + 16 + of_nat (length ?e + 4) = of_nat (60 + length ?e)"
    "of_nat (60 + length ?e) + (of_nat (length ?s) :: u32) = of_nat ?N" by (simp_all add: tree_bytes_def)
  have un: "unat (of_nat ?N :: u32) = ?N" "ucast (of_nat ?N :: u32) = (of_nat ?N :: u64)"
    using small by (simp_all add: unat_of_nat ucast_of_nat_small)
  have "unat (of_nat ?N :: u64) = ?N" using small by (simp add: unat_of_nat)
  then have nl: "\<not> bsize < of_nat ?N" using b by (simp add: word_less_nat_alt)
  have hdr: "fdt_header (of_nat ?N) boot_cpuid ctx desc = hdr"
    if "struct_off ctx = 56" "strings_off ctx = of_nat (60 + length ?e)" "reserve_off ctx = 40"
      "string_size desc = of_nat (length ?s)" "struct_size desc = of_nat (length ?e + 4)" for ctx desc
    unfolding fdt_header_def hdr_def that ..
  show ?thesis
    using c1(1) c2(1) img nl un z h
    unfolding serialize_def Let_def d size_desc.simps bs
    by (simp add: hdr c0_def del: of_nat_add)
qed

lemma parse_image:
  assumes ok: "names_ok t" and small: "tree_bytes t + 3 < 2 ^ 32"
  shows "parse_dtb (tree_image t boot_cpuid @ X) = Some (erase t)"
proof -
  obtain nm ps cs ph where t: "t = Node nm ps cs ph" by (cases t)
  let ?e = "enc_node t 0" let ?s = "node_strs t" let ?buf = "tree_image t boot_cpuid @ X"
  define hdr where "hdr = concat (map be32_bytes [FDT_MAGIC, of_nat (tree_bytes t), 56, of_nat (60 + length ?e), 40,
       FDT_VERSION, FDT_COMP_VERSION, boot_cpuid, of_nat (length ?s), of_nat (length ?e + 4)])"
  have buf: "?buf = (hdr @ replicate 16 0) @ ?e @ be32_bytes 9 @ ?s @ X" by (simp add: tree_image_def hdr_def)
  have hl: "length (hdr @ replicate 16 0) = 56" by (simp add: hdr_def)
  have d: "drop 56 ?buf = ?e @ be32_bytes 9 @ ?s @ X" unfolding buf using hl by (metis append_eq_conv_conj)
  have "?buf = ((hdr @ replicate 16 0) @ ?e @ be32_bytes 9) @ ?s @ X" unfolding buf by simp
  moreover have "length ((hdr @ replicate 16 0) @ ?e @ be32_bytes 9) = 60 + length ?e" using hl by simp
  ultimately have s: "drop (60 + length ?e) ?buf = ?s @ X" by (metis append_eq_conv_conj)
  have r: "rd32 ?buf = Some (FDT_MAGIC, drop 4 ?buf)" "\<exists>x. rd32 (drop 8 ?buf) = Some (56, x)"
    "\<exists>x. rd32 (drop 12 ?buf) = Some (of_nat (60 + length ?e), x)"
    by (simp_all add: tree_image_def del: of_nat_add)
  have u: "unat (of_nat (60 + length ?e) :: u32) = 60 + length ?e" 
    unfolding unat_of_nat using small by (simp add: tree_bytes_def)
  have "length ?e + length ?s < 2 ^ 32" "weight t \<le> length ?buf" "str_ok nm"
    using small enc_dvd(1) [of t 0] ok by (simp_all add: tree_bytes_def tree_image_def t)
  with parse_nodes(1) [of t "[]" "length ?buf" X "be32_bytes 9 @ ?s @ X"] ok
  have "parse_items (length ?buf) (?s @ X) (enc_props ps 0 @ enc_nodes cs (length (props_strs ps)) @ be32_bytes 2 @
      be32_bytes 9 @ ?s @ X) = Some (ps, map erase cs, be32_bytes 9 @ ?s @ X)"
    by (simp add: t)
  moreover have "?e = be32_bytes 1 @ enc_str nm @ enc_props ps 0 @ enc_nodes cs (length (props_strs ps)) @ be32_bytes 2"
    by (simp add: t)
  ultimately show ?thesis
    using r d s u rd_str_enc [OF \<open>str_ok nm\<close>] unfolding parse_dtb_def
    by (auto simp: t simp del: of_nat_add)
qed

lemma size_of_tree_eq:
  assumes "tree_bytes t + 3 < 2 ^ 32"
  shows "size_of_tree t = of_nat (tree_bytes t)" and "unat (size_of_tree t) = tree_bytes t"
proof -
  have "(40 :: u32) + 16 + of_nat (length (enc_node t 0) + 4) + of_nat (length (node_strs t)) = of_nat (tree_bytes t)"
    by (simp add: tree_bytes_def)
  then show "size_of_tree t = of_nat (tree_bytes t)"
    unfolding size_of_tree_def tree_desc_eq [OF assms] size_desc.simps
    using assms by (simp add: ucast_of_nat_small del: of_nat_add)
  then show "unat (size_of_tree t) = tree_bytes t" using assms by (simp add: unat_of_nat)
qed

lemma length_tree_image: "length (tree_image t boot_cpuid) = tree_bytes t"
  by (simp add: tree_image_def tree_bytes_def)

lemma serialize_roundtrip:
  assumes "names_ok t" and "tree_bytes t + 3 < 2 ^ 32" and "size_of_tree t \<le> bsize" and "length b = unat bsize"
  shows "\<exists>buf. serialize t (Some b) bsize boot_cpuid = Inr (size_of_tree t, Some buf) \<and>
    length buf = length b \<and> drop (unat (size_of_tree t)) buf = drop (unat (size_of_tree t)) b \<and>
    parse_dtb buf = Some (erase t)"
proof -
  note n = size_of_tree_eq [OF assms(2)]
  have le: "tree_bytes t \<le> length b" using assms(3,4) n(2) by (simp add: word_le_nat_alt)
  with serialize_image [OF assms(1,2) le assms(4)] parse_image [OF assms(1,2)] length_tree_image [of t] show ?thesis
    unfolding n(2) by (simp add: n(1))
qed

text \<open>
  C12. Serialization is safe and loses nothing: for a tree whose names contain no NUL and whose image
  stays below 4 GiB, \<open>serialize\<close> into a buffer of at least the size that \<open>size_of_tree\<close> computes never
  writes outside that size, and a reader of the device tree format gets back from the buffer exactly
  the names, properties and children of the tree.
\<close>

theorem fdt_roundtrip:
  assumes "names_ok t" and "tree_bytes t + 3 < 2 ^ 32" and "size_of_tree t \<le> bsize" and "length b = unat bsize"
  shows "\<exists>buf. serialize t (Some b) bsize boot_cpuid = Inr (size_of_tree t, Some buf) \<and>
    length buf = length b \<and> drop (unat (size_of_tree t)) buf = drop (unat (size_of_tree t)) b \<and>
    parse_dtb buf = Some (erase t)"
  by (rule serialize_roundtrip [OF assms])

definition sample_tree :: node where
  "sample_tree = add_child (Some (add_prop_reg ''reg'' 0x80000000 0x4000 (create_reg ''memory'' 0x80000000)))
     (add_prop_str ''model'' ''rv64'' (new_node []))"

lemma hex_digits_numeral:
  "hex_digits (numeral k) v acc =
     (let acc = hex_digit v # acc in if drop_bit 4 v = 0 then acc else hex_digits (pred_numeral k) (drop_bit 4 v) acc)"
  by (simp add: numeral_eq_Suc)

lemma sample_tree_eq:
  "sample_tree = Node [] [\<lparr>prop_name = ''model'', prop_data = map of_char ''rv64'' @ [0]\<rparr>]
      [Node ''memory@80000000'' [\<lparr>prop_name = ''reg'', prop_data = be64_bytes 0x80000000 @ be64_bytes 0x4000\<rparr>] [] 0] 0"
  by (simp add: sample_tree_def add_prop_reg_def add_prop_str_def new_node_def create_reg_def name_with_addr_def c_str_def
      hex_digits_numeral hex_digit_def Let_def)

lemma sample_tree_bytes: "tree_bytes sample_tree = 156" "names_ok sample_tree"
proof -
  have l: "length (be64_bytes x) = 8" for x by (simp add: be64_bytes_def bytes64_def)
  show "tree_bytes sample_tree = 156" by (simp add: sample_tree_eq tree_bytes_def props_strs_def l align4_def)
  show "names_ok sample_tree" by (simp add: sample_tree_eq str_ok_def)
qed

theorem fdt_roundtrip_witness:
  "\<exists>buf. serialize sample_tree (Some (replicate 256 0)) 256 0 = Inr (size_of_tree sample_tree, Some buf) \<and>
     parse_dtb buf = Some sample_tree"
proof -
  note t = sample_tree_eq
  have l: "length (be64_bytes x) = 8" for x by (simp add: be64_bytes_def bytes64_def)
  note sample_tree_bytes(2)
  moreover have "size_of_tree sample_tree \<le> 256" by (simp add: size_of_tree_def tree_desc_def t prop_sizes_def l Let_def align_up_def)
  ultimately show ?thesis using fdt_roundtrip [of sample_tree 256 "replicate 256 0" 0] sample_tree_bytes(1) by (auto simp: t)
qed

section \<open>Properties and phandles\<close>

text \<open>A property that was set is the one that is read, and the others stay.\<close>

lemma find_put_prop:
  "find (\<lambda>p. prop_name p = k) (put_prop nm d ps) =
     (if k = nm then Some \<lparr>prop_name = nm, prop_data = d\<rparr> else find (\<lambda>p. prop_name p = k) ps)"
  by (induction ps) auto

lemma get_prop_after_add:
  assumes "nm \<noteq> []"
  shows "get_prop_data k (add_prop nm d nd) = (if k = nm then if d = [] then None else Some d else get_prop_data k nd)"
    and "get_prop_size k (add_prop nm d nd) = (if k = nm then length d else get_prop_size k nd)"
  using assms by (cases nd; simp add: get_prop_data_def get_prop_size_def find_put_prop)+

text \<open>A phandle is stable: asking again gives the same number and changes nothing, and the node carries it as a property.\<close>

lemma node_at_upd: "node_at ks (upd_node_at ks f nd) = map_option f (node_at ks nd)"
  by (induction ks f nd rule: upd_node_at.induct) auto

lemma node_at_set_phandle: "ks \<noteq> [] \<Longrightarrow> node_at ks (set_phandle p nd) = node_at ks nd"
  by (cases ks; cases nd) auto

lemma get_phandle_stable:
  assumes "get_phandle path root = Inr (p, root')" and "\<not> is_illegal_phandle p"
  shows "get_phandle path root' = Inr (p, root')"
proof -
  obtain nd where nd: "node_at path root = Some nd" "path \<noteq> []" "node_name nd \<noteq> []"
    using assms by (auto simp: get_phandle_def is_illegal_phandle_def split: option.splits if_splits)
  show ?thesis
  proof (cases "is_illegal_phandle (phandle nd)")
    case True
    then have r: "p = phandle root + 1"
      "root' = upd_node_at path (\<lambda>nd. add_prop_u32 ''phandle'' p (set_phandle p nd)) (set_phandle p root)"
      using assms nd by (auto simp: get_phandle_def allocate_new_phandle_def)
    have "node_at path root' = Some (add_prop_u32 ''phandle'' p (set_phandle p nd))"
      unfolding r(2) node_at_upd by (simp add: node_at_set_phandle nd)
    with nd assms(2) show ?thesis by (cases nd) (simp add: get_phandle_def add_prop_u32_def)
  next
    case False
    with assms nd show ?thesis by (auto simp: get_phandle_def)
  qed
qed

end
