(* ===== verification/Board_Fdt.thy ===== *)
theory Board_Fdt
  imports Fdt
begin

unbundle bit_operations_syntax

text \<open>
  The device tree of the board: \<open>Machine::init_fdt\<close> of src/machine.cpp and the nodes that the
  constructors of the PLIC, UART, CLINT, SYSCON and I2C controller add to it. A wrapper
  \<open>fdt_node*\<close> that refers to a node of the tree is the path to that node; \<open>None\<close> is the null pointer,
  which every function of the C interface accepts.
\<close>

section \<open>The C interface\<close>

type_synonym fdt_handle = "nat list option"

fun child_index :: "(node \<Rightarrow> bool) \<Rightarrow> node list \<Rightarrow> nat option" where
  "child_index P [] = None"
| "child_index P (c # cs) = (if P c then Some 0 else map_option Suc (child_index P cs))"

definition find_child :: "(node \<Rightarrow> bool) \<Rightarrow> fdt_handle \<Rightarrow> node \<Rightarrow> fdt_handle" where
  "find_child P h root =
     (case h of None \<Rightarrow> None | Some p \<Rightarrow>
      case node_at p root of None \<Rightarrow> None | Some nd \<Rightarrow>
        map_option (\<lambda>k. p @ [k]) (child_index P (children nd)))"

definition fdt_node_find :: "string \<Rightarrow> fdt_handle \<Rightarrow> node \<Rightarrow> fdt_handle" where
  "fdt_node_find nm = find_child (\<lambda>c. node_name c = nm)"

definition fdt_node_find_reg :: "string \<Rightarrow> u64 \<Rightarrow> fdt_handle \<Rightarrow> node \<Rightarrow> fdt_handle" where
  "fdt_node_find_reg nm addr = find_child (\<lambda>c. node_name c = name_with_addr nm addr)"

definition fdt_node_find_reg_any :: "string \<Rightarrow> fdt_handle \<Rightarrow> node \<Rightarrow> fdt_handle" where
  "fdt_node_find_reg_any nm = find_child (\<lambda>c. take (length nm + 1) (node_name c) = nm @ ''@'')"

definition fdt_node_add_child :: "fdt_handle \<Rightarrow> node \<Rightarrow> node \<Rightarrow> node" where
  "fdt_node_add_child h c root = (case h of None \<Rightarrow> root | Some p \<Rightarrow> upd_node_at p (add_child (Some c)) root)"

definition fdt_node_get_phandle :: "fdt_handle \<Rightarrow> node \<Rightarrow> (u32 \<times> node) result" where
  "fdt_node_get_phandle h root = (case h of None \<Rightarrow> Inr (0, root) | Some p \<Rightarrow> get_phandle p root)"

definition fdt_node_add_prop_str :: "fdt_handle \<Rightarrow> string \<Rightarrow> string \<Rightarrow> node \<Rightarrow> node" where
  "fdt_node_add_prop_str h nm val root =
     (case h of None \<Rightarrow> root | Some p \<Rightarrow> upd_node_at p (add_prop_str nm val) root)"

definition cstr :: "string \<Rightarrow> u8 list" where
  "cstr s = map of_char s @ [0]"

section \<open>The base tree\<close>

text \<open>\<open>"0x%08x "\<close>, which prints at least eight digits.\<close>

definition hex_pad8 :: "u32 \<Rightarrow> string" where
  "hex_pad8 v = (let d = hex_digits 16 (ucast v) [] in replicate (8 - length d) (CHR ''0'') @ d)"

definition rng_seed :: "u32 list \<Rightarrow> string" where
  "rng_seed rands = concat (map (\<lambda>v. ''0x'' @ hex_pad8 v @ '' '') rands) @ [CHR 0x0A]"

definition mmu_names :: "string list" where
  "mmu_names = [''none'', '''', '''', '''', '''', '''', '''', '''', ''sv39'', ''sv48'', ''sv57'']"

text \<open>
  The interrupt controller has no parent when \<open>init_fdt\<close> asks for its phandle, and \<open>cpus\<close> is not yet
  a child of the tree when \<open>init_fdt\<close> looks for it there: both requests answer 0 and change nothing.
\<close>

definition intc_node :: node where
  "intc_node =
     add_prop_str ''compatible'' ''riscv,cpu-intc''
       (add_prop ''interrupt-controller'' [] (add_prop_u32 ''#interrupt-cells'' 1 (new_node ''interrupt-controller'')))"

definition cpu_node :: "nat \<Rightarrow> u8 \<Rightarrow> node result" where
  "cpu_node mmu_mode i =
     and_then (vec_at mmu_names mmu_mode) (\<lambda>mmu.
     let cpu = create_reg ''cpu'' (ucast i);
         cpu = add_prop_str ''device_type'' ''cpu'' cpu;
         cpu = add_prop_u32 ''reg'' (ucast i) cpu;
         cpu = add_prop_u32 ''riscv,cboz-block-size'' 64 cpu;
         cpu = add_prop_str ''compatible'' ''riscv'' cpu;
         cpu = add_prop_str ''riscv,isa'' ''rv64imafdc_zicsr_zifencei_zicboz_zba_zbb_zbc_zbs'' cpu;
         cpu = add_prop_str ''mmu-type'' (''riscv,'' @ mmu) cpu;
         cpu = add_prop_str ''status'' ''okay'' cpu
     in and_then (fdt_node_get_phandle (Some []) intc_node) (\<lambda>(_, intc). Inr (add_child (Some intc) cpu)))"

fun add_cpus :: "nat \<Rightarrow> u8 list \<Rightarrow> node \<Rightarrow> node \<Rightarrow> (node \<times> node) result" where
  "add_cpus mmu_mode [] cpus fdt = Inr (cpus, fdt)"
| "add_cpus mmu_mode (i # is) cpus fdt =
     and_then (cpu_node mmu_mode i) (\<lambda>cpu.
     let cpus = add_child (Some cpu) cpus;
         h = fdt_node_find_reg ''cpu'' (ucast i) (fdt_node_find ''cpus'' (Some []) fdt) fdt
     in and_then (fdt_node_get_phandle h fdt) (\<lambda>(_, fdt).
        and_then (fdt_node_get_phandle (fdt_node_find ''interrupt-controller'' h fdt) fdt) (\<lambda>(_, fdt).
        add_cpus mmu_mode is cpus fdt)))"

text \<open>The random numbers of the seed come from the host.\<close>

definition init_fdt :: "u32 list \<Rightarrow> string \<Rightarrow> u64 \<Rightarrow> u64 \<Rightarrow> nat \<Rightarrow> u8 list \<Rightarrow> node result" where
  "init_fdt rands bootargs memory_size timebase mmu_mode ids =
     (let fdt = new_node [];
          fdt = add_prop_u32 ''#address-cells'' 2 fdt;
          fdt = add_prop_u32 ''#size-cells'' 2 fdt;
          fdt = add_prop_str ''model'' ''rv64-vm; standalone'' fdt;
          fdt = add_prop ''compatible'' (cstr ''riscv-virtio'' @ cstr ''simple-bus'') fdt;
          chosen = new_node ''chosen'';
          chosen = add_prop_str ''rng-seed'' (rng_seed rands) chosen;
          chosen = (if bootargs = [] then chosen else add_prop_str ''bootargs'' (c_str bootargs) chosen);
          chosen = add_prop_str ''stdout-path'' ''/soc/uart@10000000'' chosen;
          fdt = add_child (Some chosen) fdt;
          memory = create_reg ''memory'' 0x80000000;
          memory = add_prop_str ''device_type'' ''memory'' memory
      in and_then (add_prop_cells ''reg'' [0, 0x80000000, ucast (drop_bit 32 memory_size), ucast (memory_size AND 0xFFFFFFFF)] 4 memory)
           (\<lambda>memory.
         let fdt = add_child (Some memory) fdt;
             cpus = new_node ''cpus'';
             cpus = add_prop_u32 ''#address-cells'' 1 cpus;
             cpus = add_prop_u32 ''#size-cells'' 0 cpus;
             cpus = add_prop_u32 ''timebase-frequency'' (ucast timebase) cpus
         in and_then (add_cpus mmu_mode ids cpus fdt) (\<lambda>(cpus, fdt).
            let fdt = add_child (Some cpus) fdt;
                soc = new_node ''soc'';
                soc = add_prop_u32 ''#address-cells'' 2 soc;
                soc = add_prop_u32 ''#size-cells'' 2 soc;
                soc = add_prop_str ''compatible'' ''simple-bus'' soc;
                soc = add_prop ''ranges'' [] soc
            in Inr (add_child (Some soc) fdt))))"

section \<open>The nodes of the devices\<close>

text \<open>
  The loop over the harts that both interrupt controllers have: the cells that connect them to the
  interrupt controller of every hart. The wires are the two interrupt numbers of a hart.
\<close>

fun irq_cells :: "u32 list \<Rightarrow> fdt_handle \<Rightarrow> nat list \<Rightarrow> node \<Rightarrow> (u32 list \<times> node) result" where
  "irq_cells wires cpus [] root = Inr ([], root)"
| "irq_cells wires cpus (i # is) root =
     (let cpu_irq = fdt_node_find ''interrupt-controller'' (fdt_node_find_reg ''cpu'' (of_nat i) cpus root) root in
      and_then (fdt_node_get_phandle cpu_irq root) (\<lambda>(ph, root).
      and_then (irq_cells wires cpus is root) (\<lambda>(cells, root).
      Inr (if ph = 0 then cells else concat (map (\<lambda>w. [ph, w]) wires) @ cells, root))))"

definition plic_fdt :: "u64 \<Rightarrow> u64 \<Rightarrow> u32 \<Rightarrow> nat \<Rightarrow> node \<Rightarrow> node result" where
  "plic_fdt start_a sz sources hart_count root =
     and_then (irq_cells [11, 9] (fdt_node_find ''cpus'' (Some []) root) [0..<hart_count] root) (\<lambda>(irq_ext, root).
     let nd = create_reg ''plic'' start_a;
         nd = add_prop_reg ''reg'' start_a sz nd;
         nd = add_prop_str ''compatible'' ''sifive,plic-1.0.0'' nd;
         nd = add_prop ''interrupt-controller'' [] nd;
         nd = add_prop_u32 ''#interrupt-cells'' 1 nd;
         nd = add_prop_u32 ''#address-cells'' 0 nd;
         nd = add_prop_u32 ''riscv,ndev'' sources nd
     in and_then (if irq_ext = [] then Inr nd else add_prop_cells ''interrupts-extended'' irq_ext (length irq_ext) nd) (\<lambda>nd.
        Inr (fdt_node_add_child (fdt_node_find ''soc'' (Some []) root) nd root)))"

definition clint_fdt :: "u64 \<Rightarrow> u64 \<Rightarrow> nat \<Rightarrow> node \<Rightarrow> node result" where
  "clint_fdt start_a sz hart_count root =
     and_then (irq_cells [3, 7] (fdt_node_find ''cpus'' (Some []) root) [0..<hart_count] root) (\<lambda>(irq_ext, root).
     let nd = create_reg ''clint'' start_a;
         nd = add_prop_reg ''reg'' start_a sz nd;
         nd = add_prop ''compatible'' (cstr ''sifive,clint0'' @ cstr ''riscv,clint0'') nd
     in and_then (add_prop_cells ''interrupts-extended'' irq_ext (length irq_ext) nd) (\<lambda>nd.
        Inr (fdt_node_add_child (fdt_node_find ''soc'' (Some []) root) nd root)))"

definition uart_fdt :: "u64 \<Rightarrow> u32 \<Rightarrow> node \<Rightarrow> node result" where
  "uart_fdt start_a irq root =
     (let nd = create_reg ''serial'' start_a;
          nd = add_prop_reg ''reg'' start_a 0x100 nd;
          nd = add_prop_str ''compatible'' ''ns16550a'' nd;
          nd = add_prop_u32 ''clock-frequency'' 20000000 nd;
          nd = add_prop_u32 ''fifo-size'' 512 nd;
          nd = add_prop_str ''status'' ''okay'' nd;
          soc = fdt_node_find ''soc'' (Some []) root
      in and_then (fdt_node_get_phandle (fdt_node_find_reg ''plic'' 0x0C000000 soc root) root) (\<lambda>(ph, root).
         let nd = add_prop_u32 ''interrupt-parent'' ph nd;
             nd = add_prop_u32 ''interrupts'' irq nd;
             root = fdt_node_add_child soc nd root
         in Inr (fdt_node_add_prop_str (fdt_node_find ''chosen'' (Some []) root) ''stdout-path'' ''/soc/serial@10000000'' root)))"

definition syscon_fdt :: "u64 \<Rightarrow> u64 \<Rightarrow> node \<Rightarrow> node result" where
  "syscon_fdt base sz root =
     (let nd = create_reg ''test'' base;
          nd = add_prop_reg ''reg'' base sz nd;
          nd = add_prop ''compatible'' (cstr ''sifive,test1'' @ cstr ''sifive,test0'' @ cstr ''syscon'') nd;
          soc = fdt_node_find ''soc'' (Some []) root;
          root = fdt_node_add_child soc nd root;
          test = fdt_node_find_reg ''test'' base soc root
      in and_then (fdt_node_get_phandle test root) (\<lambda>(_, root).
         let off = new_node ''poweroff'';
             off = add_prop_u32 ''value'' 0x5555 off;
             off = add_prop_u32 ''offset'' 0 off
         in and_then (fdt_node_get_phandle test root) (\<lambda>(ph, root).
            let off = add_prop_u32 ''regmap'' ph off;
                off = add_prop_str ''compatible'' ''syscon-poweroff'' off;
                root = fdt_node_add_child (Some []) off root;
                reb = new_node ''reboot'';
                reb = add_prop_u32 ''value'' 0x7777 reb;
                reb = add_prop_u32 ''offset'' 0 reb
            in and_then (fdt_node_get_phandle test root) (\<lambda>(ph, root).
               let reb = add_prop_u32 ''regmap'' ph reb;
                   reb = add_prop_str ''compatible'' ''syscon-reboot'' reb
               in Inr (fdt_node_add_child (Some []) reb root)))))"

definition i2c_fdt :: "u64 \<Rightarrow> u32 \<Rightarrow> node \<Rightarrow> node result" where
  "i2c_fdt start_a irq root =
     (let nd = create_reg ''i2c'' start_a;
          nd = add_prop_reg ''reg'' start_a 0x20 nd;
          nd = add_prop_str ''compatible'' ''opencores,i2c-ocores'' nd;
          soc = fdt_node_find ''soc'' (Some []) root
      in and_then (fdt_node_get_phandle (fdt_node_find_reg ''plic'' 0x0C000000 soc root) root) (\<lambda>(ph, root).
         let nd = add_prop_u32 ''interrupt-parent'' ph nd;
             nd = add_prop_u32 ''interrupts'' irq nd;
             nd = add_prop_u32 ''#address-cells'' 1 nd;
             nd = add_prop_u32 ''#size-cells'' 0 nd;
             nd = add_prop_u32 ''reg-shift'' 2 nd;
             nd = add_prop_u32 ''reg-io-width'' 1 nd;
             nd = add_prop_u32 ''opencores,ip-clock-frequency'' 0x1312d00 nd;
             nd = add_prop_str ''status'' ''okay'' nd
         in Inr (fdt_node_add_child soc nd root)))"

section \<open>Lookup after insertion\<close>

lemma child_index_Some:
  "child_index P cs = Some k \<Longrightarrow> k < length cs \<and> P (cs ! k)"
  by (induction cs arbitrary: k) (auto split: if_splits)

lemma node_at_append: "node_at (p @ q) nd = (case node_at p nd of None \<Rightarrow> None | Some x \<Rightarrow> node_at q x)"
  by (induction p nd rule: node_at.induct) auto

text \<open>A handle that a search returns refers to a child of the node that was searched.\<close>

lemma find_child_node:
  assumes "find_child P (Some p) root = Some q"
  shows "\<exists>nd c k. q = p @ [k] \<and> node_at p root = Some nd \<and> node_at q root = Some c \<and> c \<in> set (children nd) \<and> P c"
proof -
  obtain nd k where nd: "node_at p root = Some nd" and k: "child_index P (children nd) = Some k" "q = p @ [k]"
    using assms by (auto simp: find_child_def split: option.splits)
  with child_index_Some [OF k(1)] show ?thesis by (simp add: node_at_append)
qed

text \<open>Looking for a child never fails on a handle of the tree, so every device finds its way without aborting.\<close>

lemma get_phandle_found:
  assumes "find_child P (Some p) root = Some q"
  shows "\<exists>ph root'. fdt_node_get_phandle (Some q) root = Inr (ph, root')"
  using find_child_node [OF assms] by (auto simp: fdt_node_get_phandle_def get_phandle_def allocate_new_phandle_def)

end
