(* ===== verification/Virtio.thy ===== *)
theory Virtio
  imports Memory_Map Plic Board_Fdt
begin

unbundle bit_operations_syntax

text \<open>
  The virtio devices of src/devices/virtio: the register file and the virtqueue that the block
  device (virtio_blk.cpp) and the entropy device (virtio_rng.cpp) share, and the requests of each. The image file of the
  block device is the list of its bytes; the host file accepts every write. The loop over the available ring
  is run with fuel, and \<open>None\<close> is a loop that has not ended.
\<close>

section \<open>Registers\<close>

record virt_queue_state =
  q_size :: u32
  desc_addr :: u64
  avail_addr :: u64
  used_addr :: u64
  last_avail_idx :: u16
  last_used_idx :: u16
  q_ready :: bool

record virtio_regs =
  v_start :: u64
  v_irq :: u8
  device_features :: u64
  driver_features :: u64
  device_features_sel :: u32
  driver_features_sel :: u32
  device_status :: u32
  interrupt_status :: u32
  queue_sel :: u32
  queue0 :: virt_queue_state
  config_generation :: u32

definition empty_queue :: virt_queue_state where
  "empty_queue = \<lparr>q_size = 0, desc_addr = 0, avail_addr = 0, used_addr = 0, last_avail_idx = 0, last_used_idx = 0,
     q_ready = False\<rparr>"

abbreviation (input) VIRTIO_F_VERSION_1 :: u64 where "VIRTIO_F_VERSION_1 \<equiv> 0x100000000"
abbreviation (input) VIRT_STATUS_FEATURES_OK :: u32 where "VIRT_STATUS_FEATURES_OK \<equiv> 8"

definition new_regs :: "u64 \<Rightarrow> u8 \<Rightarrow> virtio_regs" where
  "new_regs base irq = \<lparr>v_start = base, v_irq = irq, device_features = VIRTIO_F_VERSION_1, driver_features = 0,
     device_features_sel = 0, driver_features_sel = 0, device_status = 0, interrupt_status = 0, queue_sel = 0,
     queue0 = empty_queue, config_generation = 0\<rparr>"

definition lo32 :: "u64 \<Rightarrow> u64" where
  "lo32 x = x AND 0xFFFFFFFF"

definition hi32 :: "u64 \<Rightarrow> u64" where
  "hi32 x = drop_bit 32 x AND 0xFFFFFFFF"

definition set_lo32 :: "u64 \<Rightarrow> u64 \<Rightarrow> u64" where
  "set_lo32 val x = (x AND NOT 0xFFFFFFFF) OR zext32 val"

definition set_hi32 :: "u64 \<Rightarrow> u64 \<Rightarrow> u64" where
  "set_hi32 val x = (x AND 0xFFFFFFFF) OR push_bit 32 (zext32 val)"

text \<open>The registers that both devices read in the same way; \<open>None\<close> for the others.\<close>

definition common_read :: "u64 \<Rightarrow> virtio_regs \<Rightarrow> u64 option" where
  "common_read off r =
     (if off = 0x000 then Some 0x74726976
      else if off = 0x004 then Some 2
      else if off = 0x00C then Some 0x554d4551
      else if off = 0x010 then Some (if device_features_sel r = 0 then lo32 (device_features r) else hi32 (device_features r))
      else if off = 0x014 then Some (ucast (device_features_sel r))
      else if off = 0x030 then Some (ucast (queue_sel r))
      else if off = 0x034 then Some (if queue_sel r = 0 then 128 else 0)
      else if off = 0x038 then Some (ucast (q_size (queue0 r)))
      else if off = 0x044 then Some (if q_ready (queue0 r) then 1 else 0)
      else if off = 0x060 then Some (ucast (interrupt_status r))
      else if off = 0x070 then Some (ucast (device_status r))
      else if off = 0x080 then Some (lo32 (desc_addr (queue0 r)))
      else if off = 0x084 then Some (hi32 (desc_addr (queue0 r)))
      else if off = 0x090 then Some (lo32 (avail_addr (queue0 r)))
      else if off = 0x094 then Some (hi32 (avail_addr (queue0 r)))
      else if off = 0x0A0 then Some (lo32 (used_addr (queue0 r)))
      else if off = 0x0A4 then Some (hi32 (used_addr (queue0 r)))
      else if off = 0x0FC then Some (ucast (config_generation r))
      else None)"

definition upd_queue :: "(virt_queue_state \<Rightarrow> virt_queue_state) \<Rightarrow> virtio_regs \<Rightarrow> virtio_regs" where
  "upd_queue f r = (if queue_sel r = 0 then r\<lparr>queue0 := f (queue0 r)\<rparr> else r)"

definition write_status :: "u64 \<Rightarrow> virtio_regs \<Rightarrow> virtio_regs" where
  "write_status val r =
     (if val = 0 then r\<lparr>device_status := 0, interrupt_status := 0, queue0 := empty_queue\<rparr>
      else
        let r = r\<lparr>device_status := device_status r OR ucast val\<rparr> in
        if device_status r AND VIRT_STATUS_FEATURES_OK \<noteq> 0 \<and> driver_features r AND NOT (device_features r) \<noteq> 0
        then r\<lparr>device_status := device_status r AND NOT VIRT_STATUS_FEATURES_OK\<rparr> else r)"

text \<open>All register writes but QueueNotify (offset 0x50).\<close>

definition common_write :: "u64 \<Rightarrow> u64 \<Rightarrow> virtio_regs \<Rightarrow> virtio_regs" where
  "common_write off val r =
     (if off = 0x014 then r\<lparr>device_features_sel := ucast val\<rparr>
      else if off = 0x024 then r\<lparr>driver_features_sel := ucast val\<rparr>
      else if off = 0x020 then
        r\<lparr>driver_features := (if driver_features_sel r = 0 then set_lo32 val (driver_features r) else set_hi32 val (driver_features r))\<rparr>
      else if off = 0x030 then r\<lparr>queue_sel := ucast val\<rparr>
      else if off = 0x038 then upd_queue (\<lambda>q. q\<lparr>q_size := ucast val\<rparr>) r
      else if off = 0x044 then upd_queue (\<lambda>q. q\<lparr>q_ready := (val \<noteq> 0)\<rparr>) r
      else if off = 0x080 then upd_queue (\<lambda>q. q\<lparr>desc_addr := set_lo32 val (desc_addr q)\<rparr>) r
      else if off = 0x084 then upd_queue (\<lambda>q. q\<lparr>desc_addr := set_hi32 val (desc_addr q)\<rparr>) r
      else if off = 0x090 then upd_queue (\<lambda>q. q\<lparr>avail_addr := set_lo32 val (avail_addr q)\<rparr>) r
      else if off = 0x094 then upd_queue (\<lambda>q. q\<lparr>avail_addr := set_hi32 val (avail_addr q)\<rparr>) r
      else if off = 0x0A0 then upd_queue (\<lambda>q. q\<lparr>used_addr := set_lo32 val (used_addr q)\<rparr>) r
      else if off = 0x0A4 then upd_queue (\<lambda>q. q\<lparr>used_addr := set_hi32 val (used_addr q)\<rparr>) r
      else if off = 0x064 then r\<lparr>interrupt_status := interrupt_status r AND NOT (ucast val)\<rparr>
      else if off = 0x070 then write_status val r
      else r)"

section \<open>Guest memory\<close>

primrec copy_from_dram :: "nat \<Rightarrow> u64 \<Rightarrow> memory_map \<Rightarrow> u8 list result" where
  "copy_from_dram 0 gpa m = Inr []"
| "copy_from_dram (Suc n) gpa m =
     and_then (mem_load gpa 8 m) (\<lambda>b.
     and_then (copy_from_dram n (gpa + 1) m) (\<lambda>bs. Inr (ucast b # bs)))"

primrec copy_to_dram :: "u8 list \<Rightarrow> u64 \<Rightarrow> memory_map \<Rightarrow> memory_map result" where
  "copy_to_dram [] gpa m = Inr m"
| "copy_to_dram (b # bs) gpa m = and_then (mem_store gpa 8 (ucast b) m) (copy_to_dram bs (gpa + 1))"

record virtq_desc =
  d_addr :: u64
  d_len :: u32
  d_flags :: u16
  d_next :: u16

abbreviation (input) VIRTQ_DESC_F_NEXT :: u16 where "VIRTQ_DESC_F_NEXT \<equiv> 1"
abbreviation (input) VIRTQ_DESC_F_WRITE :: u16 where "VIRTQ_DESC_F_WRITE \<equiv> 2"

definition load_desc :: "u64 \<Rightarrow> memory_map \<Rightarrow> virtq_desc result" where
  "load_desc a m =
     and_then (mem_load a 64 m) (\<lambda>addr.
     and_then (mem_load (a + 8) 32 m) (\<lambda>len.
     and_then (mem_load (a + 12) 16 m) (\<lambda>flags.
     and_then (mem_load (a + 14) 16 m) (\<lambda>next.
     Inr \<lparr>d_addr = addr, d_len = ucast len, d_flags = ucast flags, d_next = ucast next\<rparr>))))"

text \<open>The loop of \<open>fetch_descriptor_chain\<close>; \<open>None\<close> is a malformed chain, with more descriptors than the queue has.\<close>

primrec chain_from :: "nat \<Rightarrow> u64 \<Rightarrow> u16 \<Rightarrow> memory_map \<Rightarrow> virtq_desc list option result" where
  "chain_from 0 table idx m = Inr None"
| "chain_from (Suc k) table idx m =
     and_then (load_desc (table + ucast idx * 16) m) (\<lambda>d.
     if d_flags d AND VIRTQ_DESC_F_NEXT \<noteq> 0
     then and_then (chain_from k table (d_next d) m) (\<lambda>r. Inr (map_option ((#) d) r))
     else Inr (Some [d]))"

definition fetch_descriptor_chain :: "u16 \<Rightarrow> virt_queue_state \<Rightarrow> memory_map \<Rightarrow> virtq_desc list option result" where
  "fetch_descriptor_chain head q m =
     (if desc_addr q = 0 then Inr None else chain_from (unat (q_size q)) (desc_addr q) head m)"

text \<open>The element of the used ring, and its index.\<close>

definition push_used :: "u16 \<Rightarrow> u32 \<Rightarrow> virt_queue_state \<Rightarrow> memory_map \<Rightarrow> (virt_queue_state \<times> memory_map) result" where
  "push_used head len q m =
     (let elem = used_addr q + 4 + ucast (ucast (last_used_idx q) mod q_size q) * 8 in
      and_then (mem_store elem 32 (ucast head) m) (\<lambda>m.
      and_then (mem_store (elem + 4) 32 (ucast len) m) (\<lambda>m.
      let q = q\<lparr>last_used_idx := last_used_idx q + 1\<rparr> in
      and_then (mem_store (used_addr q + 2) 16 (ucast (last_used_idx q)) m) (\<lambda>m.
      Inr (q\<lparr>last_avail_idx := last_avail_idx q + 1\<rparr>, m)))))"

definition ring_head :: "virt_queue_state \<Rightarrow> memory_map \<Rightarrow> u16 result" where
  "ring_head q m =
     and_then (mem_load (avail_addr q + 4 + ucast (ucast (last_avail_idx q) mod q_size q) * 2) 16 m) (\<lambda>h. Inr (ucast h))"

text \<open>What a device works on: its own registers, guest memory, the interrupt controller and the harts.\<close>

record board =
  b_mem :: memory_map
  b_plic :: plic
  b_harts :: "hart list"

definition finish_request :: "u16 \<Rightarrow> u32 \<Rightarrow> virtio_regs \<Rightarrow> board \<Rightarrow> (virtio_regs \<times> board) result" where
  "finish_request head len r b =
     and_then (push_used head len (queue0 r) (b_mem b)) (\<lambda>(q, m).
     and_then (set_pending (ucast (v_irq r)) True (b_plic b) (b_harts b)) (\<lambda>(p, hs).
     Inr (r\<lparr>queue0 := q, interrupt_status := interrupt_status r OR 1\<rparr>, \<lparr>b_mem = m, b_plic = p, b_harts = hs\<rparr>)))"

definition skip_request :: "virtio_regs \<Rightarrow> virtio_regs" where
  "skip_request r = r\<lparr>queue0 := (queue0 r)\<lparr>last_avail_idx := last_avail_idx (queue0 r) + 1\<rparr>\<rparr>"

text \<open>\<open>while(q.last_avail_idx != avail_idx)\<close> over a loop body.\<close>

primrec queue_loop :: "nat \<Rightarrow> ('s \<Rightarrow> u16) \<Rightarrow> ('s \<Rightarrow> 's result) \<Rightarrow> u16 \<Rightarrow> 's \<Rightarrow> 's result option" where
  "queue_loop 0 last_idx body avail s = (if last_idx s = avail then Some (Inr s) else None)"
| "queue_loop (Suc f) last_idx body avail s =
     (if last_idx s = avail then Some (Inr s)
      else case body s of Inl e \<Rightarrow> Some (Inl e) | Inr s \<Rightarrow> queue_loop f last_idx body avail s)"

section \<open>The block device\<close>

record virtio_blk =
  blk_regs :: virtio_regs
  disk :: "u8 list option"
  capacity_sectors :: u64

definition new_virtio_blk :: "u64 \<Rightarrow> u8 list option \<Rightarrow> plic \<Rightarrow> memory_map \<Rightarrow> virtio_blk \<times> plic \<times> memory_map" where
  "new_virtio_blk base img p m =
     (case acquire_irq p of (irq, p) \<Rightarrow>
        (\<lparr>blk_regs = new_regs base (ucast irq), disk = img,
          capacity_sectors = (case img of None \<Rightarrow> 0 | Some bs \<Rightarrow> of_nat (length bs div 512))\<rparr>,
         p, add_region base 0x1000 m))"

definition virtio_fdt :: "u64 \<Rightarrow> u64 \<Rightarrow> u8 \<Rightarrow> node \<Rightarrow> node result" where
  "virtio_fdt base sz irq root =
     (let nd = create_reg ''virtio_mmio'' base;
          nd = add_prop ''compatible'' (cstr ''virtio,mmio'') nd;
          nd = add_prop_reg ''reg'' base sz nd;
          soc = fdt_node_find ''soc'' (Some []) root
      in and_then (fdt_node_get_phandle (fdt_node_find_reg ''plic'' 0x0C000000 soc root) root) (\<lambda>(ph, root).
         let nd = add_prop_u32 ''interrupt-parent'' ph nd;
             nd = add_prop_u32 ''interrupts'' (ucast irq) nd
         in Inr (fdt_node_add_child soc nd root)))"

text \<open>
  \<open>fseek\<close> takes a signed offset and fails on a negative one; a read past the end of the image gives zeros, and a
  write past the end extends it.
\<close>

definition disk_read :: "u64 \<Rightarrow> nat \<Rightarrow> u8 list option \<Rightarrow> u8 list option" where
  "disk_read sector n d =
     (case d of
        None \<Rightarrow> None
      | Some bs \<Rightarrow>
          let offset = sector * 512 in
          if sint offset < 0 then None
          else let got = take n (drop (unat offset) bs) in Some (got @ replicate (n - length got) 0))"

definition disk_write :: "u64 \<Rightarrow> u8 list \<Rightarrow> u8 list option \<Rightarrow> bool \<times> u8 list option" where
  "disk_write sector buf d =
     (case d of
        None \<Rightarrow> (False, d)
      | Some bs \<Rightarrow>
          let offset = sector * 512 in
          if sint offset < 0 then (False, d)
          else if buf = [] then (True, d)
          else let bs = bs @ replicate (unat offset - length bs) 0 in
            (True, Some (take (unat offset) bs @ buf @ drop (unat offset + length buf) bs)))"

text \<open>The index of the status descriptor: the last one after the header that the device may write.\<close>

definition status_index :: "virtq_desc list \<Rightarrow> nat option" where
  "status_index chain = find (\<lambda>i. d_flags (chain ! i) AND VIRTQ_DESC_F_WRITE \<noteq> 0) (rev [1..<length chain])"

text \<open>The loops over the data descriptors of a read and of a write request.\<close>

fun scatter :: "virtq_desc list \<Rightarrow> u8 list \<Rightarrow> memory_map \<Rightarrow> (bool \<times> memory_map) result" where
  "scatter [] buf m = Inr (True, m)"
| "scatter (d # ds) buf m =
     (let to_copy = min (unat (d_len d)) (length buf) in
      and_then (copy_to_dram (take to_copy buf) (d_addr d) m) (\<lambda>m.
      if d_flags d AND VIRTQ_DESC_F_WRITE = 0 then Inr (False, m) else scatter ds (drop to_copy buf) m))"

fun gather :: "virtq_desc list \<Rightarrow> memory_map \<Rightarrow> u8 list result" where
  "gather [] m = Inr []"
| "gather (d # ds) m =
     and_then (copy_from_dram (unat (d_len d)) (d_addr d) m) (\<lambda>bs.
     and_then (gather ds m) (\<lambda>rest. Inr (bs @ rest)))"

record virtio_blk_req =
  req_type :: u32
  req_sector :: u64

definition read_req :: "u64 \<Rightarrow> memory_map \<Rightarrow> virtio_blk_req result" where
  "read_req a m =
     and_then (copy_from_dram 16 a m) (\<lambda>bs.
     Inr \<lparr>req_type = ucast (load_bytes (\<lambda>i. bs ! unat i) 0 4), req_sector = load_bytes (\<lambda>i. bs ! unat i) 8 8\<rparr>)"

definition blk_operation ::
  "virtio_blk_req \<Rightarrow> virtq_desc list \<Rightarrow> u8 list option \<Rightarrow> memory_map \<Rightarrow> (bool \<times> u8 list option \<times> memory_map) result" where
  "blk_operation req datas d m =
     (let data_total = sum_list (map (\<lambda>x. unat (d_len x)) datas) in
      if req_type req = 0 then
        (case disk_read (req_sector req) data_total d of
           None \<Rightarrow> Inr (False, d, m)
         | Some buf \<Rightarrow> and_then (scatter datas buf m) (\<lambda>(ok, m). Inr (ok, d, m)))
      else if req_type req = 1 then
        and_then (gather datas m) (\<lambda>buf.
        case disk_write (req_sector req) buf d of (ok, d) \<Rightarrow> Inr (ok \<and> data_total mod 512 = 0, d, m))
      else Inr (False, d, m))"

text \<open>One turn of the loop of \<open>process_queue\<close>.\<close>

definition blk_serve :: "virtio_blk \<times> board \<Rightarrow> (virtio_blk \<times> board) result" where
  "blk_serve = (\<lambda>(v, b).
     let r = blk_regs v; skip = Inr (v\<lparr>blk_regs := skip_request r\<rparr>, b) in
     and_then (ring_head (queue0 r) (b_mem b)) (\<lambda>head.
     and_then (fetch_descriptor_chain head (queue0 r) (b_mem b)) (\<lambda>ch.
     case ch of
       None \<Rightarrow> skip
     | Some chain \<Rightarrow>
         if length chain < 2 then skip
         else if d_len (chain ! 0) < 16 then skip
         else
           and_then (read_req (d_addr (chain ! 0)) (b_mem b)) (\<lambda>req.
           and_then (case status_index chain of
                       None \<Rightarrow> Inr (disk v, b_mem b)
                     | Some i \<Rightarrow>
                         and_then (blk_operation req (take (i - 1) (drop 1 chain)) (disk v) (b_mem b)) (\<lambda>(ok, d, m).
                         and_then (mem_store (d_addr (chain ! i)) 8 (if ok then 0 else 1) m) (\<lambda>m. Inr (d, m)))) (\<lambda>(d, m).
           and_then (finish_request head 0 r (b\<lparr>b_mem := m\<rparr>)) (\<lambda>(r, b).
           Inr (v\<lparr>blk_regs := r, disk := d\<rparr>, b)))))))"

text \<open>The index space of the ring has 65536 values, so the fuel 65536 never runs out.\<close>

definition blk_process_queue :: "u32 \<Rightarrow> virtio_blk \<times> board \<Rightarrow> (virtio_blk \<times> board) result option" where
  "blk_process_queue qsel = (\<lambda>(v, b).
     let q = queue0 (blk_regs v) in
     if qsel \<noteq> 0 \<or> \<not> q_ready q \<or> q_size q = 0 then Some (Inr (v, b))
     else case mem_load (avail_addr q + 2) 16 (b_mem b) of
            Inl e \<Rightarrow> Some (Inl e)
          | Inr avail \<Rightarrow> queue_loop 65536 (\<lambda>(v, b). last_avail_idx (queue0 (blk_regs v))) blk_serve (ucast avail) (v, b))"

definition blk_read :: "u64 \<Rightarrow> virtio_blk \<Rightarrow> u64" where
  "blk_read addr v =
     (let off = addr - v_start (blk_regs v) in
      case common_read off (blk_regs v) of
        Some x \<Rightarrow> x
      | None \<Rightarrow>
          if off = 0x008 then 2
          else if off = 0x100 then lo32 (capacity_sectors v)
          else if off = 0x104 then hi32 (capacity_sectors v)
          else if off = 0x108 then 0
          else if off = 0x10C then 128
          else if off = 0x144 then 512
          else 0)"

definition blk_write :: "u64 \<Rightarrow> u64 \<Rightarrow> virtio_blk \<times> board \<Rightarrow> (virtio_blk \<times> board) result option" where
  "blk_write addr val = (\<lambda>(v, b).
     let off = addr - v_start (blk_regs v) in
     if off = 0x050 then blk_process_queue (ucast val) (v, b)
     else Some (Inr (v\<lparr>blk_regs := common_write off val (blk_regs v)\<rparr>, b)))"

section \<open>The entropy device\<close>

record pcg32 =
  pcg_state :: u64
  pcg_inc :: u64

definition virtio_rng_seed :: "u64 \<Rightarrow> u64 \<Rightarrow> pcg32" where
  "virtio_rng_seed init_state init_seq =
     (let inc = push_bit 1 init_seq OR 1;
          st = 0 * 6364136223846793005 + inc;
          st = st + init_state;
          st = st * 6364136223846793005 + inc
      in \<lparr>pcg_state = st, pcg_inc = inc\<rparr>)"

definition virtio_rng_next32 :: "pcg32 \<Rightarrow> u32 \<times> pcg32" where
  "virtio_rng_next32 c =
     (let old = pcg_state c;
          xorshifted = ucast (drop_bit 27 (drop_bit 18 old XOR old)) :: u32;
          rot = ucast (drop_bit 59 old) :: u32
      in (drop_bit (unat rot) xorshifted OR push_bit (unat ((- rot) AND 31)) xorshifted,
          c\<lparr>pcg_state := old * 6364136223846793005 + pcg_inc c\<rparr>))"

function virtio_rng_fill_buffer :: "nat \<Rightarrow> pcg32 \<Rightarrow> u8 list \<times> pcg32" where
  "virtio_rng_fill_buffer len c =
     (if 4 \<le> len then
        case virtio_rng_next32 c of (x, c) \<Rightarrow>
        case virtio_rng_fill_buffer (len - 4) c of (bs, c) \<Rightarrow> (bytes32 x @ bs, c)
      else if 0 < len then
        case virtio_rng_next32 c of (x, c) \<Rightarrow> (take len (bytes32 x), c)
      else ([], c))"
  by pat_completeness auto
termination by (relation "measure fst") auto

declare virtio_rng_fill_buffer.simps [simp del]

record virtio_rng =
  rng_regs :: virtio_regs
  rng_ctx :: pcg32

text \<open>The two seeds are random numbers of the host.\<close>

definition new_virtio_rng :: "u64 \<Rightarrow> u64 \<Rightarrow> u64 \<Rightarrow> plic \<Rightarrow> memory_map \<Rightarrow> virtio_rng \<times> plic \<times> memory_map" where
  "new_virtio_rng base rnd1 rnd2 p m =
     (case acquire_irq p of (irq, p) \<Rightarrow>
        (\<lparr>rng_regs = new_regs base (ucast irq), rng_ctx = virtio_rng_seed rnd1 rnd2\<rparr>, p, add_region base 0x1000 m))"

fun rng_fill :: "virtq_desc list \<Rightarrow> pcg32 \<Rightarrow> memory_map \<Rightarrow> (u32 \<times> pcg32 \<times> memory_map) result" where
  "rng_fill [] c m = Inr (0, c, m)"
| "rng_fill (d # ds) c m =
     (if d_flags d AND VIRTQ_DESC_F_WRITE = 0 then rng_fill ds c m
      else case virtio_rng_fill_buffer (unat (d_len d)) c of (buf, c) \<Rightarrow>
        and_then (copy_to_dram buf (d_addr d) m) (\<lambda>m.
        and_then (rng_fill ds c m) (\<lambda>(n, c, m). Inr (d_len d + n, c, m))))"

definition rng_serve :: "virtio_rng \<times> board \<Rightarrow> (virtio_rng \<times> board) result" where
  "rng_serve = (\<lambda>(v, b).
     let r = rng_regs v in
     and_then (ring_head (queue0 r) (b_mem b)) (\<lambda>head.
     and_then (fetch_descriptor_chain head (queue0 r) (b_mem b)) (\<lambda>ch.
     case ch of
       None \<Rightarrow> Inr (v\<lparr>rng_regs := skip_request r\<rparr>, b)
     | Some chain \<Rightarrow>
         and_then (rng_fill chain (rng_ctx v) (b_mem b)) (\<lambda>(total_written, c, m).
         and_then (finish_request head total_written r (b\<lparr>b_mem := m\<rparr>)) (\<lambda>(r, b).
         Inr (v\<lparr>rng_regs := r, rng_ctx := c\<rparr>, b))))))"

definition rng_process_queue :: "u32 \<Rightarrow> virtio_rng \<times> board \<Rightarrow> (virtio_rng \<times> board) result option" where
  "rng_process_queue qsel = (\<lambda>(v, b).
     let q = queue0 (rng_regs v) in
     if qsel \<noteq> 0 \<or> \<not> q_ready q \<or> q_size q = 0 then Some (Inr (v, b))
     else case mem_load (avail_addr q + 2) 16 (b_mem b) of
            Inl e \<Rightarrow> Some (Inl e)
          | Inr avail \<Rightarrow> queue_loop 65536 (\<lambda>(v, b). last_avail_idx (queue0 (rng_regs v))) rng_serve (ucast avail) (v, b))"

definition rng_read :: "u64 \<Rightarrow> virtio_rng \<Rightarrow> u64" where
  "rng_read addr v =
     (let off = addr - v_start (rng_regs v) in
      case common_read off (rng_regs v) of Some x \<Rightarrow> x | None \<Rightarrow> if off = 0x008 then 4 else 0)"

definition rng_write :: "u64 \<Rightarrow> u64 \<Rightarrow> virtio_rng \<times> board \<Rightarrow> (virtio_rng \<times> board) result option" where
  "rng_write addr val = (\<lambda>(v, b).
     let off = addr - v_start (rng_regs v) in
     if off = 0x050 then rng_process_queue (ucast val) (v, b)
     else Some (Inr (v\<lparr>rng_regs := common_write off val (rng_regs v)\<rparr>, b)))"

section \<open>The contract of a ring server\<close>

text \<open>
  What the loop over the available ring needs of its body: one turn consumes exactly one entry. Both
  devices meet it, whatever the guest put into the ring.
\<close>

locale ring_server =
  fixes last_idx :: "'s \<Rightarrow> u16" and body :: "'s \<Rightarrow> 's result"
  assumes advance: "body s = Inr s' \<Longrightarrow> last_idx s' = last_idx s + 1"
begin

lemma drained:
  assumes "unat (avail - last_idx s) \<le> f"
  shows "\<exists>r. queue_loop f last_idx body avail s = Some r \<and> (\<forall>s'. r = Inr s' \<longrightarrow> last_idx s' = avail)"
  using assms
proof (induction f arbitrary: s)
  case 0
  then have "avail - last_idx s = 0" by (simp add: unat_eq_0)
  then show ?case by simp
next
  case (Suc f)
  show ?case
  proof (cases "last_idx s = avail")
    case False
    show ?thesis
    proof (cases "body s")
      case (Inr s')
      have "avail - last_idx s \<noteq> 0" using False by auto
      then have "unat (avail - last_idx s - 1) = unat (avail - last_idx s) - 1" by (rule unat_minus_one)
      then have "unat (avail - last_idx s') \<le> f"
        using Suc.prems advance [OF Inr] by (simp add: diff_diff_add)
      from Suc.IH [OF this] show ?thesis using False Inr by simp
    qed (use False in simp)
  qed simp
qed

end

lemma unat_u16_less: "unat (x :: u16) < 65536"
  using unsigned_less [of x, where ?'a = nat] by simp

lemma finish_request_advance:
  "finish_request head len r b = Inr (r', b') \<Longrightarrow> last_avail_idx (queue0 r') = last_avail_idx (queue0 r) + 1"
  by (auto simp: finish_request_def push_used_def Let_def and_then_Inr_iff)

lemma blk_serve_advance:
  assumes "blk_serve (v, b) = Inr (v', b')"
  shows "last_avail_idx (queue0 (blk_regs v')) = last_avail_idx (queue0 (blk_regs v)) + 1"
proof -
  let ?r = "blk_regs v"
  obtain head ch where ch: "ring_head (queue0 ?r) (b_mem b) = Inr head"
    "fetch_descriptor_chain head (queue0 ?r) (b_mem b) = Inr ch"
    using assms by (auto simp: blk_serve_def Let_def and_then_Inr_iff)
  consider "v' = v\<lparr>blk_regs := skip_request ?r\<rparr>"
    | d m r1 b1 where "finish_request head 0 ?r (b\<lparr>b_mem := m\<rparr>) = Inr (r1, b1)" "v' = v\<lparr>blk_regs := r1, disk := d\<rparr>"
  proof (cases "ch = None \<or> length (the ch) < 2 \<or> d_len (the ch ! 0) < 16")
    case True
    then have "v' = v\<lparr>blk_regs := skip_request ?r\<rparr>"
      using assms ch by (cases ch; cases "length (the ch) < 2") (auto simp: blk_serve_def Let_def)
    then show thesis by (rule that(1))
  next
    case False
    then obtain chain where chain: "ch = Some chain" "\<not> length chain < 2" "\<not> d_len (chain ! 0) < 16" by auto
    with assms ch obtain req d m r1 b1 where "finish_request head 0 ?r (b\<lparr>b_mem := m\<rparr>) = Inr (r1, b1)"
      "v' = v\<lparr>blk_regs := r1, disk := d\<rparr>"
      by (auto simp: blk_serve_def Let_def and_then_Inr_iff)
    then show thesis by (rule that(2))
  qed
  then show ?thesis
  proof cases
    case 1
    then show ?thesis by (simp add: skip_request_def)
  next
    case 2
    then show ?thesis using finish_request_advance [OF 2(1)] by simp
  qed
qed

lemma rng_serve_advance:
  assumes "rng_serve (v, b) = Inr (v', b')"
  shows "last_avail_idx (queue0 (rng_regs v')) = last_avail_idx (queue0 (rng_regs v)) + 1"
proof -
  let ?r = "rng_regs v"
  obtain head ch where ch: "ring_head (queue0 ?r) (b_mem b) = Inr head"
    "fetch_descriptor_chain head (queue0 ?r) (b_mem b) = Inr ch"
    using assms by (auto simp: rng_serve_def Let_def and_then_Inr_iff)
  show ?thesis
  proof (cases ch)
    case None
    with assms ch show ?thesis by (auto simp: rng_serve_def Let_def skip_request_def)
  next
    case (Some chain)
    with assms ch obtain n c m r1 b1 where f: "finish_request head n ?r (b\<lparr>b_mem := m\<rparr>) = Inr (r1, b1)"
      and v': "v' = v\<lparr>rng_regs := r1, rng_ctx := c\<rparr>"
      by (auto simp: rng_serve_def Let_def and_then_Inr_iff)
    show ?thesis using finish_request_advance [OF f] v' by simp
  qed
qed

interpretation blk: ring_server "\<lambda>(v, b). last_avail_idx (queue0 (blk_regs v))" blk_serve
  by unfold_locales (auto dest: blk_serve_advance)

interpretation rng: ring_server "\<lambda>(v, b). last_avail_idx (queue0 (rng_regs v))" rng_serve
  by unfold_locales (auto dest: rng_serve_advance)

lemma blk_drained:
  "\<exists>r. blk_process_queue qsel (v, b) = Some r \<and>
      (\<forall>v' b'. r = Inr (v', b') \<longrightarrow> qsel = 0 \<longrightarrow> q_ready (queue0 (blk_regs v)) \<longrightarrow> q_size (queue0 (blk_regs v)) \<noteq> 0 \<longrightarrow>
         mem_load (avail_addr (queue0 (blk_regs v)) + 2) 16 (b_mem b) = Inr avail \<longrightarrow>
         last_avail_idx (queue0 (blk_regs v')) = ucast avail)"
proof (cases "mem_load (avail_addr (queue0 (blk_regs v)) + 2) 16 (b_mem b)")
  case (Inr a)
  have "unat (x :: u16) \<le> 65536" for x using unat_u16_less [of x] by simp
  from blk.drained [OF this, of "ucast a" "(v, b)"] Inr show ?thesis
    by (auto simp: blk_process_queue_def Let_def)
qed (simp add: blk_process_queue_def Let_def)

lemma rng_drained:
  "\<exists>r. rng_process_queue qsel (w, b) = Some r \<and>
      (\<forall>w' b'. r = Inr (w', b') \<longrightarrow> qsel = 0 \<longrightarrow> q_ready (queue0 (rng_regs w)) \<longrightarrow> q_size (queue0 (rng_regs w)) \<noteq> 0 \<longrightarrow>
         mem_load (avail_addr (queue0 (rng_regs w)) + 2) 16 (b_mem b) = Inr avail \<longrightarrow>
         last_avail_idx (queue0 (rng_regs w')) = ucast avail)"
proof (cases "mem_load (avail_addr (queue0 (rng_regs w)) + 2) 16 (b_mem b)")
  case (Inr a)
  have "unat (x :: u16) \<le> 65536" for x using unat_u16_less [of x] by simp
  from rng.drained [OF this, of "ucast a" "(w, b)"] Inr show ?thesis
    by (auto simp: rng_process_queue_def Let_def)
qed (simp add: rng_process_queue_def Let_def)


text \<open>A block device without requests: the queue is ready, and the ring has nothing new.\<close>

definition idle_blk :: virtio_blk where
  "idle_blk = \<lparr>blk_regs = (new_regs 0x10001000 2)\<lparr>queue0 := empty_queue\<lparr>q_size := 8, q_ready := True, avail_addr := 0x80001000\<rparr>\<rparr>,
     disk = Some [], capacity_sectors = 0\<rparr>"

definition idle_rng :: virtio_rng where
  "idle_rng = \<lparr>rng_regs = (new_regs 0x10002000 3)\<lparr>queue0 := empty_queue\<lparr>q_size := 8, q_ready := True, avail_addr := 0x80001000\<rparr>\<rparr>,
     rng_ctx = virtio_rng_seed 1 2\<rparr>"

definition idle_board :: board where
  "idle_board = \<lparr>b_mem = add_region 0x80000000 0x4000 empty_map, b_plic = plic_init_auto 1, b_harts = []\<rparr>"

lemma load_zeros: "load_bytes (\<lambda>_. 0) off n = 0"
  by (induction n) simp_all

lemma queue_loop_idle: "last_idx s = avail \<Longrightarrow> queue_loop f last_idx body avail s = Some (Inr s)"
  by (cases f) simp_all


section \<open>Requests\<close>

lemma disk_write_read:
  assumes "disk_write sector buf d = (True, d')"
  shows "disk_read sector (length buf) d' = Some buf"
proof -
  obtain bs where d: "d = Some bs" and off: "0 \<le> sint (sector * 512)"
    using assms by (auto simp: disk_write_def Let_def split: option.splits if_splits)
  show ?thesis
  proof (cases "buf = []")
    case True
    with assms d off have "d' = Some bs" by (simp add: disk_write_def Let_def)
    with True off show ?thesis by (simp add: disk_read_def Let_def)
  next
    case False
    let ?o = "unat (sector * 512)"
    define b1 where "b1 = bs @ replicate (?o - length bs) 0"
    have l: "?o \<le> length b1" by (simp add: b1_def)
    have "d' = Some (take ?o b1 @ buf @ drop (?o + length buf) b1)"
      using assms d off False by (simp add: disk_write_def Let_def b1_def)
    with l off show ?thesis by (simp add: disk_read_def Let_def)
  qed
qed

lemma copy_from_dram_length: "copy_from_dram n gpa m = Inr bs \<Longrightarrow> length bs = n"
  by (induction n arbitrary: gpa bs) (auto simp: and_then_Inr_iff)

lemma gather_length: "gather ds m = Inr buf \<Longrightarrow> length buf = sum_list (map (\<lambda>x. unat (d_len x)) ds)"
  by (induction ds arbitrary: buf) (auto simp: and_then_Inr_iff dest: copy_from_dram_length)


lemma idle_load:
  assumes "0x80000000 \<le> a" and "a < 0x80004000"
  shows "mem_load a 8 (b_mem idle_board) = Inr 0"
proof -
  have "unat (a - 0x80000000) \<le> 16383"
    using assms by (simp add: unat_sub word_le_nat_alt word_less_nat_alt)
  with assms show ?thesis
    by (simp add: idle_board_def mem_load_def guest_ptr_def find_region_def add_region_def empty_map_def region_ptr_def
        new_region_def access_bytes_def array_ok_def load_zeros not_less not_le)
qed

definition sector_desc :: virtq_desc where
  "sector_desc = \<lparr>d_addr = 0x80001000, d_len = 512, d_flags = 3, d_next = 2\<rparr>"

lemma idle_copy:
  assumes "unat (a - 0x80000000) + n \<le> 0x4000"
  shows "copy_from_dram n a (b_mem idle_board) = Inr (replicate n 0)"
  using assms
proof (induction n arbitrary: a)
  case (Suc n)
  define d where "d = a - 0x80000000"
  have a: "a = d + 0x80000000" and d: "unat d + Suc n \<le> 0x4000" using Suc.prems by (simp_all add: d_def)
  have u: "unat a = unat d + 0x80000000" "unat (d + 1) = unat d + 1"
    using d by (simp_all add: a unat_word_ariths)
  have "mem_load a 8 (b_mem idle_board) = Inr 0"
    using u d by (intro idle_load) (simp_all add: word_le_nat_alt word_less_nat_alt)
  moreover have "copy_from_dram n (a + 1) (b_mem idle_board) = Inr (replicate n 0)"
  proof (rule Suc.IH)
    have "a + 1 - 0x80000000 = d + 1" by (simp add: a)
    then have "unat (a + 1 - 0x80000000) = unat d + 1" using u(2) by (simp only:)
    then show "unat (a + 1 - 0x80000000) + n \<le> 0x4000" using d by linarith
  qed
  ultimately show ?case by simp
qed simp


text \<open>The bytes of the entropy device: exactly as many as the descriptor asks for.\<close>

lemma rng_buffer_length: "length (fst (virtio_rng_fill_buffer len c)) = len"
proof (induction len c rule: virtio_rng_fill_buffer.induct)
  case (1 len c)
  have b: "length (bytes32 x) = 4" for x by (simp add: bytes32_def)
  obtain x c1 where n: "virtio_rng_next32 c = (x, c1)" by fastforce
  obtain bs c2 where r: "virtio_rng_fill_buffer (len - 4) c1 = (bs, c2)" by fastforce
  show ?case
    using 1 [OF _ n [symmetric]] n r b by (subst virtio_rng_fill_buffer.simps) auto
qed

end
