(* ===== verification/I2c.thy ===== *)
theory I2c
  imports Plic Board_Fdt
begin

unbundle bit_operations_syntax

text \<open>
  The I2C controller (src/devices/i2c/i2c-core.cpp), the slave interface (i2c-slave.hpp) and the HID
  keyboard behind it (src/devices/hid/hid-over-i2c.cpp, hid_i2c_keyboard.cpp), with the generator of HID
  report descriptors (utils/hid_report_descriptor.hpp). The contents of freshly allocated buffers and the
  member \<open>cur_reg\<close>, which no constructor initialises, are arguments of the constructor.
\<close>

section \<open>Report descriptors\<close>

text \<open>A \<open>HIDItem\<close>: type and tag, the values of two enumerations of bytes, and the data.\<close>

type_synonym hid_item = "u8 \<times> u8 \<times> u32"

abbreviation (input) HID_MAIN :: u8 where "HID_MAIN \<equiv> 0x00"
abbreviation (input) HID_GLOBAL :: u8 where "HID_GLOBAL \<equiv> 0x04"
abbreviation (input) HID_LOCAL :: u8 where "HID_LOCAL \<equiv> 0x08"
abbreviation (input) END_COLLECTION_TAG :: u8 where "END_COLLECTION_TAG \<equiv> 0xC0"

definition value_bytes :: "nat \<Rightarrow> u32 \<Rightarrow> u8 list" where
  "value_bytes n v = map (\<lambda>i. ucast (drop_bit (8 * i) v AND 0xFF)) [0..<n]"

definition item_bytes :: "hid_item \<Rightarrow> u8 list" where
  "item_bytes = (\<lambda>(type, tag, v).
     if tag = END_COLLECTION_TAG \<and> type = HID_MAIN then [0xC0]
     else if v \<le> 0xFF then (tag OR type OR 1) # value_bytes 1 v
     else if v \<le> 0xFFFF then (tag OR type OR 2) # value_bytes 2 v
     else (tag OR type OR 3) # value_bytes 4 v)"

definition generate_report_descriptor :: "hid_item list \<Rightarrow> u8 list" where
  "generate_report_descriptor items = concat (map item_bytes items)"

definition keyboard_items :: "hid_item list" where
  "keyboard_items =
     [(HID_GLOBAL, 0x00, 0x01), (HID_LOCAL, 0x00, 0x06), (HID_MAIN, 0xA0, 0x01),
      (HID_GLOBAL, 0x00, 0x07), (HID_LOCAL, 0x10, 0xE0), (HID_LOCAL, 0x20, 0xE7), (HID_GLOBAL, 0x10, 0), (HID_GLOBAL, 0x20, 1),
      (HID_GLOBAL, 0x70, 1), (HID_GLOBAL, 0x90, 8), (HID_MAIN, 0x80, 0x02),
      (HID_GLOBAL, 0x70, 8), (HID_GLOBAL, 0x90, 1), (HID_MAIN, 0x80, 0x01),
      (HID_GLOBAL, 0x70, 8), (HID_GLOBAL, 0x90, 6), (HID_GLOBAL, 0x10, 0), (HID_GLOBAL, 0x20, 255), (HID_LOCAL, 0x10, 0x00),
      (HID_LOCAL, 0x20, 255), (HID_MAIN, 0x80, 0x00),
      (HID_MAIN, END_COLLECTION_TAG, 0)]"

section \<open>Slaves\<close>

text \<open>The interrupt controller and the harts, which a device reaches through \<open>plic->set_pending\<close>.\<close>

type_synonym ctl = "plic \<times> hart list"

definition signal :: "u32 \<Rightarrow> bool \<Rightarrow> ctl \<Rightarrow> ctl result" where
  "signal irq level = (\<lambda>(p, hs). set_pending irq level p hs)"

record i2c_slave =
  slave_address :: u8
  buffer_size :: u16
  buffer_ind :: u16
  slave_buffer :: "u8 list"
  is_transmitting :: bool

definition new_slave :: "u8 \<Rightarrow> u16 \<Rightarrow> u8 list \<Rightarrow> i2c_slave" where
  "new_slave addr n indet = \<lparr>slave_address = addr, buffer_size = n, buffer_ind = 0, slave_buffer = indet, is_transmitting = False\<rparr>"

text \<open>The default methods of \<open>I2CSlave\<close>. The comparison with the last index is one of signed integers.\<close>

definition base_stop_transmit :: "i2c_slave \<Rightarrow> i2c_slave" where
  "base_stop_transmit s = s\<lparr>buffer_ind := 0, is_transmitting := False\<rparr>"

definition base_start_transmit :: "i2c_slave \<Rightarrow> i2c_slave" where
  "base_start_transmit s = s\<lparr>buffer_ind := 0, is_transmitting := True\<rparr>"

definition base_dev_read :: "bool \<Rightarrow> i2c_slave \<Rightarrow> (u8 \<times> i2c_slave) result" where
  "base_dev_read m_ack s =
     and_then (vec_at (slave_buffer s) (unat (buffer_ind s))) (\<lambda>val.
     Inr (val, if uint (buffer_ind s) \<noteq> uint (buffer_size s) - 1 \<or> \<not> m_ack then s\<lparr>buffer_ind := buffer_ind s + 1\<rparr> else s))"

definition base_dev_write :: "u8 \<Rightarrow> i2c_slave \<Rightarrow> i2c_slave result" where
  "base_dev_write val s =
     and_then (vec_at (slave_buffer s) (unat (buffer_ind s))) (\<lambda>_.
     let s = s\<lparr>slave_buffer := (slave_buffer s)[unat (buffer_ind s) := val]\<rparr> in
     Inr (if uint (buffer_ind s) \<noteq> uint (buffer_size s) - 1 then s\<lparr>buffer_ind := buffer_ind s + 1\<rparr> else s))"

section \<open>HID over I2C\<close>

text \<open>A HID device overrides every method of \<open>I2CSlave\<close>; the buffer of its base class is never used and not part of the record.\<close>

datatype write_event = EV_NONE | EV_COMMAND | EV_DATA | EV_OUTPUT

record hid =
  hid_address :: u8
  hid_irq :: u32
  hid_transmitting :: bool
  report_desc :: "u8 list"
  cur_reg :: u16
  io_offset :: u16
  input_report_size :: u16
  report_queue :: "u8 list list"
  input_report :: "u8 list"
  output_report :: "u8 list"
  data_register :: "u8 list"
  command_register :: "u8 list"
  hid_descriptor :: "u8 list"
  last_event :: write_event

definition base_descriptor :: "u8 list" where
  "base_descriptor = [0x1e, 0x00, 0x00, 0x01, 0x64, 0x00, 0x02, 0x00, 0x03, 0x00, 0x00, 0x04, 0x07, 0x00, 0x00, 0x04,
     0x05, 0x00, 0x06, 0x00, 0x34, 0x12, 0x78, 0x56, 0x01, 0x00, 0x00, 0x00, 0x00, 0x00]"

text \<open>Both the bus address and the interrupt are the number that the interrupt controller hands out.\<close>

definition new_hid :: "u16 \<Rightarrow> u8 list \<Rightarrow> u8 list \<Rightarrow> u8 list \<Rightarrow> u8 list \<Rightarrow> u8 list \<Rightarrow> u16 \<Rightarrow> plic \<Rightarrow> hid \<times> plic" where
  "new_hid reg0 indet_in indet_out indet_data indet_cmd desc in_size p =
     (case acquire_irq p of (irq, p) \<Rightarrow>
        (\<lparr>hid_address = ucast irq, hid_irq = irq, hid_transmitting = False, report_desc = desc, cur_reg = reg0, io_offset = 0,
          input_report_size = in_size, report_queue = [], input_report = take (unat in_size) indet_in,
          output_report = take 1024 indet_out, data_register = take 1024 indet_data, command_register = take 1024 indet_cmd,
          hid_descriptor = base_descriptor[4 := of_nat (length desc) AND 0xFF, 5 := ucast (drop_bit 8 (of_nat (length desc) :: u64) AND 0xFF)],
          last_event = EV_NONE\<rparr>, p))"

definition hid_fdt :: "u32 \<Rightarrow> node \<Rightarrow> node result" where
  "hid_fdt irq root =
     (let nd = create_reg ''i2c'' (ucast irq);
          nd = add_prop_u32 ''reg'' irq nd;
          nd = add_prop_str ''compatible'' ''hid-over-i2c'' nd;
          soc = fdt_node_find ''soc'' (Some []) root
      in and_then (fdt_node_get_phandle (fdt_node_find_reg ''plic'' 0x0C000000 soc root) root) (\<lambda>(ph, root).
         let nd = add_prop_u32 ''interrupt-parent'' ph nd;
             nd = add_prop_u32 ''interrupts'' irq nd;
             nd = add_prop_u32 ''hid-descr-addr'' 0x01 nd;
             nd = add_prop ''wakeup-source'' [] nd
         in Inr (fdt_node_add_child (fdt_node_find_reg_any ''i2c'' soc root) nd root)))"

definition report_bytes :: "u8 list \<Rightarrow> u8 list" where
  "report_bytes bytes =
     (let total_len = of_nat (length bytes + 2) :: u16 in
      ucast (total_len AND 0xFF) # ucast (drop_bit 8 total_len AND 0xFF) # bytes)"

definition hid_input_report_write :: "u8 list \<Rightarrow> hid \<Rightarrow> hid result" where
  "hid_input_report_write bytes h =
     (if length bytes + 2 \<le> length (input_report h)
      then Inr (h\<lparr>input_report := report_bytes bytes @ drop (length bytes + 2) (input_report h)\<rparr>)
      else Inl Vector_index)"

definition hid_data_register_write :: "u8 list \<Rightarrow> hid \<Rightarrow> hid result" where
  "hid_data_register_write bytes h =
     (if length bytes + 2 \<le> length (data_register h)
      then Inr (h\<lparr>data_register := report_bytes bytes @ drop (length bytes + 2) (data_register h)\<rparr>)
      else Inl Vector_index)"

text \<open>The keyboard: its constructor, its command event (its two other events do nothing), and a key event of the host.\<close>

definition new_keyboard :: "u16 \<Rightarrow> u8 list \<Rightarrow> u8 list \<Rightarrow> u8 list \<Rightarrow> u8 list \<Rightarrow> plic \<Rightarrow> hid \<times> plic" where
  "new_keyboard reg0 i1 i2 i3 i4 p =
     (case new_hid reg0 i1 i2 i3 i4 (generate_report_descriptor keyboard_items) 10 p of (h, p) \<Rightarrow>
        (h\<lparr>hid_descriptor := (hid_descriptor h)[0xa := ucast (input_report_size h AND 0xFF),
                                0xb := ucast (drop_bit 8 (input_report_size h) AND 0xFF)]\<rparr>, p))"

definition hid_event_command_register_write :: "hid \<Rightarrow> ctl \<Rightarrow> (hid \<times> ctl) result" where
  "hid_event_command_register_write h c =
     and_then (vec_at (command_register h) 0) (\<lambda>arg.
     and_then (vec_at (command_register h) 1) (\<lambda>op.
     let opcode = op AND 0x0F in
     if opcode = 0x01 then
       (if length (input_report h) < 2 then Inl Vector_index
        else let h = h\<lparr>io_offset := 0, input_report := (input_report h)[0 := 0, 1 := 0], report_queue := []\<rparr> in
          and_then (signal (hid_irq h) True c) (\<lambda>c. Inr (h, c)))
     else Inr (h, c)))"

definition keyboard_update :: "u8 \<Rightarrow> u8 list \<Rightarrow> bool \<Rightarrow> hid \<Rightarrow> ctl \<Rightarrow> (hid \<times> ctl) result" where
  "keyboard_update modifiers ks rollover h c =
     (if 64 \<le> length (report_queue h) then Inr (h, c)
      else
        let h = h\<lparr>report_queue := report_queue h @ [modifiers # 0 # (if rollover then replicate 6 1 else ks)]\<rparr> in
        and_then (if length (report_queue h) = 1 then hid_input_report_write (hd (report_queue h)) h else Inr h) (\<lambda>h.
        if \<not> hid_transmitting h then and_then (signal (hid_irq h) True c) (\<lambda>c. Inr (h, c)) else Inr (h, c)))"

definition hid_stop_transmit :: "hid \<Rightarrow> ctl \<Rightarrow> (hid \<times> ctl) result" where
  "hid_stop_transmit h c =
     (let h = h\<lparr>hid_transmitting := False, cur_reg := 3\<rparr> in
      and_then (case last_event h of EV_COMMAND \<Rightarrow> hid_event_command_register_write h c | _ \<Rightarrow> Inr (h, c)) (\<lambda>(h, c).
      if report_queue h \<noteq> [] then and_then (signal (hid_irq h) True c) (\<lambda>c. Inr (h, c)) else Inr (h, c)))"

definition hid_start_transmit :: "hid \<Rightarrow> hid" where
  "hid_start_transmit h = h\<lparr>io_offset := 0, hid_transmitting := True, last_event := EV_NONE\<rparr>"

text \<open>A read guarded by a bound on the offset gives 0 beyond it.\<close>

definition guarded_at :: "nat \<Rightarrow> u8 list \<Rightarrow> u16 \<Rightarrow> u8 result" where
  "guarded_at n xs off = (if unat off < n then vec_at xs (unat off) else Inr 0)"

definition read_input_report :: "hid \<Rightarrow> ctl \<Rightarrow> (u8 \<times> hid \<times> ctl) result" where
  "read_input_report h c =
     and_then (guarded_at (unat (input_report_size h)) (input_report h) (io_offset h)) (\<lambda>val.
     if uint (io_offset h) \<ge> uint (input_report_size h) - 1 then
       let h = h\<lparr>report_queue := tl (report_queue h)\<rparr> in
       if report_queue h \<noteq> [] then
         and_then (hid_input_report_write (hd (report_queue h)) h) (\<lambda>h.
         and_then (signal (hid_irq h) True c) (\<lambda>c. Inr (val, h, c)))
       else and_then (signal (hid_irq h) False c) (\<lambda>c. Inr (val, h\<lparr>io_offset := io_offset h + 1\<rparr>, c))
     else Inr (val, h\<lparr>io_offset := io_offset h + 1\<rparr>, c))"

definition hid_dev_read :: "bool \<Rightarrow> hid \<Rightarrow> ctl \<Rightarrow> (u8 \<times> hid \<times> ctl) result" where
  "hid_dev_read m_ack h c =
     (if cur_reg h = 3 then read_input_report h c
      else
        and_then (if cur_reg h = 1 then guarded_at 30 (hid_descriptor h) (io_offset h)
                  else if cur_reg h = 2 then guarded_at (length (report_desc h)) (report_desc h) (io_offset h)
                  else if cur_reg h = 5 then guarded_at 1024 (command_register h) (io_offset h)
                  else if cur_reg h = 6 then guarded_at 1024 (data_register h) (io_offset h)
                  else Inr 0) (\<lambda>val.
        Inr (val, h\<lparr>io_offset := io_offset h + 1\<rparr>, c)))"

definition guarded_put :: "u8 \<Rightarrow> u8 list \<Rightarrow> u16 \<Rightarrow> u8 list result" where
  "guarded_put val xs off =
     (if unat off - 2 < 1024 then
        (if unat off - 2 < length xs then Inr (xs[unat off - 2 := val]) else Inl Vector_index)
      else Inr xs)"

definition hid_dev_write :: "u8 \<Rightarrow> hid \<Rightarrow> hid result" where
  "hid_dev_write val h =
     (if io_offset h = 0 then Inr (h\<lparr>cur_reg := ucast val, io_offset := io_offset h + 1\<rparr>)
      else if io_offset h = 1 then Inr (h\<lparr>cur_reg := cur_reg h OR push_bit 8 (ucast val), io_offset := io_offset h + 1\<rparr>)
      else if cur_reg h = 5 then
        and_then (guarded_put val (command_register h) (io_offset h)) (\<lambda>r.
        Inr (h\<lparr>command_register := r, io_offset := io_offset h + 1, last_event := EV_COMMAND\<rparr>))
      else if cur_reg h = 6 then
        and_then (guarded_put val (data_register h) (io_offset h)) (\<lambda>r.
        Inr (h\<lparr>data_register := r, io_offset := io_offset h + 1, last_event := EV_DATA\<rparr>))
      else if cur_reg h = 7 then
        and_then (guarded_put val (output_report h) (io_offset h)) (\<lambda>r.
        Inr (h\<lparr>output_report := r, io_offset := io_offset h + 1, last_event := EV_OUTPUT\<rparr>))
      else Inr h)"

section \<open>The controller\<close>

text \<open>Slaves of the bus with their virtual methods: one with the default methods, or the keyboard.\<close>

datatype slave = Plain i2c_slave | Keyboard hid

fun address_of :: "slave \<Rightarrow> u8" where
  "address_of (Plain s) = slave_address s"
| "address_of (Keyboard h) = hid_address h"

fun start_transmit :: "slave \<Rightarrow> slave" where
  "start_transmit (Plain s) = Plain (base_start_transmit s)"
| "start_transmit (Keyboard h) = Keyboard (hid_start_transmit h)"

fun stop_transmit :: "slave \<Rightarrow> ctl \<Rightarrow> (slave \<times> ctl) result" where
  "stop_transmit (Plain s) c = Inr (Plain (base_stop_transmit s), c)"
| "stop_transmit (Keyboard h) c = and_then (hid_stop_transmit h c) (\<lambda>(h, c). Inr (Keyboard h, c))"

fun slave_read :: "bool \<Rightarrow> slave \<Rightarrow> ctl \<Rightarrow> (u8 \<times> slave \<times> ctl) result" where
  "slave_read a (Plain s) c = and_then (base_dev_read a s) (\<lambda>(v, s). Inr (v, Plain s, c))"
| "slave_read a (Keyboard h) c = and_then (hid_dev_read a h c) (\<lambda>(v, h, c). Inr (v, Keyboard h, c))"

fun slave_write :: "u8 \<Rightarrow> slave \<Rightarrow> slave result" where
  "slave_write v (Plain s) = and_then (base_dev_write v s) (\<lambda>s. Inr (Plain s))"
| "slave_write v (Keyboard h) = and_then (hid_dev_write v h) (\<lambda>h. Inr (Keyboard h))"

text \<open>\<open>current_dev\<close> is the position of the slave in \<open>slaves\<close>, from which no slave is ever removed.\<close>

record i2c =
  i2c_start :: u64
  i2c_irq :: u32
  prer_lo :: u8
  prer_hi :: u8
  i2c_ctr :: u8
  txr :: u8
  rxr :: u8
  i2c_cr :: u8
  i2c_sr :: u8
  device_selected :: bool
  current_address :: u16
  current_dev :: "nat option"
  is_read_operation :: bool
  int_line :: bool
  op_active :: bool
  run_delay :: nat
  slaves :: "slave list"

definition new_i2c :: "u64 \<Rightarrow> plic \<Rightarrow> i2c \<times> plic" where
  "new_i2c start_a p =
     (case acquire_irq p of (irq, p) \<Rightarrow>
        (\<lparr>i2c_start = start_a, i2c_irq = irq, prer_lo = 0xFF, prer_hi = 0xFF, i2c_ctr = 0, txr = 0, rxr = 0, i2c_cr = 0, i2c_sr = 0,
          device_selected = False, current_address = 0xFFFF, current_dev = None, is_read_operation = False, int_line = False,
          op_active = False, run_delay = 0, slaves = []\<rparr>, p))"

abbreviation (input) CR_IACK :: nat where "CR_IACK \<equiv> 0"
abbreviation (input) CR_ACK :: nat where "CR_ACK \<equiv> 3"
abbreviation (input) CR_WR :: nat where "CR_WR \<equiv> 4"
abbreviation (input) CR_RD :: nat where "CR_RD \<equiv> 5"
abbreviation (input) CR_STO :: nat where "CR_STO \<equiv> 6"
abbreviation (input) CR_STA :: nat where "CR_STA \<equiv> 7"
abbreviation (input) SR_IF :: nat where "SR_IF \<equiv> 0"
abbreviation (input) SR_TIP :: nat where "SR_TIP \<equiv> 1"
abbreviation (input) SR_BUSY :: nat where "SR_BUSY \<equiv> 6"
abbreviation (input) SR_RxACK :: nat where "SR_RxACK \<equiv> 7"

definition raise_interrupt :: "i2c \<Rightarrow> ctl \<Rightarrow> (i2c \<times> ctl) result" where
  "raise_interrupt s c =
     (if i2c_ctr s AND 0x40 \<noteq> 0 \<and> \<not> int_line s
      then and_then (signal (i2c_irq s) True c) (\<lambda>c. Inr (s\<lparr>int_line := True\<rparr>, c)) else Inr (s, c))"

definition lower_interrupt :: "i2c \<Rightarrow> ctl \<Rightarrow> (i2c \<times> ctl) result" where
  "lower_interrupt s c =
     (if int_line s then and_then (signal (i2c_irq s) False c) (\<lambda>c. Inr (s\<lparr>int_line := False\<rparr>, c)) else Inr (s, c))"

definition selected :: "i2c \<Rightarrow> nat option" where
  "selected s = (if device_selected s then current_dev s else None)"

fun find_slave :: "u16 \<Rightarrow> slave list \<Rightarrow> nat option" where
  "find_slave a [] = None"
| "find_slave a (d # ds) = (if ucast (address_of d) = a then Some 0 else map_option Suc (find_slave a ds))"

definition cmd_address :: "i2c \<Rightarrow> i2c" where
  "cmd_address s =
     (let s = s\<lparr>current_address := ucast (drop_bit 1 (txr s)), is_read_operation := bit (txr s) 0, device_selected := False\<rparr> in
      case find_slave (current_address s) (slaves s) of
        None \<Rightarrow> s
      | Some k \<Rightarrow> s\<lparr>current_dev := Some k, slaves := (slaves s)[k := start_transmit (slaves s ! k)], device_selected := True,
                    i2c_sr := unset_bit SR_RxACK (i2c_sr s)\<rparr>)"

definition cmd_write :: "i2c \<Rightarrow> i2c result" where
  "cmd_write s =
     (if current_address s = 0xFFFF then Inr (cmd_address s)
      else
        let s = s\<lparr>i2c_sr := set_bit SR_RxACK (set_bit SR_TIP (i2c_sr s))\<rparr> in
        case selected s of
          None \<Rightarrow> Inr s
        | Some k \<Rightarrow>
            and_then (vec_at (slaves s) k) (\<lambda>d.
            and_then (slave_write (txr s) d) (\<lambda>d.
            Inr (s\<lparr>slaves := (slaves s)[k := d], i2c_sr := unset_bit SR_RxACK (i2c_sr s)\<rparr>))))"

definition cmd_read :: "i2c \<Rightarrow> ctl \<Rightarrow> (i2c \<times> ctl) result" where
  "cmd_read s c =
     (let s = s\<lparr>i2c_sr := set_bit SR_TIP (i2c_sr s)\<rparr> in
      case selected s of
        None \<Rightarrow> Inr (s\<lparr>rxr := 0xFF, i2c_sr := set_bit SR_RxACK (i2c_sr s)\<rparr>, c)
      | Some k \<Rightarrow>
          and_then (vec_at (slaves s) k) (\<lambda>d.
          and_then (slave_read (bit (i2c_cr s) CR_ACK) d c) (\<lambda>(v, d, c).
          Inr (s\<lparr>rxr := v, slaves := (slaves s)[k := d], i2c_sr := unset_bit SR_RxACK (i2c_sr s)\<rparr>, c))))"

definition cmd_stop :: "i2c \<Rightarrow> ctl \<Rightarrow> (i2c \<times> ctl) result" where
  "cmd_stop s c =
     and_then (case selected s of
                 None \<Rightarrow> Inr (s, c)
               | Some k \<Rightarrow>
                   and_then (vec_at (slaves s) k) (\<lambda>d.
                   and_then (stop_transmit d c) (\<lambda>(d, c). Inr (s\<lparr>slaves := (slaves s)[k := d]\<rparr>, c)))) (\<lambda>(s, c).
     Inr (s\<lparr>device_selected := False, i2c_sr := unset_bit SR_BUSY (i2c_sr s)\<rparr>, c))"

definition cmd_iack :: "i2c \<Rightarrow> ctl \<Rightarrow> (i2c \<times> ctl) result" where
  "cmd_iack s c =
     (if bit (i2c_cr s) CR_IACK then
        and_then (lower_interrupt (s\<lparr>i2c_sr := unset_bit SR_IF (i2c_sr s)\<rparr>) c) (\<lambda>(s, c).
        Inr (s\<lparr>i2c_cr := unset_bit CR_IACK (i2c_cr s)\<rparr>, c))
      else Inr (s, c))"

definition execute_command :: "i2c \<Rightarrow> ctl \<Rightarrow> (i2c \<times> ctl) result" where
  "execute_command s c =
     and_then (cmd_iack s c) (\<lambda>(s, c).
     let cr = i2c_cr s in
     if \<not> bit cr CR_STA \<and> \<not> bit cr CR_STO \<and> \<not> bit cr CR_RD \<and> \<not> bit cr CR_WR then Inr (s, c)
     else
       let s = (if bit cr CR_STA then s\<lparr>i2c_sr := set_bit SR_BUSY (i2c_sr s), current_address := 0xFFFF\<rparr> else s) in
       and_then (if bit cr CR_WR then cmd_write s else Inr s) (\<lambda>s.
       and_then (if bit cr CR_RD then cmd_read s c else Inr (s, c)) (\<lambda>(s, c).
       and_then (if bit cr CR_STO then cmd_stop s c else Inr (s, c)) (\<lambda>(s, c).
       if bit cr CR_WR \<or> bit cr CR_RD \<or> bit cr CR_STO
       then raise_interrupt (s\<lparr>i2c_sr := set_bit SR_IF (unset_bit SR_TIP (i2c_sr s))\<rparr>) c
       else Inr (s, c)))))"

definition i2c_tick :: "i2c \<Rightarrow> ctl \<Rightarrow> (i2c \<times> ctl) result" where
  "i2c_tick s c =
     (if \<not> op_active s then Inr (s, c)
      else
        let s = s\<lparr>run_delay := run_delay s + 1\<rparr> in
        if run_delay s < 100 then Inr (s, c)
        else and_then (execute_command s c) (\<lambda>(s, c). Inr (s\<lparr>op_active := False\<rparr>, c)))"

definition i2c_read :: "u64 \<Rightarrow> i2c \<Rightarrow> u64" where
  "i2c_read addr s =
     (let offs = addr - i2c_start s in
      if offs = 0x00 then ucast (prer_lo s)
      else if offs = 0x04 then ucast (prer_hi s)
      else if offs = 0x08 then ucast (i2c_ctr s)
      else if offs = 0x0C then ucast (rxr s)
      else if offs = 0x10 then ucast (i2c_sr s)
      else 0)"

definition i2c_write :: "u64 \<Rightarrow> u64 \<Rightarrow> i2c \<Rightarrow> ctl \<Rightarrow> (i2c \<times> ctl) result" where
  "i2c_write addr val s c =
     (let offs = addr - i2c_start s in
      if offs = 0x00 then Inr (s\<lparr>prer_lo := ucast val\<rparr>, c)
      else if offs = 0x04 then Inr (s\<lparr>prer_hi := ucast val\<rparr>, c)
      else if offs = 0x08 then
        let s = s\<lparr>i2c_ctr := ucast val\<rparr> in
        if \<not> bit (i2c_ctr s) 7
        then lower_interrupt (s\<lparr>i2c_sr := 0, device_selected := False, current_address := 0xFFFF\<rparr>) c
        else Inr (s, c)
      else if offs = 0x0C then Inr (s\<lparr>txr := ucast val\<rparr>, c)
      else if offs = 0x10 then
        if \<not> bit (i2c_ctr s) 7 then Inr (s, c)
        else Inr (s\<lparr>i2c_cr := ucast val, op_active := True, run_delay := 0,
                    i2c_sr := unset_bit SR_IF (set_bit SR_TIP (i2c_sr s))\<rparr>, c)
      else Inr (s, c))"

section \<open>The interrupt controller never refuses a line\<close>

text \<open>The controller of the board: 64 sources, and every context belongs to a hart that exists.\<close>

definition ctl_ok :: "ctl \<Rightarrow> bool" where
  "ctl_ok = (\<lambda>(p, hs). plic_wf p \<and> max_sources p = 64 \<and> unat (num_contexts p) = length (contexts p) \<and>
     (\<forall>ctx \<in> set (contexts p). hart_id ctx < length hs \<and> hart_id ctx < 64))"

lemma update_context_ok:
  assumes "ctl_ok (p, hs)" and "k < length (contexts p)"
  shows "\<exists>p' hs'. update_context k p hs = Inr (p', hs') \<and> ctl_ok (p', hs') \<and> length (contexts p') = length (contexts p)"
proof -
  have wf: "plic_wf p" and hb: "hart_id (contexts p ! k) < length hs" "hart_id (contexts p ! k) < 64"
    using assms by (auto simp: ctl_ok_def)
  obtain i where f: "find_highest_pending_enabled p k = Inr i" using find_highest_spec [OF wf assms(2)] by auto
  obtain hs' where s: "signal_cpu_interrupt (hart_id (contexts p ! k)) (supervisor_mode (contexts p ! k)) (i \<noteq> 0) hs = Inr hs'"
    and l: "length hs' = length hs"
    using hb by (auto simp: signal_cpu_interrupt_def Let_def)
  show ?thesis
    using assms f s l hb by (auto simp: update_context_def vec_at_def Let_def ctl_ok_def plic_wf_def dest!: set_update_subset_insert [THEN subsetD])
qed

lemma update_all_ok:
  assumes "ctl_ok (p, hs)" and "n \<le> length (contexts p)"
  shows "\<exists>p' hs'. fold (\<lambda>i acc. and_then acc (\<lambda>(p, hs). update_context i p hs)) [0..<n] (Inr (p, hs)) = Inr (p', hs') \<and>
    ctl_ok (p', hs') \<and> length (contexts p') = length (contexts p)"
  using assms(2)
proof (induction n)
  case 0
  then show ?case using assms(1) by simp
next
  case (Suc n)
  then obtain p1 h1 where "fold (\<lambda>i acc. and_then acc (\<lambda>(p, hs). update_context i p hs)) [0..<n] (Inr (p, hs)) = Inr (p1, h1)"
    "ctl_ok (p1, h1)" "length (contexts p1) = length (contexts p)" by auto
  with update_context_ok [of p1 h1 n] Suc.prems show ?case by auto
qed

lemma signal_ok:
  assumes "ctl_ok c" and "irq < 64"
  shows "\<exists>c'. signal irq b c = Inr c' \<and> ctl_ok c'"
proof (cases c)
  case (Pair p hs)
  show ?thesis
  proof (cases "irq = 0 \<or> max_sources p < irq")
    case True
    then show ?thesis using assms Pair by (auto simp: signal_def set_pending_def)
  next
    case False
    have n: "unat (irq div 32) < length (pending_words p)"
      using assms Pair by (simp add: ctl_ok_def plic_wf_def word_count_def unat_div word_less_nat_alt)
    define q where "q = p\<lparr>pending_words := (pending_words p)[unat (irq div 32) :=
        (if b then pending_words p ! unat (irq div 32) OR push_bit (unat (irq mod 32)) 1
         else pending_words p ! unat (irq div 32) AND NOT (push_bit (unat (irq mod 32)) 1))]\<rparr>"
    have q: "ctl_ok (q, hs)" "unat (num_contexts q) = length (contexts q)" using assms(1) Pair by (simp_all add: ctl_ok_def plic_wf_def q_def)
    have "signal irq b c = update_all_contexts q hs"
      using False n Pair by (simp add: signal_def set_pending_def vec_at_def Let_def q_def)
    then show ?thesis using update_all_ok [OF q(1) order_refl] q(2) by (auto simp: update_all_contexts_def)
  qed
qed

section \<open>The contract of a slave\<close>

text \<open>
  What the controller relies on: from a state that satisfies the invariant every method of a slave
  returns and keeps the invariant, of the slave and of what it shares with the others.
\<close>

datatype slave_op = Op_start | Op_stop | Op_read bool | Op_write u8

fun run_slave ::
  "('d \<Rightarrow> 'd) \<Rightarrow> ('d \<Rightarrow> 'c \<Rightarrow> ('d \<times> 'c) result) \<Rightarrow> (bool \<Rightarrow> 'd \<Rightarrow> 'c \<Rightarrow> (u8 \<times> 'd \<times> 'c) result) \<Rightarrow> (u8 \<Rightarrow> 'd \<Rightarrow> 'd result) \<Rightarrow>
   slave_op list \<Rightarrow> 'd \<Rightarrow> 'c \<Rightarrow> (u8 list \<times> 'd \<times> 'c) result" where
  "run_slave start stop rd wr [] d c = Inr ([], d, c)"
| "run_slave start stop rd wr (Op_start # ops) d c = run_slave start stop rd wr ops (start d) c"
| "run_slave start stop rd wr (Op_stop # ops) d c = and_then (stop d c) (\<lambda>(d, c). run_slave start stop rd wr ops d c)"
| "run_slave start stop rd wr (Op_write v # ops) d c = and_then (wr v d) (\<lambda>d. run_slave start stop rd wr ops d c)"
| "run_slave start stop rd wr (Op_read a # ops) d c =
     and_then (rd a d c) (\<lambda>(v, d, c). and_then (run_slave start stop rd wr ops d c) (\<lambda>(vs, d, c). Inr (v # vs, d, c)))"

locale bus_slave =
  fixes dev_inv :: "'d \<Rightarrow> bool" and env_inv :: "'c \<Rightarrow> bool"
    and start :: "'d \<Rightarrow> 'd" and stop :: "'d \<Rightarrow> 'c \<Rightarrow> ('d \<times> 'c) result"
    and rd :: "bool \<Rightarrow> 'd \<Rightarrow> 'c \<Rightarrow> (u8 \<times> 'd \<times> 'c) result" and wr :: "u8 \<Rightarrow> 'd \<Rightarrow> 'd result"
  assumes start_ok: "dev_inv d \<Longrightarrow> dev_inv (start d)"
    and stop_ok: "dev_inv d \<Longrightarrow> env_inv c \<Longrightarrow> \<exists>d' c'. stop d c = Inr (d', c') \<and> dev_inv d' \<and> env_inv c'"
    and rd_ok: "dev_inv d \<Longrightarrow> env_inv c \<Longrightarrow> \<exists>v d' c'. rd a d c = Inr (v, d', c') \<and> dev_inv d' \<and> env_inv c'"
    and wr_ok: "dev_inv d \<Longrightarrow> \<exists>d'. wr v d = Inr d' \<and> dev_inv d'"
begin

lemma run_ok:
  assumes "dev_inv d" and "env_inv c"
  shows "\<exists>vs d' c'. run_slave start stop rd wr ops d c = Inr (vs, d', c') \<and> dev_inv d' \<and> env_inv c'"
  using assms
proof (induction ops arbitrary: d c)
  case (Cons x ops)
  show ?case
  proof (cases x)
    case Op_start
    with Cons start_ok show ?thesis by simp
  next
    case Op_stop
    with stop_ok [OF Cons.prems] Cons.IH show ?thesis by fastforce
  next
    case (Op_read a)
    obtain v d1 c1 where r: "rd a d c = Inr (v, d1, c1)" "dev_inv d1" "env_inv c1" using rd_ok [OF Cons.prems] by blast
    with Cons.IH [OF r(2,3)] Op_read show ?thesis by fastforce
  next
    case (Op_write v)
    obtain d1 where w: "wr v d = Inr d1" "dev_inv d1" using wr_ok [OF Cons.prems(1)] by blast
    with Cons.IH [OF w(2) Cons.prems(2)] Op_write show ?thesis by simp
  qed
qed simp

end

section \<open>The keyboard\<close>

text \<open>The buffers have the sizes they were allocated with, and the input report is the oldest report of the queue.\<close>

definition kb_ok :: "hid \<Rightarrow> bool" where
  "kb_ok h \<longleftrightarrow> hid_irq h < 64 \<and> input_report_size h = 10 \<and> length (input_report h) = 10 \<and> length (output_report h) = 1024 \<and>
     length (data_register h) = 1024 \<and> length (command_register h) = 1024 \<and> length (hid_descriptor h) = 30 \<and>
     length (report_queue h) \<le> 64 \<and> (\<forall>r \<in> set (report_queue h). length r = 8) \<and>
     (report_queue h \<noteq> [] \<longrightarrow> input_report h = report_bytes (hd (report_queue h)))"

lemma length_report_bytes [simp]: "length (report_bytes r) = length r + 2"
  by (simp add: report_bytes_def Let_def)

lemma input_report_write_8:
  "length r = 8 \<Longrightarrow> length (input_report h) = 10 \<Longrightarrow> hid_input_report_write r h = Inr (h\<lparr>input_report := report_bytes r\<rparr>)"
  by (simp add: hid_input_report_write_def)

lemma kb_signal: "kb_ok h \<Longrightarrow> ctl_ok c \<Longrightarrow> \<exists>c'. signal (hid_irq h) b c = Inr c' \<and> ctl_ok c'"
  by (rule signal_ok) (simp_all add: kb_ok_def)

lemma start_kb: "kb_ok h \<Longrightarrow> kb_ok (hid_start_transmit h)"
  by (simp add: kb_ok_def hid_start_transmit_def)

lemma guarded_put_ok: "length xs = 1024 \<Longrightarrow> \<exists>ys. guarded_put v xs off = Inr ys \<and> length ys = 1024"
  by (simp add: guarded_put_def)

lemma write_kb: "kb_ok h \<Longrightarrow> \<exists>h'. hid_dev_write v h = Inr h' \<and> kb_ok h'"
  using guarded_put_ok [of "command_register h" v "io_offset h"] guarded_put_ok [of "data_register h" v "io_offset h"]
    guarded_put_ok [of "output_report h" v "io_offset h"]
  by (auto simp: hid_dev_write_def kb_ok_def)

lemma command_kb:
  assumes "kb_ok h" and "ctl_ok c"
  shows "\<exists>h' c'. hid_event_command_register_write h c = Inr (h', c') \<and> kb_ok h' \<and> ctl_ok c'"
proof -
  obtain c' where "signal (hid_irq h) True c = Inr c'" "ctl_ok c'" using kb_signal [OF assms] by blast
  with assms show ?thesis by (auto simp: hid_event_command_register_write_def vec_at_def Let_def kb_ok_def simp del: split_paired_Ex)
qed

lemma stop_kb:
  assumes "kb_ok h" and "ctl_ok c"
  shows "\<exists>h' c'. hid_stop_transmit h c = Inr (h', c') \<and> kb_ok h' \<and> ctl_ok c'"
proof -
  let ?h = "h\<lparr>hid_transmitting := False, cur_reg := 3\<rparr>"
  have "kb_ok ?h" using assms(1) by (simp add: kb_ok_def)
  then obtain h1 c1 where e: "(case last_event ?h of EV_COMMAND \<Rightarrow> hid_event_command_register_write ?h c | _ \<Rightarrow> Inr (?h, c)) = Inr (h1, c1)"
    "kb_ok h1" "ctl_ok c1"
    using command_kb [of ?h c] assms(2) by (cases "last_event ?h") auto
  obtain c2 where "signal (hid_irq h1) True c1 = Inr c2" "ctl_ok c2" using kb_signal [OF e(2,3)] by blast
  with e show ?thesis by (auto simp: hid_stop_transmit_def Let_def simp del: split_paired_Ex)
qed

lemma guarded_at_ok: "n \<le> length xs \<Longrightarrow> \<exists>v. guarded_at n xs off = Inr v"
  by (simp add: guarded_at_def vec_at_def)

lemma read_kb:
  assumes "kb_ok h" and "ctl_ok c"
  shows "\<exists>v h' c'. hid_dev_read a h c = Inr (v, h', c') \<and> kb_ok h' \<and> ctl_ok c'"
proof (cases "cur_reg h = 3")
  case True
  obtain v where v: "guarded_at (unat (input_report_size h)) (input_report h) (io_offset h) = Inr v"
    using assms(1) guarded_at_ok [of 10 "input_report h"] by (fastforce simp: kb_ok_def)
  obtain c1 c0 where c1: "signal (hid_irq h) True c = Inr c1" "ctl_ok c1" "signal (hid_irq h) False c = Inr c0" "ctl_ok c0"
    using kb_signal [OF assms(1,2)] by blast
  show ?thesis
  proof (cases "tl (report_queue h)")
    case Nil
    with True v c1 assms show ?thesis by (auto simp: hid_dev_read_def read_input_report_def Let_def kb_ok_def simp del: split_paired_Ex)
  next
    case (Cons r rs)
    then obtain r0 where q: "report_queue h = r0 # r # rs" by (cases "report_queue h") auto
    with assms(1) have "hid_input_report_write r (h\<lparr>report_queue := r # rs\<rparr>) = Inr (h\<lparr>report_queue := r # rs, input_report := report_bytes r\<rparr>)"
      by (subst input_report_write_8) (auto simp: kb_ok_def)
    with True v c1 assms q show ?thesis
      by (auto simp: hid_dev_read_def read_input_report_def Let_def kb_ok_def length_report_bytes simp del: split_paired_Ex)
  qed
next
  case False
  let ?val = "if cur_reg h = 1 then guarded_at 30 (hid_descriptor h) (io_offset h)
     else if cur_reg h = 2 then guarded_at (length (report_desc h)) (report_desc h) (io_offset h)
     else if cur_reg h = 5 then guarded_at 1024 (command_register h) (io_offset h)
     else if cur_reg h = 6 then guarded_at 1024 (data_register h) (io_offset h) else Inr 0"
  obtain v where "?val = Inr v"
  proof -
    have "\<exists>v. ?val = Inr v" using assms(1) by (simp add: guarded_at_ok kb_ok_def)
    then show thesis using that by blast
  qed
  then have "hid_dev_read a h c = Inr (v, h\<lparr>io_offset := io_offset h + 1\<rparr>, c)" using False by (simp add: hid_dev_read_def)
  with assms show ?thesis by (simp add: kb_ok_def del: split_paired_Ex)
qed

interpretation kb: bus_slave kb_ok ctl_ok hid_start_transmit hid_stop_transmit hid_dev_read hid_dev_write
  by unfold_locales (rule start_kb stop_kb read_kb write_kb; assumption)+

lemma update_kb:
  assumes "kb_ok h" and "ctl_ok c" and "length ks = 6"
  shows "\<exists>h' c'. keyboard_update modifiers ks rollover h c = Inr (h', c') \<and> kb_ok h' \<and> ctl_ok c'"
proof (cases "64 \<le> length (report_queue h)")
  case True
  then show ?thesis using assms by (simp add: keyboard_update_def)
next
  case False
  define r where "r = modifiers # 0 # (if rollover then replicate 6 1 else ks)"
  have r: "length r = 8" using assms(3) by (simp add: r_def)
  obtain c1 where c1: "signal (hid_irq h) True c = Inr c1" "ctl_ok c1" using kb_signal [OF assms(1,2)] by blast
  show ?thesis
  proof (cases "report_queue h")
    case Nil
    then show ?thesis
      using False assms r c1 by (auto simp: keyboard_update_def Let_def input_report_write_8 kb_ok_def length_report_bytes simp flip: r_def simp del: split_paired_Ex)
  next
    case (Cons q qs)
    then show ?thesis
      using False assms r c1 by (auto simp: keyboard_update_def Let_def kb_ok_def simp flip: r_def simp del: split_paired_Ex)
  qed
qed

section \<open>The controller with keyboards\<close>

text \<open>
  The default methods are left out: \<open>dev_read\<close> of \<open>I2CSlave\<close> moves past the end of its buffer when the
  master does not acknowledge the last byte, so a slave that does not override it breaks the contract.
\<close>

fun slave_ok :: "slave \<Rightarrow> bool" where
  "slave_ok (Plain s) = False"
| "slave_ok (Keyboard h) = kb_ok h"

definition i2c_ok :: "i2c \<Rightarrow> bool" where
  "i2c_ok s \<longleftrightarrow> i2c_irq s < 64 \<and> (\<forall>d \<in> set (slaves s). slave_ok d) \<and> (\<forall>k. current_dev s = Some k \<longrightarrow> k < length (slaves s))"

lemma slave_start_ok: "slave_ok d \<Longrightarrow> slave_ok (start_transmit d)"
  by (cases d) (simp_all add: start_kb)

lemma slave_stop_ok: "slave_ok d \<Longrightarrow> ctl_ok c \<Longrightarrow> \<exists>d' c'. stop_transmit d c = Inr (d', c') \<and> slave_ok d' \<and> ctl_ok c'"
  by (cases d) (auto dest: stop_kb [of _ c] simp del: split_paired_Ex)

lemma slave_rd_ok: "slave_ok d \<Longrightarrow> ctl_ok c \<Longrightarrow> \<exists>v d' c'. slave_read a d c = Inr (v, d', c') \<and> slave_ok d' \<and> ctl_ok c'"
  by (cases d) (auto dest: read_kb [of _ c a] simp del: split_paired_Ex)

lemma slave_wr_ok: "slave_ok d \<Longrightarrow> \<exists>d'. slave_write v d = Inr d' \<and> slave_ok d'"
  by (cases d) (auto dest: write_kb [of _ v])

interpretation sl: bus_slave slave_ok ctl_ok start_transmit stop_transmit slave_read slave_write
  by unfold_locales (rule slave_start_ok slave_stop_ok slave_rd_ok slave_wr_ok; assumption)+

lemma slaves_upd: "\<forall>d \<in> set ds. slave_ok d \<Longrightarrow> slave_ok x \<Longrightarrow> \<forall>d \<in> set (ds[k := x]). slave_ok d"
  by (auto dest!: set_update_subset_insert [THEN subsetD])

lemma find_slave_bound: "find_slave a ds = Some k \<Longrightarrow> k < length ds \<and> ucast (address_of (ds ! k)) = a"
  by (induction ds arbitrary: k) (auto split: if_splits)

lemma selected_frame [simp]:
  "selected (s\<lparr>i2c_sr := x\<rparr>) = selected s" "selected (s\<lparr>rxr := y\<rparr>) = selected s" "selected (s\<lparr>i2c_cr := y\<rparr>) = selected s"
  "selected (s\<lparr>op_active := b\<rparr>) = selected s" "selected (s\<lparr>run_delay := n\<rparr>) = selected s" "selected (s\<lparr>int_line := b\<rparr>) = selected s"
  "selected (s\<lparr>slaves := ds\<rparr>) = selected s"
  by (simp_all add: selected_def)

lemma selected_slave:
  assumes "i2c_ok s" and "selected s = Some k"
  shows "vec_at (slaves s) k = Inr (slaves s ! k)" "slave_ok (slaves s ! k)"
  using assms by (auto simp: i2c_ok_def selected_def vec_at_def split: if_splits)

lemma i2c_ok_frame [simp]:
  "i2c_ok (s\<lparr>i2c_sr := x\<rparr>) = i2c_ok s" "i2c_ok (s\<lparr>current_address := a\<rparr>) = i2c_ok s" "i2c_ok (s\<lparr>op_active := b\<rparr>) = i2c_ok s"
  "i2c_ok (s\<lparr>run_delay := n\<rparr>) = i2c_ok s" "i2c_ok (s\<lparr>i2c_cr := y\<rparr>) = i2c_ok s" "i2c_ok (s\<lparr>txr := y\<rparr>) = i2c_ok s"
  "i2c_ok (s\<lparr>i2c_ctr := y\<rparr>) = i2c_ok s" "i2c_ok (s\<lparr>prer_lo := y\<rparr>) = i2c_ok s" "i2c_ok (s\<lparr>prer_hi := y\<rparr>) = i2c_ok s"
  "i2c_ok (s\<lparr>device_selected := b\<rparr>) = i2c_ok s"
  by (simp_all add: i2c_ok_def)

lemma lower_ok: "i2c_ok s \<Longrightarrow> ctl_ok c \<Longrightarrow> \<exists>s' c'. lower_interrupt s c = Inr (s', c') \<and> i2c_ok s' \<and> ctl_ok c'"
  using signal_ok [of c "i2c_irq s" False] by (auto simp: lower_interrupt_def i2c_ok_def simp del: split_paired_Ex)

lemma raise_ok: "i2c_ok s \<Longrightarrow> ctl_ok c \<Longrightarrow> \<exists>s' c'. raise_interrupt s c = Inr (s', c') \<and> i2c_ok s' \<and> ctl_ok c'"
  using signal_ok [of c "i2c_irq s" True] by (auto simp: raise_interrupt_def i2c_ok_def simp del: split_paired_Ex)

lemma cmd_address_ok: "i2c_ok s \<Longrightarrow> i2c_ok (cmd_address s)"
  using find_slave_bound [of "ucast (drop_bit 1 (txr s))" "slaves s"]
  by (auto simp: cmd_address_def i2c_ok_def Let_def split: option.splits dest!: set_update_subset_insert [THEN subsetD]
      intro: slave_start_ok)

lemma cmd_write_ok:
  assumes "i2c_ok s"
  shows "\<exists>s'. cmd_write s = Inr s' \<and> i2c_ok s'"
proof (cases "current_address s = 0xFFFF \<or> selected s = None")
  case True
  then show ?thesis using assms by (auto simp: cmd_write_def cmd_address_ok Let_def)
next
  case False
  then obtain k where k: "selected s = Some k" by auto
  obtain d where d: "slave_write (txr s) (slaves s ! k) = Inr d" "slave_ok d"
    using sl.wr_ok [OF selected_slave(2) [OF assms k]] by blast
  have "cmd_write s = Inr (s\<lparr>slaves := (slaves s)[k := d],
      i2c_sr := unset_bit SR_RxACK (set_bit SR_RxACK (set_bit SR_TIP (i2c_sr s)))\<rparr>)"
    using False k d selected_slave(1) [OF assms k] by (simp add: cmd_write_def Let_def)
  then show ?thesis using assms d slaves_upd by (auto simp: i2c_ok_def)
qed

lemma cmd_read_ok:
  assumes "i2c_ok s" and "ctl_ok c"
  shows "\<exists>s' c'. cmd_read s c = Inr (s', c') \<and> i2c_ok s' \<and> ctl_ok c'"
proof (cases "selected s")
  case None
  then show ?thesis using assms by (simp add: cmd_read_def Let_def i2c_ok_def del: split_paired_Ex)
next
  case (Some k)
  obtain v d c' where d: "slave_read (bit (i2c_cr s) CR_ACK) (slaves s ! k) c = Inr (v, d, c')" "slave_ok d" "ctl_ok c'"
    using sl.rd_ok [OF selected_slave(2) [OF assms(1) Some] assms(2)] by blast
  have "cmd_read s c = Inr (s\<lparr>rxr := v, slaves := (slaves s)[k := d],
      i2c_sr := unset_bit SR_RxACK (set_bit SR_TIP (i2c_sr s))\<rparr>, c')"
    using Some d selected_slave(1) [OF assms(1) Some] by (simp add: cmd_read_def Let_def)
  then show ?thesis using assms d slaves_upd by (auto simp: i2c_ok_def simp del: split_paired_Ex)
qed

lemma cmd_stop_ok:
  assumes "i2c_ok s" and "ctl_ok c"
  shows "\<exists>s' c'. cmd_stop s c = Inr (s', c') \<and> i2c_ok s' \<and> ctl_ok c'"
proof (cases "selected s")
  case None
  then show ?thesis using assms by (simp add: cmd_stop_def i2c_ok_def del: split_paired_Ex)
next
  case (Some k)
  obtain d c' where d: "stop_transmit (slaves s ! k) c = Inr (d, c')" "slave_ok d" "ctl_ok c'"
    using sl.stop_ok [OF selected_slave(2) [OF assms(1) Some] assms(2)] by blast
  have "cmd_stop s c = Inr (s\<lparr>slaves := (slaves s)[k := d], device_selected := False, i2c_sr := unset_bit SR_BUSY (i2c_sr s)\<rparr>, c')"
    using Some d selected_slave(1) [OF assms(1) Some] by (simp add: cmd_stop_def)
  then show ?thesis using assms d slaves_upd by (auto simp: i2c_ok_def simp del: split_paired_Ex)
qed

lemma cmd_iack_ok:
  assumes "i2c_ok s" and "ctl_ok c"
  shows "\<exists>s' c'. cmd_iack s c = Inr (s', c') \<and> i2c_ok s' \<and> ctl_ok c'"
proof -
  have "i2c_ok (s\<lparr>i2c_sr := unset_bit SR_IF (i2c_sr s)\<rparr>)" using assms(1) by (simp add: i2c_ok_def)
  from lower_ok [OF this assms(2)] obtain s1 c1
    where "lower_interrupt (s\<lparr>i2c_sr := unset_bit SR_IF (i2c_sr s)\<rparr>) c = Inr (s1, c1)" "i2c_ok s1" "ctl_ok c1" by blast
  with assms show ?thesis by (auto simp: cmd_iack_def i2c_ok_def simp del: split_paired_Ex)
qed

lemma execute_ok:
  assumes "i2c_ok s" and "ctl_ok c"
  shows "\<exists>s' c'. execute_command s c = Inr (s', c') \<and> i2c_ok s' \<and> ctl_ok c'"
proof -
  obtain s1 c1 where 1: "cmd_iack s c = Inr (s1, c1)" "i2c_ok s1" "ctl_ok c1" using cmd_iack_ok [OF assms] by blast
  define cr where "cr = i2c_cr s1"
  define s2 where "s2 = (if bit cr CR_STA then s1\<lparr>i2c_sr := set_bit SR_BUSY (i2c_sr s1), current_address := 0xFFFF\<rparr> else s1)"
  have 2: "i2c_ok s2" using 1 by (simp add: s2_def)
  obtain s3 where 3: "(if bit cr CR_WR then cmd_write s2 else Inr s2) = Inr s3" "i2c_ok s3"
    using cmd_write_ok [OF 2] 2 by (cases "bit cr CR_WR") auto
  obtain s4 c4 where 4: "(if bit cr CR_RD then cmd_read s3 c1 else Inr (s3, c1)) = Inr (s4, c4)" "i2c_ok s4" "ctl_ok c4"
    using cmd_read_ok [OF 3(2) 1(3)] 3(2) 1(3) by (cases "bit cr CR_RD") auto
  obtain s5 c5 where 5: "(if bit cr CR_STO then cmd_stop s4 c4 else Inr (s4, c4)) = Inr (s5, c5)" "i2c_ok s5" "ctl_ok c5"
    using cmd_stop_ok [OF 4(2,3)] 4(2,3) by (cases "bit cr CR_STO") auto
  obtain s6 c6 where 6: "raise_interrupt (s5\<lparr>i2c_sr := set_bit SR_IF (unset_bit SR_TIP (i2c_sr s5))\<rparr>) c5 = Inr (s6, c6)" "i2c_ok s6" "ctl_ok c6"
    using raise_ok [of "s5\<lparr>i2c_sr := set_bit SR_IF (unset_bit SR_TIP (i2c_sr s5))\<rparr>" c5] 5 by auto
  have "execute_command s c =
      (if \<not> bit cr CR_STA \<and> \<not> bit cr CR_STO \<and> \<not> bit cr CR_RD \<and> \<not> bit cr CR_WR then Inr (s1, c1)
       else if bit cr CR_WR \<or> bit cr CR_RD \<or> bit cr CR_STO then Inr (s6, c6) else Inr (s5, c5))"
    using 1(1) 3(1) 4(1) 5(1) 6(1) unfolding execute_command_def s2_def cr_def
    by (cases "bit (i2c_cr s1) CR_WR"; cases "bit (i2c_cr s1) CR_RD"; cases "bit (i2c_cr s1) CR_STO"; cases "bit (i2c_cr s1) CR_STA")
      (simp_all add: Let_def)
  then show ?thesis using 1 5 6 by (auto simp del: split_paired_Ex)
qed

lemma tick_ok:
  assumes "i2c_ok s" and "ctl_ok c"
  shows "\<exists>s' c'. i2c_tick s c = Inr (s', c') \<and> i2c_ok s' \<and> ctl_ok c'"
proof -
  obtain s1 c1 where "execute_command (s\<lparr>run_delay := run_delay s + 1\<rparr>) c = Inr (s1, c1)" "i2c_ok s1" "ctl_ok c1"
    using execute_ok [of "s\<lparr>run_delay := run_delay s + 1\<rparr>" c] assms by auto
  with assms show ?thesis by (auto simp: i2c_tick_def Let_def simp del: split_paired_Ex)
qed

lemma write_ok:
  assumes "i2c_ok s" and "ctl_ok c"
  shows "\<exists>s' c'. i2c_write a v s c = Inr (s', c') \<and> i2c_ok s' \<and> ctl_ok c'"
proof -
  obtain s1 c1 where "lower_interrupt (s\<lparr>i2c_ctr := ucast v, i2c_sr := 0, device_selected := False, current_address := 0xFFFF\<rparr>) c = Inr (s1, c1)"
    "i2c_ok s1" "ctl_ok c1"
    using lower_ok [of "s\<lparr>i2c_ctr := ucast v, i2c_sr := 0, device_selected := False, current_address := 0xFFFF\<rparr>" c] assms by auto
  with assms show ?thesis by (auto simp: i2c_write_def Let_def simp del: split_paired_Ex)
qed

text \<open>What happens to the controller: register accesses, ticks, and key events of the host.\<close>

datatype i2c_event = Ev_write u64 u64 | Ev_tick | Ev_keys nat u8 "u8 list" bool

fun i2c_step :: "i2c_event \<Rightarrow> i2c \<Rightarrow> ctl \<Rightarrow> (i2c \<times> ctl) result" where
  "i2c_step (Ev_write a v) s c = i2c_write a v s c"
| "i2c_step Ev_tick s c = i2c_tick s c"
| "i2c_step (Ev_keys k m ks r) s c =
     (if k < length (slaves s) then
        case slaves s ! k of
          Keyboard h \<Rightarrow> and_then (keyboard_update m ks r h c) (\<lambda>(h, c). Inr (s\<lparr>slaves := (slaves s)[k := Keyboard h]\<rparr>, c))
        | Plain _ \<Rightarrow> Inr (s, c)
      else Inr (s, c))"

fun i2c_run :: "i2c_event list \<Rightarrow> i2c \<Rightarrow> ctl \<Rightarrow> (i2c \<times> ctl) result" where
  "i2c_run [] s c = Inr (s, c)"
| "i2c_run (e # es) s c = and_then (i2c_step e s c) (\<lambda>(s, c). i2c_run es s c)"

definition key_event_ok :: "i2c_event \<Rightarrow> bool" where
  "key_event_ok e \<longleftrightarrow> (case e of Ev_keys k m ks r \<Rightarrow> length ks = 6 | _ \<Rightarrow> True)"

lemma event_ok:
  assumes "i2c_ok s" and "ctl_ok c" and "key_event_ok e"
  shows "\<exists>s' c'. i2c_step e s c = Inr (s', c') \<and> i2c_ok s' \<and> ctl_ok c'"
proof (cases "\<exists>k m ks r h. e = Ev_keys k m ks r \<and> k < length (slaves s) \<and> slaves s ! k = Keyboard h")
  case True
  then obtain k m ks r h where e: "e = Ev_keys k m ks r" "k < length (slaves s)" "slaves s ! k = Keyboard h" by blast
  have "slave_ok (Keyboard h)" using assms(1) e by (metis i2c_ok_def nth_mem)
  then obtain h' c' where "keyboard_update m ks r h c = Inr (h', c')" "kb_ok h'" "ctl_ok c'"
    using update_kb [of h c ks m r] assms(2,3) e(1) by (auto simp: key_event_ok_def)
  with e assms(1) slaves_upd [of "slaves s" "Keyboard h'" k] show ?thesis by (simp add: i2c_ok_def del: split_paired_Ex)
next
  case False
  then show ?thesis
    using assms write_ok [OF assms(1,2)] tick_ok [OF assms(1,2)]
    by (cases e) (auto split: slave.splits simp del: split_paired_Ex)
qed

text \<open>
  C36. The I2C bus with its keyboards never leaves its buffers: over any sequence of register
  writes with any addresses and values, ticks and key events, the controller returns every time, each
  keyboard keeps its buffers at their sizes, at most 64 reports queued and the oldest one in its input report, the
  selected device stays valid, and the interrupt controller stays well formed.
\<close>

theorem i2c_bus_safe:
  assumes "i2c_ok s" and "ctl_ok c" and "list_all key_event_ok es"
  shows "\<exists>s' c'. i2c_run es s c = Inr (s', c') \<and> i2c_ok s' \<and> ctl_ok c'"
  using assms
proof (induction es arbitrary: s c)
  case (Cons e es)
  obtain s1 c1 where "i2c_step e s c = Inr (s1, c1)" "i2c_ok s1" "ctl_ok c1" using event_ok [of s c e] Cons.prems by auto
  with Cons.IH [of s1 c1] Cons.prems(3) show ?case by simp
qed (simp del: split_paired_Ex)

section \<open>Reading a report\<close>

text \<open>What a driver does: write the command register, wait the 100 ticks a command takes, read the receive register.\<close>

primrec i2c_ticks :: "nat \<Rightarrow> i2c \<Rightarrow> ctl \<Rightarrow> (i2c \<times> ctl) result" where
  "i2c_ticks 0 s c = Inr (s, c)"
| "i2c_ticks (Suc n) s c = and_then (i2c_tick s c) (\<lambda>(s, c). i2c_ticks n s c)"

definition i2c_command :: "u64 \<Rightarrow> i2c \<Rightarrow> ctl \<Rightarrow> (i2c \<times> ctl) result" where
  "i2c_command v s c = and_then (i2c_write (i2c_start s + 0x10) v s c) (\<lambda>(s, c). i2c_ticks 100 s c)"

primrec read_bytes :: "nat \<Rightarrow> i2c \<Rightarrow> ctl \<Rightarrow> (u64 list \<times> i2c \<times> ctl) result" where
  "read_bytes 0 s c = Inr ([], s, c)"
| "read_bytes (Suc n) s c =
     and_then (i2c_command 0x20 s c) (\<lambda>(s, c).
     and_then (read_bytes n s c) (\<lambda>(bs, s', c). Inr (i2c_read (i2c_start s + 0xC) s # bs, s', c)))"

text \<open>START with the address for reading, nine reads, and a last read with NACK and STOP.\<close>

definition read_report :: "u8 \<Rightarrow> i2c \<Rightarrow> ctl \<Rightarrow> (u64 list \<times> i2c \<times> ctl) result" where
  "read_report addr s c =
     and_then (i2c_write (i2c_start s + 0xC) (ucast (push_bit 1 addr OR 1)) s c) (\<lambda>(s, c).
     and_then (i2c_command 0x90 s c) (\<lambda>(s, c).
     and_then (read_bytes 9 s c) (\<lambda>(bs, s, c).
     and_then (i2c_command 0x68 s c) (\<lambda>(s, c). Inr (bs @ [i2c_read (i2c_start s + 0xC) s], s, c)))))"

lemma ticks_wait: "op_active s \<Longrightarrow> run_delay s + n < 100 \<Longrightarrow> i2c_ticks n s c = Inr (s\<lparr>run_delay := run_delay s + n\<rparr>, c)"
  by (induction n arbitrary: s) (simp_all add: i2c_tick_def Let_def)

lemma ticks_Suc: "i2c_ticks (Suc n) s c = and_then (i2c_ticks n s c) (\<lambda>(s, c). i2c_tick s c)"
proof (induction n arbitrary: s c)
  case 0
  show ?case by (cases "i2c_tick s c") auto
next
  case (Suc n)
  then show ?case
  proof (cases "i2c_tick s c")
    case (Inr p)
    then show ?thesis using Suc [of "fst p" "snd p"] by (simp add: case_prod_beta')
  qed simp
qed

lemma command_executes:
  assumes "bit (i2c_ctr s) 7"
  shows "i2c_command v s c =
    and_then (execute_command (s\<lparr>i2c_cr := ucast v, op_active := True,
                                i2c_sr := unset_bit SR_IF (set_bit SR_TIP (i2c_sr s)), run_delay := 100\<rparr>) c)
      (\<lambda>(s, c). Inr (s\<lparr>op_active := False\<rparr>, c))"
proof -
  let ?s = "s\<lparr>i2c_cr := ucast v, op_active := True, run_delay := 0, i2c_sr := unset_bit SR_IF (set_bit SR_TIP (i2c_sr s))\<rparr>"
  have "i2c_command v s c = i2c_ticks (Suc 99) ?s c" using assms by (simp add: i2c_command_def i2c_write_def Let_def del: i2c_ticks.simps)
  also have "\<dots> = i2c_tick (?s\<lparr>run_delay := 99\<rparr>) c" unfolding ticks_Suc by (subst ticks_wait) simp_all
  finally show ?thesis by (simp add: i2c_tick_def Let_def)
qed

lemma raise_frame: "raise_interrupt s c = Inr (s', c') \<Longrightarrow> s' = s \<or> s' = s\<lparr>int_line := True\<rparr>"
  by (auto simp: raise_interrupt_def and_then_Inr_iff split: if_splits)

lemma command_bits:
  "\<not> bit (0x20 :: u8) CR_IACK" "\<not> bit (0x20 :: u8) CR_WR" "bit (0x20 :: u8) CR_RD" "\<not> bit (0x20 :: u8) CR_STO" "\<not> bit (0x20 :: u8) CR_STA"
  "\<not> bit (0x68 :: u8) CR_IACK" "\<not> bit (0x68 :: u8) CR_WR" "bit (0x68 :: u8) CR_RD" "bit (0x68 :: u8) CR_STO" "\<not> bit (0x68 :: u8) CR_STA"
  "\<not> bit (0x90 :: u8) CR_IACK" "bit (0x90 :: u8) CR_WR" "\<not> bit (0x90 :: u8) CR_RD" "\<not> bit (0x90 :: u8) CR_STO" "bit (0x90 :: u8) CR_STA"
  by (simp_all add: bit_iff_odd)

text \<open>The keyboard during the transfer of the report \<open>r\<close>.\<close>

definition sending :: "u8 list \<Rightarrow> u8 list list \<Rightarrow> nat \<Rightarrow> hid \<Rightarrow> bool" where
  "sending r rs j h \<longleftrightarrow> kb_ok h \<and> cur_reg h = 3 \<and> report_queue h = r # rs \<and> io_offset h = of_nat j \<and> last_event h = EV_NONE"

lemma read_byte:
  assumes "sending r rs j h" and "j < 9"
  shows "hid_dev_read a h c = Inr (report_bytes r ! j, h\<lparr>io_offset := of_nat (Suc j)\<rparr>, c)"
    and "sending r rs (Suc j) (h\<lparr>io_offset := of_nat (Suc j)\<rparr>)"
proof -
  have j: "unat (of_nat j :: u16) = j" "uint (of_nat j :: u16) = int j" using assms(2) by (simp_all add: unsigned_of_nat take_bit_nat_eq_self)
  show "hid_dev_read a h c = Inr (report_bytes r ! j, h\<lparr>io_offset := of_nat (Suc j)\<rparr>, c)"
  proof -
    have h: "cur_reg h = 3" "input_report_size h = 10" "io_offset h = of_nat j" "input_report h = report_bytes r" "length r = 8"
      using assms(1) by (simp_all add: sending_def kb_ok_def)
    have "guarded_at 10 (report_bytes r) (of_nat j) = Inr (report_bytes r ! j)"
      using assms(2) j h(5) by (simp add: guarded_at_def vec_at_def length_report_bytes)
    moreover have "of_nat j + 1 = (of_nat (Suc j) :: u16)" by simp
    ultimately show ?thesis using h j(2) assms(2) by (simp add: hid_dev_read_def read_input_report_def del: of_nat_Suc)
  qed
  show "sending r rs (Suc j) (h\<lparr>io_offset := of_nat (Suc j)\<rparr>)" using assms by (auto simp: sending_def kb_ok_def)
qed

lemma read_last_byte:
  assumes "sending r rs 9 h" and "ctl_ok c"
  obtains h' c' where "hid_dev_read a h c = Inr (report_bytes r ! 9, h', c')" and "kb_ok h'" and "ctl_ok c'"
    and "report_queue h' = rs" and "last_event h' = EV_NONE" and "hid_address h' = hid_address h"
proof -
  have kb: "kb_ok h" "cur_reg h = 3" "report_queue h = r # rs" "io_offset h = 9" "last_event h = EV_NONE" using assms(1) by (simp_all add: sending_def)
  obtain c1 c0 where c: "signal (hid_irq h) True c = Inr c1" "ctl_ok c1" "signal (hid_irq h) False c = Inr c0" "ctl_ok c0"
    using kb_signal [OF kb(1) assms(2)] by blast
  have g: "guarded_at 10 (input_report h) 9 = Inr (report_bytes r ! 9)"
    using kb by (simp add: guarded_at_def vec_at_def kb_ok_def length_report_bytes)
  show thesis
  proof (cases rs)
    case Nil
    show thesis
      by (rule that [of "h\<lparr>report_queue := [], io_offset := 10\<rparr>" c0])
        (use kb c g Nil in \<open>simp_all add: hid_dev_read_def read_input_report_def kb_ok_def\<close>)
  next
    case (Cons r' rs')
    have w: "hid_input_report_write r' (h\<lparr>report_queue := rs\<rparr>) = Inr (h\<lparr>report_queue := rs, input_report := report_bytes r'\<rparr>)"
      using kb Cons by (subst input_report_write_8) (auto simp: kb_ok_def)
    show thesis
      by (rule that [of "h\<lparr>report_queue := rs, input_report := report_bytes r'\<rparr>" c1])
        (use kb c g w Cons in \<open>simp_all add: hid_dev_read_def read_input_report_def kb_ok_def length_report_bytes\<close>)
  qed
qed

lemma stop_quiet:
  assumes "kb_ok h" and "ctl_ok c" and "last_event h = EV_NONE"
  obtains c' where "hid_stop_transmit h c = Inr (h\<lparr>hid_transmitting := False, cur_reg := 3\<rparr>, c')" and "ctl_ok c'"
proof -
  obtain c1 where "signal (hid_irq h) True c = Inr c1" "ctl_ok c1" using kb_signal [OF assms(1,2)] by blast
  with assms that show thesis by (cases "report_queue h = []") (auto simp: hid_stop_transmit_def)
qed

text \<open>The controller during the transfer: enabled, with the keyboard at position \<open>k\<close> selected.\<close>

definition transferring :: "nat \<Rightarrow> slave list \<Rightarrow> hid \<Rightarrow> i2c \<Rightarrow> ctl \<Rightarrow> bool" where
  "transferring k ds h s c \<longleftrightarrow> i2c_ok s \<and> ctl_ok c \<and> bit (i2c_ctr s) 7 \<and> selected s = Some k \<and> k < length ds \<and>
     slaves s = ds[k := Keyboard h]"

lemma transferring_step:
  assumes t: "transferring k ds h s c" and snd: "sending r rs j h" and j: "j < 9"
  obtains s' c' where "i2c_command 0x20 s c = Inr (s', c')" and "rxr s' = report_bytes r ! j"
    and "transferring k ds (h\<lparr>io_offset := of_nat (Suc j)\<rparr>) s' c'"
proof -
  let ?h = "h\<lparr>io_offset := of_nat (Suc j)\<rparr>"
  define s0 where "s0 = s\<lparr>i2c_cr := 0x20, op_active := True, i2c_sr := unset_bit SR_IF (set_bit SR_TIP (i2c_sr s)), run_delay := 100\<rparr>"
  have sel: "selected s0 = Some k" "slaves s0 = ds[k := Keyboard h]" "k < length ds" "i2c_ok s0" "ctl_ok c"
    using t by (simp_all add: transferring_def s0_def)
  have rd: "cmd_read s0 c = Inr (s0\<lparr>rxr := report_bytes r ! j, slaves := ds[k := Keyboard ?h],
      i2c_sr := unset_bit SR_RxACK (set_bit SR_TIP (i2c_sr s0))\<rparr>, c)" (is "_ = Inr (?s1, c)")
    using sel read_byte(1) [OF snd j] by (simp add: cmd_read_def vec_at_def Let_def)
  have "i2c_ok ?s1"
    using cmd_read_ok [OF sel(4,5)] rd by simp
  then obtain s2 c2 where r2: "raise_interrupt (?s1\<lparr>i2c_sr := set_bit SR_IF (unset_bit SR_TIP (i2c_sr ?s1))\<rparr>) c = Inr (s2, c2)"
    "i2c_ok s2" "ctl_ok c2"
    using raise_ok [of "?s1\<lparr>i2c_sr := set_bit SR_IF (unset_bit SR_TIP (i2c_sr ?s1))\<rparr>" c] sel(5) by auto
  have "execute_command s0 c = Inr (s2, c2)"
    using rd r2(1) command_bits by (simp add: execute_command_def cmd_iack_def s0_def)
  then have "i2c_command 0x20 s c = Inr (s2\<lparr>op_active := False\<rparr>, c2)"
    using t by (simp add: command_executes transferring_def s0_def)
  then show thesis
    by (rule that) (use raise_frame [OF r2(1)] r2 sel t in \<open>auto simp: transferring_def s0_def\<close>)
qed

lemma transferring_bytes:
  assumes "transferring k ds h s c" and "sending r rs j h" and "j + n \<le> 9"
  obtains s' c' where "read_bytes n s c = Inr (map ucast (take n (drop j (report_bytes r))), s', c')"
    and "transferring k ds (h\<lparr>io_offset := of_nat (j + n)\<rparr>) s' c'" and "sending r rs (j + n) (h\<lparr>io_offset := of_nat (j + n)\<rparr>)"
  using assms
proof (induction n arbitrary: j h s c thesis)
  case 0
  have "h\<lparr>io_offset := of_nat j\<rparr> = h" using 0(3) by (simp add: sending_def)
  with 0 show ?case by simp
next
  case (Suc n)
  let ?h = "h\<lparr>io_offset := of_nat (Suc j)\<rparr>"
  have j: "j < 9" using Suc.prems(4) by simp
  obtain s1 c1 where 1: "i2c_command 0x20 s c = Inr (s1, c1)" "rxr s1 = report_bytes r ! j" "transferring k ds ?h s1 c1"
    by (rule transferring_step [OF Suc.prems(2,3) j])
  have snd: "sending r rs (Suc j) ?h" by (rule read_byte(2) [OF Suc.prems(3) j])
  obtain s2 c2 where 2: "read_bytes n s1 c1 = Inr (map ucast (take n (drop (Suc j) (report_bytes r))), s2, c2)"
    "transferring k ds (?h\<lparr>io_offset := of_nat (Suc j + n)\<rparr>) s2 c2" "sending r rs (Suc j + n) (?h\<lparr>io_offset := of_nat (Suc j + n)\<rparr>)"
    using Suc.IH [OF _ 1(3) snd] Suc.prems(4) by auto
  have "length r = 8" using Suc.prems(3) by (simp add: sending_def kb_ok_def)
  then have t: "take (Suc n) (drop j (report_bytes r)) = report_bytes r ! j # take n (drop (Suc j) (report_bytes r))"
    using j by (simp add: Cons_nth_drop_Suc [symmetric])
  have "read_bytes (Suc n) s c = Inr (map ucast (take (Suc n) (drop j (report_bytes r))), s2, c2)"
    using 1(1,2) 2(1) unfolding t by (simp add: i2c_read_def)
  then show ?case by (rule Suc.prems(1)) (use 2(2,3) in simp_all)
qed

lemma transferring_last:
  assumes t: "transferring k ds h s c" and snd: "sending r rs 9 h"
  obtains s' c' h' where "i2c_command 0x68 s c = Inr (s', c')" and "rxr s' = report_bytes r ! 9" and "i2c_ok s'" and "ctl_ok c'"
    and "slaves s' = ds[k := Keyboard h']" and "report_queue h' = rs" and "cur_reg h' = 3" and "hid_address h' = hid_address h"
    and "bit (i2c_ctr s') 7"
proof -
  define s0 where "s0 = s\<lparr>i2c_cr := 0x68, op_active := True, i2c_sr := unset_bit SR_IF (set_bit SR_TIP (i2c_sr s)), run_delay := 100\<rparr>"
  have sel: "selected s0 = Some k" "slaves s0 = ds[k := Keyboard h]" "k < length ds" "i2c_ok s0" "ctl_ok c" "bit (i2c_ctr s) 7"
    using t by (simp_all add: transferring_def s0_def)
  obtain h1 c1 where h1: "hid_dev_read (bit (i2c_cr s0) CR_ACK) h c = Inr (report_bytes r ! 9, h1, c1)" "kb_ok h1" "ctl_ok c1"
      "report_queue h1 = rs" "last_event h1 = EV_NONE" "hid_address h1 = hid_address h"
    by (rule read_last_byte [OF snd sel(5)])
  obtain c2 where c2: "hid_stop_transmit h1 c1 = Inr (h1\<lparr>hid_transmitting := False, cur_reg := 3\<rparr>, c2)" "ctl_ok c2"
    by (rule stop_quiet [OF h1(2,3,5)])
  define s1 where "s1 = s0\<lparr>rxr := report_bytes r ! 9, slaves := ds[k := Keyboard h1], i2c_sr := unset_bit SR_RxACK (set_bit SR_TIP (i2c_sr s0))\<rparr>"
  define s2 where "s2 = s1\<lparr>slaves := ds[k := Keyboard (h1\<lparr>hid_transmitting := False, cur_reg := 3\<rparr>)], device_selected := False,
     i2c_sr := unset_bit SR_BUSY (i2c_sr s1)\<rparr>"
  have 1: "cmd_read s0 c = Inr (s1, c1)" using sel h1(1) by (simp add: cmd_read_def vec_at_def Let_def s1_def)
  have 2: "cmd_stop s1 c1 = Inr (s2, c2)" using sel c2(1) by (simp add: cmd_stop_def vec_at_def s1_def s2_def)
  have ok: "i2c_ok s1" using cmd_read_ok [OF sel(4,5)] 1 by simp
  have "i2c_ok s2" using cmd_stop_ok [OF ok h1(3)] 2 by simp
  then obtain s3 c3 where 3: "raise_interrupt (s2\<lparr>i2c_sr := set_bit SR_IF (unset_bit SR_TIP (i2c_sr s2))\<rparr>) c2 = Inr (s3, c3)"
    "i2c_ok s3" "ctl_ok c3"
    using raise_ok [of "s2\<lparr>i2c_sr := set_bit SR_IF (unset_bit SR_TIP (i2c_sr s2))\<rparr>" c2] c2(2) by auto
  have cr: "i2c_cr s0 = 0x68" by (simp add: s0_def)
  have "execute_command s0 c = Inr (s3, c3)"
    using 1 2 3(1) command_bits by (simp add: execute_command_def cmd_iack_def cr)
  then have "i2c_command 0x68 s c = Inr (s3\<lparr>op_active := False\<rparr>, c3)"
    using sel(6) by (simp add: command_executes s0_def)
  then show thesis
    by (rule that [of _ _ "h1\<lparr>hid_transmitting := False, cur_reg := 3\<rparr>"])
      (use raise_frame [OF 3(1)] 3 h1 sel in \<open>auto simp: s2_def s1_def s0_def\<close>)
qed

lemma address_byte:
  assumes "addr < (0x80 :: u8)"
  shows "drop_bit 1 (push_bit 1 addr OR 1) = addr"
proof -
  have "\<not> bit (unat addr) 7" using assms by (simp add: bit_iff_odd word_less_nat_alt)
  then have "\<not> bit addr 7" by (simp add: bit_unsigned_iff)
  then have "bit addr n \<Longrightarrow> n < 8 \<Longrightarrow> n < 7" for n by (cases "n = 7") auto
  then show ?thesis by (intro bit_word_eqI) (auto simp: bit_simps)
qed

lemma start_transfer:
  assumes s: "i2c_ok s" "ctl_ok c" "bit (i2c_ctr s) 7" and a: "addr < 0x80" "txr s = push_bit 1 addr OR 1"
    and k: "find_slave (ucast addr) (slaves s) = Some k" "slaves s ! k = Keyboard h"
  obtains s' c' where "i2c_command 0x90 s c = Inr (s', c')" and "transferring k (slaves s) (hid_start_transmit h) s' c'"
proof -
  define s0 where "s0 = s\<lparr>i2c_cr := 0x90, op_active := True, i2c_sr := unset_bit SR_IF (set_bit SR_TIP (i2c_sr s)), run_delay := 100\<rparr>"
  define s1 where "s1 = s0\<lparr>i2c_sr := set_bit SR_BUSY (i2c_sr s0), current_address := 0xFFFF\<rparr>"
  have w: "cmd_write s1 = Inr (cmd_address s1)" by (simp add: cmd_write_def s1_def)
  have ok: "i2c_ok (cmd_address s1)" using s by (intro cmd_address_ok) (simp add: s1_def s0_def)
  have k': "k < length (slaves s)" using find_slave_bound [OF k(1)] by simp
  have ad: "selected (cmd_address s1) = Some k" "slaves (cmd_address s1) = (slaves s)[k := Keyboard (hid_start_transmit h)]"
    "i2c_ctr (cmd_address s1) = i2c_ctr s"
    using a k address_byte [OF a(1)] by (simp_all add: cmd_address_def s1_def s0_def selected_def Let_def)
  obtain s3 c3 where 3: "raise_interrupt ((cmd_address s1)\<lparr>i2c_sr := set_bit SR_IF (unset_bit SR_TIP (i2c_sr (cmd_address s1)))\<rparr>) c = Inr (s3, c3)"
    "i2c_ok s3" "ctl_ok c3"
    using raise_ok [of "(cmd_address s1)\<lparr>i2c_sr := set_bit SR_IF (unset_bit SR_TIP (i2c_sr (cmd_address s1)))\<rparr>" c] s(2) ok by auto
  have cr: "i2c_cr s0 = 0x90" by (simp add: s0_def)
  have "execute_command s0 c = Inr (s3, c3)"
    using w 3(1) command_bits by (simp add: execute_command_def cmd_iack_def cr flip: s1_def)
  then have "i2c_command 0x90 s c = Inr (s3\<lparr>op_active := False\<rparr>, c3)"
    using s(3) by (simp add: command_executes s0_def)
  then show thesis
    by (rule that) (use raise_frame [OF 3(1)] 3(2,3) ad k' s(3) in \<open>auto simp: transferring_def\<close>)
qed

lemma read_report_ok:
  assumes s: "i2c_ok s" "ctl_ok c" "bit (i2c_ctr s) 7" and a: "addr < 0x80"
    and k: "find_slave (ucast addr) (slaves s) = Some k" "slaves s ! k = Keyboard h" and h: "cur_reg h = 3" "report_queue h = r # rs"
  obtains s' c' h' where "read_report addr s c = Inr (map ucast (report_bytes r), s', c')" and "i2c_ok s'" and "ctl_ok c'"
    and "slaves s' = (slaves s)[k := Keyboard h']" and "report_queue h' = rs" and "cur_reg h' = 3" and "hid_address h' = hid_address h"
    and "bit (i2c_ctr s') 7"
proof -
  let ?s = "s\<lparr>txr := push_bit 1 addr OR 1\<rparr>" and ?h = "hid_start_transmit h"
  have k': "k < length (slaves s)" using find_slave_bound [OF k(1)] by simp
  then have "slave_ok (Keyboard h)" using s(1) k(2) by (metis i2c_ok_def nth_mem)
  then have snd: "sending r rs 0 ?h" and len: "length r = 8"
    using h start_kb [of h] by (auto simp: sending_def hid_start_transmit_def kb_ok_def)
  obtain s1 c1 where 1: "i2c_command 0x90 ?s c = Inr (s1, c1)" "transferring k (slaves s) ?h s1 c1"
    using start_transfer [of ?s c addr k h] s a k by auto
  let ?h9 = "?h\<lparr>io_offset := of_nat (0 + 9)\<rparr>"
  obtain s2 c2 where 2: "read_bytes 9 s1 c1 = Inr (map ucast (take 9 (drop 0 (report_bytes r))), s2, c2)"
    "transferring k (slaves s) ?h9 s2 c2" "sending r rs (0 + 9) ?h9"
    by (rule transferring_bytes [OF 1(2) snd, of 9]) auto
  obtain s3 c3 h3 where 3: "i2c_command 0x68 s2 c2 = Inr (s3, c3)" "rxr s3 = report_bytes r ! 9" "i2c_ok s3" "ctl_ok c3"
      "slaves s3 = (slaves s)[k := Keyboard h3]" "report_queue h3 = rs" "cur_reg h3 = 3" "hid_address h3 = hid_address ?h9" "bit (i2c_ctr s3) 7"
  proof -
    have "sending r rs 9 ?h9" using 2(3) by simp
    with that show thesis using transferring_last [OF 2(2)] by blast
  qed
  have "report_bytes r = take 9 (report_bytes r) @ [report_bytes r ! 9]"
    using len take_Suc_conv_app_nth [of 9 "report_bytes r"] by simp
  moreover have "ucast (ucast x :: u64) = x" for x :: u8 by (rule bit_word_eqI) (simp add: bit_simps)
  then have "read_report addr s c = Inr (map ucast (take 9 (report_bytes r)) @ [ucast (report_bytes r ! 9)], s3, c3)"
    using 1(1) 2(1) 3(1,2) by (simp add: read_report_def i2c_write_def i2c_read_def Let_def)
  ultimately have "read_report addr s c = Inr (map ucast (report_bytes r), s3, c3)" by (metis list.simps(8,9) map_append)
  then show thesis by (rule that [of _ _ h3]) (use 3 in \<open>simp_all add: hid_start_transmit_def\<close>)
qed

primrec read_reports :: "nat \<Rightarrow> u8 \<Rightarrow> i2c \<Rightarrow> ctl \<Rightarrow> (u64 list list \<times> i2c \<times> ctl) result" where
  "read_reports 0 addr s c = Inr ([], s, c)"
| "read_reports (Suc n) addr s c =
     and_then (read_report addr s c) (\<lambda>(r, s, c).
     and_then (read_reports n addr s c) (\<lambda>(rs, s, c). Inr (r # rs, s, c)))"

lemma find_slave_upd:
  "find_slave a ds = Some k \<Longrightarrow> address_of d = address_of (ds ! k) \<Longrightarrow> find_slave a (ds[k := d]) = Some k"
  by (induction ds arbitrary: k) (auto split: if_splits)

text \<open>
  C24. Key reports reach the guest complete and in order: on an enabled controller a driver that
  addresses the keyboard, reads ten bytes with the last one not acknowledged and stops, as often as reports are
  queued, reads from the receive register each report with its length prefix, oldest first, and leaves the queue empty.
\<close>

theorem i2c_reports_in_order:
  assumes "i2c_ok s" and "ctl_ok c" and "bit (i2c_ctr s) 7" and "addr < 0x80"
    and "find_slave (ucast addr) (slaves s) = Some k" and "slaves s ! k = Keyboard h" and "cur_reg h = 3"
  shows "\<exists>s' c' h'. read_reports (length (report_queue h)) addr s c = Inr (map (map ucast \<circ> report_bytes) (report_queue h), s', c') \<and>
    i2c_ok s' \<and> ctl_ok c' \<and> slaves s' = (slaves s)[k := Keyboard h'] \<and> report_queue h' = []"
  using assms
proof (induction "report_queue h" arbitrary: s c h)
  case Nil
  have "(slaves s)[k := Keyboard h] = slaves s" using Nil.prems(6) by (metis list_update_id)
  then have "read_reports (length (report_queue h)) addr s c = Inr (map (map ucast \<circ> report_bytes) (report_queue h), s, c) \<and>
      i2c_ok s \<and> ctl_ok c \<and> slaves s = (slaves s)[k := Keyboard h] \<and> report_queue h = []"
    using Nil.prems(1,2) by (simp flip: Nil.hyps)
  then show ?case by blast
next
  case (Cons r rs)
  obtain s1 c1 h1 where 1: "read_report addr s c = Inr (map ucast (report_bytes r), s1, c1)" "i2c_ok s1" "ctl_ok c1"
    "slaves s1 = (slaves s)[k := Keyboard h1]" "report_queue h1 = rs" "cur_reg h1 = 3" "hid_address h1 = hid_address h" "bit (i2c_ctr s1) 7"
    by (rule read_report_ok [OF Cons.prems Cons.hyps(2) [symmetric]])
  have k: "k < length (slaves s)" using find_slave_bound [OF Cons.prems(5)] by simp
  have "find_slave (ucast addr) (slaves s1) = Some k"
    unfolding 1(4) using Cons.prems(5,6) 1(7) by (intro find_slave_upd) simp_all
  moreover have "slaves s1 ! k = Keyboard h1" using 1(4) k by simp
  ultimately obtain s2 c2 h2 where 2: "read_reports (length rs) addr s1 c1 = Inr (map (map ucast \<circ> report_bytes) rs, s2, c2)"
    "i2c_ok s2" "ctl_ok c2" "slaves s2 = (slaves s1)[k := Keyboard h2]" "report_queue h2 = []"
    using Cons.hyps(1) [OF 1(5) [symmetric] 1(2,3,8) Cons.prems(4) _ _ 1(6)] unfolding 1(5) by blast
  have "read_reports (length (report_queue h)) addr s c = Inr (map (map ucast \<circ> report_bytes) (report_queue h), s2, c2)"
    unfolding Cons.hyps(2) [symmetric] using 1(1) 2(1) by simp
  with 2 1(4) show ?case by (metis list_update_overwrite)
qed

text \<open>The constructors establish the invariants.\<close>

lemma ctl_ok_init:
  assumes "length hs = n" and "n \<le> 64"
  shows "ctl_ok (plic_init_auto n, hs)"
proof -
  have "unat (of_nat (n * 2) :: u32) = n * 2" unfolding unat_of_nat using assms(2) by simp
  with assms show ?thesis
    by (auto simp: ctl_ok_def plic_wf_def plic_init_auto_def new_plic_def word_count_def new_context_def simp del: of_nat_mult)
qed

lemma ctl_ok_acquire: "ctl_ok (p, hs) \<Longrightarrow> ctl_ok (snd (acquire_irq p), hs)"
  by (simp add: ctl_ok_def acquire_irq_def plic_wf_def)

lemma kb_ok_new:
  assumes "last_irq_registered p < 64" and "length i1 = 10" and "length i2 = 1024" and "length i3 = 1024" and "length i4 = 1024"
  shows "kb_ok (fst (new_keyboard reg0 i1 i2 i3 i4 p))"
  using assms by (simp add: kb_ok_def new_keyboard_def new_hid_def acquire_irq_def base_descriptor_def)

lemma i2c_ok_new: "last_irq_registered p < 64 \<Longrightarrow> i2c_ok (fst (new_i2c a p))"
  by (simp add: i2c_ok_def new_i2c_def acquire_irq_def)

definition sample_keyboard :: hid where
  "sample_keyboard = (fst (new_keyboard 3 (replicate 10 0) (replicate 1024 0) (replicate 1024 0) (replicate 1024 0)
      ((plic_init_auto 1)\<lparr>last_irq_registered := 3\<rparr>)))\<lparr>report_queue := [[0, 0, 4, 0, 0, 0, 0, 0]], input_report := [10, 0, 0, 0, 4, 0, 0, 0, 0, 0]\<rparr>"

definition sample_bus :: i2c where
  "sample_bus = (fst (new_i2c 0x10030000 ((plic_init_auto 1)\<lparr>last_irq_registered := 2\<rparr>)))\<lparr>i2c_ctr := 0xC0, slaves := [Keyboard sample_keyboard]\<rparr>"

lemma sample_bus_ok:
  "i2c_ok sample_bus" "bit (i2c_ctr sample_bus) 7" "find_slave 3 (slaves sample_bus) = Some 0" "slaves sample_bus ! 0 = Keyboard sample_keyboard"
  "cur_reg sample_keyboard = 3" "report_queue sample_keyboard = [[0, 0, 4, 0, 0, 0, 0, 0]]"
  "report_bytes [0, 0, 4, 0, 0, 0, 0, 0] = [10, 0, 0, 0, 4, 0, 0, 0, 0, 0]"
  by (simp_all add: sample_bus_def sample_keyboard_def i2c_ok_def kb_ok_def new_i2c_def new_keyboard_def new_hid_def acquire_irq_def
      base_descriptor_def report_bytes_def bit_iff_odd)

theorem i2c_reports_in_order_witness:
  "\<exists>s' c'. read_reports 1 3 sample_bus (plic_init_auto 1, [new_hart 0 0x4000]) = Inr ([[10, 0, 0, 0, 4, 0, 0, 0, 0, 0]], s', c')"
  using i2c_reports_in_order [OF sample_bus_ok(1) ctl_ok_init [of "[new_hart 0 0x4000]" 1] sample_bus_ok(2), of 3 0 sample_keyboard]
  by (auto simp: sample_bus_ok)

theorem i2c_bus_safe_witness:
  "\<exists>s' c'. i2c_run [Ev_write 0x10030010 0x90, Ev_tick, Ev_keys 0 2 [4, 5, 0, 0, 0, 0] False] sample_bus (plic_init_auto 1, [new_hart 0 0x4000])
     = Inr (s', c') \<and> i2c_ok s'"
  using i2c_bus_safe [OF sample_bus_ok(1) ctl_ok_init [of "[new_hart 0 0x4000]" 1],
    of "[Ev_write 0x10030010 0x90, Ev_tick, Ev_keys 0 2 [4, 5, 0, 0, 0, 0] False]"]
  by (auto simp: key_event_ok_def)

section \<open>Report descriptors read back\<close>

text \<open>A reader of the short items of the HID specification: size in bits 0 and 1 of the prefix, type in bits 2 and 3, tag above.\<close>

definition le_value :: "u8 list \<Rightarrow> u32" where
  "le_value bs = foldr (\<lambda>b acc. ucast b OR push_bit 8 acc) bs 0"

definition item_size :: "u8 \<Rightarrow> nat" where
  "item_size p = (let n = unat (p AND 3) in if n = 3 then 4 else n)"

function read_items :: "u8 list \<Rightarrow> hid_item list option" where
  "read_items [] = Some []"
| "read_items (p # bs) =
     (if length bs < item_size p then None
      else map_option ((#) (p AND 0x0C, p AND 0xF0, le_value (take (item_size p) bs))) (read_items (drop (item_size p) bs)))"
  by pat_completeness auto
termination by (relation "measure length") auto

definition item_ok :: "hid_item \<Rightarrow> bool" where
  "item_ok = (\<lambda>(type, tag, v). type \<in> {HID_MAIN, HID_GLOBAL, HID_LOCAL} \<and> tag \<in> {0x80, 0x90, 0xA0, 0xC0, 0x00, 0x10, 0x20, 0x70} \<and>
     (tag = END_COLLECTION_TAG \<and> type = HID_MAIN \<longrightarrow> v = 0))"

lemma value_bytes_Suc: "value_bytes (Suc n) v = ucast (v AND 0xFF) # value_bytes n (drop_bit 8 v)"
  by (simp add: value_bytes_def upt_conv_Cons map_Suc_upt [symmetric] drop_bit_drop_bit add.commute del: upt_Suc map_upt_Suc)

lemma bit_low_byte: "bit (ucast (ucast (v AND 0xFF :: u32) :: u8) :: u32) n \<longleftrightarrow> n < 8 \<and> bit v n"
proof -
  have "bit (0xFF :: int) n \<longleftrightarrow> n < 8"
    using bit_mask_iff [where ?'a = int, of 8 n] by (simp add: mask_eq_exp_minus_1)
  then show ?thesis by (auto simp: bit_simps)
qed

lemma le_value_take: "le_value (value_bytes k v) = take_bit (8 * k) v"
proof (induction k arbitrary: v)
  case 0
  show ?case by (simp add: le_value_def value_bytes_def)
next
  case (Suc k)
  have "le_value (value_bytes (Suc k) v) = ucast (ucast (v AND 0xFF) :: u8) OR push_bit 8 (take_bit (8 * k) (drop_bit 8 v))"
    using Suc [of "drop_bit 8 v"] by (simp add: value_bytes_Suc le_value_def)
  also have "\<dots> = take_bit (8 * Suc k) v"
    by (rule bit_word_eqI) (auto simp: bit_low_byte bit_push_bit_iff bit_take_bit_iff bit_drop_bit_eq bit_or_iff)
  finally show ?case .
qed

lemma le_value_bytes:
  "v \<le> 0xFF \<Longrightarrow> le_value (value_bytes 1 v) = v" "v \<le> 0xFFFF \<Longrightarrow> le_value (value_bytes 2 v) = v"
  "le_value (value_bytes 4 v) = v"
proof -
  show "v \<le> 0xFF \<Longrightarrow> le_value (value_bytes 1 v) = v" "v \<le> 0xFFFF \<Longrightarrow> le_value (value_bytes 2 v) = v"
    unfolding le_value_take by (simp_all add: take_bit_eq_mod mod_word_less word_le_nat_alt word_less_nat_alt)
  show "le_value (value_bytes 4 v) = v"
    unfolding le_value_take by (rule bit_word_eqI) (simp add: bit_take_bit_iff)
qed

lemma prefix_fields:
  assumes "type \<in> {HID_MAIN, HID_GLOBAL, HID_LOCAL}" and "tag \<in> {0x80, 0x90, 0xA0, 0xC0, 0x00, 0x10, 0x20, 0x70}" and "k \<in> {1, 2, 3 :: u8}"
  shows "(tag OR type OR k) AND 3 = k" "(tag OR type OR k) AND 0x0C = type" "(tag OR type OR k) AND 0xF0 = tag"
  using assms by auto

lemma length_value_bytes [simp]: "length (value_bytes n v) = n"
  by (simp add: value_bytes_def)

lemma read_item:
  assumes "item_ok it"
  shows "read_items (item_bytes it @ bs) = map_option ((#) it) (read_items bs)"
proof -
  obtain type tag v where it: "it = (type, tag, v)" by (cases it)
  have ok: "type \<in> {HID_MAIN, HID_GLOBAL, HID_LOCAL}" "tag \<in> {0x80, 0x90, 0xA0, 0xC0, 0x00, 0x10, 0x20, 0x70}"
    "tag = END_COLLECTION_TAG \<and> type = HID_MAIN \<longrightarrow> v = 0"
    using assms unfolding it item_ok_def by auto
  show ?thesis
  proof (cases "tag = END_COLLECTION_TAG \<and> type = HID_MAIN")
    case True
    then show ?thesis using ok(3) by (simp add: it item_bytes_def item_size_def le_value_def)
  next
    case False
    note f1 = prefix_fields [OF ok(1,2), of 1] and f2 = prefix_fields [OF ok(1,2), of 2] and f3 = prefix_fields [OF ok(1,2), of 3]
    have n: "item_size (tag OR type OR 1) = 1" "item_size (tag OR type OR 2) = 2" "item_size (tag OR type OR 3) = 4"
      using f1(1) f2(1) f3(1) by (simp_all add: item_size_def)
    consider "v \<le> 0xFF" | "\<not> v \<le> 0xFF" "v \<le> 0xFFFF" | "\<not> v \<le> 0xFF" "\<not> v \<le> 0xFFFF" by blast
    then show ?thesis
    proof cases
      case 1
      have "item_bytes it = (tag OR type OR 1) # value_bytes 1 v" using False 1 by (simp add: it item_bytes_def del: One_nat_def)
      then show ?thesis using f1(2,3) n(1) le_value_bytes(1) [OF 1] by (simp add: it del: One_nat_def)
    next
      case 2
      have "item_bytes it = (tag OR type OR 2) # value_bytes 2 v" using False 2 by (simp add: it item_bytes_def)
      then show ?thesis using f2(2,3) n(2) le_value_bytes(2) [OF 2(2)] by (simp add: it)
    next
      case 3
      have "item_bytes it = (tag OR type OR 3) # value_bytes 4 v" using False 3 by (simp add: it item_bytes_def)
      then show ?thesis using f3(2,3) n(3) le_value_bytes(3) by (simp add: it)
    qed
  qed
qed

text \<open>The generated descriptor describes exactly the items it was generated from.\<close>

lemma report_descriptor_roundtrip:
  "list_all item_ok items \<Longrightarrow> read_items (generate_report_descriptor items) = Some items"
  by (induction items) (simp_all add: generate_report_descriptor_def read_item)

lemma keyboard_descriptor: "read_items (generate_report_descriptor keyboard_items) = Some keyboard_items"
  by (rule report_descriptor_roundtrip) (simp add: keyboard_items_def item_ok_def)

end
