(* ===== verification/Vm.thy ===== *)
theory Vm
  imports Opcodes Ieee Mmu Plic Uart Clint Syscon Virtio I2c
begin

unbundle bit_operations_syntax

text \<open>
  The state of the virtual machine that an instruction handler reaches through its hart, and the
  memory-mapped I/O layer, src/mmio.cpp and include/device.hpp: dispatch of guest loads and stores
  to RAM or to a device, after translation, with the page-crossing case. A handler names its hart by
  its index in the list of harts. Two members of the C++ objects are not kept: \<open>direct_ram\<close>, a
  cached copy of the pointer to the RAM array, and the output stream of the devices. The rounding
  direction of the host, which \<open>std::fesetround\<close> sets, is part of the state: one thread runs all harts.
\<close>

section \<open>Devices and machine state\<close>

text \<open>
  The dynamic class of an entry of \<open>MMIO::devs\<close>; \<open>Dev_base\<close> is the class \<open>Device\<close> itself, whose
  registers read as zero and ignore writes. Of the virtio devices there can be several.
\<close>

datatype device_kind = Dev_plic | Dev_uart | Dev_clint | Dev_syscon | Dev_i2c | Dev_blk nat | Dev_rng nat | Dev_base

record device =
  dev_start :: u64
  dev_size :: u64
  dev_kind :: device_kind

record vm =
  harts :: "hart list"
  mmap :: memory_map
  smcs :: smc
  idec :: "handler decoder"
  devs :: "device list"
  plic_d :: plic
  uart_d :: uart
  clint_d :: clint
  syscon_d :: syscon
  i2c_d :: i2c
  blk_ds :: "virtio_blk list"
  rng_ds :: "virtio_rng list"
  mstate :: machine_state
  clock_ns :: u64
  mmio_memsize :: u64
  host_rm :: host_round

abbreviation hart_of :: "nat \<Rightarrow> vm \<Rightarrow> hart" where
  "hart_of n v \<equiv> harts v ! n"

definition upd_hart :: "nat \<Rightarrow> (hart \<Rightarrow> hart) \<Rightarrow> vm \<Rightarrow> vm" where
  "upd_hart n f v = v\<lparr>harts := (harts v)[n := f (harts v ! n)]\<rparr>"

text \<open>What a virtio device works on besides its own state.\<close>

definition board_of :: "vm \<Rightarrow> board" where
  "board_of v = \<lparr>b_mem = mmap v, b_plic = plic_d v, b_harts = harts v\<rparr>"

definition put_board :: "board \<Rightarrow> vm \<Rightarrow> vm" where
  "put_board b v = v\<lparr>mmap := b_mem b, plic_d := b_plic b, harts := b_harts b\<rparr>"

definition ended :: "'a result option \<Rightarrow> 'a result" where
  "ended r = (case r of None \<Rightarrow> Inl Endless_loop | Some x \<Rightarrow> x)"

text \<open>The virtual calls \<open>dev->read\<close> and \<open>dev->write\<close>.\<close>

definition dev_read :: "device \<Rightarrow> u64 \<Rightarrow> memory_size \<Rightarrow> vm \<Rightarrow> (u64 \<times> vm) result" where
  "dev_read d addr sz v =
     (case dev_kind d of
        Dev_plic \<Rightarrow> and_then (plic_read addr sz (plic_d v) (harts v))
          (\<lambda>(x, p, hs). Inr (x, v\<lparr>plic_d := p, harts := hs\<rparr>))
      | Dev_uart \<Rightarrow> and_then (uart_read addr sz (uart_d v) (plic_d v) (harts v))
          (\<lambda>(x, u, p, hs). Inr (x, v\<lparr>uart_d := u, plic_d := p, harts := hs\<rparr>))
      | Dev_clint \<Rightarrow> and_then (clint_read (clock_ns v) addr sz (clint_d v)) (\<lambda>x. Inr (x, v))
      | Dev_syscon \<Rightarrow> Inr (syscon_read addr sz (syscon_d v), v)
      | Dev_i2c \<Rightarrow> Inr (i2c_read addr (i2c_d v), v)
      | Dev_blk k \<Rightarrow> and_then (vec_at (blk_ds v) k) (\<lambda>d. Inr (blk_read addr d, v))
      | Dev_rng k \<Rightarrow> and_then (vec_at (rng_ds v) k) (\<lambda>d. Inr (rng_read addr d, v))
      | Dev_base \<Rightarrow> Inr (0, v))"

definition dev_write :: "device \<Rightarrow> u64 \<Rightarrow> memory_size \<Rightarrow> u64 \<Rightarrow> vm \<Rightarrow> vm result" where
  "dev_write d addr sz x v =
     (case dev_kind d of
        Dev_plic \<Rightarrow> and_then (plic_write addr sz x (plic_d v) (harts v))
          (\<lambda>(p, hs). Inr (v\<lparr>plic_d := p, harts := hs\<rparr>))
      | Dev_uart \<Rightarrow> and_then (uart_write addr sz x (uart_d v) (plic_d v) (harts v))
          (\<lambda>(u, p, hs). Inr (v\<lparr>uart_d := u, plic_d := p, harts := hs\<rparr>))
      | Dev_clint \<Rightarrow> and_then (clint_write (clock_ns v) addr sz x (clint_d v) (harts v))
          (\<lambda>(c, hs). Inr (v\<lparr>clint_d := c, harts := hs\<rparr>))
      | Dev_syscon \<Rightarrow> and_then (syscon_write addr sz x (syscon_d v) (mstate v))
          (\<lambda>st. Inr (v\<lparr>mstate := st\<rparr>))
      | Dev_i2c \<Rightarrow> and_then (i2c_write addr x (i2c_d v) (plic_d v, harts v))
          (\<lambda>(s, p, hs). Inr (v\<lparr>i2c_d := s, plic_d := p, harts := hs\<rparr>))
      | Dev_blk k \<Rightarrow> and_then (vec_at (blk_ds v) k) (\<lambda>d.
          and_then (ended (blk_write addr x (d, board_of v))) (\<lambda>(d, b). Inr (put_board b (v\<lparr>blk_ds := (blk_ds v)[k := d]\<rparr>))))
      | Dev_rng k \<Rightarrow> and_then (vec_at (rng_ds v) k) (\<lambda>d.
          and_then (ended (rng_write addr x (d, board_of v))) (\<lambda>(d, b). Inr (put_board b (v\<lparr>rng_ds := (rng_ds v)[k := d]\<rparr>))))
      | Dev_base \<Rightarrow> Inr v)"

section \<open>RAM\<close>

text \<open>
  The fast path: a size that is not 1, 2, 4 or 8 reads zero and writes nothing (but the store is
  reported to the self-modifying-code tracker).
\<close>

definition plain_size :: "memory_size \<Rightarrow> bool" where
  "plain_size sz \<longleftrightarrow> sz = MS_Byte \<or> sz = MS_Short \<or> sz = MS_Int \<or> sz = MS_Long"

definition read_dram_fast :: "u64 \<Rightarrow> memory_size \<Rightarrow> memory_map \<Rightarrow> u64 result" where
  "read_dram_fast paddr sz m =
     (case ram_direct m of
        None \<Rightarrow> Inl Null_pointer
      | Some i \<Rightarrow>
          let off = paddr - 0x80000000 in
          if \<not> plain_size sz then Inr 0
          else if array_ok (regions m ! i) off sz then Inr (load_bytes (rdata (regions m ! i)) off sz)
          else Inl Vector_index)"

definition write_dram_fast :: "u64 \<Rightarrow> memory_size \<Rightarrow> u64 \<Rightarrow> vm \<Rightarrow> vm result" where
  "write_dram_fast paddr sz x v =
     (case ram_direct (mmap v) of
        None \<Rightarrow> Inl Null_pointer
      | Some i \<Rightarrow>
          let v = v\<lparr>smcs := smc_store_hit paddr (smcs v)\<rparr>;
              off = paddr - 0x80000000
          in if \<not> plain_size sz then Inr v
             else if array_ok (regions (mmap v) ! i) off sz
               then Inr (v\<lparr>mmap := region_store i off sz x (mmap v)\<rparr>)
             else Inl Vector_index)"

definition in_dram :: "u64 \<Rightarrow> u64 \<Rightarrow> vm \<Rightarrow> bool" where
  "in_dram paddr access_size v \<longleftrightarrow>
     0x80000000 \<le> paddr \<and> paddr \<le> (0x80000000 + mmio_memsize v) - access_size"

definition find_dev :: "u64 \<Rightarrow> u64 \<Rightarrow> vm \<Rightarrow> device option" where
  "find_dev paddr access_size v =
     find (\<lambda>d. dev_start d \<le> paddr \<and> paddr \<le> dev_start d + dev_size d - access_size) (devs v)"

section \<open>Loads and stores\<close>

text \<open>\<open>h.get_mmu().translate(&h, type, va, &paddr)\<close>\<close>

definition mmu_translate :: "nat \<Rightarrow> access_type \<Rightarrow> u64 \<Rightarrow> vm \<Rightarrow> (memory_return \<times> u64 \<times> vm) result" where
  "mmu_translate n type va v =
     and_then (translate type va (smcs v) (hart_of n v) (mmap v)) (\<lambda>(r, pa, h, m).
       Inr (r, pa, v\<lparr>harts := (harts v)[n := h], mmap := m\<rparr>))"

text \<open>One physical fragment; \<open>None\<close> is the case that neither RAM nor a device answers.\<close>

definition put_fragment :: "nat \<Rightarrow> u64 \<Rightarrow> memory_size \<Rightarrow> u64 \<Rightarrow> vm \<Rightarrow> vm option result" where
  "put_fragment n paddr sz x v =
     (if in_dram paddr (of_nat sz) v then
        and_then (write_dram_fast paddr sz x (upd_hart n (amo_check_reservation paddr) v)) (\<lambda>v. Inr (Some v))
      else case find_dev paddr (of_nat sz) v of
             Some d \<Rightarrow> and_then (dev_write d paddr sz x (upd_hart n (amo_check_reservation paddr) v))
                         (\<lambda>v. Inr (Some v))
           | None \<Rightarrow> Inr None)"

definition get_fragment :: "u64 \<Rightarrow> memory_size \<Rightarrow> vm \<Rightarrow> (u64 \<times> vm) option result" where
  "get_fragment paddr sz v =
     (if in_dram paddr (of_nat sz) v then
        and_then (read_dram_fast paddr sz (mmap v)) (\<lambda>x. Inr (Some (x, v)))
      else case find_dev paddr (of_nat sz) v of
             Some d \<Rightarrow> and_then (dev_read d paddr sz v) (\<lambda>r. Inr (Some r))
           | None \<Rightarrow> Inr None)"

definition crosses_page :: "hart \<Rightarrow> u64 \<Rightarrow> memory_size \<Rightarrow> bool \<Rightarrow> bool" where
  "crosses_page h addr sz isphys \<longleftrightarrow>
     (\<not> isphys \<and> satp_mode (satp h) \<noteq> 0) \<and> 0x1000 < (addr AND 0xFFF) + of_nat sz"

definition mmio_write :: "nat \<Rightarrow> u64 \<Rightarrow> memory_size \<Rightarrow> u64 \<Rightarrow> bool \<Rightarrow> vm \<Rightarrow> (memory_return \<times> vm) result" where
  "mmio_write n addr sz val isphys v =
     (if \<not> crosses_page (hart_of n v) addr sz isphys then
        and_then (if isphys then Inr (MR True 0 0, addr, v) else mmu_translate n STORE addr v) (\<lambda>(res, paddr, v).
        if \<not> mem_success res then Inr (res, v)
        else and_then (put_fragment n paddr sz val v) (\<lambda>w.
          case w of Some v' \<Rightarrow> Inr (MR True 0 0, v')
                  | None \<Rightarrow> Inr (MR False EXC_STORE_ACCESS_FAULT addr, v)))
      else
        let first_size = 0x1000 - (addr AND 0xFFF);
            second_size = of_nat sz - first_size
        in and_then (mmu_translate n STORE addr v) (\<lambda>(first_res, first_paddr, v).
        if \<not> mem_success first_res then Inr (first_res, v)
        else and_then (mmu_translate n STORE (addr + first_size) v) (\<lambda>(second_res, second_paddr, v).
        if \<not> mem_success second_res then Inr (second_res, v)
        else
          let first_val = val AND (push_bit (unat (first_size * 8)) 1 - 1);
              second_val = drop_bit (unat (first_size * 8)) val
          in and_then (put_fragment n first_paddr (unat first_size) first_val v) (\<lambda>w.
          case w of
            None \<Rightarrow> Inr (MR False EXC_STORE_ACCESS_FAULT addr, v)
          | Some v \<Rightarrow> and_then (put_fragment n second_paddr (unat second_size) second_val v) (\<lambda>w.
              case w of
                None \<Rightarrow> Inr (MR False EXC_STORE_ACCESS_FAULT (addr + first_size), v)
              | Some v \<Rightarrow> Inr (MR True 0 0, v))))))"

text \<open>
  The value is stored through a pointer of the type of the access size, so its low bytes count; it
  is meaningful when the result is a success.
\<close>

definition mmio_read :: "nat \<Rightarrow> u64 \<Rightarrow> memory_size \<Rightarrow> bool \<Rightarrow> vm \<Rightarrow> (memory_return \<times> u64 \<times> vm) result" where
  "mmio_read n addr sz isphys v =
     (if \<not> crosses_page (hart_of n v) addr sz isphys then
        and_then (if isphys then Inr (MR True 0 0, addr, v) else mmu_translate n LOAD addr v) (\<lambda>(res, paddr, v).
        if \<not> mem_success res then Inr (res, 0, v)
        else and_then (get_fragment paddr sz v) (\<lambda>r.
          case r of
            None \<Rightarrow> Inr (MR False EXC_LOAD_ACCESS_FAULT addr, 0, v)
          | Some (out, v) \<Rightarrow> Inr (MR True 0 0, take_bit (8 * sz) out, v)))
      else
        let first_size = 0x1000 - (addr AND 0xFFF);
            second_size = of_nat sz - first_size
        in and_then (mmu_translate n LOAD addr v) (\<lambda>(first_res, first_paddr, v).
        if \<not> mem_success first_res then Inr (first_res, 0, v)
        else and_then (mmu_translate n LOAD (addr + first_size) v) (\<lambda>(second_res, second_paddr, v).
        if \<not> mem_success second_res then Inr (second_res, 0, v)
        else and_then (get_fragment first_paddr (unat first_size) v) (\<lambda>r.
          case r of
            None \<Rightarrow> Inr (MR False EXC_LOAD_ACCESS_FAULT addr, 0, v)
          | Some (first_out, v) \<Rightarrow> and_then (get_fragment second_paddr (unat second_size) v) (\<lambda>r.
              case r of
                None \<Rightarrow> Inr (MR False EXC_LOAD_ACCESS_FAULT (addr + first_size), 0, v)
              | Some (second_out, v) \<Rightarrow>
                  Inr (MR True 0 0,
                       take_bit (8 * sz) (first_out OR push_bit (unat (first_size * 8)) second_out), v))))))"

end
