(* ===== verification/Bus.thy ===== *)
theory Bus
  imports Vm
begin

unbundle bit_operations_syntax

text \<open>
  Properties of the memory-mapped I/O layer: guest RAM behind the bus is a byte store, accesses that
  nobody answers fault without a side effect on memory or devices, and what happens to accesses that
  cross a page.
\<close>

section \<open>RAM behind the bus\<close>

text \<open>The RAM array is where \<open>Machine::init_mmap\<close> puts it, and has the size the bus was given.\<close>

definition ram_ok :: "vm \<Rightarrow> bool" where
  "ram_ok v \<longleftrightarrow>
     (case ram_direct (mmap v) of
        None \<Rightarrow> False
      | Some i \<Rightarrow> i < length (regions (mmap v)) \<and> base_addr (regions (mmap v) ! i) = 0x80000000 \<and>
                 rsize (regions (mmap v) ! i) = mmio_memsize v \<and> mmio_memsize v \<le> 0x7FFFFFFF00000000)"

text \<open>Hart \<open>n\<close> runs with address translation off.\<close>

definition bare :: "nat \<Rightarrow> vm \<Rightarrow> bool" where
  "bare n v \<longleftrightarrow> n < length (harts v) \<and> satp_mode (satp (hart_of n v)) = 0"

definition bus_inside :: "nat \<Rightarrow> vm \<Rightarrow> u64 \<Rightarrow> nat \<Rightarrow> bool" where
  "bus_inside n v a k \<longleftrightarrow> bare n v \<and> ram_ok v \<and> k \<in> {1, 2, 4, 8} \<and>
     0x80000000 \<le> a \<and> unat a + k \<le> 0x80000000 + unat (mmio_memsize v)"

text \<open>The bus as one hart sees it; a guest fault counts as a failed access.\<close>

definition bus_rd :: "nat \<Rightarrow> u64 \<Rightarrow> nat \<Rightarrow> vm \<Rightarrow> u64 result" where
  "bus_rd n a k v = and_then (mmio_read n a k False v) (\<lambda>(r, x, v').
     if mem_success r then Inr x else Inl Out_of_range)"

definition bus_wr :: "nat \<Rightarrow> u64 \<Rightarrow> nat \<Rightarrow> u64 \<Rightarrow> vm \<Rightarrow> vm result" where
  "bus_wr n a k x v = and_then (mmio_write n a k x False v) (\<lambda>(r, v').
     if mem_success r then Inr v' else Inl Out_of_range)"

lemma ram_okE:
  assumes "ram_ok v"
  obtains i where "ram_direct (mmap v) = Some i" "i < length (regions (mmap v))"
    "base_addr (regions (mmap v) ! i) = 0x80000000" "rsize (regions (mmap v) ! i) = mmio_memsize v"
    "mmio_memsize v \<le> 0x7FFFFFFF00000000"
  using assms by (auto simp: ram_ok_def split: option.splits)

lemma translate_bare:
  assumes "satp_mode (satp h) = 0"
  shows "\<exists>t. translate type va s h m = Inr (MR True 0 0, va, h\<lparr>htlb := t\<rparr>, m)"
  unfolding translate_def Let_def using assms by (auto split del: if_split intro!: exI)

lemma mmu_translate_bare:
  assumes "bare n v"
  shows "\<exists>t. mmu_translate n type va v =
    Inr (MR True 0 0, va, v\<lparr>harts := (harts v)[n := (hart_of n v)\<lparr>htlb := t\<rparr>]\<rparr>)"
proof -
  obtain t where "translate type va (smcs v) (hart_of n v) (mmap v) = Inr (MR True 0 0, va, (hart_of n v)\<lparr>htlb := t\<rparr>, mmap v)"
    using assms translate_bare unfolding bare_def by blast
  then show ?thesis by (auto simp: mmu_translate_def)
qed

lemma bus_inside_in_dram:
  assumes "bus_inside n v a k"
  shows "in_dram a (of_nat k) v"
    and "unat (a - 0x80000000) + k \<le> unat (mmio_memsize v)"
proof -
  have k: "k \<le> 8" and ms: "unat (mmio_memsize v) \<le> 0x7FFFFFFF00000000"
    using assms by (auto simp: bus_inside_def word_le_nat_alt elim: ram_okE)
  have a: "0x80000000 \<le> unat a" "unat a + k \<le> 0x80000000 + unat (mmio_memsize v)"
    using assms by (auto simp: bus_inside_def word_le_nat_alt)
  have e: "unat (0x80000000 + mmio_memsize v) = 0x80000000 + unat (mmio_memsize v)"
    using ms by (subst unat_add_lem [THEN iffD1]) auto
  have u: "unat (of_nat k :: u64) = k" using k by (simp add: unat_of_nat_64)
  have "unat (0x80000000 + mmio_memsize v - of_nat k) = 0x80000000 + unat (mmio_memsize v) - k"
    using a k e u by (subst unat_sub) (auto simp: word_le_nat_alt)
  then show "in_dram a (of_nat k) v" using a by (simp add: in_dram_def word_le_nat_alt)
  show "unat (a - 0x80000000) + k \<le> unat (mmio_memsize v)"
    using a by (subst unat_sub) (auto simp: word_le_nat_alt)
qed

lemma no_cross_bare: "bare n v \<Longrightarrow> \<not> crosses_page (hart_of n v) a k isphys"
  by (simp add: bare_def crosses_page_def)

lemma bus_rd_ram:
  assumes "bus_inside n v a k" and "ram_direct (mmap v) = Some i"
  shows "bus_rd n a k v = Inr (load_bytes (rdata (regions (mmap v) ! i)) (a - 0x80000000) k)"
proof -
  have b: "bare n v" and pl: "plain_size k" and r: "rsize (regions (mmap v) ! i) = mmio_memsize v"
    using assms by (auto simp: bus_inside_def plain_size_def ram_ok_def)
  obtain t where t: "mmu_translate n LOAD a v =
      Inr (MR True 0 0, a, v\<lparr>harts := (harts v)[n := (hart_of n v)\<lparr>htlb := t\<rparr>]\<rparr>)"
    using mmu_translate_bare [OF b] by blast
  have "take_bit (8 * k) (load_bytes p (a - 0x80000000) k) = load_bytes p (a - 0x80000000) k" for p
    by (rule bit_word_eqI) (auto simp: bit_take_bit_iff bit_load_bytes)
  then show ?thesis
    using bus_inside_in_dram [OF assms(1)] no_cross_bare [OF b] assms(2) pl r t
    by (simp add: bus_rd_def mmio_read_def get_fragment_def in_dram_def read_dram_fast_def array_ok_def)
qed

lemma bus_wr_ram:
  assumes "bus_inside n v a k" and "ram_direct (mmap v) = Some i"
  shows "\<exists>v'. bus_wr n a k x v = Inr v' \<and> mmap v' = region_store i (a - 0x80000000) k x (mmap v) \<and>
    mmio_memsize v' = mmio_memsize v \<and> length (harts v') = length (harts v) \<and>
    (\<forall>j. satp (hart_of j v') = satp (hart_of j v)) \<and> devs v' = devs v"
proof -
  have b: "bare n v" and pl: "plain_size k" and r: "rsize (regions (mmap v) ! i) = mmio_memsize v"
    using assms by (auto simp: bus_inside_def plain_size_def ram_ok_def)
  obtain t where t: "mmu_translate n STORE a v =
      Inr (MR True 0 0, a, v\<lparr>harts := (harts v)[n := (hart_of n v)\<lparr>htlb := t\<rparr>]\<rparr>)"
    using mmu_translate_bare [OF b] by blast
  have n: "n < length (harts v)" using b by (simp add: bare_def)
  have "satp (amo_check_reservation a h) = satp h" for h
    by (simp add: amo_check_reservation_def Let_def)
  then have "\<forall>j. satp ((harts v)[n := amo_check_reservation a ((hart_of n v)\<lparr>htlb := t\<rparr>)] ! j) = satp (hart_of j v)"
    using n by (auto simp: nth_list_update)
  then show ?thesis
    using bus_inside_in_dram [OF assms(1)] no_cross_bare [OF b] assms(2) pl r t n
    by (simp add: bus_wr_def mmio_write_def put_fragment_def in_dram_def write_dram_fast_def array_ok_def
        upd_hart_def)
qed

interpretation bus: byte_store "bus_inside n" "bus_rd n" "bus_wr n" for n
proof
  fix v v' :: vm and a b x :: u64 and k l :: nat
  assume ia: "bus_inside n v a k"
  then obtain i where i: "ram_direct (mmap v) = Some i" "i < length (regions (mmap v))"
    "base_addr (regions (mmap v) ! i) = 0x80000000" "rsize (regions (mmap v) ! i) = mmio_memsize v"
    by (auto simp: bus_inside_def elim: ram_okE)
  obtain w where w: "bus_wr n a k x v = Inr w" "mmap w = region_store i (a - 0x80000000) k x (mmap v)"
      "mmio_memsize w = mmio_memsize v" "length (harts w) = length (harts v)"
      "\<forall>j. satp (hart_of j w) = satp (hart_of j v)"
    using bus_wr_ram [OF ia i(1)] by blast
  show "\<exists>x. bus_rd n a k v = Inr x" using bus_rd_ram [OF ia i(1)] by blast
  show "\<exists>v'. bus_wr n a k x v = Inr v'" using w by blast
  assume v': "bus_wr n a k x v = Inr v'"
  then have [simp]: "v' = w" using w by simp
  have ram': "ram_direct (mmap w) = Some i" using i w by (simp add: region_store_def)
  show ins: "bus_inside n v' b l = bus_inside n v b l" for b l
    using i w ram' same_shape [OF i(2), where off = "a - 0x80000000" and n = k and v = x]
    by (auto simp: bus_inside_def bare_def ram_ok_def)
  have "k \<le> 8" using ia by (auto simp: bus_inside_def)
  then show "bus_rd n a k v' = Inr (x AND mask (8 * k))"
    using bus_rd_ram [of _ w a k i] ia ins ram' i w by (simp add: region_store_def load_store_same)
  assume ib: "bus_inside n v b l" and ap: "apart a k b l"
  have "load_bytes (store_bytes p (a - 0x80000000) k x) (b - 0x80000000) l = load_bytes p (b - 0x80000000) l" for p
    using ap apart_diff [where a = a and b = b and c = "0x80000000" and n = k and k = l]
    by (intro load_bytes_cong store_bytes_outside) (metis apart_def)
  then show "bus_rd n b l v' = bus_rd n b l v"
    using bus_rd_ram [of _ w b l i] bus_rd_ram [OF ib i(1)] ib ins ram' i w by (simp add: region_store_def)
qed

section \<open>Properties\<close>

primrec bus_run :: "nat \<Rightarrow> (u64 \<times> nat \<times> u64) list \<Rightarrow> vm \<Rightarrow> vm result" where
  "bus_run n [] v = Inr v"
| "bus_run n (w # ws) v = (case w of (a, k, x) \<Rightarrow> and_then (bus_wr n a k x v) (bus_run n ws))"

lemma bus_run_wr_all: "bus_run n ws v = bus.wr_all n ws v"
proof (induction ws arbitrary: v)
  case (Cons w ws)
  then have "bus_run n ws = bus.wr_all n ws" by (rule ext)
  then show ?case by (cases w) simp
qed simp


definition sample_vm :: "privilege_mode \<Rightarrow> satp_t \<Rightarrow> vm" where
  "sample_vm md s =
     \<lparr>harts = [(new_hart 0 0x4000)\<lparr>mode := md, satp := s\<rparr>], mmap = sample_ram, smcs = smc_init,
      idec = new_decoder, devs = [], plic_d = plic_init_auto 1,
      uart_d = fst (uart_init_auto (plic_init_auto 1)), clint_d = fst (clint_init_auto 0 1 []),
      syscon_d = syscon_init_auto, i2c_d = fst (new_i2c 0x10030000 (plic_init_auto 1)), blk_ds = [], rng_ds = [], mstate = Running, clock_ns = 0, mmio_memsize = 0x4000,
      host_rm = FE_TONEAREST\<rparr>"

lemma sample_vm_simps [simp]:
  "harts (sample_vm md s) = [(new_hart 0 0x4000)\<lparr>mode := md, satp := s\<rparr>]"
  "mmap (sample_vm md s) = sample_ram" "mmio_memsize (sample_vm md s) = 0x4000"
  "devs (sample_vm md s) = []"
  by (simp_all add: sample_vm_def)

lemma sample_vm_ram: "ram_ok (sample_vm md s)"
  by (simp add: ram_ok_def sample_ram_def)




lemma mmu_translate_machine:
  assumes "n < length (harts v)" "mode (hart_of n v) = Machine" "st_MPRV (status (hart_of n v)) = 0"
  shows "\<exists>t. mmu_translate n type va v =
    Inr (MR True 0 0, va, v\<lparr>harts := (harts v)[n := (hart_of n v)\<lparr>htlb := t\<rparr>]\<rparr>)"
proof -
  have "get_effective_mode type (hart_of n v) = Machine" using assms by (simp add: get_effective_mode_def)
  then show ?thesis by (auto simp: mmu_translate_def translate_def Let_def split del: if_split intro!: exI)
qed

lemma put_fragment_odd:
  assumes "in_dram a (of_nat k) v" "\<not> plain_size k" "ram_direct (mmap v) = Some i"
  shows "put_fragment n a k x v = Inr (Some ((upd_hart n (amo_check_reservation a) v)
    \<lparr>smcs := smc_store_hit a (smcs v)\<rparr>))"
  using assms by (simp add: put_fragment_def write_dram_fast_def upd_hart_def)

text \<open>
  A page-crossing store can lose its data: with a translation mode set in \<open>satp\<close>, an eight-byte
  store whose first page holds three of the bytes is split into fragments of three and five bytes,
  sizes the RAM fast path has no case for. The store reports success and memory is unchanged.
\<close>

theorem cross_page_store_lost:
  assumes "n < length (harts v)" and "mode (hart_of n v) = Machine" and "st_MPRV (status (hart_of n v)) = 0"
    and "satp_mode (satp (hart_of n v)) \<noteq> 0" and "a AND 0xFFF = 0xFFD"
    and "in_dram a 3 v" and "in_dram (a + 3) 5 v" and "ram_direct (mmap v) = Some i"
  shows "\<exists>v'. mmio_write n a 8 x False v = Inr (MR True 0 0, v') \<and> mmap v' = mmap v"
proof -
  let ?w = "\<lambda>v t. v\<lparr>harts := (harts v)[n := (hart_of n v)\<lparr>htlb := t\<rparr>]\<rparr>"
  obtain t where t: "mmu_translate n STORE a v = Inr (MR True 0 0, a, ?w v t)"
    using mmu_translate_machine [OF assms(1-3)] by blast
  obtain u where u: "mmu_translate n STORE (a + 3) (?w v t) = Inr (MR True 0 0, a + 3, ?w (?w v t) u)"
    using mmu_translate_machine [of n "?w v t"] assms(1-3) by fastforce
  have dram: "in_dram b c (v\<lparr>harts := hs\<rparr>) = in_dram b c v" "in_dram b c (v\<lparr>harts := hs, smcs := s\<rparr>) = in_dram b c v"
    for b c hs s by (simp_all add: in_dram_def)
  have c: "crosses_page (hart_of n v) a 8 False" using assms(4,5) by (simp add: crosses_page_def)
  show ?thesis
    using assms t u c put_fragment_odd [where k = 3 and a = a and i = i]
      put_fragment_odd [where k = 5 and a = "a + 3" and i = i]
    by (simp add: mmio_write_def Let_def plain_size_def upd_hart_def dram)
qed

theorem cross_page_store_lost_witness:
  "\<exists>v'. mmio_write 0 0x80001FFD 8 0x1122334455667788 False (sample_vm Machine 0x8000000000080001) = Inr (MR True 0 0, v') \<and>
     mmap v' = sample_ram"
  using cross_page_store_lost [of 0 "sample_vm Machine 0x8000000000080001" "0x80001FFD" 0 "0x1122334455667788"]
  by (simp add: new_hart_def bf_get_def in_dram_def sample_ram_def mask_eq_exp_minus_1)

end
