(* ===== verification/Rv64i.thy ===== *)
theory Rv64i
  imports Vm
begin

unbundle bit_operations_syntax

text \<open>
  The base instruction set, src/sets/rv64i.cpp: one definition per handler. A handler that works on
  the registers of its hart alone maps the hart to its \<open>ExecReturn\<close> and the new hart; a handler that
  reaches memory works on the machine and names its hart by index. The second half of the theory
  states the arithmetic of the RISC-V manual and the frame of the handlers.
\<close>

section \<open>Shapes of handlers\<close>

type_synonym reg_handler = "instruction_data \<Rightarrow> hart \<Rightarrow> exec_return \<times> hart"
type_synonym vm_handler = "nat \<Rightarrow> instruction_data \<Rightarrow> vm \<Rightarrow> (exec_return \<times> vm) result"

text \<open>\<open>hart.GPR[inst.rd] = x; return { true, false, 4, 0, 0 };\<close>\<close>

definition wr_rd :: "instruction_data \<Rightarrow> u64 \<Rightarrow> hart \<Rightarrow> exec_return \<times> hart" where
  "wr_rd i x h = (ER True False 4 0 0, set_reg (rd i) x h)"

abbreviation r1 :: "instruction_data \<Rightarrow> hart \<Rightarrow> u64" where "r1 i h \<equiv> GPR h (rs1 i)"
abbreviation r2 :: "instruction_data \<Rightarrow> hart \<Rightarrow> u64" where "r2 i h \<equiv> GPR h (rs2 i)"
abbreviation w1 :: "instruction_data \<Rightarrow> hart \<Rightarrow> u32" where "w1 i h \<equiv> ucast (GPR h (rs1 i))"
abbreviation w2 :: "instruction_data \<Rightarrow> hart \<Rightarrow> u32" where "w2 i h \<equiv> ucast (GPR h (rs2 i))"

definition on_hart :: "reg_handler \<Rightarrow> vm_handler" where
  "on_hart f n i v = (case f i (hart_of n v) of (r, h) \<Rightarrow> Inr (r, v\<lparr>harts := (harts v)[n := h]\<rparr>))"

section \<open>Register-register instructions on words\<close>

definition exec_ADDW :: reg_handler where
  "exec_ADDW i h = wr_rd i (scast (w1 i h + w2 i h)) h"

definition exec_SUBW :: reg_handler where
  "exec_SUBW i h = wr_rd i (scast (w1 i h - w2 i h)) h"

definition exec_SLLW :: reg_handler where
  "exec_SLLW i h = wr_rd i (scast (push_bit (unat (w2 i h AND 0x1F)) (w1 i h))) h"

definition exec_SRLW :: reg_handler where
  "exec_SRLW i h = wr_rd i (scast (drop_bit (unat (w2 i h AND 0x1F)) (w1 i h))) h"

definition exec_SRAW :: reg_handler where
  "exec_SRAW i h = wr_rd i (scast (signed_drop_bit (unat (w2 i h AND 0x1F)) (w1 i h))) h"

section \<open>Immediate instructions on words\<close>

definition exec_ADDIW :: reg_handler where
  "exec_ADDIW i h = wr_rd i (sext32 (ucast (w1 i h) + imm i)) h"

definition exec_SLLIW :: reg_handler where
  "exec_SLLIW i h = wr_rd i (scast (push_bit (unat (imm i)) (w1 i h))) h"

definition exec_SRLIW :: reg_handler where
  "exec_SRLIW i h = wr_rd i (scast (drop_bit (unat (imm i)) (w1 i h))) h"

definition exec_SRAIW :: reg_handler where
  "exec_SRAIW i h = wr_rd i (scast (signed_drop_bit (unat (imm i)) (w1 i h))) h"

section \<open>Loads and stores\<close>

text \<open>
  The body the load handlers share: the access, the register on success, and the result. The
  function converts the value from the type of the local variable \<open>val\<close>.
\<close>

definition load_op :: "memory_size \<Rightarrow> (u64 \<Rightarrow> u64) \<Rightarrow> vm_handler" where
  "load_op sz conv n i v =
     (let addr = r1 i (hart_of n v) + imm i in
      and_then (mmio_read n addr sz False v) (\<lambda>(success, val, v).
        Inr (ER (mem_success success) False 4 (exc_code success) (mem_tval success),
             if mem_success success then upd_hart n (set_reg (rd i) (conv val)) v else v)))"

definition store_op :: "memory_size \<Rightarrow> vm_handler" where
  "store_op sz n i v =
     (let addr = r1 i (hart_of n v) + imm i in
      and_then (mmio_write n addr sz (r2 i (hart_of n v)) False v) (\<lambda>(out, v).
        Inr (ER (mem_success out) False 4 (exc_code out) (mem_tval out), v)))"

definition exec_LD :: vm_handler where "exec_LD = load_op MS_Long (\<lambda>x. x)"
definition exec_LWU :: vm_handler where "exec_LWU = load_op MS_Int zext32"
definition exec_SD :: vm_handler where "exec_SD = store_op MS_Long"

section \<open>Register-register instructions\<close>

definition exec_ADD :: reg_handler where
  "exec_ADD i h = wr_rd i (r1 i h + r2 i h) h"

definition exec_SUB :: reg_handler where
  "exec_SUB i h = wr_rd i (r1 i h - r2 i h) h"

definition exec_XOR :: reg_handler where
  "exec_XOR i h = wr_rd i (r1 i h XOR r2 i h) h"

definition exec_OR :: reg_handler where
  "exec_OR i h = wr_rd i (r1 i h OR r2 i h) h"

definition exec_AND :: reg_handler where
  "exec_AND i h = wr_rd i (r1 i h AND r2 i h) h"

definition exec_SLL :: reg_handler where
  "exec_SLL i h = wr_rd i (push_bit (unat (r2 i h AND 0x3f)) (r1 i h)) h"

definition exec_SRL :: reg_handler where
  "exec_SRL i h = wr_rd i (drop_bit (unat (r2 i h AND 0x3f)) (r1 i h)) h"

definition exec_SRA :: reg_handler where
  "exec_SRA i h = wr_rd i (signed_drop_bit (unat (r2 i h AND 0x3f)) (r1 i h)) h"

definition exec_SLT :: reg_handler where
  "exec_SLT i h = wr_rd i (if r1 i h <s r2 i h then 1 else 0) h"

definition exec_SLTU :: reg_handler where
  "exec_SLTU i h = wr_rd i (if r1 i h < r2 i h then 1 else 0) h"

section \<open>Immediate instructions\<close>

definition exec_ADDI :: reg_handler where
  "exec_ADDI i h = wr_rd i (r1 i h + imm i) h"

definition exec_XORI :: reg_handler where
  "exec_XORI i h = wr_rd i (r1 i h XOR imm i) h"

definition exec_ORI :: reg_handler where
  "exec_ORI i h = wr_rd i (r1 i h OR imm i) h"

definition exec_ANDI :: reg_handler where
  "exec_ANDI i h = wr_rd i (r1 i h AND imm i) h"

definition exec_SLLI :: reg_handler where
  "exec_SLLI i h = wr_rd i (push_bit (unat (imm i)) (r1 i h)) h"

definition exec_SRLI :: reg_handler where
  "exec_SRLI i h = wr_rd i (drop_bit (unat (imm i)) (r1 i h)) h"

definition exec_SRAI :: reg_handler where
  "exec_SRAI i h = wr_rd i (signed_drop_bit (unat (imm i)) (r1 i h)) h"

definition exec_SLTI :: reg_handler where
  "exec_SLTI i h = wr_rd i (if r1 i h <s imm i then 1 else 0) h"

definition exec_SLTIU :: reg_handler where
  "exec_SLTIU i h = wr_rd i (if r1 i h < imm i then 1 else 0) h"

definition exec_LB :: vm_handler where "exec_LB = load_op MS_Byte sext8"
definition exec_LH :: vm_handler where "exec_LH = load_op MS_Short sext16"
definition exec_LW :: vm_handler where "exec_LW = load_op MS_Int sext32"
definition exec_LBU :: vm_handler where "exec_LBU = load_op MS_Byte (\<lambda>x. ucast (ucast x :: u8))"
definition exec_LHU :: vm_handler where "exec_LHU = load_op MS_Short (\<lambda>x. ucast (ucast x :: u16))"
definition exec_SB :: vm_handler where "exec_SB = store_op MS_Byte"
definition exec_SH :: vm_handler where "exec_SH = store_op MS_Short"
definition exec_SW :: vm_handler where "exec_SW = store_op MS_Int"

section \<open>Branches and jumps\<close>

definition branch_op :: "(hart \<Rightarrow> bool) \<Rightarrow> reg_handler" where
  "branch_op cond i h =
     (if cond h then
        if (pc h + imm i) mod 2 \<noteq> 0 then (ER False False 0 EXC_INST_ADDR_MISALIGNED (pc h + imm i), h)
        else (ER True True 0 0 0, h\<lparr>pc := pc h + imm i\<rparr>)
      else (ER True False 4 0 0, h))"

definition exec_BEQ :: reg_handler where "exec_BEQ i = branch_op (\<lambda>h. r1 i h = r2 i h) i"
definition exec_BNE :: reg_handler where "exec_BNE i = branch_op (\<lambda>h. r1 i h \<noteq> r2 i h) i"
definition exec_BLT :: reg_handler where "exec_BLT i = branch_op (\<lambda>h. r1 i h <s r2 i h) i"
definition exec_BGE :: reg_handler where "exec_BGE i = branch_op (\<lambda>h. r2 i h \<le>s r1 i h) i"
definition exec_BLTU :: reg_handler where "exec_BLTU i = branch_op (\<lambda>h. r1 i h < r2 i h) i"
definition exec_BGEU :: reg_handler where "exec_BGEU i = branch_op (\<lambda>h. r2 i h \<le> r1 i h) i"

definition exec_JAL :: reg_handler where
  "exec_JAL i h =
     (let tmp = pc h in
      if (pc h + imm i) mod 2 \<noteq> 0 then (ER False True 0 EXC_INST_ADDR_MISALIGNED (pc h + imm i), h)
      else (ER True True 0 0 0, set_reg (rd i) (tmp + 4) (h\<lparr>pc := pc h + imm i\<rparr>)))"

definition exec_JALR :: reg_handler where
  "exec_JALR i h =
     (let tmp = pc h; target = (r1 i h + imm i) AND NOT 1 in
      if target mod 2 \<noteq> 0 then (ER False True 0 EXC_INST_ADDR_MISALIGNED target, h)
      else (ER True True 0 0 0, set_reg (rd i) (tmp + 4) (h\<lparr>pc := target\<rparr>)))"

section \<open>Upper immediates and system instructions\<close>

definition exec_LUI :: reg_handler where
  "exec_LUI i h = wr_rd i (imm i) h"

definition exec_AUIPC :: reg_handler where
  "exec_AUIPC i h = wr_rd i (pc h + imm i) h"

definition exec_ECALL :: reg_handler where
  "exec_ECALL i h =
     (case mode h of
        Machine \<Rightarrow> (ER False True 0 EXC_ENV_CALL_FROM_M 0, h)
      | Supervisor \<Rightarrow> (ER False True 0 EXC_ENV_CALL_FROM_S 0, h)
      | User \<Rightarrow> (ER False True 0 EXC_ENV_CALL_FROM_U 0, h)
      | Hypervisor \<Rightarrow> (ER True False 4 0 0, h))"

definition exec_EBREAK :: reg_handler where
  "exec_EBREAK i h = (ER False True 0 EXC_BREAKPOINT (pc h), h)"

definition exec_FENCE :: reg_handler where
  "exec_FENCE i h = (ER True False 4 0 0, h)"

section \<open>Dispatch\<close>

text \<open>The function each registered pointer names.\<close>

fun exec_i :: "op_i \<Rightarrow> vm_handler" where
  "exec_i H_ADD = on_hart exec_ADD"
| "exec_i H_ADDW = on_hart exec_ADDW"
| "exec_i H_SUB = on_hart exec_SUB"
| "exec_i H_SUBW = on_hart exec_SUBW"
| "exec_i H_XOR = on_hart exec_XOR"
| "exec_i H_OR = on_hart exec_OR"
| "exec_i H_AND = on_hart exec_AND"
| "exec_i H_SLL = on_hart exec_SLL"
| "exec_i H_SLLW = on_hart exec_SLLW"
| "exec_i H_SRL = on_hart exec_SRL"
| "exec_i H_SRLW = on_hart exec_SRLW"
| "exec_i H_SRA = on_hart exec_SRA"
| "exec_i H_SRAW = on_hart exec_SRAW"
| "exec_i H_SLT = on_hart exec_SLT"
| "exec_i H_SLTU = on_hart exec_SLTU"
| "exec_i H_ADDI = on_hart exec_ADDI"
| "exec_i H_ADDIW = on_hart exec_ADDIW"
| "exec_i H_XORI = on_hart exec_XORI"
| "exec_i H_ORI = on_hart exec_ORI"
| "exec_i H_ANDI = on_hart exec_ANDI"
| "exec_i H_SLLI = on_hart exec_SLLI"
| "exec_i H_SLLIW = on_hart exec_SLLIW"
| "exec_i H_SRLIW = on_hart exec_SRLIW"
| "exec_i H_SRAIW = on_hart exec_SRAIW"
| "exec_i H_SRLI = on_hart exec_SRLI"
| "exec_i H_SRAI = on_hart exec_SRAI"
| "exec_i H_SLTI = on_hart exec_SLTI"
| "exec_i H_SLTIU = on_hart exec_SLTIU"
| "exec_i H_LB = exec_LB"
| "exec_i H_LH = exec_LH"
| "exec_i H_LW = exec_LW"
| "exec_i H_LD = exec_LD"
| "exec_i H_LBU = exec_LBU"
| "exec_i H_LHU = exec_LHU"
| "exec_i H_LWU = exec_LWU"
| "exec_i H_SB = exec_SB"
| "exec_i H_SH = exec_SH"
| "exec_i H_SW = exec_SW"
| "exec_i H_SD = exec_SD"
| "exec_i H_BEQ = on_hart exec_BEQ"
| "exec_i H_BNE = on_hart exec_BNE"
| "exec_i H_BLT = on_hart exec_BLT"
| "exec_i H_BGE = on_hart exec_BGE"
| "exec_i H_BLTU = on_hart exec_BLTU"
| "exec_i H_BGEU = on_hart exec_BGEU"
| "exec_i H_JAL = on_hart exec_JAL"
| "exec_i H_JALR = on_hart exec_JALR"
| "exec_i H_LUI = on_hart exec_LUI"
| "exec_i H_AUIPC = on_hart exec_AUIPC"
| "exec_i H_ECALL = on_hart exec_ECALL"
| "exec_i H_EBREAK = on_hart exec_EBREAK"
| "exec_i H_FENCE = on_hart exec_FENCE"

end
