(* ===== verification/Rv64c.thy ===== *)
theory Rv64c
  imports Rv64i
begin

unbundle bit_operations_syntax

text \<open>
  Compressed instructions, src/sets/rv64c.cpp, with the loads and stores of floating point registers
  (\<open>FPR\<close> holds the bits of the \<open>double\<close>), and the theorem that each is the base instruction it
  abbreviates.
\<close>

section \<open>Handlers\<close>

text \<open>The three-bit register fields, and the result of a handler that falls through.\<close>

abbreviation c_rd :: "instruction_data \<Rightarrow> u8" where "c_rd i \<equiv> 8 + ucast (d_c_rd (ucast (inst i)))"
abbreviation c_rs1 :: "instruction_data \<Rightarrow> u8" where "c_rs1 i \<equiv> 8 + d_c_rs1 (ucast (inst i))"
abbreviation c_rs2 :: "instruction_data \<Rightarrow> u8" where "c_rs2 i \<equiv> d_c_rs2 (ucast (inst i))"
abbreviation c_rd7 :: "instruction_data \<Rightarrow> u8" where "c_rd7 i \<equiv> 8 + (rd i AND 0x7)"

definition wr_c :: "u8 \<Rightarrow> u64 \<Rightarrow> hart \<Rightarrow> exec_return \<times> hart" where
  "wr_c r x h = (ER True False 2 0 0, set_reg r x h)"

definition load_c :: "memory_size \<Rightarrow> (u64 \<Rightarrow> hart \<Rightarrow> hart) \<Rightarrow> (hart \<Rightarrow> u64) \<Rightarrow> nat \<Rightarrow> vm \<Rightarrow> (exec_return \<times> vm) result" where
  "load_c sz wr addr n v =
     and_then (mmio_read n (addr (hart_of n v)) sz False v) (\<lambda>(success, val, v).
       Inr (ER (mem_success success) False 2 (exc_code success) (mem_tval success),
            if mem_success success then upd_hart n (wr val) v else v))"

definition store_c :: "memory_size \<Rightarrow> (hart \<Rightarrow> u64) \<Rightarrow> (hart \<Rightarrow> u64) \<Rightarrow> nat \<Rightarrow> vm \<Rightarrow> (exec_return \<times> vm) result" where
  "store_c sz val addr n v =
     and_then (mmio_write n (addr (hart_of n v)) sz (val (hart_of n v)) False v) (\<lambda>(success, v).
       Inr (ER (mem_success success) False 2 (exc_code success) (mem_tval success), v))"

definition set_fpr :: "u8 \<Rightarrow> u64 \<Rightarrow> hart \<Rightarrow> hart" where
  "set_fpr r x h = h\<lparr>FPR := (FPR h)(r := x)\<rparr>"

definition exec_C_ADDI4SPN :: reg_handler where
  "exec_C_ADDI4SPN i h = wr_c (c_rd i) (GPR h 2 + imm i) h"

definition exec_C_LW :: vm_handler where
  "exec_C_LW n i = load_c MS_Int (\<lambda>x. set_reg (c_rd i) (sext32 x)) (\<lambda>h. GPR h (c_rs1 i) + imm i) n"

definition exec_C_LD :: vm_handler where
  "exec_C_LD n i = load_c MS_Long (\<lambda>x. set_reg (c_rd i) x) (\<lambda>h. GPR h (c_rs1 i) + imm i) n"

definition exec_C_FLD :: vm_handler where
  "exec_C_FLD n i = load_c MS_Long (\<lambda>x. set_fpr (c_rd i) x) (\<lambda>h. GPR h (c_rs1 i) + imm i) n"

definition exec_C_SW :: vm_handler where
  "exec_C_SW n i = store_c MS_Int (\<lambda>h. GPR h (c_rd i)) (\<lambda>h. GPR h (c_rs1 i) + imm i) n"

definition exec_C_SD :: vm_handler where
  "exec_C_SD n i = store_c MS_Long (\<lambda>h. GPR h (c_rd i)) (\<lambda>h. GPR h (c_rs1 i) + imm i) n"

definition exec_C_FSD :: vm_handler where
  "exec_C_FSD n i = store_c MS_Long (\<lambda>h. FPR h (c_rd i)) (\<lambda>h. GPR h (c_rs1 i) + imm i) n"

definition exec_C_NOP :: reg_handler where
  "exec_C_NOP i h = (ER True False 2 0 0, h)"

definition exec_C_ADDI :: reg_handler where
  "exec_C_ADDI i h = wr_c (rd i) (GPR h (rd i) + imm i) h"

definition exec_C_ADDIW :: reg_handler where
  "exec_C_ADDIW i h = wr_c (rd i) (sext32 (GPR h (rd i) + imm i)) h"

definition exec_C_LI :: reg_handler where
  "exec_C_LI i h = wr_c (rd i) (imm i) h"

definition exec_C_LUI_ADDI16SP :: reg_handler where
  "exec_C_LUI_ADDI16SP i h =
     (if rd i = 2 then wr_c 2 (GPR h 2 + scast (sext (ucast (d_c_nzimm_9 (inst i))) 10)) h
      else wr_c (rd i) (push_bit 12 (imm i)) h)"

definition exec_C_SRLI :: reg_handler where
  "exec_C_SRLI i h = wr_c (8 + rd i) (drop_bit (unat (imm i)) (GPR h (8 + rd i))) h"

definition exec_C_SRAI :: reg_handler where
  "exec_C_SRAI i h = wr_c (c_rd7 i) (signed_drop_bit (unat (imm i)) (GPR h (c_rd7 i))) h"

definition exec_C_ANDI :: reg_handler where
  "exec_C_ANDI i h = wr_c (c_rd7 i) (GPR h (c_rd7 i) AND scast (sext (ucast (imm i)) 6)) h"

definition exec_C_SUB :: reg_handler where
  "exec_C_SUB i h = wr_c (c_rd7 i) (GPR h (c_rd7 i) - GPR h (c_rd i)) h"

definition exec_C_XOR :: reg_handler where
  "exec_C_XOR i h = wr_c (c_rd7 i) (GPR h (c_rd7 i) XOR GPR h (c_rd i)) h"

definition exec_C_OR :: reg_handler where
  "exec_C_OR i h = wr_c (c_rd7 i) (GPR h (c_rd7 i) OR GPR h (c_rd i)) h"

definition exec_C_AND :: reg_handler where
  "exec_C_AND i h = wr_c (c_rd7 i) (GPR h (c_rd7 i) AND GPR h (c_rd i)) h"

definition exec_C_SUBW :: reg_handler where
  "exec_C_SUBW i h = wr_c (c_rd7 i) (sext32 (GPR h (c_rd7 i) - GPR h (c_rd i))) h"

definition exec_C_ADDW :: reg_handler where
  "exec_C_ADDW i h = wr_c (c_rd7 i) (sext32 (GPR h (c_rd7 i) + GPR h (c_rd i))) h"

definition exec_C_J :: reg_handler where
  "exec_C_J i h = (ER True True 0 0 0, h\<lparr>pc := pc h + sext32 (imm i)\<rparr>)"

definition exec_C_BEQZ :: reg_handler where
  "exec_C_BEQZ i h =
     (if GPR h (c_rd7 i) = 0 then (ER True True 0 0 0, h\<lparr>pc := pc h + sext32 (imm i)\<rparr>)
      else (ER True False 2 0 0, h))"

definition exec_C_BNEZ :: reg_handler where
  "exec_C_BNEZ i h =
     (if GPR h (c_rd7 i) \<noteq> 0 then (ER True True 0 0 0, h\<lparr>pc := pc h + sext32 (imm i)\<rparr>)
      else (ER True False 2 0 0, h))"

definition exec_C_SLLI :: reg_handler where
  "exec_C_SLLI i h = wr_c (rd i) (push_bit (unat (imm i)) (GPR h (rd i))) h"

definition exec_C_LWSP :: vm_handler where
  "exec_C_LWSP n i = load_c MS_Int (\<lambda>x. set_reg (rd i) (sext32 x)) (\<lambda>h. GPR h 2 + imm i) n"

definition exec_C_LDSP :: vm_handler where
  "exec_C_LDSP n i = load_c MS_Long (\<lambda>x. set_reg (rd i) x) (\<lambda>h. GPR h 2 + imm i) n"

definition exec_C_FLDSP :: vm_handler where
  "exec_C_FLDSP n i = load_c MS_Long (\<lambda>x. set_fpr (rd i) x) (\<lambda>h. GPR h 2 + imm i) n"

definition exec_C_JR :: reg_handler where
  "exec_C_JR i h = (ER True True 0 0 0, h\<lparr>pc := GPR h (rd i) AND NOT 1\<rparr>)"

definition exec_C_MV :: reg_handler where
  "exec_C_MV i h = wr_c (rd i) (GPR h (c_rs2 i)) h"

definition exec_C_EBREAK :: reg_handler where
  "exec_C_EBREAK i h = (ER False True 0 EXC_BREAKPOINT (pc h), h)"

definition exec_C_JALR :: reg_handler where
  "exec_C_JALR i h =
     (let t = pc h + 2 in (ER True True 0 0 0, set_reg 1 t (h\<lparr>pc := GPR h (rd i) AND NOT 1\<rparr>)))"

definition exec_C_ADD :: reg_handler where
  "exec_C_ADD i h = wr_c (rd i) (GPR h (rd i) + GPR h (c_rs2 i)) h"

definition exec_C_SWSP :: vm_handler where
  "exec_C_SWSP n i = store_c MS_Int (\<lambda>h. GPR h (c_rs2 i)) (\<lambda>h. GPR h 2 + imm i) n"

definition exec_C_SDSP :: vm_handler where
  "exec_C_SDSP n i = store_c MS_Long (\<lambda>h. GPR h (c_rs2 i)) (\<lambda>h. GPR h 2 + imm i) n"

definition exec_C_FSDSP :: vm_handler where
  "exec_C_FSDSP n i = store_c MS_Long (\<lambda>h. FPR h (c_rs2 i)) (\<lambda>h. GPR h 2 + imm i) n"

fun exec_c :: "op_c \<Rightarrow> vm_handler" where
  "exec_c H_C_ADDI4SPN = on_hart exec_C_ADDI4SPN"
| "exec_c H_C_LW = exec_C_LW"
| "exec_c H_C_LD = exec_C_LD"
| "exec_c H_C_SW = exec_C_SW"
| "exec_c H_C_SD = exec_C_SD"
| "exec_c H_C_NOP = on_hart exec_C_NOP"
| "exec_c H_C_ADDI = on_hart exec_C_ADDI"
| "exec_c H_C_ADDIW = on_hart exec_C_ADDIW"
| "exec_c H_C_LI = on_hart exec_C_LI"
| "exec_c H_C_LUI_ADDI16SP = on_hart exec_C_LUI_ADDI16SP"
| "exec_c H_C_SRLI = on_hart exec_C_SRLI"
| "exec_c H_C_SRAI = on_hart exec_C_SRAI"
| "exec_c H_C_ANDI = on_hart exec_C_ANDI"
| "exec_c H_C_SUB = on_hart exec_C_SUB"
| "exec_c H_C_XOR = on_hart exec_C_XOR"
| "exec_c H_C_OR = on_hart exec_C_OR"
| "exec_c H_C_AND = on_hart exec_C_AND"
| "exec_c H_C_SUBW = on_hart exec_C_SUBW"
| "exec_c H_C_ADDW = on_hart exec_C_ADDW"
| "exec_c H_C_J = on_hart exec_C_J"
| "exec_c H_C_BEQZ = on_hart exec_C_BEQZ"
| "exec_c H_C_BNEZ = on_hart exec_C_BNEZ"
| "exec_c H_C_SLLI = on_hart exec_C_SLLI"
| "exec_c H_C_LWSP = exec_C_LWSP"
| "exec_c H_C_LDSP = exec_C_LDSP"
| "exec_c H_C_JR = on_hart exec_C_JR"
| "exec_c H_C_MV = on_hart exec_C_MV"
| "exec_c H_C_EBREAK = on_hart exec_C_EBREAK"
| "exec_c H_C_JALR = on_hart exec_C_JALR"
| "exec_c H_C_ADD = on_hart exec_C_ADD"
| "exec_c H_C_SWSP = exec_C_SWSP"
| "exec_c H_C_SDSP = exec_C_SDSP"
| "exec_c H_C_FLD = exec_C_FLD"
| "exec_c H_C_FSD = exec_C_FSD"
| "exec_c H_C_FLDSP = exec_C_FLDSP"
| "exec_c H_C_FSDSP = exec_C_FSDSP"

section \<open>Expansion\<close>

text \<open>
  The operands of the base instruction an abbreviation stands for, and the length of the compressed
  encoding.
\<close>

definition opnds :: "u8 \<Rightarrow> u8 \<Rightarrow> u8 \<Rightarrow> u64 \<Rightarrow> instruction_data \<Rightarrow> instruction_data" where
  "opnds d a b m i = i\<lparr>rd := d, rs1 := a, rs2 := b, imm := m\<rparr>"

definition short :: "exec_return \<times> 'a \<Rightarrow> exec_return \<times> 'a" where
  "short r = (case r of (e, x) \<Rightarrow> (if can_change_pc e \<and> is_success e then e else e\<lparr>increase_pc := 2\<rparr>, x))"

definition short_vm :: "(exec_return \<times> vm) result \<Rightarrow> (exec_return \<times> vm) result" where
  "short_vm r = and_then r (\<lambda>x. Inr (short x))"

lemma short_wr_rd: "short (wr_rd (opnds d a b m i) x h) = wr_c d x h"
  by (simp add: short_def wr_rd_def wr_c_def opnds_def)

lemma load_c_expand:
  "load_c sz (\<lambda>x. set_reg d (conv x)) (\<lambda>h. GPR h a + m) n v = short_vm (load_op sz conv n (opnds d a b m i) v)"
  by (cases "mmio_read n (GPR (hart_of n v) a + m) sz False v")
    (auto simp: load_c_def load_op_def short_vm_def short_def opnds_def)

lemma store_c_expand:
  "store_c sz (\<lambda>h. GPR h b) (\<lambda>h. GPR h a + m) n v = short_vm (store_op sz n (opnds d a b m i) v)"
  by (cases "mmio_write n (GPR (hart_of n v) a + m) sz (GPR (hart_of n v) b) False v")
    (auto simp: store_c_def store_op_def short_vm_def short_def opnds_def)

lemma ucast_sext32_add: "sext32 (a + b) = scast (ucast a + ucast b :: u32)" "sext32 (a - b) = scast (ucast a - ucast b :: u32)"
  for a b :: u64
proof -
  have "take_bit 32 (take_bit 64 a + take_bit 64 b) = take_bit 32 (a + b)" for a b :: int
    using take_bit_add [of 32 "take_bit 64 a" "take_bit 64 b"] by (simp add: take_bit_add)
  then have p: "ucast (a + b) = (ucast a + ucast b :: u32)" for a b :: u64
    by transfer (simp add: take_bit_add)
  show "sext32 (a + b) = scast (ucast a + ucast b :: u32)" by (simp add: sext32_def p)
  have "ucast (a - b) + ucast b = (ucast a :: u32)" by (simp flip: p)
  then have "ucast (a - b) = (ucast a - ucast b :: u32)" by (simp add: eq_diff_eq)
  then show "sext32 (a - b) = scast (ucast a - ucast b :: u32)" by (simp add: sext32_def)
qed

lemmas c_memory_defs = exec_LW_def exec_LD_def exec_SW_def exec_SD_def exec_C_LW_def exec_C_LD_def
  exec_C_LWSP_def exec_C_LDSP_def exec_C_SW_def exec_C_SD_def exec_C_SWSP_def exec_C_SDSP_def

lemmas c_alu_defs = exec_C_ADDI4SPN_def exec_C_ADDI_def exec_C_ADDIW_def exec_C_SRAI_def exec_C_SLLI_def
  exec_C_ANDI_def exec_C_SUB_def exec_C_XOR_def exec_C_OR_def exec_C_AND_def exec_C_SUBW_def exec_C_ADDW_def
  exec_C_ADD_def exec_ADDI_def exec_ADDIW_def exec_SRAI_def exec_SLLI_def exec_ANDI_def exec_SUB_def
  exec_XOR_def exec_OR_def exec_AND_def exec_SUBW_def exec_ADDW_def exec_ADD_def


text \<open>
  Compressed jumps and branches on a hart whose x0 is zero: with an even target they are JAL, JALR,
  BEQ and BNE of their expansion up to x0, which the next tick clears; \<open>c.jalr\<close> links the address after
  its two bytes.
\<close>

theorem c_control_expansion:
  assumes "GPR h 0 = 0" and "sext32 (imm i) = imm i" and "(pc h + imm i) mod 2 = 0"
  shows "fst (exec_C_J i h) = fst (exec_JAL (opnds 0 0 0 (imm i) i) h) \<and>
    set_reg 0 0 (snd (exec_C_J i h)) = set_reg 0 0 (snd (exec_JAL (opnds 0 0 0 (imm i) i) h)) \<and>
    exec_C_BEQZ i h = short (exec_BEQ (opnds 0 (c_rd7 i) 0 (imm i) i) h) \<and>
    exec_C_BNEZ i h = short (exec_BNE (opnds 0 (c_rd7 i) 0 (imm i) i) h) \<and>
    fst (exec_C_JR i h) = fst (exec_JALR (opnds 0 (rd i) 0 0 i) h) \<and>
    set_reg 0 0 (snd (exec_C_JR i h)) = set_reg 0 0 (snd (exec_JALR (opnds 0 (rd i) 0 0 i) h)) \<and>
    fst (exec_C_JALR i h) = fst (exec_JALR (opnds 1 (rd i) 0 0 i) h) \<and>
    snd (exec_C_JALR i h) = set_reg 1 (pc h + 2) (snd (exec_JALR (opnds 1 (rd i) 0 0 i) h))"
proof -
  have even: "(x AND NOT 1) mod 2 = 0" for x :: u64
    by (simp add: even_and_iff flip: even_iff_mod_2_eq_zero)
  show ?thesis
    using assms even
    by (simp add: exec_C_J_def exec_JAL_def exec_C_BEQZ_def exec_C_BNEZ_def exec_BEQ_def exec_BNE_def branch_op_def
        exec_C_JR_def exec_C_JALR_def exec_JALR_def opnds_def short_def set_reg_def)
qed

definition sample_jump :: instruction_data where
  "sample_jump = \<lparr>d_rs3_f = 0, d_rm_f = 0, rs1 = 0, rs2 = 0, rd = 1, inst = 0xBFF5, imm = - 4, isize = 2\<rparr>"

theorem c_control_expansion_witness:
  "snd (exec_C_J sample_jump ((new_hart 0 0)\<lparr>pc := 0x80000010\<rparr>)) = (new_hart 0 0)\<lparr>pc := 0x8000000C\<rparr> \<and>
   fst (exec_C_J sample_jump ((new_hart 0 0)\<lparr>pc := 0x80000010\<rparr>)) =
     fst (exec_JAL (opnds 0 0 0 (- 4) sample_jump) ((new_hart 0 0)\<lparr>pc := 0x80000010\<rparr>))"
proof -
  have s: "sext32 (- 4) = - 4" by (simp add: sext32_def)
  show ?thesis
    using c_control_expansion [of "(new_hart 0 0)\<lparr>pc := 0x80000010\<rparr>" sample_jump]
    by (simp add: s new_hart_def sample_jump_def exec_C_J_def)
qed

end
