(* ===== verification/Rv64f.thy ===== *)
theory Rv64f
  imports Rv64c
begin

unbundle bit_operations_syntax

text \<open>
  Single precision, src/sets/rv64f.cpp: one definition per handler, over the host floating point of
  theory Ieee. A \<open>float\<close> is a pattern of 32 bits, a floating register one of 64. The handlers compute
  in \<open>double\<close> with the rounding direction that an earlier instruction left in the host, then select
  the direction of this instruction and convert to \<open>float\<close>; the code does so, and the model keeps
  the order of those effects.
\<close>

section \<open>Shared helpers\<close>

definition raise_flag :: "nat \<Rightarrow> hart \<Rightarrow> hart" where
  "raise_flag k h = h\<lparr>fcsr := set_fflags (fflags (fcsr h) OR push_bit k 1) (fcsr h)\<rparr>"

text \<open>\<open>FLOAT_END\<close>: the exceptions the host recorded since \<open>FLOAT_START\<close>.\<close>

definition float_end :: "host_except \<Rightarrow> hart \<Rightarrow> hart" where
  "float_end ex h =
     (let h = (if fe_invalid ex then raise_flag 4 h else h);
          h = (if fe_divbyzero ex then raise_flag 3 h else h);
          h = (if fe_overflow ex then raise_flag 2 h else h);
          h = (if fe_underflow ex then raise_flag 1 h else h)
      in if fe_inexact ex then raise_flag 0 h else h)"

text \<open>\<open>None\<close> is \<open>is_error\<close>; the host direction changes for the modes 0 to 3 only.\<close>

definition rm_func :: "u64 \<Rightarrow> u8 \<Rightarrow> nat \<Rightarrow> vm \<Rightarrow> (u64 \<times> vm) option" where
  "rm_func val rm n v =
     (let cmp = (if rm = 7 then ucast (frm (fcsr (hart_of n v))) else rm) in
      if cmp = 5 \<or> cmp = 6 then None
      else if cmp = 4 then Some (std_round val, v)
      else if cmp = 0 then Some (val, v\<lparr>host_rm := FE_TONEAREST\<rparr>)
      else if cmp = 1 then Some (val, v\<lparr>host_rm := FE_TOWARDZERO\<rparr>)
      else if cmp = 2 then Some (val, v\<lparr>host_rm := FE_DOWNWARD\<rparr>)
      else if cmp = 3 then Some (val, v\<lparr>host_rm := FE_UPWARD\<rparr>)
      else Some (val, v))"

definition f32_in :: "u64 \<Rightarrow> u32" where
  "f32_in reg = ucast reg"

definition f32_out :: "u32 \<Rightarrow> u64" where
  "f32_out val = 0xFFFFFFFF00000000 OR ucast val"

definition cast_float :: "host_round \<Rightarrow> u64 \<Rightarrow> hart \<Rightarrow> u32 \<times> hart" where
  "cast_float hrm val h =
     (if is_nan (dbl val) then (0x7FC00000, raise_flag 4 h) else (fst (to_float hrm val), h))"

definition issnan_f :: "u32 \<Rightarrow> bool" where
  "issnan_f bits \<longleftrightarrow> (bits AND 0x7F800000 = 0x7F800000 \<and> bits AND 0x007FFFFF \<noteq> 0) \<and> bits AND 0x00400000 = 0"

text \<open>
  \<open>finalize_fcvt\<close> with its template parameters. The bound \<open>static_cast<double>(MaxValue) + 1.0\<close> is a
  constant the compiler evaluates; the other conversion happens in the current direction.
\<close>

definition set_nv_clear_nx :: "hart \<Rightarrow> hart" where
  "set_nv_clear_nx h = h\<lparr>fcsr := set_fflags ((fflags (fcsr h) OR 0x10) AND NOT 1) (fcsr h)\<rparr>"

definition finalize_fcvt ::
  "bool \<Rightarrow> int \<Rightarrow> int \<Rightarrow> host_round \<Rightarrow> fp_value \<Rightarrow> fp_value \<Rightarrow> int \<Rightarrow> hart \<Rightarrow> u64 \<times> hart" where
  "finalize_fcvt uns MinValue MaxValue hrm src exact rounded h =
     (let limit = dbl (fst (d_add FE_TONEAREST (int_to_double FE_TONEAREST MaxValue) 0x3FF0000000000000));
          result = (of_int rounded,
                    if fp_eq (dbl (int_to_double hrm rounded)) exact then h else raise_flag 0 h)
      in if is_nan src then (of_int MaxValue, set_nv_clear_nx h)
         else if uns then
           if src = FP_inf False \<or> fp_le limit exact then (of_int MaxValue, set_nv_clear_nx h)
           else if fp_le exact (dbl 0xBFF0000000000000) \<or> (rounded < 0 \<and> rounded \<noteq> - (2 ^ 63))
             then (0, set_nv_clear_nx h)
           else result
         else
           if src = FP_inf True \<or> fp_less exact (dbl (int_to_double FE_TONEAREST MinValue))
             then (of_int MinValue, set_nv_clear_nx h)
           else if src = FP_inf False \<or> fp_le limit exact then (of_int MaxValue, set_nv_clear_nx h)
           else result)"

abbreviation illegal_rm :: "instruction_data \<Rightarrow> exec_return" where
  "illegal_rm i \<equiv> ER False False 4 EXC_ILLEGAL_INSTRUCTION (ucast (inst i))"

abbreviation done4 :: exec_return where "done4 \<equiv> ER True False 4 0 0"

abbreviation fs1 :: "instruction_data \<Rightarrow> hart \<Rightarrow> u32" where "fs1 i h \<equiv> f32_in (FPR h (rs1 i))"
abbreviation fs2 :: "instruction_data \<Rightarrow> hart \<Rightarrow> u32" where "fs2 i h \<equiv> f32_in (FPR h (rs2 i))"
abbreviation fs3 :: "instruction_data \<Rightarrow> hart \<Rightarrow> u32" where "fs3 i h \<equiv> f32_in (FPR h (d_rs3_f i))"

section \<open>Arithmetic\<close>

text \<open>
  The shape of the arithmetic handlers: the operation in \<open>double\<close>, \<open>FLOAT_START\<close>, \<open>RM_HANDLE\<close> (which
  narrows the value and widens it again), \<open>FLOAT_END\<close>, and the result register.
\<close>

definition arith_s :: "(host_round \<Rightarrow> hart \<Rightarrow> u64) \<Rightarrow> vm_handler" where
  "arith_s op n i v =
     (let res = op (host_rm v) (hart_of n v) in
      case rm_func res (d_rm_f i) n v of
        None \<Rightarrow> Inr (illegal_rm i, v)
      | Some (narrowed, v) \<Rightarrow>
          let (val, ex) = to_float (host_rm v) narrowed;
              (out, h) = cast_float (host_rm v) (to_double val) (float_end ex (hart_of n v))
          in Inr (done4, upd_hart n (\<lambda>_. set_fpr (rd i) (f32_out out) h) v))"

definition mul_dd :: "host_round \<Rightarrow> u32 \<Rightarrow> u32 \<Rightarrow> u64" where
  "mul_dd hrm x y = fst (d_mul hrm (to_double x) (to_double y))"

definition exec_FMADD_S :: vm_handler where
  "exec_FMADD_S n i = arith_s (\<lambda>hrm h. fst (d_add hrm (mul_dd hrm (fs1 i h) (fs2 i h)) (to_double (fs3 i h)))) n i"

definition exec_FMSUB_S :: vm_handler where
  "exec_FMSUB_S n i = arith_s (\<lambda>hrm h. fst (d_sub hrm (mul_dd hrm (fs1 i h) (fs2 i h)) (to_double (fs3 i h)))) n i"

definition exec_FNMADD_S :: vm_handler where
  "exec_FNMADD_S n i = arith_s (\<lambda>hrm h.
     fst (d_sub hrm (fst (d_mul hrm (d_neg (to_double (fs1 i h))) (to_double (fs2 i h)))) (to_double (fs3 i h)))) n i"

definition exec_FNMSUB_S :: vm_handler where
  "exec_FNMSUB_S n i = arith_s (\<lambda>hrm h.
     fst (d_add hrm (fst (d_mul hrm (d_neg (to_double (fs1 i h))) (to_double (fs2 i h)))) (to_double (fs3 i h)))) n i"

definition exec_FADD_S :: vm_handler where
  "exec_FADD_S n i = arith_s (\<lambda>hrm h. fst (d_add hrm (to_double (fs1 i h)) (to_double (fs2 i h)))) n i"

definition exec_FSUB_S :: vm_handler where
  "exec_FSUB_S n i = arith_s (\<lambda>hrm h. fst (d_sub hrm (to_double (fs1 i h)) (to_double (fs2 i h)))) n i"

definition exec_FMUL_S :: vm_handler where
  "exec_FMUL_S n i = arith_s (\<lambda>hrm h. mul_dd hrm (fs1 i h) (fs2 i h)) n i"

definition exec_FDIV_S :: vm_handler where
  "exec_FDIV_S n i = arith_s (\<lambda>hrm h. fst (d_div hrm (to_double (fs1 i h)) (to_double (fs2 i h)))) n i"

text \<open>\<open>sqrt\<close> is the function of the C library on \<open>double\<close>.\<close>

definition exec_FSQRT_S :: vm_handler where
  "exec_FSQRT_S n i = arith_s (\<lambda>hrm h. fst (d_sqrt hrm (to_double (fs1 i h)))) n i"

section \<open>Sign injection, minimum and maximum\<close>

text \<open>\<open>std::copysign\<close>; the result passes through \<open>cast_float\<close>.\<close>

definition sign_inject :: "u32 \<Rightarrow> u32 \<Rightarrow> vm_handler" where
  "sign_inject x y n i v =
     (let res = (x AND 0x7FFFFFFF) OR (y AND 0x80000000);
          (out, h) = cast_float (host_rm v) (to_double res) (hart_of n v)
      in Inr (done4, upd_hart n (\<lambda>_. set_fpr (rd i) (f32_out out) h) v))"

definition exec_FSGNJ_S :: vm_handler where
  "exec_FSGNJ_S n i v = sign_inject (fs1 i (hart_of n v)) (fs2 i (hart_of n v)) n i v"

definition exec_FSGNJN_S :: vm_handler where
  "exec_FSGNJN_S n i v = sign_inject (fs1 i (hart_of n v)) (fs2 i (hart_of n v) XOR 0x80000000) n i v"

definition exec_FSGNJX_S :: reg_handler where
  "exec_FSGNJX_S i h =
     (let bits1 = fs1 i h; bits2 = fs2 i h;
          res_bits = (bits1 AND NOT 0x80000000) OR ((bits1 XOR bits2) AND 0x80000000)
      in (done4, set_fpr (rd i) (f32_out res_bits) h))"

definition exec_FMIN_S :: reg_handler where
  "exec_FMIN_S i h =
     (let a = fs1 i h; b = fs2 i h;
          nan1 = is_nan (flt a); nan2 = is_nan (flt b);
          res = (if nan1 \<and> nan2 then 0x7FC00000
                 else if nan1 then b
                 else if nan2 then a
                 else if fp_eq (flt a) (flt 0) \<and> fp_eq (flt b) (flt 0) then (if fp_signbit (flt a) then a else b)
                 else if fp_less (flt a) (flt b) then a else b);
          h = (if (nan1 \<and> issnan_f a) \<or> (nan2 \<and> issnan_f b) then raise_flag 4 h else h)
      in (done4, set_fpr (rd i) (f32_out res) h))"

definition exec_FMAX_S :: reg_handler where
  "exec_FMAX_S i h =
     (let a = fs1 i h; b = fs2 i h;
          nan1 = is_nan (flt a); nan2 = is_nan (flt b);
          res = (if nan1 \<and> nan2 then 0x7FC00000
                 else if nan1 then b
                 else if nan2 then a
                 else if fp_eq (flt a) (flt 0) \<and> fp_eq (flt b) (flt 0) then (if \<not> fp_signbit (flt a) then a else b)
                 else if fp_less (flt b) (flt a) then a else b);
          h = (if (nan1 \<and> issnan_f a) \<or> (nan2 \<and> issnan_f b) then raise_flag 4 h else h)
      in (done4, set_fpr (rd i) (f32_out res) h))"

section \<open>Conversions\<close>

text \<open>To an integer; \<open>conv\<close> is the conversion of the result to the register.\<close>

definition to_int_s :: "bool \<Rightarrow> int \<Rightarrow> int \<Rightarrow> (u64 \<Rightarrow> u64) \<Rightarrow> vm_handler" where
  "to_int_s uns MinValue MaxValue conv n i v =
     (let src = fs1 i (hart_of n v); exact = to_double src in
      case rm_func exact (d_rm_f i) n v of
        None \<Rightarrow> Inr (illegal_rm i, v)
      | Some (intermediate, v) \<Rightarrow>
          let rounded = llrint (host_rm v) intermediate;
              (res, h) = finalize_fcvt uns MinValue MaxValue (host_rm v) (flt src) (dbl exact) rounded (hart_of n v)
          in Inr (done4, upd_hart n (\<lambda>_. set_reg (rd i) (conv res) h) v))"

definition exec_FCVT_W_S :: vm_handler where
  "exec_FCVT_W_S n i = to_int_s False (- (2 ^ 31)) (2 ^ 31 - 1) sext32 n i"

definition exec_FCVT_WU_S :: vm_handler where
  "exec_FCVT_WU_S n i = to_int_s True 0 (2 ^ 32 - 1) sext32 n i"

definition exec_FCVT_L_S :: vm_handler where
  "exec_FCVT_L_S n i = to_int_s False (- (2 ^ 63)) (2 ^ 63 - 1) (\<lambda>x. x) n i"

definition exec_FCVT_LU_S :: vm_handler where
  "exec_FCVT_LU_S n i = to_int_s True 0 (2 ^ 64 - 1) (\<lambda>x. x) n i"

text \<open>From an integer; the conversion to \<open>double\<close> precedes \<open>FLOAT_START\<close>.\<close>

definition from_int_s :: "(hart \<Rightarrow> int) \<Rightarrow> vm_handler" where
  "from_int_s src n i v =
     (let exact = int_to_double (host_rm v) (src (hart_of n v)) in
      case rm_func exact (d_rm_f i) n v of
        None \<Rightarrow> Inr (illegal_rm i, v)
      | Some (narrowed, v) \<Rightarrow>
          let (val, ex) = to_float (host_rm v) narrowed;
              h = float_end ex (hart_of n v)
          in Inr (done4, upd_hart n (\<lambda>_. set_fpr (rd i) (f32_out (fst (to_float (host_rm v) (to_double val)))) h) v))"

definition exec_FCVT_S_W :: vm_handler where
  "exec_FCVT_S_W n i = from_int_s (\<lambda>h. sint (w1 i h)) n i"

definition exec_FCVT_S_WU :: vm_handler where
  "exec_FCVT_S_WU n i = from_int_s (\<lambda>h. uint (w1 i h)) n i"

definition exec_FCVT_S_L :: vm_handler where
  "exec_FCVT_S_L n i = from_int_s (\<lambda>h. sint (r1 i h)) n i"

definition exec_FCVT_S_LU :: vm_handler where
  "exec_FCVT_S_LU n i = from_int_s (\<lambda>h. uint (r1 i h)) n i"

section \<open>Moves, comparisons, classification\<close>

definition exec_FMV_X_W :: reg_handler where
  "exec_FMV_X_W i h = wr_rd i (scast (fs1 i h)) h"

definition exec_FMV_W_X :: reg_handler where
  "exec_FMV_W_X i h = (done4, set_fpr (rd i) (f32_out (w1 i h)) h)"

definition exec_FEQ_S :: reg_handler where
  "exec_FEQ_S i h =
     (if issnan_f (fs1 i h) \<or> issnan_f (fs2 i h) then wr_rd i 0 (raise_flag 4 h)
      else wr_rd i (if fp_eq (flt (fs1 i h)) (flt (fs2 i h)) then 1 else 0) h)"

definition exec_FLT_S :: reg_handler where
  "exec_FLT_S i h =
     (if is_nan (flt (fs1 i h)) \<or> is_nan (flt (fs2 i h)) then wr_rd i 0 (raise_flag 4 h)
      else wr_rd i (if fp_less (flt (fs1 i h)) (flt (fs2 i h)) then 1 else 0) h)"

definition exec_FLE_S :: reg_handler where
  "exec_FLE_S i h =
     (if is_nan (flt (fs1 i h)) \<or> is_nan (flt (fs2 i h)) then wr_rd i 0 (raise_flag 4 h)
      else wr_rd i (if fp_le (flt (fs1 i h)) (flt (fs2 i h)) then 1 else 0) h)"

text \<open>The switch over \<open>std::fpclassify\<close>, with the quiet bit of the format.\<close>

definition fclass :: "fp_format \<Rightarrow> bool \<Rightarrow> bool \<Rightarrow> fp_value \<Rightarrow> u64" where
  "fclass f negative quiet x =
     (case x of
        FP_inf s \<Rightarrow> if negative then push_bit 0 1 else push_bit 7 1
      | FP_nan q \<Rightarrow> if quiet then push_bit 9 1 else push_bit 8 1
      | FP_fin s m e \<Rightarrow>
          if m = 0 then (if negative then push_bit 3 1 else push_bit 4 1)
          else if m < 2 ^ (fprec f - 1) then (if negative then push_bit 2 1 else push_bit 5 1)
          else (if negative then push_bit 1 1 else push_bit 6 1))"

definition exec_FCLASS_S :: reg_handler where
  "exec_FCLASS_S i h =
     wr_rd i (fclass binary32 (fs1 i h AND 0x80000000 \<noteq> 0) (fs1 i h AND 0x00400000 \<noteq> 0) (flt (fs1 i h))) h"

section \<open>Loads and stores\<close>

definition exec_FLW :: vm_handler where
  "exec_FLW n i v =
     (let addr = r1 i (hart_of n v) + imm i in
      and_then (mmio_read n addr MS_Int False v) (\<lambda>(success, val, v).
        Inr (ER (mem_success success) False 4 (exc_code success) (mem_tval success),
             if mem_success success then upd_hart n (set_fpr (rd i) (f32_out (ucast val))) v else v)))"

definition exec_FSW :: vm_handler where
  "exec_FSW n i v =
     (let addr = r1 i (hart_of n v) + imm i; val = ucast (fs2 i (hart_of n v)) in
      and_then (mmio_write n addr MS_Int val False v) (\<lambda>(out, v).
        Inr (ER (mem_success out) False 4 (exc_code out) (mem_tval out), v)))"

section \<open>Dispatch\<close>

fun exec_f :: "op_f \<Rightarrow> vm_handler" where
  "exec_f H_FMADD_S = exec_FMADD_S"
| "exec_f H_FMSUB_S = exec_FMSUB_S"
| "exec_f H_FNMADD_S = exec_FNMADD_S"
| "exec_f H_FNMSUB_S = exec_FNMSUB_S"
| "exec_f H_FADD_S = exec_FADD_S"
| "exec_f H_FSUB_S = exec_FSUB_S"
| "exec_f H_FMUL_S = exec_FMUL_S"
| "exec_f H_FDIV_S = exec_FDIV_S"
| "exec_f H_FSQRT_S = exec_FSQRT_S"
| "exec_f H_FSGNJ_S = exec_FSGNJ_S"
| "exec_f H_FSGNJN_S = exec_FSGNJN_S"
| "exec_f H_FSGNJX_S = on_hart exec_FSGNJX_S"
| "exec_f H_FMIN_S = on_hart exec_FMIN_S"
| "exec_f H_FMAX_S = on_hart exec_FMAX_S"
| "exec_f H_FCVT_W_S = exec_FCVT_W_S"
| "exec_f H_FCVT_WU_S = exec_FCVT_WU_S"
| "exec_f H_FCVT_S_W = exec_FCVT_S_W"
| "exec_f H_FCVT_S_WU = exec_FCVT_S_WU"
| "exec_f H_FCVT_L_S = exec_FCVT_L_S"
| "exec_f H_FCVT_LU_S = exec_FCVT_LU_S"
| "exec_f H_FCVT_S_L = exec_FCVT_S_L"
| "exec_f H_FCVT_S_LU = exec_FCVT_S_LU"
| "exec_f H_FMV_X_W = on_hart exec_FMV_X_W"
| "exec_f H_FMV_W_X = on_hart exec_FMV_W_X"
| "exec_f H_FEQ_S = on_hart exec_FEQ_S"
| "exec_f H_FLT_S = on_hart exec_FLT_S"
| "exec_f H_FLE_S = on_hart exec_FLE_S"
| "exec_f H_FCLASS_S = on_hart exec_FCLASS_S"
| "exec_f H_FLW = exec_FLW"
| "exec_f H_FSW = exec_FSW"

end
