(* ===== verification/Rv64d.thy ===== *)
theory Rv64d
  imports Rv64f
begin

unbundle bit_operations_syntax

text \<open>
  Double precision, src/sets/rv64d.cpp: one definition per handler. Here the direction of the
  instruction is selected before the operation, so an operation is one correctly rounded step of the
  host; Float_Correct proves what that gives for the guest.
\<close>

section \<open>Shared helpers\<close>

definition sanitize_nan :: "u64 \<Rightarrow> hart \<Rightarrow> u64 \<times> hart" where
  "sanitize_nan val h = (if is_nan (dbl val) then (0x7FF8000000000000, raise_flag 4 h) else (val, h))"

definition issnan_d :: "u64 \<Rightarrow> bool" where
  "issnan_d bits \<longleftrightarrow>
     (bits AND 0x7FF0000000000000 = 0x7FF0000000000000 \<and> bits AND 0x000FFFFFFFFFFFFF \<noteq> 0) \<and>
     bits AND 0x0008000000000000 = 0"

abbreviation fd1 :: "instruction_data \<Rightarrow> hart \<Rightarrow> u64" where "fd1 i h \<equiv> FPR h (rs1 i)"
abbreviation fd2 :: "instruction_data \<Rightarrow> hart \<Rightarrow> u64" where "fd2 i h \<equiv> FPR h (rs2 i)"
abbreviation fd3 :: "instruction_data \<Rightarrow> hart \<Rightarrow> u64" where "fd3 i h \<equiv> FPR h (d_rs3_f i)"

section \<open>Arithmetic\<close>

text \<open>\<open>RM_HANDLE\<close>, \<open>FLOAT_START\<close>, the operation, \<open>FLOAT_END\<close>, \<open>sanitize_nan\<close>.\<close>

definition arith_d :: "(host_round \<Rightarrow> hart \<Rightarrow> u64 \<times> host_except) \<Rightarrow> vm_handler" where
  "arith_d op n i v =
     (case rm_func 0 (d_rm_f i) n v of
        None \<Rightarrow> Inr (illegal_rm i, v)
      | Some (narrowed, v) \<Rightarrow>
          let (res, ex) = op (host_rm v) (hart_of n v);
              (out, h) = sanitize_nan res (float_end ex (hart_of n v))
          in Inr (done4, upd_hart n (\<lambda>_. set_fpr (rd i) out h) v))"

definition exec_FMADD_D :: vm_handler where
  "exec_FMADD_D n i = arith_d (\<lambda>hrm h. d_fma hrm (fd1 i h) (fd2 i h) (fd3 i h)) n i"

definition exec_FMSUB_D :: vm_handler where
  "exec_FMSUB_D n i = arith_d (\<lambda>hrm h. d_fma hrm (fd1 i h) (fd2 i h) (d_neg (fd3 i h))) n i"

definition exec_FNMADD_D :: vm_handler where
  "exec_FNMADD_D n i = arith_d (\<lambda>hrm h. d_fma hrm (d_neg (fd1 i h)) (fd2 i h) (d_neg (fd3 i h))) n i"

definition exec_FNMSUB_D :: vm_handler where
  "exec_FNMSUB_D n i = arith_d (\<lambda>hrm h. d_fma hrm (d_neg (fd1 i h)) (fd2 i h) (fd3 i h)) n i"

definition exec_FADD_D :: vm_handler where
  "exec_FADD_D n i = arith_d (\<lambda>hrm h. d_add hrm (fd1 i h) (fd2 i h)) n i"

definition exec_FSUB_D :: vm_handler where
  "exec_FSUB_D n i = arith_d (\<lambda>hrm h. d_sub hrm (fd1 i h) (fd2 i h)) n i"

definition exec_FMUL_D :: vm_handler where
  "exec_FMUL_D n i = arith_d (\<lambda>hrm h. d_mul hrm (fd1 i h) (fd2 i h)) n i"

definition exec_FDIV_D :: vm_handler where
  "exec_FDIV_D n i = arith_d (\<lambda>hrm h. d_div hrm (fd1 i h) (fd2 i h)) n i"

definition exec_FSQRT_D :: vm_handler where
  "exec_FSQRT_D n i = arith_d (\<lambda>hrm h. d_sqrt hrm (fd1 i h)) n i"

section \<open>Sign injection, minimum and maximum\<close>

definition exec_FSGNJ_D :: reg_handler where
  "exec_FSGNJ_D i h =
     (done4, set_fpr (rd i) ((fd1 i h AND 0x7FFFFFFFFFFFFFFF) OR (fd2 i h AND 0x8000000000000000)) h)"

definition exec_FSGNJN_D :: reg_handler where
  "exec_FSGNJN_D i h =
     (done4, set_fpr (rd i) ((fd1 i h AND 0x7FFFFFFFFFFFFFFF) OR (d_neg (fd2 i h) AND 0x8000000000000000)) h)"

definition exec_FSGNJX_D :: reg_handler where
  "exec_FSGNJX_D i h =
     (let bits1 = fd1 i h; bits2 = fd2 i h;
          res_bits = (bits1 AND NOT 0x8000000000000000) OR ((bits1 XOR bits2) AND 0x8000000000000000)
      in (done4, set_fpr (rd i) res_bits h))"

definition exec_FMIN_D :: reg_handler where
  "exec_FMIN_D i h =
     (let a = fd1 i h; b = fd2 i h;
          nan1 = is_nan (dbl a); nan2 = is_nan (dbl b);
          res = (if nan1 \<and> nan2 then 0x7FF8000000000000
                 else if nan1 then b
                 else if nan2 then a
                 else if fp_eq (dbl a) (dbl 0) \<and> fp_eq (dbl b) (dbl 0) then (if fp_signbit (dbl a) then a else b)
                 else if fp_less (dbl a) (dbl b) then a else b);
          h = (if (nan1 \<and> issnan_d a) \<or> (nan2 \<and> issnan_d b) then raise_flag 4 h else h)
      in (done4, set_fpr (rd i) res h))"

definition exec_FMAX_D :: reg_handler where
  "exec_FMAX_D i h =
     (let a = fd1 i h; b = fd2 i h;
          nan1 = is_nan (dbl a); nan2 = is_nan (dbl b);
          res = (if nan1 \<and> nan2 then 0x7FF8000000000000
                 else if nan1 then b
                 else if nan2 then a
                 else if fp_eq (dbl a) (dbl 0) \<and> fp_eq (dbl b) (dbl 0) then (if \<not> fp_signbit (dbl a) then a else b)
                 else if fp_less (dbl b) (dbl a) then a else b);
          h = (if (nan1 \<and> issnan_d a) \<or> (nan2 \<and> issnan_d b) then raise_flag 4 h else h)
      in (done4, set_fpr (rd i) res h))"

section \<open>Conversions\<close>

text \<open>\<open>FLOAT_END\<close> precedes the conversion, and \<open>rm_func\<close> raises no exception of its own.\<close>

definition exec_FCVT_S_D :: vm_handler where
  "exec_FCVT_S_D n i v =
     (case rm_func (fd1 i (hart_of n v)) (d_rm_f i) n v of
        None \<Rightarrow> Inr (illegal_rm i, v)
      | Some (exact, v) \<Rightarrow>
          let res_f32 = fst (to_float (host_rm v) exact);
              (out, h) = (if is_nan (flt res_f32) then (0x7FC00000, raise_flag 4 (hart_of n v))
                          else (res_f32, hart_of n v))
          in Inr (done4, upd_hart n (\<lambda>_. set_fpr (rd i) (f32_out out) h) v))"

text \<open>The conversion to \<open>double\<close> makes a signalling NaN quiet before \<open>issnan\<close> looks at it.\<close>

definition exec_FCVT_D_S :: reg_handler where
  "exec_FCVT_D_S i h =
     (let src_f32 = fs1 i h; res_double = to_double src_f32 in
      if is_nan (flt src_f32) then
        (done4, set_fpr (rd i) 0x7FF8000000000000
           (if issnan_d res_double then raise_flag 4 h else h))
      else (done4, set_fpr (rd i) res_double h))"

definition to_int_d :: "bool \<Rightarrow> int \<Rightarrow> int \<Rightarrow> (u64 \<Rightarrow> u64) \<Rightarrow> vm_handler" where
  "to_int_d uns MinValue MaxValue conv n i v =
     (let src = fd1 i (hart_of n v) in
      case rm_func src (d_rm_f i) n v of
        None \<Rightarrow> Inr (illegal_rm i, v)
      | Some (intermediate, v) \<Rightarrow>
          let rounded = llrint (host_rm v) intermediate;
              (res, h) = finalize_fcvt uns MinValue MaxValue (host_rm v) (dbl src) (dbl src) rounded (hart_of n v)
          in Inr (done4, upd_hart n (\<lambda>_. set_reg (rd i) (conv res) h) v))"

definition exec_FCVT_W_D :: vm_handler where
  "exec_FCVT_W_D n i = to_int_d False (- (2 ^ 31)) (2 ^ 31 - 1) sext32 n i"

definition exec_FCVT_WU_D :: vm_handler where
  "exec_FCVT_WU_D n i = to_int_d True 0 (2 ^ 32 - 1) sext32 n i"

definition exec_FCVT_L_D :: vm_handler where
  "exec_FCVT_L_D n i = to_int_d False (- (2 ^ 63)) (2 ^ 63 - 1) (\<lambda>x. x) n i"

definition exec_FCVT_LU_D :: vm_handler where
  "exec_FCVT_LU_D n i = to_int_d True 0 (2 ^ 64 - 1) (\<lambda>x. x) n i"

text \<open>The value is converted before \<open>RM_HANDLE_VAL\<close>, in the direction the host has by then.\<close>

definition from_int_d :: "(hart \<Rightarrow> int) \<Rightarrow> vm_handler" where
  "from_int_d src n i v =
     (let exact = int_to_double (host_rm v) (src (hart_of n v)) in
      case rm_func exact (d_rm_f i) n v of
        None \<Rightarrow> Inr (illegal_rm i, v)
      | Some (exact, v) \<Rightarrow> Inr (done4, upd_hart n (set_fpr (rd i) exact) v))"

definition exec_FCVT_D_W :: vm_handler where
  "exec_FCVT_D_W n i = from_int_d (\<lambda>h. sint (w1 i h)) n i"

definition exec_FCVT_D_WU :: vm_handler where
  "exec_FCVT_D_WU n i = from_int_d (\<lambda>h. uint (w1 i h)) n i"

definition exec_FCVT_D_L :: vm_handler where
  "exec_FCVT_D_L n i = from_int_d (\<lambda>h. sint (r1 i h)) n i"

definition exec_FCVT_D_LU :: vm_handler where
  "exec_FCVT_D_LU n i = from_int_d (\<lambda>h. uint (r1 i h)) n i"

section \<open>Moves, comparisons, classification\<close>

definition exec_FMV_X_D :: reg_handler where
  "exec_FMV_X_D i h = wr_rd i (fd1 i h) h"

definition exec_FMV_D_X :: reg_handler where
  "exec_FMV_D_X i h = (done4, set_fpr (rd i) (r1 i h) h)"

definition exec_FEQ_D :: reg_handler where
  "exec_FEQ_D i h =
     (if issnan_d (fd1 i h) \<or> issnan_d (fd2 i h) then wr_rd i 0 (raise_flag 4 h)
      else wr_rd i (if fp_eq (dbl (fd1 i h)) (dbl (fd2 i h)) then 1 else 0) h)"

definition exec_FLT_D :: reg_handler where
  "exec_FLT_D i h =
     (if is_nan (dbl (fd1 i h)) \<or> is_nan (dbl (fd2 i h)) then wr_rd i 0 (raise_flag 4 h)
      else wr_rd i (if fp_less (dbl (fd1 i h)) (dbl (fd2 i h)) then 1 else 0) h)"

definition exec_FLE_D :: reg_handler where
  "exec_FLE_D i h =
     (if is_nan (dbl (fd1 i h)) \<or> is_nan (dbl (fd2 i h)) then wr_rd i 0 (raise_flag 4 h)
      else wr_rd i (if fp_le (dbl (fd1 i h)) (dbl (fd2 i h)) then 1 else 0) h)"

definition exec_FCLASS_D :: reg_handler where
  "exec_FCLASS_D i h =
     wr_rd i (fclass binary64 (fd1 i h AND 0x8000000000000000 \<noteq> 0) (fd1 i h AND 0x0008000000000000 \<noteq> 0)
       (dbl (fd1 i h))) h"

section \<open>Loads and stores\<close>

definition exec_FLD :: vm_handler where
  "exec_FLD n i v =
     (let addr = r1 i (hart_of n v) + imm i in
      and_then (mmio_read n addr MS_Long False v) (\<lambda>(success, val, v).
        Inr (ER (mem_success success) False 4 (exc_code success) (mem_tval success),
             if mem_success success then upd_hart n (set_fpr (rd i) val) v else v)))"

definition exec_FSD :: vm_handler where
  "exec_FSD n i v =
     (let addr = r1 i (hart_of n v) + imm i; val = fd2 i (hart_of n v) in
      and_then (mmio_write n addr MS_Long val False v) (\<lambda>(out, v).
        Inr (ER (mem_success out) False 4 (exc_code out) (mem_tval out), v)))"

section \<open>Dispatch\<close>

fun exec_d :: "op_d \<Rightarrow> vm_handler" where
  "exec_d H_FMADD_D = exec_FMADD_D"
| "exec_d H_FMSUB_D = exec_FMSUB_D"
| "exec_d H_FNMADD_D = exec_FNMADD_D"
| "exec_d H_FNMSUB_D = exec_FNMSUB_D"
| "exec_d H_FADD_D = exec_FADD_D"
| "exec_d H_FSUB_D = exec_FSUB_D"
| "exec_d H_FMUL_D = exec_FMUL_D"
| "exec_d H_FDIV_D = exec_FDIV_D"
| "exec_d H_FSQRT_D = exec_FSQRT_D"
| "exec_d H_FSGNJ_D = on_hart exec_FSGNJ_D"
| "exec_d H_FSGNJN_D = on_hart exec_FSGNJN_D"
| "exec_d H_FSGNJX_D = on_hart exec_FSGNJX_D"
| "exec_d H_FMIN_D = on_hart exec_FMIN_D"
| "exec_d H_FMAX_D = on_hart exec_FMAX_D"
| "exec_d H_FCVT_S_D = exec_FCVT_S_D"
| "exec_d H_FCVT_D_S = on_hart exec_FCVT_D_S"
| "exec_d H_FCVT_W_D = exec_FCVT_W_D"
| "exec_d H_FCVT_WU_D = exec_FCVT_WU_D"
| "exec_d H_FCVT_D_W = exec_FCVT_D_W"
| "exec_d H_FCVT_D_WU = exec_FCVT_D_WU"
| "exec_d H_FCVT_L_D = exec_FCVT_L_D"
| "exec_d H_FCVT_LU_D = exec_FCVT_LU_D"
| "exec_d H_FCVT_D_L = exec_FCVT_D_L"
| "exec_d H_FCVT_D_LU = exec_FCVT_D_LU"
| "exec_d H_FMV_X_D = on_hart exec_FMV_X_D"
| "exec_d H_FMV_D_X = on_hart exec_FMV_D_X"
| "exec_d H_FEQ_D = on_hart exec_FEQ_D"
| "exec_d H_FLT_D = on_hart exec_FLT_D"
| "exec_d H_FLE_D = on_hart exec_FLE_D"
| "exec_d H_FCLASS_D = on_hart exec_FCLASS_D"
| "exec_d H_FLD = exec_FLD"
| "exec_d H_FSD = exec_FSD"

end
