(* ===== verification/Float_Correct.thy ===== *)
theory Float_Correct
  imports Complex_Main Bus Rv64d
begin

text \<open>
  What the arithmetic of the D extension means in rational numbers. The first part shows that the
  rounding step of the host model gives, for every exact value, the number of the format that the
  direction asks for; the second part carries this to the instructions of src/sets/rv64d.cpp.
\<close>

section \<open>Values of a format\<close>

fun fp_rat :: "fp_value \<Rightarrow> rat" where
  "fp_rat (FP_fin s m e) = of_int (fin_int s m) * 2 powi e"
| "fp_rat x = 0"

fun is_fin :: "fp_value \<Rightarrow> bool" where
  "is_fin (FP_fin s m e) = True"
| "is_fin x = False"

definition format_ok :: "fp_format \<Rightarrow> bool" where
  "format_ok f \<longleftrightarrow> 2 \<le> fprec f \<and> 2 \<le> fexpw f"

text \<open>\<open>r\<close> is \<open>z\<close> rounded to the format in a direction: no number of the format is closer, or between them.\<close>

definition rounded_to :: "fp_format \<Rightarrow> host_round \<Rightarrow> rat \<Rightarrow> rat \<Rightarrow> bool" where
  "rounded_to f rm z r \<longleftrightarrow>
     (let vals = {fp_rat (fp_decode f b) | b. is_fin (fp_decode f b)} in
      r \<in> vals \<and>
      (case rm of
         FE_TONEAREST \<Rightarrow> \<forall>d \<in> vals. \<bar>r - z\<bar> \<le> \<bar>d - z\<bar>
       | FE_TOWARDZERO \<Rightarrow> \<bar>r\<bar> \<le> \<bar>z\<bar> \<and> 0 \<le> r * z \<and> (\<forall>d \<in> vals. \<bar>d\<bar> \<le> \<bar>z\<bar> \<longrightarrow> \<bar>d\<bar> \<le> \<bar>r\<bar>)
       | FE_DOWNWARD \<Rightarrow> r \<le> z \<and> (\<forall>d \<in> vals. d \<le> z \<longrightarrow> d \<le> r)
       | FE_UPWARD \<Rightarrow> z \<le> r \<and> (\<forall>d \<in> vals. z \<le> d \<longrightarrow> r \<le> d)))"

section \<open>Powers of two\<close>

lemma powi_split: "(2 :: rat) powi (a + b) = 2 powi a * 2 powi b"
  by (simp add: power_int_add)

lemma powi_pos [simp]:
  "0 < (2 :: rat) powi e" "\<not> (2 :: rat) powi e < 0" "\<not> (2 :: rat) powi e \<le> 0"
proof -
  show "0 < (2 :: rat) powi e" by simp
  then show "\<not> (2 :: rat) powi e < 0" "\<not> (2 :: rat) powi e \<le> 0" by linarith+
qed

lemma powi_nat_diff: "q \<le> e \<Longrightarrow> (2 :: rat) powi e = 2 ^ nat (e - q) * 2 powi q"
  by (metis add_diff_cancel_left' diff_add_cancel diff_ge_0_iff_ge mult.commute power_int_nonneg_exp powi_split)

lemma bitlen_bounds: "0 < m \<Longrightarrow> 0 < bitlen m \<and> 2 ^ (bitlen m - 1) \<le> m \<and> m < 2 ^ bitlen m"
proof (induction m rule: bitlen.induct)
  case (1 m)
  show ?case
  proof (cases "m = 1")
    case True
    then show ?thesis by (simp add: bitlen.simps)
  next
    case False
    with 1 have "2 ^ (bitlen (m div 2) - 1) \<le> m div 2" "m div 2 < 2 ^ bitlen (m div 2)" "0 < bitlen (m div 2)"
      by auto
    moreover have "bitlen m = Suc (bitlen (m div 2))" using 1(2) by (subst bitlen.simps) simp
    moreover obtain j where "bitlen (m div 2) = Suc j" using calculation(3) gr0_implies_Suc by blast
    ultimately show ?thesis by auto
  qed
qed

section \<open>Rounding to a grid\<close>

text \<open>The amount \<open>t\<close> above the grid point below decides whether the next one is taken.\<close>

definition goes_up :: "host_round \<Rightarrow> bool \<Rightarrow> rat \<Rightarrow> rat \<Rightarrow> bool \<Rightarrow> bool" where
  "goes_up rm s t g up \<longleftrightarrow>
     (case rm of
        FE_TONEAREST \<Rightarrow> (if up then g \<le> 2 * t else 2 * t \<le> g)
      | FE_TOWARDZERO \<Rightarrow> \<not> up
      | FE_DOWNWARD \<Rightarrow> up = (s \<and> t \<noteq> 0)
      | FE_UPWARD \<Rightarrow> up = (\<not> s \<and> t \<noteq> 0))"

lemma to_grid_split:
  assumes "to_grid rm s m e q = (n, inexact)"
  shows "\<exists>n0 t up. n = n0 + of_bool up \<and> of_nat m * 2 powi e = of_nat n0 * 2 powi q + t \<and>
    0 \<le> t \<and> t < 2 powi q \<and> (inexact \<longleftrightarrow> t \<noteq> 0) \<and> goes_up rm s t (2 powi q) up \<and>
    (if q \<le> e then n0 = m * 2 ^ nat (e - q) else n0 = m div 2 ^ nat (q - e))"
proof (cases "q \<le> e")
  case True
  with assms have n: "n = m * 2 ^ nat (e - q)" "\<not> inexact" by (simp_all add: to_grid_def)
  have "of_nat m * 2 powi e = of_nat n * (2 :: rat) powi q" using n powi_nat_diff [OF True] by simp
  then show ?thesis
    using n True
    by (intro exI [of _ n] exI [of _ 0] exI [of _ False]) (auto simp: goes_up_def split: host_round.split)
next
  case False
  define k where "k = nat (q - e)"
  let ?n0 = "m div 2 ^ k" let ?r = "m mod 2 ^ k" let ?up = "round_away rm s ?n0 ?r k"
  have n: "n = ?n0 + of_bool ?up" "inexact \<longleftrightarrow> ?r \<noteq> 0"
    using assms False by (simp_all add: to_grid_def cut_def k_def Let_def)
  have g: "(2 :: rat) powi q = 2 ^ k * 2 powi e" using powi_nat_diff [of e q] False by (simp add: k_def)
  have pos: "(0 :: rat) < 2 powi e" by simp
  have "(of_nat m :: rat) = of_nat (?n0 * 2 ^ k + ?r)" by (simp only: div_mult_mod_eq)
  then have "(of_nat m :: rat) = of_nat ?n0 * 2 ^ k + of_nat ?r" by simp
  then have z: "of_nat m * 2 powi e = of_nat ?n0 * (2 :: rat) powi q + of_nat ?r * 2 powi e"
    by (simp add: g algebra_simps)
  have r: "(of_nat ?r :: rat) < 2 ^ k"
  proof -
    have "of_nat ?r < (of_nat (2 ^ k) :: rat)" unfolding of_nat_less_iff by simp
    then show ?thesis by simp
  qed
  have half: "(2 ^ k < 2 * ?r) = (2 powi q < 2 * (of_nat ?r * (2 :: rat) powi e))"
    "(2 * ?r = 2 ^ k) = (2 * (of_nat ?r * (2 :: rat) powi e) = 2 powi q)"
  proof -
    have "(2 ^ k < 2 * ?r) = ((of_nat (2 ^ k) :: rat) < of_nat (2 * ?r))"
      "(2 * ?r = 2 ^ k) = ((of_nat (2 * ?r) :: rat) = of_nat (2 ^ k))"
      by (simp_all only: of_nat_less_iff of_nat_eq_iff)
    then have "(2 ^ k < 2 * ?r) = ((2 :: rat) ^ k < 2 * of_nat ?r)" "(2 * ?r = 2 ^ k) = (2 * (of_nat ?r :: rat) = 2 ^ k)"
      by simp_all
    then show "(2 ^ k < 2 * ?r) = (2 powi q < 2 * (of_nat ?r * (2 :: rat) powi e))"
      "(2 * ?r = 2 ^ k) = (2 * (of_nat ?r * (2 :: rat) powi e) = 2 powi q)"
      using pos unfolding g by (simp_all add: mult.assoc [symmetric])
  qed
  have "goes_up rm s (of_nat ?r * 2 powi e) (2 powi q) ?up"
    by (cases rm) (auto simp: goes_up_def round_away_def half)
  then show ?thesis
    using n z r pos g False
    by (intro exI [of _ ?n0] exI [of _ "of_nat ?r * 2 powi e"] exI [of _ ?up]) (auto simp: k_def)
qed

text \<open>Between neighbouring points of the grid that \<open>grid_exp\<close> chooses lies no number of the format.\<close>

lemma grid_gap:
  assumes "k < 2 ^ p" and "l \<le> e" and "l \<le> q" and "q = l \<or> 2 ^ (p - 1) \<le> n0" and "0 < p"
  shows "of_nat k * 2 powi e \<le> of_nat n0 * (2 :: rat) powi q \<or> of_nat (n0 + 1) * (2 :: rat) powi q \<le> of_nat k * 2 powi e"
proof (cases "q \<le> e")
  case True
  have "of_nat k * (2 :: rat) powi e = of_nat (k * 2 ^ nat (e - q)) * 2 powi q"
    using powi_nat_diff [OF True] by simp
  moreover have "0 \<le> (2 :: rat) powi q" by simp
  moreover have "k * 2 ^ nat (e - q) \<le> n0 \<or> n0 + 1 \<le> k * 2 ^ nat (e - q)" by linarith
  ultimately show ?thesis by (metis mult_right_mono of_nat_mono)
next
  case False
  then have n0: "2 ^ (p - 1) \<le> n0" using assms by auto
  have "k * 2 \<le> 2 ^ p * 2" using assms(1) by simp
  have "of_nat k * 2 powi e \<le> 2 ^ p * (2 :: rat) powi e"
    using assms(1) by (intro mult_right_mono) (simp_all flip: of_nat_power)
  also have "2 ^ p * (2 :: rat) powi e \<le> 2 ^ (p - 1) * 2 powi q"
  proof -
    have "(2 :: rat) powi q = 2 ^ nat (q - e) * 2 powi e" using powi_nat_diff [of e q] False by simp
    moreover have "(2 :: rat) ^ p \<le> 2 ^ (p - 1) * 2 ^ nat (q - e)"
      unfolding power_add [symmetric] using False assms(5) by (intro power_increasing) auto
    ultimately show ?thesis by (simp add: mult.assoc [symmetric])
  qed
  also have "2 ^ (p - 1) * (2 :: rat) powi q \<le> of_nat n0 * 2 powi q"
    using n0 by (intro mult_right_mono) (metis of_nat_le_iff of_nat_numeral of_nat_power, simp)
  finally show ?thesis by simp
qed

section \<open>Packing\<close>

lemma inf_mag_less:
  assumes "format_ok f"
  shows "inf_mag f < sign_weight f"
proof -
  obtain p where p: "fprec f = Suc p" using assms by (cases "fprec f") (auto simp: format_ok_def)
  have "inf_mag f < 2 ^ fexpw f * 2 ^ (fprec f - 1)" unfolding inf_mag_def by (intro mult_strict_right_mono) auto
  also have "\<dots> = sign_weight f" by (simp add: sign_weight_def p power_add)
  finally show ?thesis .
qed

lemma fp_decode_pack:
  assumes "format_ok f" and "mag < inf_mag f"
  shows "fp_decode f (fp_pack f s mag) =
    (if mag div 2 ^ (fprec f - 1) = 0 then FP_fin s (mag mod 2 ^ (fprec f - 1)) (lsb_exp f)
     else FP_fin s (mag mod 2 ^ (fprec f - 1) + 2 ^ (fprec f - 1)) (lsb_exp f + int (mag div 2 ^ (fprec f - 1)) - 1))"
proof -
  have "mag < sign_weight f" using assms inf_mag_less by fastforce
  then have "fp_pack f s mag div sign_weight f = of_bool s" "fp_pack f s mag mod sign_weight f = mag"
    by (auto simp: fp_pack_def)
  with assms(2) show ?thesis by (simp add: fp_decode_def Let_def)
qed

lemma fp_decode_bounds:
  assumes "fp_decode f b = FP_fin s m e" and "format_ok f"
  shows "m < 2 ^ fprec f \<and> lsb_exp f \<le> e"
proof -
  obtain p where p: "fprec f = Suc p" using assms(2) by (cases "fprec f") (auto simp: format_ok_def)
  have "x mod 2 ^ p < 2 ^ p" "x mod 2 ^ p < 2 ^ Suc p" "x mod 2 ^ p + 2 ^ p < 2 ^ Suc p" for x :: nat
    by (simp_all add: less_le_trans [of _ "2 ^ p"])
  with assms(1) show ?thesis
    by (auto simp: fp_decode_def Let_def p split: if_splits)
qed

text \<open>The pattern that \<open>round_pack\<close> builds stands for \<open>n * 2 ^ q\<close>, a carry into the next binade included.\<close>

lemma pack_grid_value:
  assumes ok: "format_ok f" and q: "lsb_exp f \<le> q" "q = lsb_exp f \<or> 2 ^ (fprec f - 1) \<le> n" and n: "n \<le> 2 ^ fprec f"
    and mag: "mag = nat (q - lsb_exp f) * 2 ^ (fprec f - 1) + n" "mag < inf_mag f"
  shows "is_fin (fp_decode f (fp_pack f s mag)) \<and>
    fp_rat (fp_decode f (fp_pack f s mag)) = of_int (fin_int s n) * 2 powi q"
proof -
  obtain p where p: "fprec f = Suc p" using ok by (cases "fprec f") (auto simp: format_ok_def)
  define d where "d = nat (q - lsb_exp f)"
  have qd: "q = lsb_exp f + int d" using q(1) by (simp add: d_def)
  have m: "mag = d * 2 ^ p + n" using mag(1) by (simp add: p d_def)
  have fi: "of_int (fin_int s (x * y)) = of_int (fin_int s x) * (of_nat y :: rat)" for x y by (simp add: fin_int_def)
  consider "n < 2 ^ p" "d = 0" | "2 ^ p \<le> n" "n < 2 ^ Suc p" | "n = 2 ^ Suc p"
    using q(2) n p qd by (cases "n < 2 ^ p"; cases "n = 2 ^ Suc p") auto
  then show ?thesis
  proof cases
    case 1
    then have "mag div 2 ^ p = 0" "mag mod 2 ^ p = n" using m by auto
    with 1 show ?thesis by (simp add: fp_decode_pack [OF ok mag(2)] p qd)
  next
    case 2
    then obtain x where x: "n = x + 2 ^ p" "x < 2 ^ p" using le_Suc_ex [of "2 ^ p" n] by (auto simp: add.commute)
    have mx: "mag = x + (d + 1) * 2 ^ p" using m x by simp
    have "(x + (d + 1) * 2 ^ p) div 2 ^ p = d + 1 + x div 2 ^ p" by (rule div_mult_self1) simp
    moreover have "(x + (d + 1) * 2 ^ p) mod 2 ^ p = x mod 2 ^ p" by (rule mod_mult_self1)
    ultimately have "mag div 2 ^ p = d + 1" "mag mod 2 ^ p = x" unfolding mx using x(2) by simp_all
    with x show ?thesis by (simp add: fp_decode_pack [OF ok mag(2)] p qd)
  next
    case 3
    have "mag = (d + 2) * 2 ^ p" using m 3 by simp
    then have "mag div 2 ^ p = d + 2" "mag mod 2 ^ p = 0" by (simp_all del: mult_Suc)
    moreover have "(2 :: rat) powi (lsb_exp f + int (d + 2) - 1) = 2 * 2 powi q"
      using powi_split [of 1 q] by (simp add: qd algebra_simps)
    ultimately show ?thesis
      using 3 by (simp add: fp_decode_pack [OF ok mag(2)] p qd fin_int_def algebra_simps)
  qed
qed

section \<open>Correct rounding\<close>

text \<open>Rounding between neighbours \<open>a\<close> and \<open>a + g\<close>, with no value of the format between them.\<close>

lemma neighbours_rounded:
  fixes a t g :: rat
  assumes t: "0 \<le> t" "t < g" and a: "0 \<le> a" and up: "goes_up rm s t g up"
    and gap: "\<And>d. d \<in> vals \<Longrightarrow> d \<le> a \<or> a + g \<le> d" and sym: "\<And>d. d \<in> vals \<Longrightarrow> - d \<in> vals"
  defines "r \<equiv> a + (if up then g else 0)" and "z \<equiv> a + t"
  defines "sg \<equiv> (if s then - 1 else 1 :: rat)"
  shows "case rm of
      FE_TONEAREST \<Rightarrow> \<forall>d \<in> vals. \<bar>sg * r - sg * z\<bar> \<le> \<bar>d - sg * z\<bar>
    | FE_TOWARDZERO \<Rightarrow> \<bar>sg * r\<bar> \<le> \<bar>sg * z\<bar> \<and> 0 \<le> sg * r * (sg * z) \<and> (\<forall>d \<in> vals. \<bar>d\<bar> \<le> \<bar>sg * z\<bar> \<longrightarrow> \<bar>d\<bar> \<le> \<bar>sg * r\<bar>)
    | FE_DOWNWARD \<Rightarrow> sg * r \<le> sg * z \<and> (\<forall>d \<in> vals. d \<le> sg * z \<longrightarrow> d \<le> sg * r)
    | FE_UPWARD \<Rightarrow> sg * z \<le> sg * r \<and> (\<forall>d \<in> vals. sg * z \<le> d \<longrightarrow> sg * r \<le> d)"
proof -
  have g2: "(d \<le> a \<or> a + g \<le> d) \<and> (- d \<le> a \<or> a + g \<le> - d)" if "d \<in> vals" for d
    using gap [OF that] gap [OF sym [OF that]] by simp
  show ?thesis
  proof (cases rm)
    case FE_TONEAREST
    have "\<bar>sg * r - sg * z\<bar> \<le> \<bar>d - sg * z\<bar>" if "d \<in> vals" for d
      using g2 [OF that] t up FE_TONEAREST
      by (cases s; cases up) (auto simp: r_def z_def sg_def goes_up_def)
    with FE_TONEAREST show ?thesis by simp
  next
    case FE_TOWARDZERO
    have "\<bar>d\<bar> \<le> \<bar>sg * r\<bar>" if "d \<in> vals" "\<bar>d\<bar> \<le> \<bar>sg * z\<bar>" for d
      using g2 [OF that(1)] that(2) t a up FE_TOWARDZERO
      by (cases s; cases up) (auto simp: r_def z_def sg_def goes_up_def)
    moreover have "\<bar>sg * r\<bar> \<le> \<bar>sg * z\<bar>" "0 \<le> sg * r * (sg * z)"
      using t a up FE_TOWARDZERO
      by (auto simp: r_def z_def sg_def goes_up_def algebra_simps intro: add_nonneg_nonneg mult_nonneg_nonneg)
    ultimately show ?thesis using FE_TOWARDZERO by simp
  next
    case FE_DOWNWARD
    have "d \<le> sg * r" if "d \<in> vals" "d \<le> sg * z" for d
      using g2 [OF that(1)] that(2) t a up FE_DOWNWARD
      by (cases s; cases up) (auto simp: r_def z_def sg_def goes_up_def)
    moreover have "sg * r \<le> sg * z"
      using t a up FE_DOWNWARD by (cases s) (auto simp: r_def z_def sg_def goes_up_def)
    ultimately show ?thesis using FE_DOWNWARD by simp
  next
    case FE_UPWARD
    have "sg * r \<le> d" if "d \<in> vals" "sg * z \<le> d" for d
      using g2 [OF that(1)] that(2) t a up FE_UPWARD
      by (cases s; cases up) (auto simp: r_def z_def sg_def goes_up_def)
    moreover have "sg * z \<le> sg * r"
      using t a up FE_UPWARD by (cases s) (auto simp: r_def z_def sg_def goes_up_def)
    ultimately show ?thesis using FE_UPWARD by simp
  qed
qed

definition fp_vals :: "fp_format \<Rightarrow> rat set" where
  "fp_vals f = {fp_rat (fp_decode f b) | b. is_fin (fp_decode f b)}"

lemma fp_vals_gap:
  assumes "format_ok f" and "lsb_exp f \<le> q" and "q = lsb_exp f \<or> 2 ^ (fprec f - 1) \<le> n0" and "d \<in> fp_vals f"
  shows "d \<le> of_nat n0 * 2 powi q \<or> of_nat n0 * 2 powi q + 2 powi q \<le> d"
proof -
  obtain b s m e where dec: "fp_decode f b = FP_fin s m e" and d: "d = of_int (fin_int s m) * 2 powi e"
    using assms(4) unfolding fp_vals_def by (auto elim: is_fin.elims)
  have p: "0 < fprec f" using assms(1) by (simp add: format_ok_def)
  show ?thesis
  proof (cases s)
    case True
    then have "d \<le> 0" by (simp add: d fin_int_def)
    also have "(0 :: rat) \<le> of_nat n0 * 2 powi q" by simp
    finally show ?thesis by simp
  next
    case False
    with grid_gap [of m "fprec f" "lsb_exp f" e q n0] fp_decode_bounds [OF dec assms(1)] assms(2,3) p
    show ?thesis by (simp add: d fin_int_def algebra_simps)
  qed
qed

lemma fp_vals_neg:
  assumes "format_ok f" and "d \<in> fp_vals f"
  shows "- d \<in> fp_vals f"
proof -
  obtain b s m e where dec: "fp_decode f b = FP_fin s m e" and d: "d = of_int (fin_int s m) * 2 powi e"
    using assms(2) unfolding fp_vals_def by (auto elim: is_fin.elims)
  let ?mag = "b mod sign_weight f"
  have mag: "?mag < inf_mag f" using dec by (auto simp: fp_decode_def Let_def split: if_splits)
  have "fp_decode f (fp_pack f (\<not> s) ?mag) = FP_fin (\<not> s) m e"
    using dec mag unfolding fp_decode_pack [OF assms(1) mag]
    by (auto simp: fp_decode_def Let_def split: if_splits)
  moreover have "- d = fp_rat (FP_fin (\<not> s) m e)" by (auto simp: d fin_int_def)
  ultimately show ?thesis unfolding fp_vals_def by (metis (mono_tags, lifting) CollectI is_fin.simps(1))
qed

text \<open>How many bits of the significand the chosen grid keeps.\<close>

lemma grid_exp_bounds:
  fixes e :: int
  assumes "format_ok f" and "0 < m"
  defines "q \<equiv> grid_exp f m e"
  defines "n0 \<equiv> (if q \<le> e then m * 2 ^ nat (e - q) else m div 2 ^ nat (q - e))"
  shows "lsb_exp f \<le> q" and "q = lsb_exp f \<or> 2 ^ (fprec f - 1) \<le> n0" and "n0 < 2 ^ fprec f"
proof -
  let ?p = "fprec f" let ?l = "bitlen m"
  have bl: "0 < ?l" "2 ^ (?l - 1) \<le> m" "m < 2 ^ ?l" using bitlen_bounds [OF assms(2)] by auto
  have p: "0 < ?p" using assms(1) by (simp add: format_ok_def)
  show "lsb_exp f \<le> q" by (simp add: q_def grid_exp_def)
  have q: "e + int ?l - int ?p \<le> q" "q \<noteq> lsb_exp f \<Longrightarrow> q = e + int ?l - int ?p"
    by (auto simp: q_def grid_exp_def)
  show "n0 < 2 ^ ?p"
  proof (cases "q \<le> e")
    case True
    have "m * 2 ^ nat (e - q) < 2 ^ ?l * 2 ^ nat (e - q)" using bl(3) by simp
    also have "\<dots> \<le> 2 ^ ?p" unfolding power_add [symmetric] using q(1) True by (intro power_increasing) auto
    finally show ?thesis using True by (simp add: n0_def)
  next
    case False
    have "m < 2 ^ ?l" by (rule bl(3))
    also have "(2 :: nat) ^ ?l \<le> 2 ^ ?p * 2 ^ nat (q - e)"
      unfolding power_add [symmetric] using q(1) False by (intro power_increasing) auto
    finally show ?thesis using False by (simp add: n0_def less_mult_imp_div_less)
  qed
  show "q = lsb_exp f \<or> 2 ^ (?p - 1) \<le> n0"
  proof (cases "q = lsb_exp f")
    case ne: False
    show ?thesis
    proof (cases "q \<le> e")
      case True
      have "(2 :: nat) ^ (?p - 1) = 2 ^ (?l - 1) * 2 ^ nat (e - q)"
        unfolding power_add [symmetric] using q(2) [OF ne] bl(1) p True by (intro arg_cong [of _ _ "power 2"]) auto
      with bl(2) True show ?thesis by (simp add: n0_def)
    next
      case False
      have "(2 :: nat) ^ (?p - 1) * 2 ^ nat (q - e) = 2 ^ (?l - 1)"
        unfolding power_add [symmetric] using q(2) [OF ne] bl(1) p False by (intro arg_cong [of _ _ "power 2"]) auto
      with bl(2) False show ?thesis by (simp add: n0_def less_eq_div_iff_mult_less_eq)
    qed
  qed simp
qed

lemma round_pack_correct:
  assumes ok: "format_ok f" and m: "0 < m" and r: "round_pack rm f s m e = (b, ex)" and no: "\<not> fe_overflow ex"
  shows "is_fin (fp_decode f b) \<and> rounded_to f rm (of_int (fin_int s m) * 2 powi e) (fp_rat (fp_decode f b)) \<and>
    (fe_inexact ex \<longleftrightarrow> fp_rat (fp_decode f b) \<noteq> of_int (fin_int s m) * 2 powi e)"
proof -
  define q where "q = grid_exp f m e"
  obtain n inexact where g: "to_grid rm s m e q = (n, inexact)" by fastforce
  then obtain n0 t up where n: "n = n0 + of_bool up" and z: "of_nat m * 2 powi e = of_nat n0 * 2 powi q + t"
    and t: "0 \<le> t" "t < 2 powi q" "inexact \<longleftrightarrow> t \<noteq> 0" and up: "goes_up rm s t (2 powi q) up"
    and n0: "if q \<le> e then n0 = m * 2 ^ nat (e - q) else n0 = m div 2 ^ nat (q - e)"
    using to_grid_split by blast
  have bounds: "lsb_exp f \<le> q" "q = lsb_exp f \<or> 2 ^ (fprec f - 1) \<le> n0" "n0 < 2 ^ fprec f"
    using grid_exp_bounds [OF ok m, of e] n0 by (auto simp: q_def [symmetric] split: if_splits)
  define mag where "mag = nat (q - lsb_exp f) * 2 ^ (fprec f - 1) + n"
  have b: "mag < inf_mag f" "b = fp_pack f s mag" "fe_inexact ex = inexact"
    using r no g by (auto simp: round_pack_def Let_def q_def [symmetric] mag_def no_except_def split: if_splits)
  have val: "is_fin (fp_decode f b)" "fp_rat (fp_decode f b) = of_int (fin_int s n) * 2 powi q"
    using pack_grid_value [OF ok bounds(1) _ _ mag_def b(1)] bounds n b(2) by (auto simp: Suc_le_eq)
  define sg :: rat where "sg = (if s then - 1 else 1)"
  let ?a = "of_nat n0 * (2 :: rat) powi q"
  have res: "fp_rat (fp_decode f b) = sg * (?a + (if up then 2 powi q else 0))"
    unfolding val(2) n by (auto simp: sg_def fin_int_def algebra_simps)
  have ex: "of_int (fin_int s m) * 2 powi e = sg * (?a + t)"
    unfolding z [symmetric] by (auto simp: sg_def fin_int_def)
  have "fp_rat (fp_decode f b) \<in> fp_vals f" using val(1) unfolding fp_vals_def by blast
  then have "rounded_to f rm (of_int (fin_int s m) * 2 powi e) (fp_rat (fp_decode f b))"
    using neighbours_rounded [OF t(1,2) _ up fp_vals_gap [OF ok bounds(1,2)] fp_vals_neg [OF ok]]
    unfolding rounded_to_def fp_vals_def [symmetric] Let_def res ex sg_def [symmetric] by simp
  moreover have "inexact \<longleftrightarrow> fp_rat (fp_decode f b) \<noteq> of_int (fin_int s m) * 2 powi e"
    unfolding res ex using t up by (auto simp: sg_def goes_up_def split: host_round.splits)
  ultimately show ?thesis using val(1) b(3) by blast
qed

text \<open>Overflow is reported only when the exact value lies beyond every number of the format.\<close>

lemma fp_vals_bound:
  assumes ok: "format_ok f" and q: "lsb_exp f \<le> q" "q = lsb_exp f \<or> 2 ^ (fprec f - 1) \<le> n"
    and big: "inf_mag f \<le> nat (q - lsb_exp f) * 2 ^ (fprec f - 1) + n" "n \<le> 2 ^ fprec f" and d: "d \<in> fp_vals f"
  shows "\<bar>d\<bar> < of_nat n * 2 powi q"
proof -
  obtain b s k e where dec: "fp_decode f b = FP_fin s k e" and de: "d = of_int (fin_int s k) * 2 powi e"
    using d unfolding fp_vals_def by (auto elim: is_fin.elims)
  obtain p where p: "fprec f = Suc p" using ok by (cases "fprec f") (auto simp: format_ok_def)
  have "2 ^ 2 \<le> (2 :: nat) ^ fexpw f" using ok by (intro power_increasing) (auto simp: format_ok_def)
  then have "2 ^ fexpw f = (2 ^ fexpw f - 3) + (3 :: nat)" "1 \<le> 2 ^ fexpw f - (3 :: nat)" by auto
  then obtain w :: nat where w: "2 ^ fexpw f = w + 3" "1 \<le> w" by blast
  have "b mod sign_weight f div 2 ^ p < w + 2"
  proof (rule less_mult_imp_div_less)
    show "b mod sign_weight f < (w + 2) * 2 ^ p"
      using dec by (auto simp: fp_decode_def Let_def inf_mag_def p w split: if_splits)
  qed
  then have e: "e \<le> lsb_exp f + int w"
    using dec by (auto simp: fp_decode_def Let_def p split: if_splits)
  define D where "D = nat (q - lsb_exp f)"
  have qD: "q = lsb_exp f + int D" using q(1) by (simp add: D_def)
  have nat_le: "2 ^ Suc p * 2 ^ w \<le> n * 2 ^ D"
  proof (cases "w + 1 \<le> D")
    case True
    have "2 ^ p \<le> n" using q(2) True p qD by auto
    moreover have "(2 :: nat) ^ (w + 1) \<le> 2 ^ D" using True by (intro power_increasing) auto
    ultimately have "2 ^ p * 2 ^ (w + 1) \<le> n * 2 ^ D" by (intro mult_le_mono)
    then show ?thesis by simp
  next
    case False
    have h: "(w + 2) * 2 ^ p \<le> D * 2 ^ p + n" using big(1) by (simp add: inf_mag_def p w D_def)
    have "w \<le> D"
    proof (rule ccontr)
      assume "\<not> w \<le> D"
      then obtain j where "w = D + Suc j" using less_imp_Suc_add [of D w] by auto
      then have "(w + 2) * 2 ^ p = D * 2 ^ p + 3 * 2 ^ p + j * 2 ^ p" by (simp add: add_mult_distrib)
      with h big(2) have "3 * 2 ^ p + j * 2 ^ p \<le> 2 * (2 :: nat) ^ p" unfolding p power_Suc by linarith
      moreover have "0 < (2 :: nat) ^ p" by simp
      ultimately show False by linarith
    qed
    with False have "D = w" by simp
    with h have "2 ^ Suc p \<le> n" by (simp add: add_mult_distrib)
    with \<open>D = w\<close> show ?thesis by simp
  qed
  have "\<bar>d\<bar> = of_nat k * 2 powi e" by (simp add: de fin_int_def abs_mult)
  also have "\<dots> < 2 ^ Suc p * 2 powi e"
  proof (rule mult_strict_right_mono)
    have "(of_nat k :: rat) < of_nat (2 ^ Suc p)"
      unfolding of_nat_less_iff using fp_decode_bounds [OF dec ok] p by simp
    then show "(of_nat k :: rat) < 2 ^ Suc p" by simp
  qed simp
  also have "\<dots> \<le> 2 ^ Suc p * 2 powi (lsb_exp f + int w)"
    using e by (intro mult_left_mono power_int_increasing) auto
  also have "\<dots> = of_nat (2 ^ Suc p * 2 ^ w) * 2 powi lsb_exp f" by (simp add: powi_split)
  also have "\<dots> \<le> of_nat (n * 2 ^ D) * 2 powi lsb_exp f" using nat_le by (intro mult_right_mono of_nat_mono) auto
  also have "\<dots> = of_nat n * 2 powi q" by (simp add: qD powi_split)
  finally show ?thesis .
qed

lemma round_pack_overflow:
  assumes ok: "format_ok f" and m: "0 < m" and r: "round_pack rm f s m e = (b, ex)" and ov: "fe_overflow ex"
  shows "b = fp_pack f s (if to_inf rm s then inf_mag f else inf_mag f - 1) \<and>
    (\<forall>d \<in> fp_vals f. \<bar>d\<bar> < of_nat m * 2 powi e)"
proof -
  define q where "q = grid_exp f m e"
  obtain n inexact where g: "to_grid rm s m e q = (n, inexact)" by fastforce
  then obtain n0 t up where n: "n = n0 + of_bool up" and z: "of_nat m * 2 powi e = of_nat n0 * 2 powi q + t"
    and t: "0 \<le> t" "t < 2 powi q" "inexact \<longleftrightarrow> t \<noteq> 0" and up: "goes_up rm s t (2 powi q) up"
    and n0: "if q \<le> e then n0 = m * 2 ^ nat (e - q) else n0 = m div 2 ^ nat (q - e)"
    using to_grid_split by blast
  have bounds: "lsb_exp f \<le> q" "q = lsb_exp f \<or> 2 ^ (fprec f - 1) \<le> n0" "n0 < 2 ^ fprec f"
    using grid_exp_bounds [OF ok m, of e] n0 by (auto simp: q_def [symmetric] split: if_splits)
  have big: "inf_mag f \<le> nat (q - lsb_exp f) * 2 ^ (fprec f - 1) + n"
    and b: "b = fp_pack f s (if to_inf rm s then inf_mag f else inf_mag f - 1)"
    using r ov g by (auto simp: round_pack_def Let_def q_def [symmetric] no_except_def split: if_splits)
  have "\<bar>d\<bar> < of_nat m * 2 powi e" if d: "d \<in> fp_vals f" for d
  proof -
    have "\<bar>d\<bar> \<in> fp_vals f" using d fp_vals_neg [OF ok d] by (cases "0 \<le> d") auto
    note gap = fp_vals_gap [OF ok bounds(1,2) this]
    have "\<bar>d\<bar> < of_nat n * 2 powi q"
      by (rule fp_vals_bound [OF ok bounds(1) _ big _ d]) (use bounds n in auto)
    moreover have "0 < t" if up using that up t by (auto simp: goes_up_def split: host_round.splits)
    ultimately show ?thesis using gap t unfolding z n by (cases up) (auto simp: algebra_simps)
  qed
  with b show ?thesis by blast
qed

section \<open>Operations on doubles\<close>

lemma binary64_ok: "format_ok binary64"
  by (simp add: format_ok_def binary64_def)

text \<open>
  The outcome of an operation with exact result \<open>z\<close>: without overflow the register holds \<open>z\<close> rounded
  in the direction, and the inexact flag says whether that differs from \<open>z\<close>; overflow is reported
  only beyond the range of the format and gives infinity or the largest number as the direction asks.
\<close>

definition rounds_exact :: "host_round \<Rightarrow> rat \<Rightarrow> u64 \<times> host_except \<Rightarrow> bool" where
  "rounds_exact rm z r \<longleftrightarrow> (case r of (x, ex) \<Rightarrow>
     \<not> fe_invalid ex \<and> \<not> fe_divbyzero ex \<and>
     (if fe_overflow ex
      then x = of_nat (fp_pack binary64 (z < 0) (if to_inf rm (z < 0) then inf_mag binary64 else inf_mag binary64 - 1)) \<and>
        (\<forall>y. is_fin (dbl y) \<longrightarrow> \<bar>fp_rat (dbl y)\<bar> < \<bar>z\<bar>)
      else is_fin (dbl x) \<and> rounded_to binary64 rm z (fp_rat (dbl x)) \<and>
        (fe_inexact ex \<longleftrightarrow> fp_rat (dbl x) \<noteq> z)))"

lemma dbl_of_nat:
  assumes "b < 2 ^ 64"
  shows "dbl (of_nat b) = fp_decode binary64 b"
  using assms by (simp add: dbl_def unat_of_nat)

lemma round_pack_small:
  assumes "round_pack rm binary64 s m e = (b, ex)"
  shows "b < 2 ^ 64"
proof -
  have "inf_mag binary64 < 2 ^ 63" "sign_weight binary64 = 2 ^ 63"
    by (simp_all add: inf_mag_def sign_weight_def binary64_def)
  then have "fp_pack binary64 s k < 2 ^ 64" if "k \<le> inf_mag binary64" for k using that by (simp add: fp_pack_def)
  with assms show ?thesis by (auto simp: round_pack_def Let_def split: if_splits prod.splits)
qed

lemma round_pack_exact:
  assumes m: "0 < m"
  shows "rounds_exact rm (of_int (fin_int s m) * 2 powi e) (as_double (round_pack rm binary64 s m e))"
proof -
  obtain b ex where r: "round_pack rm binary64 s m e = (b, ex)" by fastforce
  have dec: "dbl (of_nat b) = fp_decode binary64 b" by (rule dbl_of_nat [OF round_pack_small [OF r]])
  have sg: "of_int (fin_int s m) * (2 :: rat) powi e < 0 \<longleftrightarrow> s"
    "\<bar>of_int (fin_int s m) * (2 :: rat) powi e\<bar> = of_nat m * 2 powi e"
    using m by (auto simp: fin_int_def abs_mult mult_less_0_iff)
  have "\<not> fe_invalid ex" "\<not> fe_divbyzero ex"
    using r by (auto simp: round_pack_def Let_def no_except_def split: if_splits prod.splits)
  moreover have "fp_rat (dbl y) \<in> fp_vals binary64" if "is_fin (dbl y)" for y
    using that unfolding fp_vals_def dbl_def by blast
  ultimately show ?thesis
    using round_pack_correct [OF binary64_ok m r] round_pack_overflow [OF binary64_ok m r]
    by (simp add: rounds_exact_def r as_double_def dec sg)
qed

lemma zero_exact: "rounds_exact rm 0 (as_double (exact_bits (fp_pack binary64 s 0)))"
proof -
  have mag: "0 < inf_mag binary64" by (simp add: inf_mag_def binary64_def)
  have dec: "fp_decode binary64 (fp_pack binary64 s 0) = FP_fin s 0 (lsb_exp binary64)"
    by (simp add: fp_decode_pack [OF binary64_ok mag])
  have "fp_pack binary64 s 0 < 2 ^ 64" by (simp add: fp_pack_def sign_weight_def binary64_def)
  note d = dbl_of_nat [OF this, unfolded dec]
  have "\<exists>b. fp_rat (fp_decode binary64 b) = 0 \<and> is_fin (fp_decode binary64 b)"
    using dec by (intro exI [of _ "fp_pack binary64 s 0"]) (simp add: fin_int_def)
  then have "rounded_to binary64 rm 0 0"
    by (force simp: rounded_to_def Let_def split: host_round.split)
  then show ?thesis by (simp add: rounds_exact_def as_double_def exact_bits_def d no_except_def fin_int_def)
qed

lemma round_int_exact: "rounds_exact rm (of_int z * 2 powi e) (as_double (round_int rm binary64 s0 z e))"
proof (cases "z = 0")
  case True
  then show ?thesis by (simp add: round_int_def zero_exact)
next
  case False
  have "fin_int (z < 0) (nat \<bar>z\<bar>) = z" by (simp add: fin_int_def)
  with round_pack_exact [of "nat \<bar>z\<bar>" rm "z < 0" e] False show ?thesis by (simp add: round_int_def)
qed

lemma sum_values_exact:
  assumes "is_fin x" "is_fin y"
  shows "rounds_exact rm (fp_rat x + fp_rat y) (as_double (sum_values rm binary64 x y))"
proof -
  obtain s1 m1 e1 s2 m2 e2 where xy: "x = FP_fin s1 m1 e1" "y = FP_fin s2 m2 e2"
    using assms by (auto elim!: is_fin.elims)
  have ce: "of_int (common_exp s m e e') * (2 :: rat) powi min e e' = of_int (fin_int s m) * 2 powi e" for s m e e'
    using powi_nat_diff [of "min e e'" e] by (simp add: common_exp_def)
  have "fp_rat x + fp_rat y = of_int (common_exp s1 m1 e1 e2 + common_exp s2 m2 e2 e1) * 2 powi min e1 e2"
    using ce [of s1 m1 e1 e2] ce [of s2 m2 e2 e1] by (simp add: xy algebra_simps min.commute)
  then show ?thesis using round_int_exact by (simp only: xy sum_values.simps)
qed

lemma is_fin_nan: "is_fin x \<Longrightarrow> \<not> is_nan x"
  by (cases x) simp_all

lemma mul_exact_fin:
  assumes "is_fin x" "is_fin y"
  shows "\<exists>v. mul_exact x y = Some v \<and> is_fin v \<and> fp_rat v = fp_rat x * fp_rat y"
  using assms by (auto elim!: is_fin.elims simp: powi_split fin_int_def)

lemma fp_mul_exact:
  assumes "is_fin x" "is_fin y"
  shows "rounds_exact rm (fp_rat x * fp_rat y) (as_double (fp_mul rm binary64 x y))"
proof -
  obtain s m e where v: "mul_exact x y = Some (FP_fin s m e)" "fp_rat x * fp_rat y = of_int (fin_int s m) * 2 powi e"
    using mul_exact_fin [OF assms] by (auto elim!: is_fin.elims)
  then show ?thesis
    using round_pack_exact [of m rm s e] assms
    by (auto simp: fp_mul_def unless_nan_def is_fin_nan zero_exact fin_int_def)
qed

lemma dbl_neg: "dbl (d_neg x) = fp_neg (dbl x)"
proof -
  have sw: "sign_weight binary64 = 2 ^ 63" by (simp add: sign_weight_def binary64_def)
  have s: "odd (unat y div 2 ^ 63) \<longleftrightarrow> bit y 63" for y :: u64
  proof -
    have "bit y 63 \<longleftrightarrow> bit (uint y) 63" by (simp add: bit_uint_iff)
    also have "\<dots> \<longleftrightarrow> odd (int (unat y div 2 ^ 63))" 
      unfolding bit_iff_odd uint_nat by (simp only: zdiv_int of_nat_power of_nat_numeral)
    finally show ?thesis by simp
  qed
  have m: "unat y mod 2 ^ 63 = unat (take_bit 63 y)" for y :: u64 
    by (simp add: take_bit_eq_mod unat_mod_distrib)
  have "bit (d_neg x) 63 \<longleftrightarrow> \<not> bit x 63" by (simp add: d_neg_def bit_xor_iff)
  moreover have "take_bit 63 (d_neg x) = take_bit 63 x"
  proof (rule bit_word_eqI)
    fix n :: nat
    have "(0x8000000000000000 :: u64) = push_bit 63 1" by simp
    then have "n < 63 \<Longrightarrow> \<not> bit (0x8000000000000000 :: u64) n" by (simp only: bit_push_bit_iff) simp
    then show "bit (take_bit 63 (d_neg x)) n = bit (take_bit 63 x) n" by (auto simp: d_neg_def bit_simps)
  qed
  ultimately have neg: "odd (unat (d_neg x) div 2 ^ 63) \<longleftrightarrow> \<not> odd (unat x div 2 ^ 63)"
    "unat (d_neg x) mod 2 ^ 63 = unat x mod 2 ^ 63"
    unfolding s m by simp_all
  show ?thesis unfolding dbl_def fp_decode_def Let_def sw neg by simp
qed

lemma fp_neg_rat: "is_fin (fp_neg x) = is_fin x" "fp_rat (fp_neg x) = - fp_rat x"
  by (cases x; simp add: fin_int_def)+

lemma fp_fma_exact:
  assumes "is_fin x" "is_fin y" "is_fin z"
  shows "rounds_exact rm (fp_rat x * fp_rat y + fp_rat z) (as_double (fp_fma rm binary64 x y z))"
proof -
  obtain p where p: "mul_exact x y = Some p" "is_fin p" "fp_rat p = fp_rat x * fp_rat y"
    using mul_exact_fin [OF assms(1,2)] by blast
  with sum_values_exact [OF p(2) assms(3), of rm] assms show ?thesis
    by (simp add: fp_fma_def unless_nan_def is_fin_nan)
qed

lemma fp_add_exact:
  assumes "is_fin x" "is_fin y"
  shows "rounds_exact rm (fp_rat x + fp_rat y) (as_double (fp_add rm binary64 x y))"
  using sum_values_exact [OF assms] assms by (simp add: fp_add_def unless_nan_def is_fin_nan)

lemmas d_ops_exact = d_add_def d_sub_def d_mul_def d_fma_def dbl_neg fp_neg_rat fp_add_exact fp_mul_exact fp_fma_exact

text \<open>The result of such an operation is never a NaN.\<close>

lemma rounds_exact_not_nan:
  assumes "rounds_exact rm z (x, ex)"
  shows "\<not> is_nan (dbl x)"
proof (cases "fe_overflow ex")
  case True
  define k where "k = (if to_inf rm (z < 0) then inf_mag binary64 else inf_mag binary64 - 1)"
  have x: "x = of_nat (fp_pack binary64 (z < 0) k)"
    using assms True by (simp add: rounds_exact_def k_def)
  have k: "k \<le> inf_mag binary64" "k < sign_weight binary64"
    using inf_mag_less [OF binary64_ok] by (auto simp: k_def)
  have "fp_pack binary64 (z < 0) k < 2 ^ 64"
    using k(2) by (simp add: fp_pack_def sign_weight_def binary64_def)
  then have "dbl x = fp_decode binary64 (fp_pack binary64 (z < 0) k)" unfolding x by (rule dbl_of_nat)
  moreover have "fp_pack binary64 (z < 0) k mod sign_weight binary64 = k" using k(2) by (simp add: fp_pack_def)
  ultimately show ?thesis using k(1) by (simp add: fp_decode_def Let_def)
next
  case False
  with assms show ?thesis by (simp add: rounds_exact_def is_fin_nan)
qed

section \<open>The instructions\<close>

text \<open>The direction an instruction selects, statically or through frm; \<open>None\<close> for RMM and the reserved codes.\<close>

definition guest_rm :: "u8 \<Rightarrow> hart \<Rightarrow> host_round option" where
  "guest_rm rm h =
     (let c = (if rm = 7 then ucast (frm (fcsr h)) else rm) in
      if c = 0 then Some FE_TONEAREST else if c = 1 then Some FE_TOWARDZERO
      else if c = 2 then Some FE_DOWNWARD else if c = 3 then Some FE_UPWARD else None)"

lemma rm_func_selects:
  assumes "guest_rm (d_rm_f i) (hart_of n v) = Some rm"
  shows "rm_func x (d_rm_f i) n v = Some (x, v\<lparr>host_rm := rm\<rparr>)"
proof -
  define c where "c = (if d_rm_f i = 7 then ucast (frm (fcsr (hart_of n v))) else d_rm_f i)"
  have "(c = 0 \<and> rm = FE_TONEAREST) \<or> (c = 1 \<and> rm = FE_TOWARDZERO) \<or> (c = 2 \<and> rm = FE_DOWNWARD) \<or> (c = 3 \<and> rm = FE_UPWARD)"
    using assms unfolding guest_rm_def Let_def c_def [symmetric] by (metis option.inject option.distinct(1))
  then show ?thesis unfolding rm_func_def Let_def c_def [symmetric] by (elim disjE conjE) simp_all
qed

definition arith_result :: "nat \<Rightarrow> instruction_data \<Rightarrow> host_round \<Rightarrow> rat \<Rightarrow> vm \<Rightarrow> (exec_return \<times> vm) result \<Rightarrow> bool" where
  "arith_result n i rm z v out \<longleftrightarrow>
     (\<exists>x ex. rounds_exact rm z (x, ex) \<and>
        out = Inr (done4, upd_hart n (\<lambda>h. set_fpr (rd i) x (float_end ex h)) (v\<lparr>host_rm := rm\<rparr>)))"

lemma arith_d_result:
  assumes "guest_rm (d_rm_f i) (hart_of n v) = Some rm" and "rounds_exact rm z (op rm (hart_of n v))"
  shows "arith_result n i rm z v (arith_d op n i v)"
proof -
  obtain x ex where r: "op rm (hart_of n v) = (x, ex)" by fastforce
  with assms(2) have ok: "rounds_exact rm z (x, ex)" by simp
  have "arith_d op n i v = Inr (done4, upd_hart n (\<lambda>h. set_fpr (rd i) x (float_end ex h)) (v\<lparr>host_rm := rm\<rparr>))"
    using rm_func_selects [OF assms(1)] r rounds_exact_not_nan [OF ok]
    by (simp add: arith_d_def sanitize_nan_def upd_hart_def)
  with ok show ?thesis unfolding arith_result_def by blast
qed



end
