(* ===== verification/Pci.thy ===== *)
theory Pci
  imports Virtio
begin

unbundle bit_operations_syntax

text \<open>
  PCI: the configuration space and the base address registers of a device (include/devices/pci/pci-device.hpp) and
  the host bridge (src/devices/pci-host-ecam-generic.cpp). What a device does behind its base address registers is a
  parameter of the operations of the bridge; the only such device of the repository is the USB controller.
\<close>

section \<open>Bytes\<close>

definition le_bytes :: "nat \<Rightarrow> u64 \<Rightarrow> u8 list" where
  "le_bytes n v = map (\<lambda>i. ucast (drop_bit (8 * i) v)) [0..<n]"

primrec le_word :: "u8 list \<Rightarrow> u64" where
  "le_word [] = 0"
| "le_word (b # bs) = ucast b OR push_bit 8 (le_word bs)"

text \<open>\<open>memcpy\<close> into an array that is long enough.\<close>

definition put_bytes :: "nat \<Rightarrow> u8 list \<Rightarrow> u8 list \<Rightarrow> u8 list" where
  "put_bytes off bs xs = take off xs @ bs @ drop (off + length bs) xs"

section \<open>Configuration space\<close>

record bar =
  bar_address :: u64
  bar_size :: u64
  bar_flags :: u32

record pci_dev =
  pci_config :: "u8 list"
  bars :: "bar list"
  bar_masks :: "u32 list"

definition write_config_fast :: "nat \<Rightarrow> u8 list \<Rightarrow> pci_dev \<Rightarrow> pci_dev" where
  "write_config_fast off bs d = d\<lparr>pci_config := put_bytes off bs (pci_config d)\<rparr>"

definition new_pci_dev :: "u16 \<Rightarrow> u16 \<Rightarrow> u8 \<Rightarrow> pci_dev" where
  "new_pci_dev vendor_id device_id class_code =
     write_config_fast 0x0B [class_code]
       (write_config_fast 0x02 (le_bytes 2 (ucast device_id))
         (write_config_fast 0x00 (le_bytes 2 (ucast vendor_id))
           \<lparr>pci_config = replicate 256 0, bars = replicate 6 \<lparr>bar_address = 0, bar_size = 0, bar_flags = 0\<rparr>,
            bar_masks = replicate 6 0\<rparr>))"

definition init_bar :: "nat \<Rightarrow> u64 \<Rightarrow> u32 \<Rightarrow> pci_dev \<Rightarrow> pci_dev" where
  "init_bar idx sz flags d =
     d\<lparr>bars := (bars d)[idx := (bars d ! idx)\<lparr>bar_size := sz, bar_flags := flags\<rparr>],
       bar_masks := (bar_masks d)[idx := ucast (NOT (sz - 1))]\<rparr>"

definition read_config :: "u64 \<Rightarrow> memory_size \<Rightarrow> pci_dev \<Rightarrow> u64" where
  "read_config offset sz d =
     (if 256 < unat offset + sz then 0xFFFFFFFF else le_word (take sz (drop (unat offset) (pci_config d))))"

definition write_config :: "u64 \<Rightarrow> memory_size \<Rightarrow> u64 \<Rightarrow> pci_dev \<Rightarrow> pci_dev" where
  "write_config offset sz val d =
     (let bar_idx = unat ((offset - 0x10) div 4) in
      if 256 < unat offset + sz then d
      else if 0x10 \<le> offset \<and> offset \<le> 0x24 \<and> 0 < bar_size (bars d ! bar_idx) then
        let write_val = ucast val :: u32 in
        if write_val = 0xFFFFFFFF then
          write_config_fast (unat offset) (le_bytes 4 (ucast (bar_masks d ! bar_idx OR bar_flags (bars d ! bar_idx)))) d
        else
          write_config_fast (unat offset) (le_bytes 4 (ucast write_val))
            (d\<lparr>bars := (bars d)[bar_idx := (bars d ! bar_idx)\<lparr>bar_address := ucast (write_val AND bar_masks d ! bar_idx)\<rparr>]\<rparr>)
      else write_config_fast (unat offset) (le_bytes sz val) d)"

section \<open>The host bridge\<close>

record 'd pci_fun =
  fun_pci :: pci_dev
  fun_dev :: 'd

record 'd heg =
  heg_start :: u64
  pci_irq_line :: u32
  heg_devices :: "'d pci_fun option list"

text \<open>The interrupt line is acquired only when there is a device tree.\<close>

definition new_heg :: "u64 \<Rightarrow> bool \<Rightarrow> plic \<Rightarrow> memory_map \<Rightarrow> 'd heg \<times> plic \<times> memory_map" where
  "new_heg base with_fdt p m =
     (case (if with_fdt then acquire_irq p else (0, p)) of (irq, p) \<Rightarrow>
        (\<lparr>heg_start = base, pci_irq_line = ucast irq, heg_devices = replicate 32 None\<rparr>, p, add_region base 0x08000000 m))"

definition pci_fdt :: "u64 \<Rightarrow> u32 \<Rightarrow> node \<Rightarrow> node result" where
  "pci_fdt base irq root =
     (let io_cpu_addr = ucast (base + 0x00100000) :: u32;
          mmio_cpu_addr = ucast (base + 0x00200000) :: u32;
          nd = create_reg ''pci'' base;
          nd = add_prop_reg ''reg'' base 0x00100000 nd;
          nd = add_prop_str ''compatible'' ''pci-host-ecam-generic'' nd;
          nd = add_prop_str ''device_type'' ''pci'' nd;
          nd = add_prop_u32 ''#address-cells'' 3 nd;
          nd = add_prop_u32 ''#size-cells'' 2 nd;
          nd = add_prop_u32 ''#interrupt-cells'' 1 nd
      in and_then (add_prop_cells ''bus-range'' [0, 0] 2 nd) (\<lambda>nd.
         let soc = fdt_node_find ''soc'' (Some []) root in
         and_then (fdt_node_get_phandle (fdt_node_find_reg ''plic'' 0x0C000000 soc root) root) (\<lambda>(ph, root).
         let nd = add_prop_u32 ''interrupt-parent'' ph nd in
         and_then (add_prop_cells ''interrupt-map-mask'' [0xf800, 0x0, 0x0, 0x7] 4 nd) (\<lambda>nd.
         let interrupt_map = concat (map (\<lambda>slot. [push_bit 11 (of_nat slot), 0x0, 0x0, 0x1, ph, irq]) [0..<32]) in
         and_then (add_prop_cells ''interrupt-map'' interrupt_map (length interrupt_map) nd) (\<lambda>nd.
         and_then (add_prop_cells ''ranges''
             [0x01000000, 0x0, 0x00000000, 0x0, io_cpu_addr, 0x0, 0x00010000,
              0x02000000, 0x0, mmio_cpu_addr, 0x0, mmio_cpu_addr, 0x0, 0x07e00000] 14 nd) (\<lambda>nd.
         Inr (fdt_node_add_child soc nd root)))))))"

definition pci_attach :: "u8 \<Rightarrow> 'd pci_fun \<Rightarrow> 'd heg \<Rightarrow> 'd heg" where
  "pci_attach slot f h = (if slot < 32 then h\<lparr>heg_devices := (heg_devices h)[unat slot := Some f]\<rparr> else h)"

text \<open>The slot and the function of an address in the configuration window, and the register.\<close>

definition ecam_slot :: "u64 \<Rightarrow> nat" where
  "ecam_slot offset = unat (drop_bit 15 offset AND 0x1F)"

definition ecam_func :: "u64 \<Rightarrow> u64" where
  "ecam_func offset = drop_bit 12 offset AND 0x07"

definition bar_hit :: "u64 \<Rightarrow> bar \<Rightarrow> bool" where
  "bar_hit addr b \<longleftrightarrow> 0 < bar_size b \<and> 0 < bar_address b \<and> bar_address b \<le> addr \<and> addr < bar_address b + bar_size b"

primrec find_fun :: "nat \<Rightarrow> u64 \<Rightarrow> 'd pci_fun option list \<Rightarrow> (nat \<times> 'd pci_fun \<times> bar) option" where
  "find_fun i addr [] = None"
| "find_fun i addr (x # xs) =
     (case x of
        None \<Rightarrow> find_fun (Suc i) addr xs
      | Some f \<Rightarrow> (case find (bar_hit addr) (bars (fun_pci f)) of
                   Some b \<Rightarrow> Some (i, f, b)
                 | None \<Rightarrow> find_fun (Suc i) addr xs))"

definition heg_read :: "(u64 \<Rightarrow> memory_size \<Rightarrow> 'd \<Rightarrow> u64) \<Rightarrow> u64 \<Rightarrow> memory_size \<Rightarrow> 'd heg \<Rightarrow> u64" where
  "heg_read read_mmio addr sz h =
     (let offset = addr - heg_start h in
      if offset < 0x00100000 then
        (case heg_devices h ! ecam_slot offset of
           None \<Rightarrow> 0xFFFFFFFF
         | Some f \<Rightarrow> if ecam_func offset = 0 then read_config (offset AND 0xFFF) sz (fun_pci f) else 0xFFFFFFFF)
      else if 0x00200000 \<le> offset \<and> offset < 0x08000000 then
        (case find_fun 0 addr (heg_devices h) of
           None \<Rightarrow> 0
         | Some (i, f, b) \<Rightarrow> read_mmio (addr - bar_address b) sz (fun_dev f))
      else 0)"

text \<open>The write handlers work on the device and the board; \<open>None\<close> is a handler that does not end.\<close>

definition bindo :: "'a result option \<Rightarrow> ('a \<Rightarrow> 'b result option) \<Rightarrow> 'b result option" where
  "bindo r f = (case r of None \<Rightarrow> None | Some (Inl e) \<Rightarrow> Some (Inl e) | Some (Inr a) \<Rightarrow> f a)"

type_synonym 'd dev_op = "'d \<times> board \<Rightarrow> ('d \<times> board) result option"

definition on_fun :: "nat \<Rightarrow> 'd pci_fun \<Rightarrow> 'd dev_op \<Rightarrow> 'd heg \<times> board \<Rightarrow> ('d heg \<times> board) result option" where
  "on_fun i f g = (\<lambda>(h, b).
     bindo (g (fun_dev f, b)) (\<lambda>(d, b). Some (Inr (h\<lparr>heg_devices := (heg_devices h)[i := Some (f\<lparr>fun_dev := d\<rparr>)]\<rparr>, b))))"

definition heg_write ::
  "(u64 \<Rightarrow> memory_size \<Rightarrow> u64 \<Rightarrow> 'd dev_op) \<Rightarrow> u64 \<Rightarrow> memory_size \<Rightarrow> u64 \<Rightarrow> 'd heg \<times> board \<Rightarrow> ('d heg \<times> board) result option" where
  "heg_write write_mmio addr sz val = (\<lambda>(h, b).
     let offset = addr - heg_start h in
     if offset < 0x00100000 then
       (case heg_devices h ! ecam_slot offset of
          None \<Rightarrow> Some (Inr (h, b))
        | Some f \<Rightarrow>
            if ecam_func offset = 0 then
              Some (Inr (h\<lparr>heg_devices := (heg_devices h)[ecam_slot offset :=
                Some (f\<lparr>fun_pci := write_config (offset AND 0xFFF) sz val (fun_pci f)\<rparr>)]\<rparr>, b))
            else Some (Inr (h, b)))
     else if 0x00200000 \<le> offset \<and> offset < 0x08000000 then
       (case find_fun 0 addr (heg_devices h) of
          None \<Rightarrow> Some (Inr (h, b))
        | Some (i, f, r) \<Rightarrow> on_fun i f (write_mmio (addr - bar_address r) sz val) (h, b))
     else Some (Inr (h, b)))"

primrec tick_slots :: "nat \<Rightarrow> nat \<Rightarrow> 'd dev_op \<Rightarrow> 'd heg \<times> board \<Rightarrow> ('d heg \<times> board) result option" where
  "tick_slots 0 i tk s = Some (Inr s)"
| "tick_slots (Suc k) i tk s =
     (case heg_devices (fst s) ! i of
        None \<Rightarrow> tick_slots k (Suc i) tk s
      | Some f \<Rightarrow> bindo (on_fun i f tk s) (tick_slots k (Suc i) tk))"

definition heg_tick :: "'d dev_op \<Rightarrow> 'd heg \<times> board \<Rightarrow> ('d heg \<times> board) result option" where
  "heg_tick tk = tick_slots 32 0 tk"

section \<open>Bytes and words\<close>

lemma bit_le_word: "bit (le_word bs) k \<longleftrightarrow> k < 64 \<and> k < 8 * length bs \<and> bit (bs ! (k div 8)) (k mod 8)"
proof (induction bs arbitrary: k)
  case (Cons b bs)
  show ?case
  proof (cases "k < 8")
    case False
    then obtain j where k: "k = j + 8" by (metis add.commute le_Suc_ex not_less)
    have "(j + 8) div 8 = Suc (j div 8)" by simp
    then show ?thesis using Cons [of j] bit_imp_le_length [of b k] by (auto simp: k bit_simps simp del: div_add_self2)
  next
    case True
    then show ?thesis by (auto simp: bit_simps)
  qed
qed simp

lemma length_le_bytes [simp]: "length (le_bytes n v) = n"
  by (simp add: le_bytes_def)

lemma le_word_le_bytes: "n \<le> 8 \<Longrightarrow> le_word (le_bytes n v) = v AND mask (8 * n)"
  by (rule bit_word_eqI) (auto simp: bit_le_word le_bytes_def bit_simps less_mult_imp_div_less mult.commute)

lemma le_word_le_bytes_4: "le_word (le_bytes 4 (ucast (v :: u32))) = ucast v"
  by (simp add: le_word_le_bytes) (rule bit_word_eqI, auto simp: bit_simps dest: bit_imp_le_length)

lemma ucast_down_up [simp]: "ucast (ucast (v :: u32) :: u64) = v"
  by (rule bit_word_eqI) (auto simp: bit_simps dest: bit_imp_le_length)

lemma put_bytes_length [simp]: "off + length bs \<le> length xs \<Longrightarrow> length (put_bytes off bs xs) = length xs"
  by (simp add: put_bytes_def)

lemma take_put_bytes: "off \<le> length xs \<Longrightarrow> take (length bs) (drop off (put_bytes off bs xs)) = bs"
  by (simp add: put_bytes_def)

section \<open>The base address registers\<close>

definition pci_wf :: "pci_dev \<Rightarrow> bool" where
  "pci_wf d \<longleftrightarrow> length (pci_config d) = 256 \<and> length (bars d) = 6 \<and> length (bar_masks d) = 6"

lemma new_pci_dev_wf: "pci_wf (new_pci_dev v d c)"
  by (simp add: new_pci_dev_def pci_wf_def write_config_fast_def)

lemma init_bar_wf: "pci_wf d \<Longrightarrow> pci_wf (init_bar i sz fl d)"
  by (simp add: init_bar_def pci_wf_def)

lemma write_config_wf: "pci_wf d \<Longrightarrow> pci_wf (write_config offset sz v d)"
  by (auto simp: write_config_def pci_wf_def write_config_fast_def Let_def word_le_nat_alt)

text \<open>The address of a register of the configuration space of a slot.\<close>

definition ecam_addr :: "'d heg \<Rightarrow> nat \<Rightarrow> u64 \<Rightarrow> u64" where
  "ecam_addr h slot reg = heg_start h + of_nat slot * 0x8000 + reg"

lemma ecam_addr_split:
  assumes "slot < 32" and "reg < 0x1000"
  shows "ecam_addr h slot reg - heg_start h < 0x00100000" and "ecam_slot (ecam_addr h slot reg - heg_start h) = slot"
    and "ecam_func (ecam_addr h slot reg - heg_start h) = 0" and "(ecam_addr h slot reg - heg_start h) AND 0xFFF = reg"
proof -
  define off where "off = ecam_addr h slot reg - heg_start h"
  have r: "unat reg < 4096" using assms(2) by (simp add: word_less_nat_alt)
  have u: "unat off = slot * 32768 + unat reg"
    using assms(1) r by (simp add: off_def ecam_addr_def unat_word_ariths unat_of_nat_64)
  have m: "unat (x AND 0x1F) = unat x mod 32" "unat (x AND 0x07) = unat x mod 8" "unat (x AND 0xFFF) = unat x mod 4096" for x :: u64
    using unsigned_take_bit_eq [of 5 x, where ?'a = nat] unsigned_take_bit_eq [of 3 x, where ?'a = nat]
      unsigned_take_bit_eq [of 12 x, where ?'a = nat]
    by (simp_all add: take_bit_eq_mask mask_eq_exp_minus_1 [where ?'a = "64 word"]) (simp_all add: take_bit_eq_mask [symmetric] take_bit_eq_mod)
  have d: "unat (drop_bit n x) = unat x div 2 ^ n" for x :: u64 and n by (simp add: unat_drop_bit_eq drop_bit_eq_div [where ?'a = nat])
  show "off < 0x00100000" using u assms(1) r by (simp add: word_less_nat_alt)
  show "ecam_slot off = slot" using u assms(1) r by (simp add: ecam_slot_def m d)
  have v: "unat off = unat reg + (8 * slot) * 4096" using u by simp
  have "(unat reg + (8 * slot) * 4096) div 4096 = 8 * slot" using r by (subst div_mult_self1) simp_all
  then have "unat (ecam_func off) = 0" by (simp add: ecam_func_def m d v)
  then show "ecam_func off = 0" by (simp only: unsigned_eq_0_iff)
  have "unat (off AND 0xFFF) = unat reg" unfolding m v using r by (subst mod_mult_self1) simp
  then show "off AND 0xFFF = reg" by (rule unsigned_word_eqI)
qed

lemma ecam_write:
  assumes "slot < 32" and "reg < 0x1000" and "heg_devices h ! slot = Some f"
  shows "heg_write wr (ecam_addr h slot reg) sz v (h, b) =
    Some (Inr (h\<lparr>heg_devices := (heg_devices h)[slot := Some (f\<lparr>fun_pci := write_config reg sz v (fun_pci f)\<rparr>)]\<rparr>, b))"
  using ecam_addr_split [OF assms(1,2), of h] assms(3) by (simp add: heg_write_def Let_def)

lemma ecam_read:
  assumes "slot < 32" and "reg < 0x1000" and "heg_devices h ! slot = Some f"
  shows "heg_read rd (ecam_addr h slot reg) sz h = read_config reg sz (fun_pci f)"
  using ecam_addr_split [OF assms(1,2), of h] assms(3) by (simp add: heg_read_def Let_def)

definition bar_reg :: "nat \<Rightarrow> u64" where
  "bar_reg k = 0x10 + 4 * of_nat k"

lemma bar_reg_facts:
  assumes "k < 6"
  shows "bar_reg k < 0x1000" "unat (bar_reg k) = 16 + 4 * k" "0x10 \<le> bar_reg k" "bar_reg k \<le> 0x24" "unat ((bar_reg k - 0x10) div 4) = k"
proof -
  show u: "unat (bar_reg k) = 16 + 4 * k" using assms by (simp add: bar_reg_def unat_word_ariths unat_of_nat_64)
  with assms show "bar_reg k < 0x1000" "0x10 \<le> bar_reg k" "bar_reg k \<le> 0x24" by (simp_all add: word_less_nat_alt word_le_nat_alt)
  have "unat (4 * of_nat k :: u64) = 4 * k" using assms by (simp add: unat_word_ariths unat_of_nat_64)
  then show "unat ((bar_reg k - 0x10) div 4) = k" by (simp add: bar_reg_def unat_div)
qed

lemma write_bar:
  assumes "k < 6" and "pci_wf d" and "0 < bar_size (bars d ! k)"
  shows "write_config (bar_reg k) 4 0xFFFFFFFF d =
      write_config_fast (unat (bar_reg k)) (le_bytes 4 (ucast (bar_masks d ! k OR bar_flags (bars d ! k)))) d"
    and "v \<noteq> 0xFFFFFFFF \<Longrightarrow> write_config (bar_reg k) 4 (ucast (v :: u32)) d =
      write_config_fast (unat (bar_reg k)) (le_bytes 4 (ucast v))
        (d\<lparr>bars := (bars d)[k := (bars d ! k)\<lparr>bar_address := ucast (v AND bar_masks d ! k)\<rparr>]\<rparr>)"
  using assms bar_reg_facts [OF assms(1)] by (simp_all add: write_config_def Let_def)

lemma read_after_write:
  assumes "off < 0x1000" and "unat off + 4 \<le> 256" and "length (pci_config d) = 256"
  shows "read_config off 4 (write_config_fast (unat off) (le_bytes 4 (ucast (v :: u32))) d) = ucast v"
  using assms take_put_bytes [of "unat off" "pci_config d" "le_bytes 4 (ucast v)"]
  by (simp add: read_config_def write_config_fast_def le_word_le_bytes_4)

lemma find_only:
  assumes "k < length xs" and "P (xs ! k)" and "\<forall>j < length xs. j \<noteq> k \<longrightarrow> \<not> P (xs ! j)"
  shows "find P xs = Some (xs ! k)"
  using assms by (auto simp: find_Some_iff intro!: exI [of _ k])

lemma find_fun_only:
  assumes "i < length ds" and "ds ! i = Some f" and "find (bar_hit a) (bars (fun_pci f)) = Some r"
    and "\<forall>j g. j < length ds \<longrightarrow> j \<noteq> i \<longrightarrow> ds ! j = Some g \<longrightarrow> (\<forall>q \<in> set (bars (fun_pci g)). \<not> bar_hit a q)"
  shows "find_fun n a ds = Some (n + i, f, r)"
  using assms
proof (induction ds arbitrary: i n)
  case (Cons x ds)
  show ?case
  proof (cases i)
    case 0
    with Cons.prems show ?thesis by simp
  next
    case (Suc l)
    have "find (bar_hit a) (bars (fun_pci g)) = None" if "x = Some g" for g
      using Cons.prems(4) [rule_format, of 0 g] Suc that by (auto simp: find_None_iff)
    moreover have "find_fun (Suc n) a ds = Some (Suc n + l, f, r)"
      using Cons.prems Suc by (intro Cons.IH) fastforce+
    ultimately show ?thesis using Suc by (simp split: option.split)
  qed
qed simp

text \<open>
  No other base address register claims the address.
\<close>

definition bar_alone :: "u64 \<Rightarrow> nat \<Rightarrow> nat \<Rightarrow> 'd heg \<Rightarrow> bool" where
  "bar_alone a slot k h \<longleftrightarrow>
     (\<forall>i < length (heg_devices h). \<forall>j < 6. (i, j) \<noteq> (slot, k) \<longrightarrow>
        (case heg_devices h ! i of None \<Rightarrow> True | Some g \<Rightarrow> \<not> bar_hit a (bars (fun_pci g) ! j)))"

definition heg_wf :: "'d heg \<Rightarrow> bool" where
  "heg_wf h \<longleftrightarrow> length (heg_devices h) = 32 \<and> (\<forall>f. Some f \<in> set (heg_devices h) \<longrightarrow> pci_wf (fun_pci f))"

lemma heg_write_config_wf:
  assumes "heg_wf h" and "heg_devices h ! slot = Some f" and "slot < 32"
  shows "heg_wf (h\<lparr>heg_devices := (heg_devices h)[slot := Some (f\<lparr>fun_pci := write_config reg sz v (fun_pci f)\<rparr>)]\<rparr>)"
proof -
  have "pci_wf (fun_pci f)" using assms by (metis heg_wf_def nth_mem)
  with assms(1) show ?thesis by (auto simp: heg_wf_def write_config_wf dest!: set_update_subset_insert [THEN subsetD])
qed

lemma set_put: "i < length xs \<Longrightarrow> Some f \<in> set (xs[i := Some g]) \<Longrightarrow> f = g \<or> Some f \<in> set xs"
  by (auto dest!: set_update_subset_insert [THEN subsetD])

section \<open>The contract of a device behind the bridge\<close>

text \<open>The configuration spaces are well-formed and every device is in a state that it accepts.\<close>

definition heg_ok :: "('d \<Rightarrow> bool) \<Rightarrow> 'd heg \<Rightarrow> bool" where
  "heg_ok dev_ok h \<longleftrightarrow> heg_wf h \<and> (\<forall>f. Some f \<in> set (heg_devices h) \<longrightarrow> dev_ok (fun_dev f))"

lemma heg_ok_dev: "heg_ok dev_ok h \<Longrightarrow> i < 32 \<Longrightarrow> heg_devices h ! i = Some f \<Longrightarrow> dev_ok (fun_dev f) \<and> pci_wf (fun_pci f)"
  unfolding heg_ok_def heg_wf_def by (metis nth_mem)

lemma heg_ok_put:
  assumes "heg_ok dev_ok h" and "i < 32" and "pci_wf (fun_pci f)" and "dev_ok (fun_dev f)"
  shows "heg_ok dev_ok (h\<lparr>heg_devices := (heg_devices h)[i := Some f]\<rparr>)"
  using assms set_put [of i "heg_devices h"] by (fastforce simp: heg_ok_def heg_wf_def)

lemma find_fun_Some: "find_fun n a ds = Some (i, f, r) \<Longrightarrow> n \<le> i \<and> i < n + length ds \<and> ds ! (i - n) = Some f"
proof (induction ds arbitrary: n)
  case (Cons x ds)
  then show ?case
  proof (cases "i = n \<and> x = Some f")
    case False
    with Cons.prems have "find_fun (Suc n) a ds = Some (i, f, r)" by (auto split: option.splits)
    from Cons.IH [OF this] show ?thesis by (auto simp: nth_Cons' Suc_diff_le dest: Suc_le_lessD)
  qed simp
qed simp

locale pci_function =
  fixes dev_ok :: "'d \<Rightarrow> bool" and wr :: "u64 \<Rightarrow> memory_size \<Rightarrow> u64 \<Rightarrow> 'd dev_op" and tk :: "'d dev_op"
  assumes wr_ok: "dev_ok d \<Longrightarrow> wr off sz v (d, b) = Some (Inr (d', b')) \<Longrightarrow> dev_ok d'"
    and tk_ok: "dev_ok d \<Longrightarrow> tk (d, b) = Some (Inr (d', b')) \<Longrightarrow> dev_ok d'"
begin

lemma on_fun_keeps:
  assumes "heg_ok dev_ok h" and "i < 32" and "heg_devices h ! i = Some f" and "on_fun i f g (h, b) = Some (Inr (h', b'))"
    and "\<And>d b'. g (fun_dev f, b) = Some (Inr (d, b')) \<Longrightarrow> dev_ok d"
  shows "heg_ok dev_ok h'"
proof -
  from assms(4) obtain d where d: "g (fun_dev f, b) = Some (Inr (d, b'))"
    and h': "h' = h\<lparr>heg_devices := (heg_devices h)[i := Some (f\<lparr>fun_dev := d\<rparr>)]\<rparr>"
    by (auto simp: on_fun_def bindo_def split: option.splits sum.splits)
  show ?thesis
    using heg_ok_put [OF assms(1,2), of "f\<lparr>fun_dev := d\<rparr>"] heg_ok_dev [OF assms(1,2,3)] assms(5) [OF d] by (simp add: h')
qed

lemma write_keeps:
  assumes "heg_ok dev_ok h" and "heg_write wr a sz v (h, b) = Some (Inr (h', b'))"
  shows "heg_ok dev_ok h'"
proof -
  define off where "off = a - heg_start h"
  have slot: "ecam_slot off < 32"
  proof -
    have "drop_bit 15 off AND 0x1F \<le> 0x1F" by (rule word_and_le1)
    then show ?thesis by (simp add: ecam_slot_def word_le_nat_alt)
  qed
  show ?thesis
  proof (cases "off < 0x00100000")
    case True
    show ?thesis
    proof (cases "heg_devices h ! ecam_slot off")
      case None
      with True assms show ?thesis by (simp add: heg_write_def Let_def off_def)
    next
      case (Some f)
      have "heg_ok dev_ok (h\<lparr>heg_devices := (heg_devices h)[ecam_slot off := Some (f\<lparr>fun_pci := write_config (off AND 0xFFF) sz v (fun_pci f)\<rparr>)]\<rparr>)"
        using heg_ok_dev [OF assms(1) slot Some] by (intro heg_ok_put [OF assms(1) slot]) (simp_all add: write_config_wf)
      then show ?thesis using True Some assms by (simp add: heg_write_def Let_def off_def split: if_splits)
    qed
  next
    case False
    show ?thesis
    proof (cases "0x00200000 \<le> off \<and> off < 0x08000000 \<and> find_fun 0 a (heg_devices h) \<noteq> None")
      case True
      then obtain i f r where m: "find_fun 0 a (heg_devices h) = Some (i, f, r)" by auto
      then have i: "i < 32" "heg_devices h ! i = Some f" using find_fun_Some [OF m] assms(1) by (auto simp: heg_ok_def heg_wf_def)
      have o: "on_fun i f (wr (a - bar_address r) sz v) (h, b) = Some (Inr (h', b'))"
        using assms(2) True False m by (simp add: heg_write_def Let_def off_def)
      show ?thesis using heg_ok_dev [OF assms(1) i] wr_ok by (blast intro: on_fun_keeps [OF assms(1) i o])
    next
      case notfound: False
      have "heg_write wr a sz v (h, b) = Some (Inr (h, b))"
        using False notfound by (auto simp: heg_write_def Let_def off_def split: option.split)
      with assms show ?thesis by simp
    qed
  qed
qed

lemma slots_keep:
  "heg_ok dev_ok h \<Longrightarrow> i + k \<le> 32 \<Longrightarrow> tick_slots k i tk (h, b) = Some (Inr (h', b')) \<Longrightarrow> heg_ok dev_ok h'"
proof (induction k arbitrary: i h b)
  case (Suc k)
  show ?case
  proof (cases "heg_devices h ! i")
    case None
    then have "tick_slots k (Suc i) tk (h, b) = Some (Inr (h', b'))" using Suc.prems(3) by simp
    from Suc.IH [OF Suc.prems(1) _ this] Suc.prems(2) show ?thesis by simp
  next
    case (Some f)
    with Suc.prems(3) obtain h1 b1 where o: "on_fun i f tk (h, b) = Some (Inr (h1, b1))" "tick_slots k (Suc i) tk (h1, b1) = Some (Inr (h', b'))"
      by (auto simp: bindo_def split: option.splits sum.splits)
    have "heg_ok dev_ok h1"
      using Suc.prems(1,2) Some o(1) heg_ok_dev [OF Suc.prems(1) _ Some] tk_ok by (intro on_fun_keeps [OF Suc.prems(1) _ Some o(1)]) auto
    then show ?thesis using Suc.IH [OF _ _ o(2)] Suc.prems(2) by simp
  qed
qed simp

lemma tick_keeps: "heg_ok dev_ok h \<Longrightarrow> heg_tick tk (h, b) = Some (Inr (h', b')) \<Longrightarrow> heg_ok dev_ok h'"
  unfolding heg_tick_def by (rule slots_keep) simp_all

end

section \<open>Enumeration\<close>

lemma mmio_hit:
  assumes "heg_wf h" and "slot < 32" and "heg_devices h ! slot = Some f" and "k < 6" and "bar_hit a (bars (fun_pci f) ! k)"
    and "bar_alone a slot k h"
  shows "find_fun 0 a (heg_devices h) = Some (slot, f, bars (fun_pci f) ! k)"
proof -
  have l: "length (bars (fun_pci g)) = 6" if "i < 32" "heg_devices h ! i = Some g" for i g
    using that assms(1) by (metis heg_wf_def nth_mem pci_wf_def)
  have alone: "\<not> bar_hit a (bars (fun_pci g) ! j)" if "i < 32" "heg_devices h ! i = Some g" "j < 6" "(i, j) \<noteq> (slot, k)" for i g j
    using assms(1,6) that by (fastforce simp: bar_alone_def heg_wf_def)
  have "find (bar_hit a) (bars (fun_pci f)) = Some (bars (fun_pci f) ! k)"
    using assms alone [of slot f] l [of slot f] by (intro find_only) auto
  moreover have "\<forall>q \<in> set (bars (fun_pci g)). \<not> bar_hit a q" if "i < 32" "i \<noteq> slot" "heg_devices h ! i = Some g" for i g
    using that l [of i g] alone [of i g] by (auto simp: in_set_conv_nth)
  ultimately show ?thesis
    using assms find_fun_only [of slot "heg_devices h" f a "bars (fun_pci f) ! k" 0] by (auto simp: heg_wf_def)
qed

text \<open>
  C25. Enumeration through the host bridge. A probe of a base address register with all ones reads back the size mask and the
  flags. When the guest then writes an address there, it reads the address back, and from then on every access in
  the memory window that the register covers (and no other register does) is a read or a write of that device at the
  offset from the assigned address.
\<close>

theorem pci_bar_protocol:
  assumes "heg_wf h" and "slot < 32" and "heg_devices h ! slot = Some f" and "k < 6"
    and "r = bars (fun_pci f) ! k" and "m = bar_masks (fun_pci f) ! k" and "0 < bar_size r" and "(v :: u32) \<noteq> 0xFFFFFFFF"
    and "bar_hit a (r\<lparr>bar_address := ucast (v AND m)\<rparr>)" and "bar_alone a slot k h"
    and "0x00200000 \<le> a - heg_start h" and "a - heg_start h < 0x08000000"
  shows "\<exists>h1 h2. heg_write wr (ecam_addr h slot (bar_reg k)) 4 0xFFFFFFFF (h, b) = Some (Inr (h1, b)) \<and>
      heg_read rd (ecam_addr h1 slot (bar_reg k)) 4 h1 = ucast (m OR bar_flags r) \<and>
      heg_write wr (ecam_addr h1 slot (bar_reg k)) 4 (ucast v) (h1, b) = Some (Inr (h2, b)) \<and>
      heg_read rd (ecam_addr h2 slot (bar_reg k)) 4 h2 = ucast v \<and>
      heg_read rd a sz h2 = rd (a - ucast (v AND m)) sz (fun_dev f) \<and>
      (\<exists>f2. heg_devices h2 ! slot = Some f2 \<and> fun_dev f2 = fun_dev f \<and>
        heg_write wr a sz w (h2, b) = on_fun slot f2 (wr (a - ucast (v AND m)) sz w) (h2, b))"
proof -
  define d1 where "d1 = write_config (bar_reg k) 4 0xFFFFFFFF (fun_pci f)"
  define f1 where "f1 = f\<lparr>fun_pci := d1\<rparr>"
  define h1 where "h1 = h\<lparr>heg_devices := (heg_devices h)[slot := Some f1]\<rparr>"
  define f2 where "f2 = f1\<lparr>fun_pci := write_config (bar_reg k) 4 (ucast v) d1\<rparr>"
  define h2 where "h2 = h1\<lparr>heg_devices := (heg_devices h1)[slot := Some f2]\<rparr>"
  note reg = bar_reg_facts [OF assms(4)]
  have len: "length (heg_devices h) = 32" and wf: "pci_wf (fun_pci f)" using assms(1,2,3) by (auto simp: heg_wf_def) (metis nth_mem)
  have wf1: "heg_wf h1" using heg_write_config_wf [OF assms(1,3,2)] by (simp add: h1_def f1_def d1_def)
  have at1: "heg_devices h1 ! slot = Some f1" using len assms(2) by (simp add: h1_def)
  have wf2: "heg_wf h2" using heg_write_config_wf [OF wf1 at1 assms(2)] by (simp add: h2_def f2_def f1_def)
  have at2: "heg_devices h2 ! slot = Some f2" using len assms(2) by (simp add: h2_def h1_def)
  have d1: "d1 = write_config_fast (unat (bar_reg k)) (le_bytes 4 (ucast (m OR bar_flags r))) (fun_pci f)"
    using write_bar(1) [OF assms(4) wf] assms(5,6,7) by (simp add: d1_def)
  have wfd1: "pci_wf d1" and same: "bars d1 = bars (fun_pci f)" "bar_masks d1 = bar_masks (fun_pci f)"
    using write_config_wf [OF wf] by (simp add: d1_def) (simp_all add: d1 write_config_fast_def)
  have d2: "fun_pci f2 = write_config_fast (unat (bar_reg k)) (le_bytes 4 (ucast v))
      (d1\<lparr>bars := (bars (fun_pci f))[k := r\<lparr>bar_address := ucast (v AND m)\<rparr>]\<rparr>)"
    using write_bar(2) [OF assms(4) wfd1, of v] assms(5-8) same by (simp add: f2_def)
  have bars2: "bars (fun_pci f2) = (bars (fun_pci f))[k := r\<lparr>bar_address := ucast (v AND m)\<rparr>]"
    by (simp add: d2 write_config_fast_def)
  have hit: "bars (fun_pci f2) ! k = r\<lparr>bar_address := ucast (v AND m)\<rparr>" using wf assms(4) by (simp add: bars2 pci_wf_def)
  have "bar_alone a slot k h2"
    using assms(2,3,4,10) len by (auto simp: bar_alone_def h2_def h1_def bars2 nth_list_update split: option.splits)
  then have find: "find_fun 0 a (heg_devices h2) = Some (slot, f2, bars (fun_pci f2) ! k)"
    using mmio_hit [OF wf2 assms(2) at2 assms(4)] assms(9) hit by simp
  have st: "heg_start h2 = heg_start h" "heg_start h1 = heg_start h" "fun_dev f2 = fun_dev f" by (simp_all add: h2_def h1_def f2_def f1_def)
  have far: "\<not> a - heg_start h < 0x00100000" using assms(11) by (simp add: word_less_nat_alt word_le_nat_alt)
  have w1: "heg_write wr (ecam_addr h slot (bar_reg k)) 4 0xFFFFFFFF (h, b) = Some (Inr (h1, b))"
    using ecam_write [OF assms(2) reg(1) assms(3)] by (simp add: h1_def f1_def d1_def)
  have w2: "heg_write wr (ecam_addr h1 slot (bar_reg k)) 4 (ucast v) (h1, b) = Some (Inr (h2, b))"
    using ecam_write [OF assms(2) reg(1) at1] by (simp add: h2_def f2_def f1_def)
  have r1: "heg_read rd (ecam_addr h1 slot (bar_reg k)) 4 h1 = ucast (m OR bar_flags r)"
    using ecam_read [OF assms(2) reg(1) at1] read_after_write [OF reg(1), of "fun_pci f"] reg(2) assms(4) wf by (simp add: f1_def d1 pci_wf_def)
  have r2: "heg_read rd (ecam_addr h2 slot (bar_reg k)) 4 h2 = ucast v"
    using ecam_read [OF assms(2) reg(1) at2] read_after_write [OF reg(1)] reg(2) assms(4) wfd1 by (simp add: d2 pci_wf_def)
  have r3: "heg_read rd a sz h2 = rd (a - ucast (v AND m)) sz (fun_dev f)"
    using find hit assms(11,12) far st by (simp add: heg_read_def Let_def)
  have w3: "heg_write wr a sz w (h2, b) = on_fun slot f2 (wr (a - ucast (v AND m)) sz w) (h2, b)"
    using find hit assms(11,12) far st by (simp add: heg_write_def Let_def)
  show ?thesis using w1 r1 w2 r2 r3 w3 at2 st(3) by blast
qed

text \<open>A bridge with one function, whose only base address register covers 64 KiB.\<close>

definition reg_fun :: "u64 pci_fun" where
  "reg_fun = \<lparr>fun_pci = init_bar 0 0x00010000 0x02 (new_pci_dev 0x1836 0x000D 0x0C), fun_dev = 7\<rparr>"

definition reg_heg :: "u64 heg" where
  "reg_heg = pci_attach 1 reg_fun (fst (new_heg 0x30000000 False (plic_init_auto 1) empty_map))"

lemma mask_64k: "(18446744073709486080 :: u32) = 0xFFFF0000"
  by simp

lemma reg_heg_simps:
  "heg_devices reg_heg = (replicate 32 None)[1 := Some reg_fun]" "heg_start reg_heg = 0x30000000"
  "bars (fun_pci reg_fun) = (replicate 6 \<lparr>bar_address = 0, bar_size = 0, bar_flags = 0\<rparr>)[0 := \<lparr>bar_address = 0, bar_size = 0x00010000, bar_flags = 2\<rparr>]"
  "bar_masks (fun_pci reg_fun) = (replicate 6 0)[0 := 0xFFFF0000]" "fun_dev reg_fun = 7"
  by (simp_all add: reg_heg_def reg_fun_def pci_attach_def new_heg_def init_bar_def new_pci_dev_def write_config_fast_def mask_64k)

theorem pci_bar_protocol_witness:
  "\<exists>h1 h2. heg_write (\<lambda>off sz v (d, b). Some (Inr (d + off, b))) (ecam_addr reg_heg 1 (bar_reg 0)) 4 0xFFFFFFFF (reg_heg, idle_board) = Some (Inr (h1, idle_board)) \<and>
      heg_read (\<lambda>off sz d. d + off) (ecam_addr h1 1 (bar_reg 0)) 4 h1 = 0xFFFF0002 \<and>
      heg_write (\<lambda>off sz v (d, b). Some (Inr (d + off, b))) (ecam_addr h1 1 (bar_reg 0)) 4 0x30200000 (h1, idle_board) = Some (Inr (h2, idle_board)) \<and>
      heg_read (\<lambda>off sz d. d + off) (ecam_addr h2 1 (bar_reg 0)) 4 h2 = 0x30200000 \<and>
      heg_read (\<lambda>off sz d. d + off) 0x30200010 4 h2 = 0x17"
proof -
  have wf: "heg_wf reg_heg"
    by (auto simp: heg_wf_def reg_heg_simps reg_fun_def init_bar_wf new_pci_dev_wf dest!: set_update_subset_insert [THEN subsetD])
  have dev: "heg_devices reg_heg ! 1 = Some reg_fun" by (simp add: reg_heg_simps)
  have alone: "bar_alone 0x30200010 1 0 reg_heg"
    by (auto simp: bar_alone_def reg_heg_simps nth_list_update bar_hit_def split: option.split)
  show ?thesis
    using pci_bar_protocol [OF wf _ dev _ refl refl, of 0 "0x30200000" "0x30200010" "\<lambda>off sz v (d, b). Some (Inr (d + off, b))"
        idle_board "\<lambda>off sz d. d + off" 4 0] alone
    by (auto simp: reg_heg_simps bar_hit_def)
qed

end
