(* ===== verification/Xhci.thy ===== *)
theory Xhci
  imports Pci I2c
begin

unbundle bit_operations_syntax

text \<open>
  The USB host controller (src/devices/usb/xhci.cpp, include/devices/usb) with the HID keyboard behind it
  (src/devices/hid/hid-over-usb.cpp, hid_usb_keyboard.cpp). USB devices are objects of a store, to which ports and slots hold
  indices as the shared pointers do. Of the map of slots the code fills only entry 1, so the order in which \<open>tick\<close> visits
  it does not matter. An index outside one of the arrays of sixteen endpoints is undefined (\<open>Inl Vector_index\<close>). The loops over
  rings that the guest lays out are run with fuel, and \<open>None\<close> is a loop that has not ended.
\<close>

section \<open>The keyboard\<close>

record usb_setup =
  bmRequestType :: u8
  bRequest :: u8
  wValue :: u16
  wIndex :: u16
  wLength :: u16

record usb_dev =
  usb_report_desc :: "u8 list"
  usb_report_queue :: "u8 list list"
  idle_rate :: u8
  protocol :: u8
  device_desc :: "u8 list"
  config_desc :: "u8 list"
  usb_report :: "u8 list"

definition usb_device_desc :: "u16 \<Rightarrow> u16 \<Rightarrow> u8 list" where
  "usb_device_desc vid pid =
     [0x12, 0x01, 0x00, 0x02, 0x00, 0x00, 0x00, 64, ucast (vid AND 0xFF), ucast (drop_bit 8 vid), ucast (pid AND 0xFF),
      ucast (drop_bit 8 pid), 0x00, 0x01, 0, 0, 0, 1]"

definition usb_config_desc :: "nat \<Rightarrow> u8 list" where
  "usb_config_desc n =
     (let report_len = of_nat n :: u16 in
      [0x09, 0x02, 0x22, 0x00, 0x01, 0x01, 0x00, 0xA0, 50,
       0x09, 0x04, 0x00, 0x00, 0x01, 0x03, 0x01, 0x01, 0x00,
       0x09, 0x21, 0x11, 0x01, 0x00, 0x01, 0x22, ucast (report_len AND 0xFF), ucast (drop_bit 8 report_len AND 0xFF),
       0x07, 0x05, 0x81, 0x03, 64, 0x00, 0x0A])"

text \<open>The report descriptor items are those of the keyboard on the I2C bus.\<close>

definition new_usb_keyboard :: usb_dev where
  "new_usb_keyboard =
     (let desc = generate_report_descriptor keyboard_items in
      \<lparr>usb_report_desc = desc, usb_report_queue = [], idle_rate = 0, protocol = 1, device_desc = usb_device_desc 0x1b36 1,
       config_desc = usb_config_desc (length desc), usb_report = replicate 8 0\<rparr>)"

definition push_report :: "u8 list \<Rightarrow> usb_dev \<Rightarrow> usb_dev" where
  "push_report r d = d\<lparr>usb_report_queue := usb_report_queue d @ [r]\<rparr>"

definition get_next_input_report :: "usb_dev \<Rightarrow> u8 list option \<times> usb_dev" where
  "get_next_input_report d =
     (case usb_report_queue d of
        [] \<Rightarrow> (None, d)
      | r # rs \<Rightarrow> (Some r, d\<lparr>usb_report_queue := rs\<rparr>))"

definition handle_control_request :: "usb_setup \<Rightarrow> usb_dev \<Rightarrow> u8 list \<times> usb_dev" where
  "handle_control_request setup_pkt d =
     (let kind = bmRequestType setup_pkt AND 0x60; req = bRequest setup_pkt; desc_type = ucast (drop_bit 8 (wValue setup_pkt)) :: u8;
          (response, d) =
            (if kind = 0x00 then
               (if req = 0x06 then
                  (if desc_type = 0x01 then device_desc d else if desc_type = 0x02 then config_desc d
                   else if desc_type = 0x22 then usb_report_desc d else [], d)
                else ([], d))
             else if kind = 0x20 then
               (if req = 0x0A then ([], d\<lparr>idle_rate := ucast (drop_bit 8 (wValue setup_pkt))\<rparr>)
                else if req = 0x0B then ([], d\<lparr>protocol := ucast (wValue setup_pkt AND 0xFF)\<rparr>)
                else if req = 0x01 then (case get_next_input_report d of (r, d) \<Rightarrow> (case r of None \<Rightarrow> [] | Some bs \<Rightarrow> bs, d))
                else ([], d))
             else ([], d))
      in (take (unat (wLength setup_pkt)) response, d))"

text \<open>An output report sets the lights of the keyboard, which are not kept.\<close>

definition handle_control_data_out :: "usb_setup \<Rightarrow> u8 list \<Rightarrow> usb_dev \<Rightarrow> usb_dev" where
  "handle_control_data_out setup_pkt data d = d"

definition get_interrupt_report :: "usb_dev \<Rightarrow> u8 list option" where
  "get_interrupt_report d = Some (usb_report d)"

definition usb_keyboard_update :: "u8 \<Rightarrow> u8 list \<Rightarrow> bool \<Rightarrow> usb_dev \<Rightarrow> usb_dev" where
  "usb_keyboard_update modifiers keys rollover d =
     d\<lparr>usb_report := [modifiers, 0x00] @ (if rollover then replicate 6 0x01 else keys)\<rparr>"

section \<open>Transfer request blocks\<close>

record trb =
  trb_parameter :: u64
  trb_status :: u32
  trb_control :: u32

abbreviation trb_cycle :: "trb \<Rightarrow> u32" where "trb_cycle t \<equiv> bf_get 0 1 (trb_control t)"
abbreviation trb_ent :: "trb \<Rightarrow> u32" where "trb_ent t \<equiv> bf_get 1 1 (trb_control t)"
abbreviation trb_flags :: "trb \<Rightarrow> u32" where "trb_flags t \<equiv> bf_get 2 8 (trb_control t)"
abbreviation trb_ctl :: "trb \<Rightarrow> u32" where "trb_ctl t \<equiv> bf_get 16 16 (trb_control t)"

definition get_type :: "trb \<Rightarrow> u32" where
  "get_type t = bf_get 10 6 (trb_control t)"

definition get_slot_id :: "trb \<Rightarrow> u8" where
  "get_slot_id t = ucast (drop_bit 8 (trb_ctl t) AND 0xFF)"

definition get_endpoint_id :: "trb \<Rightarrow> u8" where
  "get_endpoint_id t = ucast (trb_ctl t AND 0x1F)"

abbreviation (input) TRB_NORMAL :: u32 where "TRB_NORMAL \<equiv> 1"
abbreviation (input) TRB_SETUP_STAGE :: u32 where "TRB_SETUP_STAGE \<equiv> 2"
abbreviation (input) TRB_DATA_STAGE :: u32 where "TRB_DATA_STAGE \<equiv> 3"
abbreviation (input) TRB_STATUS_STAGE :: u32 where "TRB_STATUS_STAGE \<equiv> 4"
abbreviation (input) TRB_LINK :: u32 where "TRB_LINK \<equiv> 6"
abbreviation (input) TRB_ENABLE_SLOT :: u32 where "TRB_ENABLE_SLOT \<equiv> 9"
abbreviation (input) TRB_DISABLE_SLOT :: u32 where "TRB_DISABLE_SLOT \<equiv> 10"
abbreviation (input) TRB_ADDRESS_DEVICE :: u32 where "TRB_ADDRESS_DEVICE \<equiv> 11"
abbreviation (input) TRB_CONFIG_ENDPOINT :: u32 where "TRB_CONFIG_ENDPOINT \<equiv> 12"
abbreviation (input) TRB_EVAL_CONTEXT :: u32 where "TRB_EVAL_CONTEXT \<equiv> 13"
abbreviation (input) TRB_RESET_ENDPOINT :: u32 where "TRB_RESET_ENDPOINT \<equiv> 14"
abbreviation (input) TRB_STOP_ENDPOINT :: u32 where "TRB_STOP_ENDPOINT \<equiv> 15"
abbreviation (input) TRB_SET_TR_DEQUEUE :: u32 where "TRB_SET_TR_DEQUEUE \<equiv> 16"
abbreviation (input) TRB_RESET_DEVICE :: u32 where "TRB_RESET_DEVICE \<equiv> 17"
abbreviation (input) TRB_NO_OP_CMD :: u32 where "TRB_NO_OP_CMD \<equiv> 23"
abbreviation (input) TRB_TRANSFER_EVENT :: u32 where "TRB_TRANSFER_EVENT \<equiv> 32"
abbreviation (input) TRB_CMD_COMPLETION_EVENT :: u32 where "TRB_CMD_COMPLETION_EVENT \<equiv> 33"
abbreviation (input) TRB_PORT_STATUS_CHANGE_EVENT :: u32 where "TRB_PORT_STATUS_CHANGE_EVENT \<equiv> 34"
abbreviation (input) CC_SUCCESS :: u32 where "CC_SUCCESS \<equiv> 1"
abbreviation (input) CC_TRB_ERROR :: u32 where "CC_TRB_ERROR \<equiv> 5"
abbreviation (input) CC_SHORT_PACKET :: u32 where "CC_SHORT_PACKET \<equiv> 13"
abbreviation (input) CC_STOPPED :: u32 where "CC_STOPPED \<equiv> 26"

text \<open>An event that starts as zeros: parameter, residual length, completion code, type and control field.\<close>

definition new_event :: "u64 \<Rightarrow> u32 \<Rightarrow> u32 \<Rightarrow> u32 \<Rightarrow> u32 \<Rightarrow> trb" where
  "new_event param residual code type ctl =
     \<lparr>trb_parameter = param, trb_status = residual OR push_bit 24 code, trb_control = bf_set 16 16 ctl (bf_set 10 6 type 0)\<rparr>"

definition trb_bytes :: "trb \<Rightarrow> u8 list" where
  "trb_bytes t = le_bytes 8 (trb_parameter t) @ le_bytes 4 (ucast (trb_status t)) @ le_bytes 4 (ucast (trb_control t))"

definition trb_of :: "u8 list \<Rightarrow> trb" where
  "trb_of bs = \<lparr>trb_parameter = le_word (take 8 bs), trb_status = ucast (le_word (take 4 (drop 8 bs))),
     trb_control = ucast (le_word (take 4 (drop 12 bs)))\<rparr>"

definition setup_of :: "u64 \<Rightarrow> usb_setup" where
  "setup_of v = \<lparr>bmRequestType = ucast v, bRequest = ucast (drop_bit 8 v), wValue = ucast (drop_bit 16 v),
     wIndex = ucast (drop_bit 32 v), wLength = ucast (drop_bit 48 v)\<rparr>"

section \<open>State\<close>

record xhci_interrupter =
  iman :: u32
  imod :: u32
  erstsz :: u32
  erstba :: u64
  erdp :: u64
  ring_base :: u64
  ring_end :: u64
  ring_size_trbs :: u32
  event_enqueue_ptr :: u64
  intr_pcs :: bool

record xhci_slot =
  attached_device :: "nat option"
  ep0_tr_dequeue :: u64
  ep0_pcs :: bool
  ep_deq :: "u64 list"
  ep_pcs :: "u8 list"
  ep_last_complete :: "u64 list"
  ep_enabled :: "bool list"

record xhci =
  x_irq :: u32
  crcr_dequeue :: u64
  x_pcs :: bool
  usbcmd :: u32
  usbsts :: u32
  config_reg :: u32
  dcbaap :: u64
  crcr_base :: u64
  port_sc :: "u32 list"
  intr :: xhci_interrupter
  tick_counter :: u64
  ports :: "nat option list"
  slots_x :: "u8 \<rightharpoonup> xhci_slot"
  usb_store :: "usb_dev list"

abbreviation (input) XHCI_MAX_PORTS :: nat where "XHCI_MAX_PORTS \<equiv> 6"

definition zero_interrupter :: xhci_interrupter where
  "zero_interrupter = \<lparr>iman = 0, imod = 0, erstsz = 0, erstba = 0, erdp = 0, ring_base = 0, ring_end = 0, ring_size_trbs = 0,
     event_enqueue_ptr = 0, intr_pcs = True\<rparr>"

text \<open>The initialiser of \<open>ep_pcs\<close> sets its first element only.\<close>

definition new_slot :: xhci_slot where
  "new_slot = \<lparr>attached_device = None, ep0_tr_dequeue = 0, ep0_pcs = True, ep_deq = replicate 16 0, ep_pcs = 1 # replicate 15 0,
     ep_last_complete = replicate 16 0, ep_enabled = replicate 16 False\<rparr>"

text \<open>Bit fields of \<open>USBCMD\<close>, \<open>USBSTS\<close> and \<open>PORTSC\<close>.\<close>

abbreviation cmd_runstop :: "u32 \<Rightarrow> u32" where "cmd_runstop c \<equiv> bf_get 0 1 c"
abbreviation cmd_hcrst :: "u32 \<Rightarrow> u32" where "cmd_hcrst c \<equiv> bf_get 1 1 c"
abbreviation cmd_inte :: "u32 \<Rightarrow> u32" where "cmd_inte c \<equiv> bf_get 2 1 c"
abbreviation set_hcrst :: "u32 \<Rightarrow> u32 \<Rightarrow> u32" where "set_hcrst v c \<equiv> bf_set 1 1 v c"
abbreviation set_hchalted :: "u32 \<Rightarrow> u32 \<Rightarrow> u32" where "set_hchalted v s \<equiv> bf_set 0 1 v s"
abbreviation sts_eint :: "u32 \<Rightarrow> u32" where "sts_eint s \<equiv> bf_get 3 1 s"
abbreviation set_eint :: "u32 \<Rightarrow> u32 \<Rightarrow> u32" where "set_eint v s \<equiv> bf_set 3 1 v s"
abbreviation set_pcd :: "u32 \<Rightarrow> u32 \<Rightarrow> u32" where "set_pcd v s \<equiv> bf_set 4 1 v s"
abbreviation set_ccs :: "u32 \<Rightarrow> u32 \<Rightarrow> u32" where "set_ccs v p \<equiv> bf_set 0 1 v p"
abbreviation set_ped :: "u32 \<Rightarrow> u32 \<Rightarrow> u32" where "set_ped v p \<equiv> bf_set 1 1 v p"
abbreviation set_pr :: "u32 \<Rightarrow> u32 \<Rightarrow> u32" where "set_pr v p \<equiv> bf_set 4 1 v p"
abbreviation set_pls :: "u32 \<Rightarrow> u32 \<Rightarrow> u32" where "set_pls v p \<equiv> bf_set 5 4 v p"
abbreviation psc_pp :: "u32 \<Rightarrow> u32" where "psc_pp p \<equiv> bf_get 9 1 p"
abbreviation set_pp :: "u32 \<Rightarrow> u32 \<Rightarrow> u32" where "set_pp v p \<equiv> bf_set 9 1 v p"
abbreviation set_speed :: "u32 \<Rightarrow> u32 \<Rightarrow> u32" where "set_speed v p \<equiv> bf_set 10 4 v p"
abbreviation set_csc :: "u32 \<Rightarrow> u32 \<Rightarrow> u32" where "set_csc v p \<equiv> bf_set 17 1 v p"
abbreviation set_prc :: "u32 \<Rightarrow> u32 \<Rightarrow> u32" where "set_prc v p \<equiv> bf_set 21 1 v p"

definition reset_port :: "nat option \<Rightarrow> u32" where
  "reset_port dev =
     (let p = set_pls 5 (set_pp 1 0) in
      if dev \<noteq> None then set_csc 1 (set_ccs 1 p) else set_speed 4 p)"

definition xhci_reset :: "xhci \<Rightarrow> xhci" where
  "xhci_reset x =
     x\<lparr>usbcmd := 0,
       usbsts := (let s = set_hchalted 1 0 in if \<exists>p \<in> set (ports x). p \<noteq> None then set_pcd 1 s else s),
       config_reg := 0, dcbaap := 0, crcr_base := 0, port_sc := map reset_port (ports x), intr := zero_interrupter\<rparr>"

definition new_xhci :: "u32 \<Rightarrow> xhci pci_fun" where
  "new_xhci irq =
     \<lparr>fun_pci = init_bar 0 0x00010000 0x02 (write_config_fast 0x3D [0x01] (write_config_fast 0x09 [0x30]
        (write_config_fast 0x0A [0x03] (new_pci_dev 0x1836 0x000D 0x0C)))),
      fun_dev = xhci_reset \<lparr>x_irq = irq, crcr_dequeue = 0, x_pcs = True, usbcmd = 0, usbsts = 0, config_reg = 0, dcbaap = 0,
        crcr_base = 0, port_sc = replicate XHCI_MAX_PORTS 0, intr = zero_interrupter, tick_counter = 0,
        ports = replicate XHCI_MAX_PORTS None, slots_x = Map.empty, usb_store = []\<rparr>\<rparr>"

section \<open>Memory, interrupts and events\<close>

type_synonym xs = "xhci \<times> board"

definition read_dma :: "u64 \<Rightarrow> nat \<Rightarrow> board \<Rightarrow> u8 list result" where
  "read_dma addr n b = copy_from_dram n addr (b_mem b)"

definition write_dma :: "u64 \<Rightarrow> u8 list \<Rightarrow> board \<Rightarrow> board result" where
  "write_dma addr bs b = and_then (copy_to_dram bs addr (b_mem b)) (\<lambda>m. Inr (b\<lparr>b_mem := m\<rparr>))"

definition read_u :: "nat \<Rightarrow> u64 \<Rightarrow> board \<Rightarrow> u64 result" where
  "read_u n addr b = and_then (read_dma addr n b) (\<lambda>bs. Inr (le_word bs))"

definition read_trb :: "u64 \<Rightarrow> board \<Rightarrow> trb result" where
  "read_trb addr b = and_then (read_dma addr 16 b) (\<lambda>bs. Inr (trb_of bs))"

definition write_trb :: "u64 \<Rightarrow> trb \<Rightarrow> board \<Rightarrow> board result" where
  "write_trb addr t b = write_dma addr (trb_bytes t) b"

text \<open>Events that the guest has not consumed: the distance from its dequeue pointer to the enqueue pointer.\<close>

definition unread :: "xhci_interrupter \<Rightarrow> bool" where
  "unread i \<longleftrightarrow> ring_base i \<noteq> 0 \<and> ring_end i \<noteq> ring_base i \<and>
     (let d = erdp i AND NOT 0xF; d = (if d = 0 then ring_base i else d); e = event_enqueue_ptr i in
      e \<noteq> d \<and> (let total = ring_end i - ring_base i; dist = (if d \<le> e then e - d else total - (d - e)) in 16 \<le> dist))"

definition xhci_update_irq :: "xs \<Rightarrow> xs result" where
  "xhci_update_irq = (\<lambda>(x, b).
     let u = unread (intr x);
         x = (if u then x\<lparr>usbsts := set_eint 1 (usbsts x), intr := (intr x)\<lparr>iman := iman (intr x) OR 1\<rparr>\<rparr> else x);
         pending = ((sts_eint (usbsts x) \<noteq> 0 \<or> u) \<and> iman (intr x) AND 1 \<noteq> 0 \<and> cmd_inte (usbcmd x) \<noteq> 0)
     in and_then (set_pending (x_irq x) pending (b_plic b) (b_harts b)) (\<lambda>(p, hs). Inr (x, b\<lparr>b_plic := p, b_harts := hs\<rparr>)))"

definition push_event :: "trb \<Rightarrow> xs \<Rightarrow> xs result" where
  "push_event evt = (\<lambda>(x, b).
     if ring_base (intr x) = 0 then Inr (x, b)
     else
       let i = intr x; evt = evt\<lparr>trb_control := bf_set 0 1 (if intr_pcs i then 1 else 0) (trb_control evt)\<rparr> in
       and_then (write_dma (event_enqueue_ptr i) (trb_bytes evt) b) (\<lambda>b.
       let i = i\<lparr>event_enqueue_ptr := event_enqueue_ptr i + 16\<rparr>;
           i = (if ring_end i \<le> event_enqueue_ptr i then i\<lparr>event_enqueue_ptr := ring_base i, intr_pcs := \<not> intr_pcs i\<rparr> else i)
       in xhci_update_irq (x\<lparr>intr := i\<lparr>iman := iman i OR 1\<rparr>, usbsts := set_eint 1 (usbsts x)\<rparr>, b)))"

definition send_transfer_event :: "u32 \<Rightarrow> u32 \<Rightarrow> u32 \<Rightarrow> xs \<Rightarrow> xs result" where
  "send_transfer_event slot_id ep_index code =
     push_event (new_event 0 0 code TRB_TRANSFER_EVENT (push_bit 8 slot_id OR (ep_index AND 0x1F)))"

definition update_event_ring_segment :: "xs \<Rightarrow> xs result" where
  "update_event_ring_segment = (\<lambda>(x, b).
     let i = intr x in
     if erstba i = 0 \<or> erstsz i = 0 then Inr (x, b)
     else
       and_then (read_dma (erstba i AND NOT 0x3F) 16 b) (\<lambda>bs.
       let base = le_word (take 8 bs) AND NOT 0x3F;
           trbs = ucast (le_word (take 4 (drop 8 bs))) :: u32;
           i = i\<lparr>ring_base := base, ring_size_trbs := trbs, ring_end := base + ucast trbs * 16\<rparr>
       in Inr (x\<lparr>intr := (if event_enqueue_ptr i < base \<or> ring_end i \<le> event_enqueue_ptr i
                          then i\<lparr>event_enqueue_ptr := base\<rparr> else i)\<rparr>, b)))"

text \<open>\<open>attach_device\<close>, with the new device at the end of the store.\<close>

definition port_event :: "nat \<Rightarrow> trb" where
  "port_event idx = new_event 0 0 CC_SUCCESS TRB_PORT_STATUS_CHANGE_EVENT (push_bit 8 (of_nat (idx + 1) AND 0xFF))"

definition xhci_attach :: "u8 \<Rightarrow> usb_dev \<Rightarrow> u8 \<Rightarrow> xs \<Rightarrow> xs result" where
  "xhci_attach port_idx dev speed = (\<lambda>(x, b).
     if 6 \<le> port_idx then Inr (x, b)
     else
       let k = unat port_idx;
           p = set_csc 1 (set_speed (ucast speed) (set_pp 1 (set_ped 0 (set_ccs 1 (port_sc x ! k))))) in
       push_event (port_event k)
         (x\<lparr>usb_store := usb_store x @ [dev], ports := (ports x)[k := Some (length (usb_store x))],
            port_sc := (port_sc x)[k := p], usbsts := set_pcd 1 (usbsts x)\<rparr>, b))"

section \<open>Endpoint contexts\<close>

definition upd_slot :: "u8 \<Rightarrow> (xhci_slot \<Rightarrow> xhci_slot) \<Rightarrow> xhci \<Rightarrow> xhci" where
  "upd_slot k f x = x\<lparr>slots_x := (slots_x x)(k := map_option f (slots_x x k))\<rparr>"

text \<open>Entry \<open>slot_id\<close> of the device context base address array.\<close>

definition slot_dc_ptr :: "u8 \<Rightarrow> xs \<Rightarrow> u64 result" where
  "slot_dc_ptr slot_id = (\<lambda>(x, b). read_u 8 (dcbaap x + ucast slot_id * 8) b)"

definition get_ep_ctx_tr_enqueue_pointer :: "u32 \<Rightarrow> u32 \<Rightarrow> xs \<Rightarrow> u64 result" where
  "get_ep_ctx_tr_enqueue_pointer slot_id ep_index = (\<lambda>(x, b).
     if ep_index < 1 \<or> 31 < ep_index \<or> slots_x x (ucast slot_id) = None \<or> dcbaap x = 0 then Inr 0
     else
       and_then (read_u 8 (dcbaap x + ucast slot_id * 8) b) (\<lambda>dc.
       if dc = 0 then Inr 0
       else and_then (read_u 8 (dc + ucast ep_index * 32 + 0x08) b) (\<lambda>tr. Inr (tr AND NOT 0xF))))"

definition set_ep_state_running :: "u8 \<Rightarrow> nat \<Rightarrow> xs \<Rightarrow> xs result" where
  "set_ep_state_running slot_id ep_ctx_idx = (\<lambda>(x, b).
     if dcbaap x = 0 then Inr (x, b)
     else
       and_then (slot_dc_ptr slot_id (x, b)) (\<lambda>entry.
       let out_ctx = entry AND NOT 0xF in
       if out_ctx = 0 then Inr (x, b)
       else
         let a = out_ctx + of_nat (ep_ctx_idx * 32) in
         and_then (read_u 4 a b) (\<lambda>ep_info.
         and_then (write_dma a (le_bytes 4 ((ep_info AND NOT 0x7) OR 0x1)) b) (\<lambda>b. Inr (x, b)))))"

definition save_ep_ctx_from_input :: "u8 \<Rightarrow> nat \<Rightarrow> u64 \<Rightarrow> xs \<Rightarrow> xs result" where
  "save_ep_ctx_from_input slot_id ep input_ctx_addr = (\<lambda>(x, b).
     if dcbaap x = 0 \<or> 16 \<le> ep \<or> slots_x x slot_id = None then Inr (x, b)
     else
       let x = (if 2 \<le> ep then upd_slot slot_id (\<lambda>s. s\<lparr>ep_enabled := (ep_enabled s)[ep - 1 := True]\<rparr>) x else x) in
       and_then (slot_dc_ptr slot_id (x, b)) (\<lambda>entry.
       let out_ctx = entry AND NOT 0xF in
       if out_ctx = 0 then Inr (x, b)
       else
         and_then (read_dma (input_ctx_addr + of_nat ((ep + 1) * 32)) 32 b) (\<lambda>buf.
         and_then (write_dma (out_ctx + of_nat (ep * 32)) buf b) (\<lambda>b.
         set_ep_state_running slot_id ep (x, b)))))"

section \<open>Control transfers\<close>

definition trb_has_ioc :: "trb \<Rightarrow> bool" where
  "trb_has_ioc t \<longleftrightarrow> trb_flags t AND 0x08 \<noteq> 0"

text \<open>A transfer event of endpoint \<open>ep\<close> for the block at \<open>addr\<close>.\<close>

definition transfer_event :: "u8 \<Rightarrow> u32 \<Rightarrow> u64 \<Rightarrow> u32 \<Rightarrow> u32 \<Rightarrow> trb" where
  "transfer_event slot_id ep addr residual code =
     new_event addr residual code TRB_TRANSFER_EVENT (push_bit 8 (ucast slot_id) OR (ep AND 0x1F))"

definition ep0_data :: "u8 \<Rightarrow> nat \<Rightarrow> usb_setup \<Rightarrow> trb \<Rightarrow> u64 \<Rightarrow> xs \<Rightarrow> xs result" where
  "ep0_data slot_id k setup_pkt t addr = (\<lambda>(x, b).
     let buf_len = trb_status t AND 0x1FFFF; d = usb_store x ! k in
     if bmRequestType setup_pkt AND 0x80 \<noteq> 0 then
       (case handle_control_request setup_pkt d of (resp, d) \<Rightarrow>
        let requested = min (unat (wLength setup_pkt)) (unat buf_len);
            to_copy = min (length resp) requested;
            x = x\<lparr>usb_store := (usb_store x)[k := d]\<rparr>;
            short_packet = (to_copy < unat buf_len) in
        and_then (if 0 < to_copy then write_dma (trb_parameter t) (take to_copy resp) b else Inr b) (\<lambda>b.
        if trb_has_ioc t \<or> short_packet then
          push_event (transfer_event slot_id 1 addr (buf_len - of_nat to_copy) (if short_packet then CC_SHORT_PACKET else CC_SUCCESS))
            (x, b)
        else Inr (x, b)))
     else
       and_then (read_dma (trb_parameter t) (min (unat buf_len) (unat (wLength setup_pkt))) b) (\<lambda>data.
       Inr (x\<lparr>usb_store := (usb_store x)[k := handle_control_data_out setup_pkt data d]\<rparr>, b)))"

definition ep0_stage :: "u8 \<Rightarrow> nat \<Rightarrow> trb \<Rightarrow> u64 \<Rightarrow> usb_setup \<times> xs \<Rightarrow> (usb_setup \<times> xs) result" where
  "ep0_stage slot_id k t addr = (\<lambda>(setup_pkt, s).
     if get_type t = TRB_SETUP_STAGE then Inr (setup_of (trb_parameter t), s)
     else if get_type t = TRB_DATA_STAGE then and_then (ep0_data slot_id k setup_pkt t addr s) (\<lambda>s. Inr (setup_pkt, s))
     else if get_type t = TRB_STATUS_STAGE then
       and_then (push_event (transfer_event slot_id 1 addr 0 CC_SUCCESS) s) (\<lambda>s. Inr (setup_pkt, s))
     else Inr (setup_pkt, s))"

primrec ep0_loop :: "nat \<Rightarrow> u8 \<Rightarrow> nat \<Rightarrow> u64 \<Rightarrow> usb_setup \<times> xs \<Rightarrow> xs result option" where
  "ep0_loop 0 slot_id k addr p = None"
| "ep0_loop (Suc fuel) slot_id k addr p =
     (case p of (setup_pkt, x, b) \<Rightarrow>
      if addr = 0 then Some (Inr (x, b))
      else bindo (Some (read_trb addr b)) (\<lambda>t.
        case slots_x x slot_id of
          None \<Rightarrow> Some (Inr (x, b))
        | Some sl \<Rightarrow>
            if trb_cycle t \<noteq> of_bool (ep0_pcs sl) then Some (Inr (x, b))
            else if get_type t = TRB_LINK then
              ep0_loop fuel slot_id k (trb_parameter t AND NOT 0xF)
                (setup_pkt, if trb_ent t \<noteq> 0 then upd_slot slot_id (\<lambda>s. s\<lparr>ep0_pcs := \<not> ep0_pcs s\<rparr>) x else x, b)
            else bindo (Some (ep0_stage slot_id k t addr p)) (\<lambda>(setup_pkt, x, b).
              ep0_loop fuel slot_id k (addr + 16) (setup_pkt, upd_slot slot_id (\<lambda>s. s\<lparr>ep0_tr_dequeue := addr + 16\<rparr>) x, b))))"

definition process_ep0_transfer_ring :: "nat \<Rightarrow> u8 \<Rightarrow> u64 \<Rightarrow> xs \<Rightarrow> xs result option" where
  "process_ep0_transfer_ring fuel slot_id addr s =
     (case slots_x (fst s) slot_id of
        None \<Rightarrow> Some (Inr s)
      | Some sl \<Rightarrow> (case attached_device sl of
                    None \<Rightarrow> Some (Inr s)
                  | Some k \<Rightarrow> ep0_loop fuel slot_id k addr (setup_of 0, s)))"

section \<open>Interrupt transfers\<close>

abbreviation (input) EP_POLL_INTERVAL :: u64 where "EP_POLL_INTERVAL \<equiv> 16"

definition ep_ctx_deq :: "nat \<Rightarrow> u64 \<Rightarrow> u64" where
  "ep_ctx_deq ep_index dc = dc + of_nat ((ep_index + 1) * 32) + 0x08"

text \<open>The position at which the ring is entered; the answer is \<open>False\<close> when the function returns at once.\<close>

definition set_ring :: "u8 \<Rightarrow> nat \<Rightarrow> u64 \<Rightarrow> u8 \<Rightarrow> xhci \<Rightarrow> xhci" where
  "set_ring slot_id i a p = upd_slot slot_id (\<lambda>s. s\<lparr>ep_deq := (ep_deq s)[i := a], ep_pcs := (ep_pcs s)[i := p]\<rparr>)"

definition ep_sync :: "u8 \<Rightarrow> nat \<Rightarrow> xhci_slot \<Rightarrow> xs \<Rightarrow> (bool \<times> xs) result" where
  "ep_sync slot_id i sl = (\<lambda>(x, b).
     if dcbaap x = 0 then Inr (ep_deq sl ! i \<noteq> 0, x, b)
     else
       and_then (slot_dc_ptr slot_id (x, b)) (\<lambda>dc.
       if dc = 0 then Inr (ep_deq sl ! i \<noteq> 0, x, b)
       else
         and_then (read_u 8 (ep_ctx_deq i dc) b) (\<lambda>d.
         let x' = set_ring slot_id i (d AND NOT 0xF) (ucast (d AND 1)) x in
         if ep_deq sl ! i = 0 \<or> (d \<noteq> 0 \<and> (d AND NOT 0xF \<noteq> ep_deq sl ! i \<or> d AND 1 \<noteq> ucast (ep_pcs sl ! i)))
         then Inr (True, x', b) else Inr (True, x, b))))"

definition paced :: "nat \<Rightarrow> xhci_slot \<Rightarrow> u64 \<Rightarrow> bool" where
  "paced i sl now \<longleftrightarrow> ep_last_complete sl ! i \<noteq> 0 \<and> now - ep_last_complete sl ! i < EP_POLL_INTERVAL"

text \<open>A \<open>NORMAL\<close> block: the answer is \<open>False\<close> when the loop stops at it.\<close>

definition ep_serve :: "u8 \<Rightarrow> nat \<Rightarrow> nat \<Rightarrow> trb \<Rightarrow> u64 \<Rightarrow> xs \<Rightarrow> (bool \<times> xs) result" where
  "ep_serve slot_id i k t addr = (\<lambda>(x, b).
     case (get_interrupt_report (usb_store x ! k), slots_x x slot_id) of
       (Some data, Some sl) \<Rightarrow>
         if paced i sl (tick_counter x) then Inr (False, x, b)
         else
           let x = upd_slot slot_id (\<lambda>s. s\<lparr>ep_last_complete := (ep_last_complete s)[i := tick_counter x]\<rparr>) x;
               len = trb_status t AND 0x1FFFF;
               copy = min (unat len) (length data) in
           and_then (if 0 < copy then write_dma (trb_parameter t) (take copy data) b else Inr b) (\<lambda>b.
           and_then (push_event (transfer_event slot_id (of_nat (i + 1)) addr (len - of_nat copy) CC_SUCCESS) (x, b)) (\<lambda>s.
           Inr (True, s)))
     | _ \<Rightarrow> Inr (False, x, b))"

primrec ep_loop :: "nat \<Rightarrow> u8 \<Rightarrow> nat \<Rightarrow> nat \<Rightarrow> u64 \<Rightarrow> u8 \<Rightarrow> xs \<Rightarrow> (u8 \<times> xs) result option" where
  "ep_loop 0 slot_id i k addr p s = None"
| "ep_loop (Suc fuel) slot_id i k addr p s =
     (case s of (x, b) \<Rightarrow>
      if addr = 0 then Some (Inr (p, x, b))
      else bindo (Some (read_trb addr b)) (\<lambda>t.
        if trb_cycle t \<noteq> ucast p then Some (Inr (p, x, b))
        else if get_type t = TRB_LINK then
          let a = trb_parameter t AND NOT 0xF;
              x = upd_slot slot_id (\<lambda>s. s\<lparr>ep_deq := (ep_deq s)[i := a]\<rparr>) x in
          if trb_ent t \<noteq> 0 then
            let p = (if p = 0 then 1 else 0) in
            ep_loop fuel slot_id i k a p (upd_slot slot_id (\<lambda>s. s\<lparr>ep_pcs := (ep_pcs s)[i := p]\<rparr>) x, b)
          else ep_loop fuel slot_id i k a p (x, b)
        else bindo (Some (if get_type t = TRB_NORMAL then ep_serve slot_id i k t addr (x, b) else Inr (True, x, b)))
          (\<lambda>(goes_on, x, b).
            if goes_on then
              ep_loop fuel slot_id i k (addr + 16) p (upd_slot slot_id (\<lambda>s. s\<lparr>ep_deq := (ep_deq s)[i := addr + 16]\<rparr>) x, b)
            else Some (Inr (p, x, b)))))"

text \<open>The position is published in the endpoint context of the guest.\<close>

definition ep_publish :: "u8 \<Rightarrow> nat \<Rightarrow> u8 \<Rightarrow> xs \<Rightarrow> xs result" where
  "ep_publish slot_id i p = (\<lambda>(x, b).
     let x = upd_slot slot_id (\<lambda>s. s\<lparr>ep_pcs := (ep_pcs s)[i := p]\<rparr>) x in
     if dcbaap x = 0 then Inr (x, b)
     else
       and_then (slot_dc_ptr slot_id (x, b)) (\<lambda>dc.
       case slots_x x slot_id of
         Some sl \<Rightarrow>
           if dc = 0 then Inr (x, b)
           else and_then (write_dma (ep_ctx_deq i dc) (le_bytes 8 (ep_deq sl ! i OR (ucast p AND 1))) b) (\<lambda>b. Inr (x, b))
       | None \<Rightarrow> Inr (x, b)))"

definition process_ep_ring :: "nat \<Rightarrow> u8 \<Rightarrow> nat \<Rightarrow> xs \<Rightarrow> xs result option" where
  "process_ep_ring fuel slot_id i s =
     (if 16 \<le> i then Some (Inr s)
      else case slots_x (fst s) slot_id of
        None \<Rightarrow> Some (Inr s)
      | Some sl \<Rightarrow>
          (case attached_device sl of
             None \<Rightarrow> Some (Inr s)
           | Some k \<Rightarrow> bindo (Some (ep_sync slot_id i sl s)) (\<lambda>(found, s).
               if \<not> found then Some (Inr s)
               else case slots_x (fst s) slot_id of
                 None \<Rightarrow> Some (Inr s)
               | Some sl \<Rightarrow> bindo (ep_loop fuel slot_id i k (ep_deq sl ! i) (ep_pcs sl ! i) s) (\<lambda>(p, s).
                   Some (ep_publish slot_id i p s)))))"

primrec service_eps :: "nat \<Rightarrow> u8 \<Rightarrow> nat list \<Rightarrow> xs \<Rightarrow> xs result option" where
  "service_eps fuel slot_id [] s = Some (Inr s)"
| "service_eps fuel slot_id (i # js) s =
     bindo (case slots_x (fst s) slot_id of
              Some sl \<Rightarrow> if ep_enabled sl ! i then process_ep_ring fuel slot_id i s else Some (Inr s)
            | None \<Rightarrow> Some (Inr s))
       (service_eps fuel slot_id js)"

primrec service_slots :: "nat \<Rightarrow> u8 list \<Rightarrow> xs \<Rightarrow> xs result option" where
  "service_slots fuel [] s = Some (Inr s)"
| "service_slots fuel (k # ks) s =
     bindo (case slots_x (fst s) k of
              Some sl \<Rightarrow> if attached_device sl \<noteq> None then service_eps fuel k [1..<16] s else Some (Inr s)
            | None \<Rightarrow> Some (Inr s))
       (service_slots fuel ks)"

definition xhci_tick :: "nat \<Rightarrow> xs \<Rightarrow> xs result option" where
  "xhci_tick fuel = (\<lambda>(x, b).
     bindo (service_slots fuel (map of_nat [0..<256]) (x\<lparr>tick_counter := tick_counter x + 1\<rparr>, b)) (\<lambda>s.
     Some (xhci_update_irq s)))"

section \<open>Commands\<close>

definition command_event :: "u64 \<Rightarrow> u32 \<Rightarrow> u8 \<Rightarrow> trb" where
  "command_event addr code slot_id = new_event addr 0 code TRB_CMD_COMPLETION_EVENT (push_bit 8 (ucast slot_id))"

definition enable_slot :: "xhci \<Rightarrow> xhci" where
  "enable_slot x =
     (if slots_x x 1 = None then x\<lparr>slots_x := (slots_x x)(1 \<mapsto> new_slot\<lparr>attached_device := ports x ! 0\<rparr>)\<rparr> else x)"

definition disable_slot :: "u8 \<Rightarrow> xhci \<Rightarrow> xhci" where
  "disable_slot slot_id x = x\<lparr>slots_x := (slots_x x)(slot_id := None)\<rparr>"

definition address_device :: "u8 \<Rightarrow> u64 \<Rightarrow> xs \<Rightarrow> xs result" where
  "address_device slot_id input_ctx_addr = (\<lambda>(x, b).
     if slots_x x slot_id = None then Inr (x, b)
     else
       and_then (read_u 4 (input_ctx_addr + 4) b) (\<lambda>raw_add.
       and_then (read_u 4 input_ctx_addr b) (\<lambda>raw_drop.
       and_then (read_u 4 (input_ctx_addr + 32 + 4) b) (\<lambda>slot_dword1.
       let root_port = ucast (drop_bit 16 slot_dword1 AND 0xFF) :: u8;
           x = (if 1 \<le> root_port \<and> root_port \<le> 6
                then upd_slot slot_id (\<lambda>s. s\<lparr>attached_device := ports x ! (unat root_port - 1)\<rparr>) x else x) in
       and_then (read_u 4 (input_ctx_addr + 2 * 32 + 8) b) (\<lambda>deq_lo.
       and_then (read_u 4 (input_ctx_addr + 2 * 32 + 12) b) (\<lambda>deq_hi.
       save_ep_ctx_from_input slot_id 1 input_ctx_addr
         (upd_slot slot_id (\<lambda>s. s\<lparr>ep0_pcs := (deq_lo AND 1 \<noteq> 0),
            ep0_tr_dequeue := push_bit 32 deq_hi OR (deq_lo AND NOT 0xF)\<rparr>) x, b)))))))"

text \<open>The endpoints of the input context; \<open>fresh\<close> is set for \<open>CONFIG_ENDPOINT\<close>.\<close>

primrec config_eps :: "nat list \<Rightarrow> u8 \<Rightarrow> u64 \<Rightarrow> bool \<Rightarrow> u64 \<Rightarrow> xs \<Rightarrow> xs result" where
  "config_eps [] slot_id input_ctx_addr fresh add_flags s = Inr s"
| "config_eps (i # js) slot_id input_ctx_addr fresh add_flags s =
     and_then
       (if bit add_flags i then
          and_then (save_ep_ctx_from_input slot_id i input_ctx_addr s) (\<lambda>(x, b).
          if fresh \<and> slots_x x slot_id \<noteq> None then
            (if 16 \<le> i then Inl Vector_index else Inr (set_ring slot_id i 0 0 x, b))
          else Inr (x, b))
        else Inr s)
       (config_eps js slot_id input_ctx_addr fresh add_flags)"

definition config_endpoint :: "u8 \<Rightarrow> u64 \<Rightarrow> bool \<Rightarrow> xs \<Rightarrow> xs result" where
  "config_endpoint slot_id input_ctx_addr fresh = (\<lambda>(x, b).
     and_then (read_u 4 input_ctx_addr b) (\<lambda>drop_flags.
     and_then (read_u 4 (input_ctx_addr + 4) b) (\<lambda>add_flags.
     config_eps [1..<32] slot_id input_ctx_addr fresh add_flags (x, b))))"

definition stop_endpoint :: "u8 \<Rightarrow> nat \<Rightarrow> xs \<Rightarrow> xs result" where
  "stop_endpoint slot_id ep_id = (\<lambda>(x, b).
     case slots_x x slot_id of
       None \<Rightarrow> Inr (x, b)
     | Some sl \<Rightarrow>
         if ep_id < 1 then Inr (x, b)
         else if 16 < ep_id then Inl Vector_index
         else
           let deq = ep_deq sl ! (ep_id - 1) in
           if deq = 0 then Inr (x, b)
           else
             and_then (read_trb deq b) (\<lambda>probe.
             if trb_cycle probe = ucast (ep_pcs sl ! (ep_id - 1))
             then push_event (transfer_event slot_id (of_nat ep_id) deq 0 CC_STOPPED) (x, b)
             else Inr (x, b)))"

definition set_tr_dequeue :: "u8 \<Rightarrow> nat \<Rightarrow> u64 \<Rightarrow> xs \<Rightarrow> xs result" where
  "set_tr_dequeue slot_id ep_id param = (\<lambda>(x, b).
     if slots_x x slot_id = None \<or> ep_id < 1 then Inr (x, b)
     else if 16 < ep_id then Inl Vector_index
     else
       let x = set_ring slot_id (ep_id - 1) (param AND NOT 0xF) (ucast (param AND 1)) x in
       if dcbaap x = 0 then Inr (x, b)
       else
         and_then (slot_dc_ptr slot_id (x, b)) (\<lambda>dc.
         if dc = 0 then Inr (x, b)
         else and_then (write_dma (ep_ctx_deq (ep_id - 1) dc) (le_bytes 8 param) b) (\<lambda>b. Inr (x, b))))"

text \<open>The command without its completion event, and the slot named in that event.\<close>

definition command_body :: "trb \<Rightarrow> xs \<Rightarrow> xs result" where
  "command_body t = (\<lambda>(x, b).
     let slot_id = get_slot_id t; ctx = trb_parameter t AND NOT 0xF; ep_id = unat (drop_bit 8 (trb_control t) AND 0x1F) in
     if get_type t = TRB_ENABLE_SLOT then Inr (enable_slot x, b)
     else if get_type t = TRB_DISABLE_SLOT then Inr (disable_slot slot_id x, b)
     else if get_type t = TRB_ADDRESS_DEVICE then address_device slot_id ctx (x, b)
     else if get_type t = TRB_CONFIG_ENDPOINT then config_endpoint slot_id ctx True (x, b)
     else if get_type t = TRB_EVAL_CONTEXT then config_endpoint slot_id ctx False (x, b)
     else if get_type t = TRB_STOP_ENDPOINT then stop_endpoint slot_id ep_id (x, b)
     else if get_type t = TRB_SET_TR_DEQUEUE then set_tr_dequeue slot_id ep_id (trb_parameter t) (x, b)
     else Inr (x, b))"

definition completion :: "trb \<Rightarrow> u64 \<Rightarrow> trb" where
  "completion t addr =
     (if get_type t = TRB_NO_OP_CMD then command_event addr CC_SUCCESS 0
      else if get_type t = TRB_ENABLE_SLOT then command_event addr CC_SUCCESS 1
      else if get_type t \<in> {TRB_DISABLE_SLOT, TRB_ADDRESS_DEVICE, TRB_CONFIG_ENDPOINT, TRB_EVAL_CONTEXT, TRB_STOP_ENDPOINT,
        TRB_RESET_ENDPOINT, TRB_SET_TR_DEQUEUE, TRB_RESET_DEVICE} then command_event addr CC_SUCCESS (get_slot_id t)
      else command_event addr CC_TRB_ERROR 0)"

definition run_command :: "trb \<Rightarrow> xs \<Rightarrow> xs result" where
  "run_command t = (\<lambda>(x, b).
     and_then (command_body t (x, b)) (\<lambda>s.
     and_then (push_event (completion t (crcr_dequeue x)) s) (\<lambda>(x, b).
     Inr (x\<lparr>crcr_dequeue := crcr_dequeue x + 16\<rparr>, b))))"

primrec process_command_ring :: "nat \<Rightarrow> xs \<Rightarrow> xs result option" where
  "process_command_ring 0 s = None"
| "process_command_ring (Suc fuel) s =
     (case s of (x, b) \<Rightarrow>
      bindo (Some (read_trb (crcr_dequeue x) b)) (\<lambda>t.
        if trb_cycle t \<noteq> of_bool (x_pcs x) then Some (Inr (x, b))
        else if get_type t = TRB_LINK then
          process_command_ring fuel
            (x\<lparr>crcr_dequeue := trb_parameter t AND NOT 0xF, x_pcs := (if trb_ent t \<noteq> 0 then \<not> x_pcs x else x_pcs x)\<rparr>, b)
        else bindo (Some (run_command t (x, b))) (process_command_ring fuel)))"

section \<open>Registers\<close>

definition write_doorbell :: "nat \<Rightarrow> u32 \<Rightarrow> u32 \<Rightarrow> xs \<Rightarrow> xs result option" where
  "write_doorbell fuel offset val s =
     (let slot_id = ucast (offset div 4) :: u8; target = ucast (val AND 0xFF) :: u8 in
      if slot_id = 0 \<and> target = 0 then process_command_ring fuel s
      else if target = 0 then Some (Inr s)
      else if target = 1 then
        (case slots_x (fst s) slot_id of
           Some sl \<Rightarrow> if ep0_tr_dequeue sl \<noteq> 0 then process_ep0_transfer_ring fuel slot_id (ep0_tr_dequeue sl) s else Some (Inr s)
         | None \<Rightarrow> Some (Inr s))
      else process_ep_ring fuel slot_id (unat target - 1) s)"

text \<open>A register of 64 bits, read whole or by halves.\<close>

definition low_or_all :: "memory_size \<Rightarrow> u64 \<Rightarrow> u64" where
  "low_or_all sz v = (if sz = 8 then v else v AND 0xFFFFFFFF)"

definition set_low_or_all :: "memory_size \<Rightarrow> u64 \<Rightarrow> u64 \<Rightarrow> u64" where
  "set_low_or_all sz val old = (if sz = 8 then val else (old AND 0xFFFFFFFF00000000) OR (val AND 0xFFFFFFFF))"

definition set_high :: "u64 \<Rightarrow> u64 \<Rightarrow> u64" where
  "set_high val old = (old AND 0xFFFFFFFF) OR push_bit 32 val"

definition cap_read :: "u64 \<Rightarrow> u64" where
  "cap_read offs =
     (if offs = 0x00 then 0x20 OR push_bit 16 0x0110
      else if offs = 0x04 then push_bit 24 6 OR push_bit 8 1 OR 8
      else if offs = 0x10 then 1 OR push_bit 16 (0x8000 div 4)
      else if offs = 0x14 then 0x200
      else if offs = 0x18 then 0x100
      else 0)"

definition op_read :: "u64 \<Rightarrow> memory_size \<Rightarrow> xhci \<Rightarrow> u64" where
  "op_read op sz x =
     (if op = 0x00 then ucast (usbcmd x)
      else if op = 0x04 then ucast (usbsts x)
      else if op = 0x08 then 1
      else if op = 0x18 then low_or_all sz (crcr_base x)
      else if op = 0x1C then drop_bit 32 (crcr_base x)
      else if op = 0x30 then low_or_all sz (dcbaap x)
      else if op = 0x34 then drop_bit 32 (dcbaap x)
      else if op = 0x38 then ucast (config_reg x)
      else 0)"

definition rt_read :: "u64 \<Rightarrow> memory_size \<Rightarrow> xhci_interrupter \<Rightarrow> u64" where
  "rt_read rt sz i =
     (if rt = 0x20 then ucast (iman i)
      else if rt = 0x24 then ucast (imod i)
      else if rt = 0x28 then ucast (erstsz i)
      else if rt = 0x30 then low_or_all sz (erstba i)
      else if rt = 0x34 then drop_bit 32 (erstba i)
      else if rt = 0x38 then low_or_all sz (erdp i)
      else if rt = 0x3C then drop_bit 32 (erdp i)
      else 0)"

definition ext_read :: "u64 \<Rightarrow> u64" where
  "ext_read local =
     (if local = 0x00 then 0x02 OR push_bit 8 4 OR push_bit 24 0x02
      else if local = 0x04 then 0x20425355
      else if local = 0x08 then push_bit 8 5 OR 2
      else if local = 0x10 then 0x02 OR push_bit 24 0x03
      else if local = 0x14 then 0x20425355
      else if local = 0x18 then push_bit 8 1 OR 1
      else 0)"

definition xhci_read :: "u64 \<Rightarrow> memory_size \<Rightarrow> xhci \<Rightarrow> u64" where
  "xhci_read offs sz x =
     (if offs < 0x20 then cap_read offs
      else if offs < 0x100 then op_read (offs - 0x20) sz x
      else if 0x420 \<le> offs \<and> offs < 0x480 then ucast (port_sc x ! unat ((offs - 0x420) div 0x10))
      else if offs < 0x200 then rt_read (offs - 0x100) sz (intr x)
      else if 0x8000 \<le> offs \<and> offs < 0x8020 then ext_read (offs - 0x8000)
      else 0)"

definition op_write :: "u64 \<Rightarrow> memory_size \<Rightarrow> u64 \<Rightarrow> xs \<Rightarrow> xs result" where
  "op_write op sz val = (\<lambda>(x, b).
     let set_crcr = (\<lambda>v. x\<lparr>crcr_base := v, crcr_dequeue := v AND NOT 0x3F, x_pcs := (v AND 1 \<noteq> 0)\<rparr>) in
     if op = 0x00 then
       let x = x\<lparr>usbcmd := ucast val\<rparr>;
           x = (if cmd_hcrst (usbcmd x) \<noteq> 0 then (let x = xhci_reset x in x\<lparr>usbcmd := set_hcrst 0 (usbcmd x)\<rparr>) else x)
       in xhci_update_irq (x\<lparr>usbsts := set_hchalted (if cmd_runstop (usbcmd x) = 0 then 1 else 0) (usbsts x)\<rparr>, b)
     else if op = 0x04 then xhci_update_irq (x\<lparr>usbsts := usbsts x AND NOT (ucast val)\<rparr>, b)
     else if op = 0x18 then Inr (set_crcr (set_low_or_all sz val (crcr_base x)), b)
     else if op = 0x1C then Inr (set_crcr (set_high val (crcr_base x)), b)
     else if op = 0x30 then Inr (x\<lparr>dcbaap := set_low_or_all sz val (dcbaap x)\<rparr>, b)
     else if op = 0x34 then Inr (x\<lparr>dcbaap := set_high val (dcbaap x)\<rparr>, b)
     else if op = 0x38 then Inr (x\<lparr>config_reg := ucast val AND 0xFF\<rparr>, b)
     else Inr (x, b))"

text \<open>A write to \<open>PORTSC\<close>: acknowledged changes, then the port power, then the port reset.\<close>

definition port_power :: "nat \<Rightarrow> u32 \<Rightarrow> xs \<Rightarrow> xs result" where
  "port_power idx wval = (\<lambda>(x, b).
     let port = port_sc x ! idx; set_port = (\<lambda>p. x\<lparr>port_sc := (port_sc x)[idx := p]\<rparr>) in
     if \<not> bit wval 9 \<and> psc_pp port \<noteq> 0 then Inr (set_port (set_pls 5 (set_ped 0 (set_pp 0 port))), b)
     else if bit wval 9 \<and> psc_pp port = 0 then
       (if ports x ! idx \<noteq> None then
          push_event (port_event idx)
            ((set_port (set_csc 1 (set_ccs 1 (set_pp 1 port))))\<lparr>usbsts := set_pcd 1 (usbsts x)\<rparr>, b)
        else Inr (set_port (set_pp 1 port), b))
     else Inr (x, b))"

definition port_reset :: "nat \<Rightarrow> u32 \<Rightarrow> xs \<Rightarrow> xs result" where
  "port_reset idx wval = (\<lambda>(x, b).
     if bit wval 4 \<and> ports x ! idx \<noteq> None then
       push_event (port_event idx)
         (x\<lparr>port_sc := (port_sc x)[idx := set_prc 1 (set_ped 1 (set_pr 0 (port_sc x ! idx)))],
            usbsts := set_pcd 1 (usbsts x)\<rparr>, b)
     else Inr (x, b))"

definition port_write :: "nat \<Rightarrow> u32 \<Rightarrow> xs \<Rightarrow> xs result" where
  "port_write idx wval = (\<lambda>(x, b).
     and_then (port_power idx wval (x\<lparr>port_sc := (port_sc x)[idx := port_sc x ! idx AND NOT (wval AND 0x260000)]\<rparr>, b))
       (port_reset idx wval))"

definition rt_write :: "u64 \<Rightarrow> memory_size \<Rightarrow> u64 \<Rightarrow> xs \<Rightarrow> xs result" where
  "rt_write rt sz val = (\<lambda>(x, b).
     let i = intr x; set_intr = (\<lambda>i. x\<lparr>intr := i\<rparr>) in
     if rt = 0x20 then xhci_update_irq (set_intr (i\<lparr>iman := ucast val\<rparr>), b)
     else if rt = 0x24 then Inr (set_intr (i\<lparr>imod := ucast val\<rparr>), b)
     else if rt = 0x28 then Inr (set_intr (i\<lparr>erstsz := ucast val AND 0xFFFF\<rparr>), b)
     else if rt = 0x30 then update_event_ring_segment (set_intr (i\<lparr>erstba := set_low_or_all sz val (erstba i)\<rparr>), b)
     else if rt = 0x34 then update_event_ring_segment (set_intr (i\<lparr>erstba := set_high val (erstba i)\<rparr>), b)
     else if rt = 0x38 then Inr (set_intr (i\<lparr>erdp := set_low_or_all sz val (erdp i)\<rparr>), b)
     else if rt = 0x3C then Inr (set_intr (i\<lparr>erdp := set_high val (erdp i)\<rparr>), b)
     else Inr (x, b))"

definition xhci_write :: "nat \<Rightarrow> u64 \<Rightarrow> memory_size \<Rightarrow> u64 \<Rightarrow> xs \<Rightarrow> xs result option" where
  "xhci_write fuel offs sz val s =
     (if offs < 0x20 then Some (Inr s)
      else if offs < 0x100 then Some (op_write (offs - 0x20) sz val s)
      else if 0x420 \<le> offs \<and> offs < 0x480 then Some (port_write (unat ((offs - 0x420) div 0x10)) (ucast val) s)
      else if offs < 0x200 then Some (rt_write (offs - 0x100) sz val s)
      else write_doorbell fuel (ucast (offs - 0x200)) (ucast val) s)"

text \<open>A second way to the registers of the interrupter, which nothing calls.\<close>

definition write_interrupter_reg :: "u32 \<Rightarrow> u32 \<Rightarrow> xs \<Rightarrow> xs result" where
  "write_interrupter_reg reg_offset val = (\<lambda>(x, b).
     let i = intr x; set_intr = (\<lambda>i. x\<lparr>intr := i\<rparr>) in
     if reg_offset = 0x08 then Inr (set_intr (i\<lparr>erstsz := val AND 0xFFFF\<rparr>), b)
     else if reg_offset = 0x10 then Inr (set_intr (i\<lparr>erstba := (erstba i AND 0xFFFFFFFF00000000) OR ucast val\<rparr>), b)
     else if reg_offset = 0x14 then
       update_event_ring_segment (set_intr (i\<lparr>erstba := set_high (ucast val) (erstba i)\<rparr>), b)
     else if reg_offset = 0x18 then
       Inr (set_intr (i\<lparr>erdp := (erdp i AND 0xFFFFFFFF00000000) OR (ucast val AND NOT 0xF)\<rparr>), b)
     else if reg_offset = 0x1C then Inr (set_intr (i\<lparr>erdp := set_high (ucast val) (erdp i)\<rparr>), b)
     else Inr (x, b))"

section \<open>The controller on the bridge\<close>

definition bridge_read :: "u64 \<Rightarrow> memory_size \<Rightarrow> xhci heg \<Rightarrow> u64" where
  "bridge_read = heg_read xhci_read"

definition bridge_write :: "nat \<Rightarrow> u64 \<Rightarrow> memory_size \<Rightarrow> u64 \<Rightarrow> xhci heg \<times> board \<Rightarrow> (xhci heg \<times> board) result option" where
  "bridge_write fuel = heg_write (xhci_write fuel)"

definition bridge_tick :: "nat \<Rightarrow> xhci heg \<times> board \<Rightarrow> (xhci heg \<times> board) result option" where
  "bridge_tick fuel = heg_tick (xhci_tick fuel)"

section \<open>Guest memory\<close>

text \<open>A range of guest addresses that the memory map backs.\<close>

definition dma_ok :: "memory_map \<Rightarrow> u64 \<Rightarrow> nat \<Rightarrow> bool" where
  "dma_ok m a n \<longleftrightarrow> n < 2 ^ 64 \<and> (\<forall>j < n. map_inside m (a + of_nat j) 1)"

definition same_range :: "memory_map \<Rightarrow> memory_map \<Rightarrow> bool" where
  "same_range m m' \<longleftrightarrow> (\<forall>c l. map_inside m' c l = map_inside m c l)"

lemma dma_ok_Suc: "dma_ok m a (Suc n) \<Longrightarrow> map_inside m a 1 \<and> dma_ok m (a + 1) n"
proof -
  assume d: "dma_ok m a (Suc n)"
  have "map_inside m (a + 1 + of_nat j) 1" if "j < n" for j
    using d that by (auto simp: dma_ok_def dest!: spec [of _ "Suc j"] simp: algebra_simps)
  with d show ?thesis by (auto simp: dma_ok_def dest: spec [of _ 0])
qed

lemma dma_ok_same: "same_range m m' \<Longrightarrow> dma_ok m' a n = dma_ok m a n"
  by (simp add: dma_ok_def same_range_def)

lemma copy_to_frame:
  assumes "dma_ok m a (length bs)"
  shows "\<exists>m'. copy_to_dram bs a m = Inr m' \<and> same_range m m' \<and>
    (\<forall>c. map_inside m c 1 \<longrightarrow> apart a (length bs) c 1 \<longrightarrow> map_rd c 1 m' = map_rd c 1 m)"
  using assms
proof (induction bs arbitrary: a m)
  case (Cons b bs)
  from Cons.prems have i: "map_inside m a 1" and d: "dma_ok m (a + 1) (length bs)" using dma_ok_Suc by auto
  obtain m1 where m1: "map_wr a 1 (ucast b) m = Inr m1" using mm.wr_total [OF i] by blast
  have s1: "same_range m m1" using mm.wr_inside [OF i m1] by (simp add: same_range_def)
  with d obtain m2 where m2: "copy_to_dram bs (a + 1) m1 = Inr m2" "same_range m1 m2"
    "\<forall>c. map_inside m1 c 1 \<longrightarrow> apart (a + 1) (length bs) c 1 \<longrightarrow> map_rd c 1 m2 = map_rd c 1 m1"
    using Cons.IH [of m1 "a + 1"] dma_ok_same by auto
  have "map_rd c 1 m2 = map_rd c 1 m" if "map_inside m c 1" "apart a (Suc (length bs)) c 1" for c
  proof -
    have "apart a 1 c 1" "apart (a + 1) (length bs) c 1"
      using that(2) by (auto simp: apart_def algebra_simps)
    then show ?thesis using m2(3) that(1) s1 mm.rd_wr_apart [OF i that(1) _ m1] by (simp add: same_range_def)
  qed
  with m1 m2 s1 show ?case by (auto simp: same_range_def)
qed (simp add: same_range_def)

lemma copy_from_frame:
  assumes "dma_ok m a n" and "\<And>j. j < n \<Longrightarrow> map_rd (a + of_nat j) 1 m' = map_rd (a + of_nat j) 1 m"
  shows "copy_from_dram n a m' = copy_from_dram n a m"
  using assms
proof (induction n arbitrary: a)
  case (Suc n)
  have "copy_from_dram n (a + 1) m' = copy_from_dram n (a + 1) m"
    using Suc.prems dma_ok_Suc [of m a n] by (intro Suc.IH) (auto simp: add.assoc dest!: spec [of _ "Suc _"] intro: Suc.prems(2) [of "Suc _", simplified])
  with Suc.prems(2) [of 0] show ?case by simp
qed simp

lemma apart_points: "apart a n b k \<Longrightarrow> j < k \<Longrightarrow> apart a n (b + of_nat j) 1"
  by (simp add: apart_def)

lemma ucast_8_up: "ucast (ucast (v :: u8) :: u64) = v"
  by (rule bit_word_eqI) (auto simp: bit_simps dest: bit_imp_le_length)

lemma copy_to_from:
  assumes "dma_ok m a (length bs)" and "copy_to_dram bs a m = Inr m'"
  shows "copy_from_dram (length bs) a m' = Inr bs"
  using assms
proof (induction bs arbitrary: a m)
  case (Cons b bs)
  from Cons.prems(1) have i: "map_inside m a 1" and d: "dma_ok m (a + 1) (length bs)" and l: "Suc (length bs) < 2 ^ 64"
    using dma_ok_Suc by (auto simp: dma_ok_def)
  obtain m1 where m1: "map_wr a 1 (ucast b) m = Inr m1" using mm.wr_total [OF i] by blast
  have s1: "same_range m m1" using mm.wr_inside [OF i m1] by (simp add: same_range_def)
  have d1: "dma_ok m1 (a + 1) (length bs)" using d dma_ok_same [OF s1] by simp
  have m2: "copy_to_dram bs (a + 1) m1 = Inr m'" using Cons.prems(2) m1 by simp
  have "apart (a + 1) (length bs) a 1"
  proof -
    have "(1 + of_nat j :: u64) \<noteq> 0" if "j < length bs" for j
      using of_nat_64_eq_iff [of "Suc j" 0] that l by simp
    then show ?thesis by (auto simp: apart_def add.assoc)
  qed
  then have "map_rd a 1 m' = map_rd a 1 m1" using copy_to_frame [OF d1] m2 s1 i by (auto simp: same_range_def)
  also have "\<dots> = Inr (ucast b)"
    using mm.rd_wr_same [OF i m1] by simp (rule bit_word_eqI, auto simp: bit_simps dest: bit_imp_le_length)
  finally show ?case using Cons.IH [OF d1 m2] ucast_8_up [of b] by simp
qed simp

lemma copy_to_apart:
  assumes "dma_ok m a (length bs)" and "copy_to_dram bs a m = Inr m'" and "dma_ok m c k" and "apart a (length bs) c k"
  shows "copy_from_dram k c m' = copy_from_dram k c m"
  using copy_to_frame [OF assms(1)] assms(2,3) apart_points [OF assms(4)]
  by (intro copy_from_frame [OF assms(3)]) (auto simp: dma_ok_def)

section \<open>Blocks in memory\<close>

lemma le_word_le_bytes_8: "le_word (le_bytes 8 v) = v"
  by (rule bit_word_eqI) (auto simp: le_word_le_bytes bit_simps)

lemma trb_of_bytes: "trb_of (trb_bytes t) = t"
  by (simp add: trb_of_def trb_bytes_def le_word_le_bytes_8 le_word_le_bytes_4)

lemma length_trb_bytes [simp]: "length (trb_bytes t) = 16"
  by (simp add: trb_bytes_def)

lemma read_trb_cong:
  "copy_from_dram 16 a (b_mem b') = copy_from_dram 16 a (b_mem b) \<Longrightarrow> read_trb a b' = read_trb a b"
  by (simp add: read_trb_def read_dma_def)

section \<open>The event ring\<close>

definition with_cycle :: "bool \<Rightarrow> trb \<Rightarrow> trb" where
  "with_cycle c t = t\<lparr>trb_control := bf_set 0 1 (of_bool c) (trb_control t)\<rparr>"

text \<open>The event ring lies in memory, has \<open>n\<close> entries, and the next event goes to entry \<open>k\<close>.\<close>

definition ring_at :: "nat \<Rightarrow> nat \<Rightarrow> xs \<Rightarrow> bool" where
  "ring_at n k = (\<lambda>(x, b).
     ring_base (intr x) \<noteq> 0 \<and> k < n \<and> unat (ring_base (intr x)) + 16 * n < 2 ^ 64 \<and>
     ring_end (intr x) = ring_base (intr x) + 16 * of_nat n \<and>
     event_enqueue_ptr (intr x) = ring_base (intr x) + 16 * of_nat k \<and>
     dma_ok (b_mem b) (ring_base (intr x)) (16 * n) \<and> ctl_ok (b_plic b, b_harts b) \<and> x_irq x < 64)"

text \<open>What \<open>update_irq\<close> does to the controller.\<close>

definition irq_state :: "xhci \<Rightarrow> xhci" where
  "irq_state x = (if unread (intr x) then x\<lparr>usbsts := set_eint 1 (usbsts x), intr := (intr x)\<lparr>iman := iman (intr x) OR 1\<rparr>\<rparr> else x)"

lemma irq_state_simps [simp]:
  "ring_base (intr (irq_state x)) = ring_base (intr x)" "ring_end (intr (irq_state x)) = ring_end (intr x)"
  "event_enqueue_ptr (intr (irq_state x)) = event_enqueue_ptr (intr x)" "intr_pcs (intr (irq_state x)) = intr_pcs (intr x)"
  "x_irq (irq_state x) = x_irq x" "crcr_dequeue (irq_state x) = crcr_dequeue x" "x_pcs (irq_state x) = x_pcs x"
  "slots_x (irq_state x) = slots_x x" "ports (irq_state x) = ports x" "port_sc (irq_state x) = port_sc x"
  "usb_store (irq_state x) = usb_store x"
  by (simp_all add: irq_state_def)

lemma update_irq_eq:
  "xhci_update_irq (x, b) =
     (let y = irq_state x in
      and_then (set_pending (x_irq x) ((sts_eint (usbsts y) \<noteq> 0 \<or> unread (intr x)) \<and> iman (intr y) AND 1 \<noteq> 0 \<and> cmd_inte (usbcmd y) \<noteq> 0)
        (b_plic b) (b_harts b)) (\<lambda>(p, hs). Inr (y, b\<lparr>b_plic := p, b_harts := hs\<rparr>)))"
  by (simp add: xhci_update_irq_def irq_state_def Let_def)

lemma update_irq_ok:
  assumes "ctl_ok (b_plic b, b_harts b)" and "x_irq x < 64"
  obtains p hs where "xhci_update_irq (x, b) = Inr (irq_state x, b\<lparr>b_plic := p, b_harts := hs\<rparr>)" "ctl_ok (p, hs)"
proof -
  obtain p hs where "set_pending (x_irq x) ((sts_eint (usbsts (irq_state x)) \<noteq> 0 \<or> unread (intr x)) \<and> iman (intr (irq_state x)) AND 1 \<noteq> 0 \<and>
      cmd_inte (usbcmd (irq_state x)) \<noteq> 0) (b_plic b) (b_harts b) = Inr (p, hs)" "ctl_ok (p, hs)"
    using signal_ok [OF assms] by (fastforce simp: signal_def)
  then show ?thesis by (intro that [of hs p]) (simp_all add: update_irq_eq Let_def)
qed

text \<open>The interrupter after an event, and the controller before it updates its interrupt.\<close>

definition next_entry :: "xhci_interrupter \<Rightarrow> xhci_interrupter" where
  "next_entry i =
     (if ring_end i \<le> event_enqueue_ptr i + 16 then i\<lparr>event_enqueue_ptr := ring_base i, intr_pcs := \<not> intr_pcs i\<rparr>
      else i\<lparr>event_enqueue_ptr := event_enqueue_ptr i + 16\<rparr>)"

definition after_event :: "xhci \<Rightarrow> xhci" where
  "after_event x = irq_state (x\<lparr>intr := (next_entry (intr x))\<lparr>iman := iman (intr x) OR 1\<rparr>, usbsts := set_eint 1 (usbsts x)\<rparr>)"

lemma push_event_eq:
  "push_event t (x, b) =
     (if ring_base (intr x) = 0 then Inr (x, b)
      else and_then (write_dma (event_enqueue_ptr (intr x)) (trb_bytes (with_cycle (intr_pcs (intr x)) t)) b) (\<lambda>b.
        xhci_update_irq (x\<lparr>intr := (next_entry (intr x))\<lparr>iman := iman (intr x) OR 1\<rparr>, usbsts := set_eint 1 (usbsts x)\<rparr>, b)))"
  by (simp add: push_event_def with_cycle_def Let_def of_bool_def) (auto simp: next_entry_def intro!: arg_cong2 [where f = and_then])

lemma after_event_simps [simp]:
  "intr_pcs (intr (after_event x)) = intr_pcs (next_entry (intr x))" "ring_base (intr (after_event x)) = ring_base (intr x)"
  "ring_end (intr (after_event x)) = ring_end (intr x)" "event_enqueue_ptr (intr (after_event x)) = event_enqueue_ptr (next_entry (intr x))"
  "x_irq (after_event x) = x_irq x" "crcr_dequeue (after_event x) = crcr_dequeue x" "x_pcs (after_event x) = x_pcs x"
  "slots_x (after_event x) = slots_x x" "ports (after_event x) = ports x" "port_sc (after_event x) = port_sc x"
  "usb_store (after_event x) = usb_store x"
  by (simp_all add: after_event_def next_entry_def)

lemma ring_entry:
  assumes "ring_at n k (x, b)" and "j < n"
  shows "unat (ring_base (intr x) + 16 * of_nat j) = unat (ring_base (intr x)) + 16 * j"
    and "dma_ok (b_mem b) (ring_base (intr x) + 16 * of_nat j) 16"
proof -
  have u: "unat (16 * of_nat j :: u64) = 16 * j" using assms by (simp add: ring_at_def unat_word_ariths unat_of_nat_64)
  show "unat (ring_base (intr x) + 16 * of_nat j) = unat (ring_base (intr x)) + 16 * j"
    using assms u by (simp add: ring_at_def unat_word_ariths(1))
  have "map_inside (b_mem b) (ring_base (intr x) + 16 * of_nat j + of_nat l) 1" if "l < 16" for l
    using assms that by (auto simp: ring_at_def dma_ok_def add.assoc dest!: spec [of _ "16 * j + l"])
  then show "dma_ok (b_mem b) (ring_base (intr x) + 16 * of_nat j) 16" by (simp add: dma_ok_def)
qed

lemma next_entry_at:
  assumes "ring_at n k (x, b)"
  shows "event_enqueue_ptr (next_entry (intr x)) = ring_base (intr x) + 16 * of_nat (Suc k mod n)"
    and "intr_pcs (next_entry (intr x)) = (if Suc k = n then \<not> intr_pcs (intr x) else intr_pcs (intr x))"
proof -
  have e: "event_enqueue_ptr (intr x) + 16 = ring_base (intr x) + 16 * of_nat (Suc k)" and k: "k < n" "0 < n"
    using assms by (auto simp: ring_at_def algebra_simps)
  have u: "unat (ring_base (intr x) + 16 * of_nat j) = unat (ring_base (intr x)) + 16 * j" if "j \<le> n" for j
  proof -
    have "unat (16 * of_nat j :: u64) = 16 * j" using assms that by (simp add: ring_at_def unat_word_ariths unat_of_nat_64)
    then show ?thesis using assms that by (simp add: ring_at_def unat_word_ariths(1))
  qed
  have wrap: "ring_end (intr x) \<le> event_enqueue_ptr (intr x) + 16 \<longleftrightarrow> Suc k = n"
    using u [of "Suc k"] u [of n] k assms unfolding e by (auto simp: ring_at_def word_le_nat_alt)
  show "event_enqueue_ptr (next_entry (intr x)) = ring_base (intr x) + 16 * of_nat (Suc k mod n)"
    unfolding next_entry_def wrap using k by (auto simp: e simp del: of_nat_Suc)
  show "intr_pcs (next_entry (intr x)) = (if Suc k = n then \<not> intr_pcs (intr x) else intr_pcs (intr x))"
    unfolding next_entry_def wrap by simp
qed

text \<open>One event: it is written to its entry with the current cycle bit, the ring advances, nothing else in memory changes.\<close>

lemma push_event_ok:
  assumes "ring_at n k (x, b)"
  shows "\<exists>b'. push_event t (x, b) = Inr (after_event x, b') \<and> ring_at n (Suc k mod n) (after_event x, b') \<and>
    read_trb (ring_base (intr x) + 16 * of_nat k) b' = Inr (with_cycle (intr_pcs (intr x)) t) \<and> same_range (b_mem b) (b_mem b') \<and>
    (\<forall>c l. dma_ok (b_mem b) c l \<longrightarrow> apart (ring_base (intr x) + 16 * of_nat k) 16 c l \<longrightarrow>
      copy_from_dram l c (b_mem b') = copy_from_dram l c (b_mem b))"
proof -
  have k: "k < n" and nz: "ring_base (intr x) \<noteq> 0" and ctl: "ctl_ok (b_plic b, b_harts b)" "x_irq x < 64"
    and e: "event_enqueue_ptr (intr x) = ring_base (intr x) + 16 * of_nat k" using assms by (auto simp: ring_at_def)
  let ?t = "trb_bytes (with_cycle (intr_pcs (intr x)) t)"
  have d: "dma_ok (b_mem b) (event_enqueue_ptr (intr x)) (length ?t)" using ring_entry(2) [OF assms k] e by simp
  obtain m where m: "copy_to_dram ?t (event_enqueue_ptr (intr x)) (b_mem b) = Inr m" "same_range (b_mem b) m"
    using copy_to_frame [OF d] by blast
  define y where "y = x\<lparr>intr := (next_entry (intr x))\<lparr>iman := iman (intr x) OR 1\<rparr>, usbsts := set_eint 1 (usbsts x)\<rparr>"
  have cy: "ctl_ok (b_plic (b\<lparr>b_mem := m\<rparr>), b_harts (b\<lparr>b_mem := m\<rparr>))" "x_irq y < 64" using ctl by (simp_all add: y_def)
  obtain p hs where u: "xhci_update_irq (y, b\<lparr>b_mem := m\<rparr>) = Inr (irq_state y, b\<lparr>b_mem := m, b_plic := p, b_harts := hs\<rparr>)" "ctl_ok (p, hs)"
    by (rule update_irq_ok [OF cy])
  define b' where "b' = b\<lparr>b_mem := m, b_plic := p, b_harts := hs\<rparr>"
  have push: "push_event t (x, b) = Inr (after_event x, b')"
    using nz m(1) u(1) by (simp add: push_event_eq write_dma_def b'_def y_def after_event_def)
  have "ring_at n (Suc k mod n) (after_event x, b')"
    using assms next_entry_at [OF assms] u(2) dma_ok_same [OF m(2)] k by (simp add: ring_at_def b'_def)
  moreover have "read_trb (ring_base (intr x) + 16 * of_nat k) b' = Inr (with_cycle (intr_pcs (intr x)) t)"
    using copy_to_from [OF d m(1)] e by (simp add: read_trb_def read_dma_def b'_def trb_of_bytes)
  moreover have "copy_from_dram l c m = copy_from_dram l c (b_mem b)"
    if "dma_ok (b_mem b) c l" "apart (ring_base (intr x) + 16 * of_nat k) 16 c l" for c l
    using copy_to_apart [OF d m(1) that(1)] that(2) e by simp
  ultimately show ?thesis using push m(2) by (auto simp: b'_def)
qed

lemma entries_apart:
  assumes "ring_at n k (x, b)" and "i < n" and "j < n" and "i \<noteq> j"
  shows "apart (ring_base (intr x) + 16 * of_nat i) 16 (ring_base (intr x) + 16 * of_nat j) 16"
proof -
  have "unat (ring_base (intr x)) + 16 * n < 2 ^ 64" using assms(1) by (simp add: ring_at_def)
  then have "apart (ring_base (intr x) + 16 * of_nat p) 16 (ring_base (intr x) + 16 * of_nat q) 16" if "q < p" "p < n" for p q
    using ring_entry(1) [OF assms(1), of p] ring_entry(1) [OF assms(1), of q] that by (intro apart_above) auto
  with assms show ?thesis using apart_sym by (metis nat_neq_iff)
qed

text \<open>Several events, one after the other.\<close>

primrec push_events :: "trb list \<Rightarrow> xs \<Rightarrow> xs result" where
  "push_events [] s = Inr s"
| "push_events (t # ts) s = and_then (push_event t s) (push_events ts)"

definition entry :: "u64 \<Rightarrow> nat \<Rightarrow> nat \<Rightarrow> u64" where
  "entry base n j = base + 16 * of_nat (j mod n)"

lemma push_events_ok:
  assumes "ring_at n k (x, b)" and "length ts \<le> n"
  shows "\<exists>x' b'. push_events ts (x, b) = Inr (x', b') \<and> ring_at n ((k + length ts) mod n) (x', b') \<and>
    ring_base (intr x') = ring_base (intr x) \<and> same_range (b_mem b) (b_mem b') \<and>
    (\<forall>j < length ts. read_trb (entry (ring_base (intr x)) n (k + j)) b' = Inr (with_cycle (intr_pcs (intr x) \<noteq> (n \<le> k + j)) (ts ! j))) \<and>
    (\<forall>c l. dma_ok (b_mem b) c l \<longrightarrow> (\<forall>j < length ts. apart (entry (ring_base (intr x)) n (k + j)) 16 c l) \<longrightarrow>
      copy_from_dram l c (b_mem b') = copy_from_dram l c (b_mem b))"
  using assms
proof (induction ts arbitrary: k x b)
  case Nil
  then show ?case by (simp add: ring_at_def same_range_def)
next
  case (Cons t ts)
  let ?B = "ring_base (intr x)"
  let ?k = "Suc k mod n"
  have k: "k < n" using Cons.prems(1) by (simp add: ring_at_def)
  obtain b1 where b1: "push_event t (x, b) = Inr (after_event x, b1)" "ring_at n ?k (after_event x, b1)"
    "read_trb (?B + 16 * of_nat k) b1 = Inr (with_cycle (intr_pcs (intr x)) t)" "same_range (b_mem b) (b_mem b1)"
    "\<forall>c l. dma_ok (b_mem b) c l \<longrightarrow> apart (?B + 16 * of_nat k) 16 c l \<longrightarrow> copy_from_dram l c (b_mem b1) = copy_from_dram l c (b_mem b)"
    using push_event_ok [OF Cons.prems(1)] by blast
  have len: "length ts \<le> n" "Suc (length ts) \<le> n" using Cons.prems(2) by simp_all
  obtain x' b' where ih: "push_events ts (after_event x, b1) = Inr (x', b')" "ring_at n ((?k + length ts) mod n) (x', b')"
    "ring_base (intr x') = ?B" "same_range (b_mem b1) (b_mem b')"
    "\<forall>j < length ts. read_trb (entry ?B n (?k + j)) b' = Inr (with_cycle (intr_pcs (next_entry (intr x)) \<noteq> (n \<le> ?k + j)) (ts ! j))"
    "\<forall>c l. dma_ok (b_mem b1) c l \<longrightarrow> (\<forall>j < length ts. apart (entry ?B n (?k + j)) 16 c l) \<longrightarrow>
      copy_from_dram l c (b_mem b') = copy_from_dram l c (b_mem b1)"
    using Cons.IH [OF b1(2) len(1)] by auto
  have en: "entry ?B n (?k + j) = entry ?B n (k + Suc j)" for j by (simp add: entry_def mod_add_left_eq)
  have cyc: "(intr_pcs (next_entry (intr x)) \<noteq> (n \<le> ?k + j)) = (intr_pcs (intr x) \<noteq> (n \<le> k + Suc j))" if "j < length ts" for j
    using next_entry_at(2) [OF Cons.prems(1)] k that len by (cases "Suc k = n") auto
  have e0: "entry ?B n k = ?B + 16 * of_nat k" using k by (simp add: entry_def)
  have far: "apart (entry ?B n (k + Suc j)) 16 (entry ?B n k) 16" if "j < length ts" for j
  proof -
    have "(k + Suc j) mod n = (if k + Suc j < n then k + Suc j else k + Suc j - n)"
      using k that len by (auto simp: le_mod_geq [of n "Suc (k + j)"])
    then have "(k + Suc j) mod n \<noteq> k" using k that len by (auto split: if_splits)
    then show ?thesis using entries_apart [OF Cons.prems(1), of "(k + Suc j) mod n" k] k by (simp add: entry_def)
  qed
  have ok: "dma_ok (b_mem b1) (entry ?B n k) 16"
    using ring_entry(2) [OF Cons.prems(1) k] dma_ok_same [OF b1(4)] e0 by simp
  have kept: "copy_from_dram 16 (entry ?B n k) (b_mem b') = copy_from_dram 16 (entry ?B n k) (b_mem b1)"
    using ih(6) ok far by (simp add: en)
  have r0: "read_trb (entry ?B n k) b' = Inr (with_cycle (intr_pcs (intr x)) t)"
    using read_trb_cong [OF kept] b1(3) e0 by simp
  have rd: "read_trb (entry ?B n (k + j)) b' = Inr (with_cycle (intr_pcs (intr x) \<noteq> (n \<le> k + j)) ((t # ts) ! j))"
    if "j < length (t # ts)" for j
    using that r0 k ih(5) cyc en by (cases j) auto
  have fr: "copy_from_dram l c (b_mem b') = copy_from_dram l c (b_mem b)"
    if "dma_ok (b_mem b) c l" "\<forall>j < length (t # ts). apart (entry ?B n (k + j)) 16 c l" for c l
  proof -
    have "apart (entry ?B n (k + Suc j)) 16 c l" if "j < length ts" for j
      using that \<open>\<forall>j < length (t # ts). apart (entry ?B n (k + j)) 16 c l\<close> by auto
    moreover have "apart (?B + 16 * of_nat k) 16 c l" using that(2) e0 by (metis add_0_right length_Cons zero_less_Suc)
    ultimately show ?thesis using ih(6) b1(5) that(1) dma_ok_same [OF b1(4)] by (simp add: en)
  qed
  have "ring_at n ((k + length (t # ts)) mod n) (x', b')" using ih(2) by (simp add: mod_add_left_eq)
  moreover have "same_range (b_mem b) (b_mem b')" using b1(4) ih(4) by (simp add: same_range_def)
  ultimately show ?case using b1(1) ih(1,3) rd fr by (intro exI [of _ x'] exI [of _ b']) simp
qed

section \<open>Commands that stay inside the controller\<close>

lemma apart_sub: "apart a n b k \<Longrightarrow> i + n' \<le> n \<Longrightarrow> j + k' \<le> k \<Longrightarrow> apart (a + of_nat i) n' (b + of_nat j) k'"
proof -
  assume *: "apart a n b k" "i + n' \<le> n" "j + k' \<le> k"
  have "a + of_nat (i + p) \<noteq> b + of_nat (j + q)" if "p < n'" "q < k'" for p q
  proof -
    have "i + p < n" "j + q < k" using * that by simp_all
    then show ?thesis using *(1) unfolding apart_def by blast
  qed
  then show ?thesis by (simp add: apart_def add.assoc)
qed

lemma dma_ok_sub: "dma_ok m a n \<Longrightarrow> i + n' \<le> n \<Longrightarrow> dma_ok m (a + of_nat i) n'"
proof -
  assume *: "dma_ok m a n" "i + n' \<le> n"
  have "map_inside m (a + of_nat (i + j)) 1" if "j < n'" for j
  proof -
    have "i + j < n" using * that by simp
    then show ?thesis using *(1) unfolding dma_ok_def by blast
  qed
  with * show ?thesis by (simp add: dma_ok_def add.assoc)
qed

text \<open>All commands but those that read an input context or a transfer ring.\<close>

definition local_command :: "trb \<Rightarrow> bool" where
  "local_command t \<longleftrightarrow> get_type t \<notin> {TRB_LINK, TRB_ADDRESS_DEVICE, TRB_CONFIG_ENDPOINT, TRB_EVAL_CONTEXT, TRB_STOP_ENDPOINT, TRB_SET_TR_DEQUEUE}"

definition slot_effect :: "nat option \<Rightarrow> trb \<Rightarrow> (u8 \<rightharpoonup> xhci_slot) \<Rightarrow> (u8 \<rightharpoonup> xhci_slot)" where
  "slot_effect dev t sl =
     (if get_type t = TRB_ENABLE_SLOT then (if sl 1 = None then sl(1 \<mapsto> new_slot\<lparr>attached_device := dev\<rparr>) else sl)
      else if get_type t = TRB_DISABLE_SLOT then sl(get_slot_id t := None)
      else sl)"

primrec completions :: "u64 \<Rightarrow> trb list \<Rightarrow> trb list" where
  "completions a [] = []"
| "completions a (t # ts) = completion t a # completions (a + 16) ts"

lemma length_completions [simp]: "length (completions a ts) = length ts"
  by (induction ts arbitrary: a) auto

lemma nth_completions: "j < length ts \<Longrightarrow> completions a ts ! j = completion (ts ! j) (a + 16 * of_nat j)"
proof (induction ts arbitrary: a j)
  case (Cons t ts)
  then show ?case by (cases j) (auto simp: algebra_simps)
qed simp

text \<open>The state that commands change beside the event ring.\<close>

definition set_cmd :: "(u8 \<rightharpoonup> xhci_slot) \<Rightarrow> u64 \<Rightarrow> xhci \<Rightarrow> xhci" where
  "set_cmd sl a x = x\<lparr>slots_x := sl, crcr_dequeue := a\<rparr>"

lemma set_cmd_simps [simp]:
  "intr (set_cmd sl a x) = intr x" "x_pcs (set_cmd sl a x) = x_pcs x" "crcr_dequeue (set_cmd sl a x) = a"
  "slots_x (set_cmd sl a x) = sl" "ports (set_cmd sl a x) = ports x" "set_cmd sl a (set_cmd sl' a' x) = set_cmd sl a x"
  "set_cmd (slots_x x) (crcr_dequeue x) x = x"
  by (simp_all add: set_cmd_def)

lemma push_event_set_cmd:
  "push_event t (set_cmd sl a x, b) = and_then (push_event t (x, b)) (\<lambda>(x, b). Inr (set_cmd sl a x, b))"
proof -
  have "irq_state (set_cmd sl a y) = set_cmd sl a (irq_state y)" for y by (simp add: irq_state_def set_cmd_def)
  then have u: "xhci_update_irq (set_cmd sl a y, b) = and_then (xhci_update_irq (y, b)) (\<lambda>(x, b). Inr (set_cmd sl a x, b))" for y b
    by (simp add: update_irq_eq Let_def and_then_assoc case_prod_unfold) (simp add: set_cmd_def)
  have r: "(set_cmd sl a x)\<lparr>intr := i, usbsts := st\<rparr> = set_cmd sl a (x\<lparr>intr := i, usbsts := st\<rparr>)" "usbsts (set_cmd sl a x) = usbsts x" for i st
    by (simp_all add: set_cmd_def)
  show ?thesis by (simp add: push_event_eq r u and_then_assoc)
qed

lemma run_local_command:
  assumes "local_command t"
  shows "run_command t (set_cmd sl a x, b) =
    and_then (push_event (completion t a) (x, b)) (\<lambda>(y, b). Inr (set_cmd (slot_effect (ports x ! 0) t sl) (a + 16) y, b))"
proof -
  have "command_body t (set_cmd sl a x, b) = Inr (set_cmd (slot_effect (ports x ! 0) t sl) a x, b)"
    using assms by (auto simp: command_body_def local_command_def slot_effect_def enable_slot_def disable_slot_def Let_def)
      (simp_all add: set_cmd_def)
  then show ?thesis
    by (simp add: run_command_def push_event_set_cmd and_then_assoc case_prod_unfold) (simp add: set_cmd_def)
qed

text \<open>The commands \<open>cs\<close> from address \<open>a\<close> on, and then a block that the controller does not own yet.\<close>

primrec commands_at :: "bool \<Rightarrow> u64 \<Rightarrow> trb list \<Rightarrow> board \<Rightarrow> bool" where
  "commands_at c a [] b \<longleftrightarrow> (\<exists>t. read_trb a b = Inr t \<and> trb_cycle t \<noteq> of_bool c)"
| "commands_at c a (t # ts) b \<longleftrightarrow> read_trb a b = Inr t \<and> trb_cycle t = of_bool c \<and> local_command t \<and> commands_at c (a + 16) ts b"

lemma commands_at_cong:
  assumes "\<And>j. j \<le> length ts \<Longrightarrow> read_trb (a + 16 * of_nat j) b' = read_trb (a + 16 * of_nat j) b"
  shows "commands_at c a ts b' = commands_at c a ts b"
  using assms
proof (induction ts arbitrary: a)
  case Nil
  then show ?case using Nil [of 0] by simp
next
  case (Cons t ts)
  have "commands_at c (a + 16) ts b' = commands_at c (a + 16) ts b"
    using Cons.prems [of "Suc _"] by (intro Cons.IH) (simp add: algebra_simps)
  with Cons.prems [of 0] show ?case by simp
qed

lemma commands_loop:
  assumes "ring_at n k (x, b)" and "commands_at (x_pcs x) a ts b"
    and "dma_ok (b_mem b) a (16 * Suc (length ts))" and "apart (ring_base (intr x)) (16 * n) a (16 * Suc (length ts))"
  shows "process_command_ring (Suc (length ts)) (set_cmd sl a x, b) =
    Some (and_then (push_events (completions a ts) (x, b)) (\<lambda>(y, b).
      Inr (set_cmd (fold (slot_effect (ports x ! 0)) ts sl) (a + 16 * of_nat (length ts)) y, b)))"
  using assms
proof (induction ts arbitrary: k x b a sl)
  case Nil
  then show ?case by (auto simp: bindo_def)
next
  case (Cons t ts)
  let ?B = "ring_base (intr x)"
  have k: "k < n" using Cons.prems(1) by (simp add: ring_at_def)
  obtain b1 where b1: "push_event (completion t a) (x, b) = Inr (after_event x, b1)" "ring_at n (Suc k mod n) (after_event x, b1)"
    "same_range (b_mem b) (b_mem b1)"
    "\<forall>c l. dma_ok (b_mem b) c l \<longrightarrow> apart (?B + 16 * of_nat k) 16 c l \<longrightarrow> copy_from_dram l c (b_mem b1) = copy_from_dram l c (b_mem b)"
    using push_event_ok [OF Cons.prems(1)] by blast
  have sub: "dma_ok (b_mem b) (a + 16 * of_nat j) 16" "apart (?B + 16 * of_nat k) 16 (a + 16 * of_nat j) 16" if "j \<le> Suc (length ts)" for j
    using dma_ok_sub [OF Cons.prems(3), of "16 * j" 16] apart_sub [OF Cons.prems(4), of "16 * k" 16 "16 * j" 16] k that by simp_all
  have same: "read_trb (a + 16 * of_nat j) b1 = read_trb (a + 16 * of_nat j) b" if "j \<le> Suc (length ts)" for j
    using b1(4) sub [OF that] by (intro read_trb_cong) blast
  have c: "commands_at (x_pcs x) (a + 16) ts b1"
  proof -
    have "read_trb (a + 16 + 16 * of_nat j) b1 = read_trb (a + 16 + 16 * of_nat j) b" if "j \<le> length ts" for j
      using same [of "Suc j"] that by (simp add: algebra_simps)
    then show ?thesis using Cons.prems(2) commands_at_cong [of ts "a + 16" b1 b] by simp
  qed
  have d: "dma_ok (b_mem b1) (a + 16) (16 * Suc (length ts))" "apart ?B (16 * n) (a + 16) (16 * Suc (length ts))"
    using dma_ok_sub [OF Cons.prems(3), of 16] apart_sub [OF Cons.prems(4), of 0 "16 * n" 16] dma_ok_same [OF b1(3)] by simp_all
  have t: "read_trb a b = Inr t" "trb_cycle t = of_bool (x_pcs x)" "local_command t" using Cons.prems(2) by simp_all
  have "process_command_ring (Suc (length (t # ts))) (set_cmd sl a x, b) =
      process_command_ring (Suc (length ts)) (set_cmd (slot_effect (ports x ! 0) t sl) (a + 16) (after_event x), b1)"
    using t run_local_command [OF t(3), of sl a x b] b1(1)
    by (simp add: bindo_def local_command_def del: process_command_ring.simps) (simp add: bindo_def)
  also have "\<dots> = Some (and_then (push_events (completions (a + 16) ts) (after_event x, b1)) (\<lambda>(y, b).
      Inr (set_cmd (fold (slot_effect (ports x ! 0)) ts (slot_effect (ports x ! 0) t sl)) (a + 16 + 16 * of_nat (length ts)) y, b)))"
    using Cons.IH [OF b1(2)] c d by simp
  finally show ?case using b1(1) by (simp add: algebra_simps)
qed

text \<open>
  C23. A command ring is worked off completely. When the ring holds commands that stay inside the controller, followed by a block
  that is not handed over yet, and the event ring is in memory, apart from the commands and with at least as many entries, one
  ring of the doorbell processes all of them and returns: the dequeue pointer is behind the last command, the slots are those
  that the commands leave, and the event ring holds one completion event per command, in order, each with the cycle
  bit of its round.
\<close>

theorem xhci_commands_complete:
  assumes "ring_at n k (x, b)" and "commands_at (x_pcs x) (crcr_dequeue x) ts b" and "length ts \<le> n"
    and "dma_ok (b_mem b) (crcr_dequeue x) (16 * Suc (length ts))"
    and "apart (ring_base (intr x)) (16 * n) (crcr_dequeue x) (16 * Suc (length ts))"
  shows "\<exists>x' b'. write_doorbell (Suc (length ts)) 0 0 (x, b) = Some (Inr (x', b')) \<and>
    crcr_dequeue x' = crcr_dequeue x + 16 * of_nat (length ts) \<and> slots_x x' = fold (slot_effect (ports x ! 0)) ts (slots_x x) \<and>
    (\<forall>j < length ts. read_trb (entry (ring_base (intr x)) n (k + j)) b' =
       Inr (with_cycle (intr_pcs (intr x) \<noteq> (n \<le> k + j)) (completion (ts ! j) (crcr_dequeue x + 16 * of_nat j))))"
proof -
  obtain y b' where y: "push_events (completions (crcr_dequeue x) ts) (x, b) = Inr (y, b')"
    "\<forall>j < length ts. read_trb (entry (ring_base (intr x)) n (k + j)) b' =
       Inr (with_cycle (intr_pcs (intr x) \<noteq> (n \<le> k + j)) (completions (crcr_dequeue x) ts ! j))"
    using push_events_ok [OF assms(1), of "completions (crcr_dequeue x) ts"] assms(3) by auto
  have "process_command_ring (Suc (length ts)) (x, b) =
      Some (Inr (set_cmd (fold (slot_effect (ports x ! 0)) ts (slots_x x)) (crcr_dequeue x + 16 * of_nat (length ts)) y, b'))"
    using commands_loop [OF assms(1,2,4,5), of "slots_x x"] y(1) by simp
  with y(2) show ?thesis by (simp add: write_doorbell_def nth_completions del: process_command_ring.simps)
qed

text \<open>
  A link block that points to itself hangs the emulator: with such a block at the head of the command ring, handed over and
  without the toggle flag, the loop of the doorbell never ends.
\<close>

theorem xhci_self_link_hangs:
  assumes "read_trb (crcr_dequeue x) b = Inr t" and "get_type t = TRB_LINK" and "trb_cycle t = of_bool (x_pcs x)" and "trb_ent t = 0"
    and "trb_parameter t AND NOT 0xF = crcr_dequeue x"
  shows "write_doorbell fuel 0 0 (x, b) = None"
proof -
  have "process_command_ring fuel (x, b) = None"
  proof (induction fuel)
    case (Suc fuel)
    with assms show ?case by (simp add: bindo_def)
  qed simp
  then show ?thesis by (simp add: write_doorbell_def)
qed

text \<open>
  C40. The endpoint of a STOP ENDPOINT command is taken from bits 8 to 12 of its control word, which overlap the type of the
  command in bits 10 to 15. For this command the result is therefore always at least 28: whenever the slot exists, the
  controller indexes its arrays of sixteen endpoints out of bounds, whichever endpoint the guest means.
\<close>

theorem xhci_stop_endpoint_out_of_bounds:
  assumes "get_type t = TRB_STOP_ENDPOINT" and "slots_x x (get_slot_id t) \<noteq> None"
  shows "run_command t (x, b) = Inl Vector_index"
proof -
  have m: "unat (v AND 0x1F) = unat v mod 32" "unat (v AND mask 6) = unat v mod 64" for v :: u32
    using unsigned_take_bit_eq [of 5 v, where ?'a = nat] unsigned_take_bit_eq [of 6 v, where ?'a = nat]
    by (simp_all add: take_bit_eq_mask mask_eq_exp_minus_1 [where ?'a = "32 word"]) (simp_all add: take_bit_eq_mask [symmetric] take_bit_eq_mod)
  have d: "unat (drop_bit n v) = unat v div 2 ^ n" for v :: u32 and n by (simp add: unat_drop_bit_eq drop_bit_eq_div [where ?'a = nat])
  have "unat (get_type t) = 15" using assms(1) by simp
  then have q: "unat (trb_control t) div 256 div 4 mod 64 = 15" by (simp add: get_type_def bf_get_def m d flip: div_mult2_eq)
  have "28 \<le> c mod 32" if "c div 4 mod 64 = 15" for c :: nat
  proof -
    have "4 * (c div 4) + c mod 4 = c" "64 * (c div 4 div 64) + 15 = c div 4" using mult_div_mod_eq [of 64 "c div 4"] unfolding that by simp_all
    moreover have "c = (28 + r) + (8 * k + 1) * 32" if "4 * q + r = c" "64 * k + 15 = q" for q r k using that by simp
    ultimately have "c = (28 + c mod 4) + (8 * (c div 4 div 64) + 1) * 32" by blast
    then have "c mod 32 = (28 + c mod 4) mod 32" by (metis mod_mult_self1)
    then show ?thesis by simp
  qed
  from this [OF q] have "28 \<le> unat (trb_control t) div 256 mod 32" .
  then have "16 < unat (drop_bit 8 (trb_control t) AND 0x1F)" by (simp add: m d)
  then show ?thesis using assms by (auto simp: run_command_def command_body_def stop_endpoint_def Let_def)
qed

section \<open>No access outside an array\<close>

text \<open>
  The state in which every index that the controller uses is inside its array: six ports, sixteen endpoints per slot, attached
  devices that exist, only slot 1, cycle states of one bit; and the enqueue pointer is an entry of the event ring.
\<close>

definition slot_wf :: "nat \<Rightarrow> xhci_slot \<Rightarrow> bool" where
  "slot_wf n s \<longleftrightarrow> length (ep_deq s) = 16 \<and> length (ep_pcs s) = 16 \<and> length (ep_last_complete s) = 16 \<and> length (ep_enabled s) = 16 \<and>
     (\<forall>k. attached_device s = Some k \<longrightarrow> k < n) \<and> set (ep_pcs s) \<subseteq> {0, 1}"

definition intr_wf :: "xhci_interrupter \<Rightarrow> bool" where
  "intr_wf i \<longleftrightarrow> 16 dvd unat (event_enqueue_ptr i) \<and> 64 dvd unat (ring_base i) \<and>
     ring_end i = ring_base i + ucast (ring_size_trbs i) * 16 \<and>
     (0 < ring_size_trbs i \<longrightarrow> unat (ring_base i) + 16 * unat (ring_size_trbs i) < 2 ^ 64 \<longrightarrow>
        ring_base i \<le> event_enqueue_ptr i \<and> event_enqueue_ptr i < ring_end i)"

definition xhci_wf :: "xhci \<Rightarrow> bool" where
  "xhci_wf x \<longleftrightarrow> length (ports x) = 6 \<and> length (port_sc x) = 6 \<and> (\<forall>k. Some k \<in> set (ports x) \<longrightarrow> k < length (usb_store x)) \<and>
     dom (slots_x x) \<subseteq> {1} \<and> (\<forall>k s. slots_x x k = Some s \<longrightarrow> slot_wf (length (usb_store x)) s) \<and> intr_wf (intr x)"

definition keeps :: "(xs \<Rightarrow> xs result) \<Rightarrow> bool" where
  "keeps f \<longleftrightarrow> (\<forall>x b x' b'. xhci_wf x \<longrightarrow> f (x, b) = Inr (x', b') \<longrightarrow> xhci_wf x')"

lemma keepsD: "keeps f \<Longrightarrow> xhci_wf x \<Longrightarrow> f (x, b) = Inr (x', b') \<Longrightarrow> xhci_wf x'"
  by (auto simp: keeps_def)

lemma keepsI: "(\<And>x b x' b'. xhci_wf x \<Longrightarrow> f (x, b) = Inr (x', b') \<Longrightarrow> xhci_wf x') \<Longrightarrow> keeps f"
  by (auto simp: keeps_def)

lemma intr_wf_iman [simp]: "intr_wf (i\<lparr>iman := v\<rparr>) = intr_wf i"
  by (simp add: intr_wf_def)

lemma xhci_wf_sts [simp]: "xhci_wf (x\<lparr>usbsts := st\<rparr>) = xhci_wf x"
  by (simp add: xhci_wf_def)

lemma xhci_wf_intr: "xhci_wf x \<Longrightarrow> intr_wf i \<Longrightarrow> xhci_wf (x\<lparr>intr := i\<rparr>)"
  by (simp add: xhci_wf_def)

lemma irq_state_wf: "xhci_wf x \<Longrightarrow> xhci_wf (irq_state x)"
  by (simp add: irq_state_def xhci_wf_def)

lemma keeps_irq: "keeps xhci_update_irq"
  by (rule keepsI) (auto simp: update_irq_eq Let_def and_then_Inr_iff irq_state_wf)

lemma ring_end_unat:
  assumes "intr_wf i" and "unat (ring_base i) + 16 * unat (ring_size_trbs i) < 2 ^ 64"
  shows "unat (ring_end i) = unat (ring_base i) + 16 * unat (ring_size_trbs i)"
proof -
  have "unat (ring_size_trbs i) < 2 ^ 64" by (rule order.strict_trans [OF unsigned_less]) simp
  then have c: "unat (ucast (ring_size_trbs i) :: u64) = unat (ring_size_trbs i)" by (simp add: unsigned_ucast_eq take_bit_nat_eq_self)
  have "unat (ucast (ring_size_trbs i) * 16 :: u64) = unat (ring_size_trbs i) * 16"
    using assms(2) by (simp add: unat_word_ariths c)
  then show ?thesis using assms by (simp add: intr_wf_def unat_word_ariths)
qed

lemma base_less_end:
  assumes "0 < (n :: u32)" and "unat (B :: u64) + 16 * unat n < 2 ^ 64"
  shows "B < B + ucast n * 16"
proof -
  have "unat n < 2 ^ 64" by (rule order.strict_trans [OF unsigned_less]) simp
  then have c: "unat (ucast n :: u64) = unat n" by (simp add: unsigned_ucast_eq take_bit_nat_eq_self)
  have "unat (ucast n * 16 :: u64) = unat n * 16" using assms(2) by (simp add: unat_word_ariths c)
  then have "unat (B + ucast n * 16) = unat B + 16 * unat n" using assms(2) by (simp add: unat_word_ariths)
  then show ?thesis using assms(1) by (simp add: word_less_nat_alt)
qed

lemma next_entry_wf:
  assumes w: "intr_wf i"
  shows "intr_wf (next_entry i)"
proof (cases "ring_end i \<le> event_enqueue_ptr i + 16")
  case True
  have "16 dvd unat (ring_base i)" using w by (auto simp: intr_wf_def intro: dvd_trans [of 16 64])
  moreover have "ring_base i < ring_base i + ucast (ring_size_trbs i) * 16"
    if "0 < ring_size_trbs i" "unat (ring_base i) + 16 * unat (ring_size_trbs i) < 2 ^ 64"
    using base_less_end that by blast
  ultimately show ?thesis using True w by (auto simp: intr_wf_def next_entry_def)
next
  case False
  have d: "16 dvd unat (event_enqueue_ptr i)" and d': "16 dvd unat (ring_base i)" using w by (auto simp: intr_wf_def intro: dvd_trans [of 16 64])
  have a: "16 dvd unat (event_enqueue_ptr i + 16)" using d by (simp add: unat_word_ariths dvd_mod)
  have "ring_base i \<le> event_enqueue_ptr i + 16"
    if s: "0 < ring_size_trbs i" "unat (ring_base i) + 16 * unat (ring_size_trbs i) < 2 ^ 64"
  proof -
    have e: "unat (ring_end i) = unat (ring_base i) + 16 * unat (ring_size_trbs i)" by (rule ring_end_unat [OF w s(2)])
    have "unat (event_enqueue_ptr i) < unat (ring_end i)" "unat (ring_base i) \<le> unat (event_enqueue_ptr i)"
      using w s by (auto simp: intr_wf_def word_less_nat_alt word_le_nat_alt)
    moreover have "16 dvd unat (ring_end i)" using d' e by simp
    ultimately have "unat (event_enqueue_ptr i) + 16 \<le> unat (ring_end i)" using d by (elim dvdE) simp
    then have "unat (event_enqueue_ptr i + 16) = unat (event_enqueue_ptr i) + 16" using e s(2) by (simp add: unat_word_ariths)
    with \<open>unat (ring_base i) \<le> unat (event_enqueue_ptr i)\<close> show ?thesis by (simp add: word_le_nat_alt)
  qed
  moreover have "next_entry i = i\<lparr>event_enqueue_ptr := event_enqueue_ptr i + 16\<rparr>" using False by (simp add: next_entry_def)
  ultimately show ?thesis using False a w by (simp add: intr_wf_def not_le)
qed

lemma keeps_push_event: "keeps (push_event t)"
proof (rule keepsI)
  fix x b x' b'
  assume w: "xhci_wf x" and p: "push_event t (x, b) = Inr (x', b')"
  have "xhci_wf (x\<lparr>intr := (next_entry (intr x))\<lparr>iman := v\<rparr>, usbsts := st\<rparr>)" for v st
    using w next_entry_wf [of "intr x"] by (simp add: xhci_wf_def)
  then have "xhci_wf x'" if "xhci_update_irq (x\<lparr>intr := (next_entry (intr x))\<lparr>iman := v\<rparr>, usbsts := st\<rparr>, b1) = Inr (x', b')" for v st b1
    using keepsD [OF keeps_irq _ that] by blast
  with p w show "xhci_wf x'" by (auto simp: push_event_eq and_then_Inr_iff split: if_splits)
qed

lemma wf_upd_slot:
  assumes "xhci_wf x" and "\<And>s. slots_x x k = Some s \<Longrightarrow> slot_wf (length (usb_store x)) s \<Longrightarrow> slot_wf (length (usb_store x)) (f s)"
  shows "xhci_wf (upd_slot k f x)"
  using assms by (auto simp: xhci_wf_def upd_slot_def dom_def split: if_splits)

lemma slot_wf_upd:
  "slot_wf n s \<Longrightarrow> slot_wf n (s\<lparr>ep_enabled := (ep_enabled s)[i := e]\<rparr>)"
  "slot_wf n s \<Longrightarrow> slot_wf n (s\<lparr>ep_last_complete := (ep_last_complete s)[i := a]\<rparr>)"
  "slot_wf n s \<Longrightarrow> slot_wf n (s\<lparr>ep_deq := (ep_deq s)[i := a]\<rparr>)"
  "slot_wf n s \<Longrightarrow> p \<in> {0, 1} \<Longrightarrow> slot_wf n (s\<lparr>ep_pcs := (ep_pcs s)[i := p]\<rparr>)"
  "slot_wf n s \<Longrightarrow> slot_wf n (s\<lparr>ep0_tr_dequeue := a\<rparr>)"
  "slot_wf n s \<Longrightarrow> slot_wf n (s\<lparr>ep0_pcs := c\<rparr>)"
  by (auto simp: slot_wf_def dest!: set_update_subset_insert [THEN subsetD])

lemma slot_wf_ring: "slot_wf n s \<Longrightarrow> p \<in> {0, 1} \<Longrightarrow> slot_wf n (s\<lparr>ep_deq := (ep_deq s)[i := a], ep_pcs := (ep_pcs s)[i := p]\<rparr>)"
  by (auto simp: slot_wf_def dest!: set_update_subset_insert [THEN subsetD])

lemma wf_set_ring: "xhci_wf x \<Longrightarrow> p \<in> {0, 1} \<Longrightarrow> xhci_wf (set_ring k i a p x)"
  unfolding set_ring_def by (rule wf_upd_slot) (auto intro: slot_wf_ring)

lemma bit_pcs: "ucast (d AND 1 :: u64) \<in> {0, 1 :: u8}"
  by (simp add: and_one_eq mod_2_eq_odd)

lemma keeps_running: "keeps (set_ep_state_running k ep)"
  by (rule keepsI) (auto simp: set_ep_state_running_def and_then_Inr_iff Let_def split: if_splits)

lemma keeps_save: "keeps (save_ep_ctx_from_input k ep a)"
proof (rule keepsI)
  fix x b x' b'
  assume w: "xhci_wf x" and s: "save_ep_ctx_from_input k ep a (x, b) = Inr (x', b')"
  have "xhci_wf (upd_slot k (\<lambda>s. s\<lparr>ep_enabled := (ep_enabled s)[ep - 1 := True]\<rparr>) x)" using w by (auto intro: wf_upd_slot slot_wf_upd)
  with w s show "xhci_wf x'"
    by (auto simp: save_ep_ctx_from_input_def and_then_Inr_iff Let_def split: if_splits intro: keepsD [OF keeps_running])
qed

lemma wf_enable: "xhci_wf x \<Longrightarrow> xhci_wf (enable_slot x)"
proof -
  assume w: "xhci_wf x"
  have "slot_wf (length (usb_store x)) (new_slot\<lparr>attached_device := ports x ! 0\<rparr>)"
  proof -
    have "k < length (usb_store x)" if "ports x ! 0 = Some k" for k
      using w nth_mem [of 0 "ports x"] that by (auto simp: xhci_wf_def)
    then show ?thesis by (auto simp: slot_wf_def new_slot_def)
  qed
  then show ?thesis using w by (auto simp: enable_slot_def xhci_wf_def split: if_splits)
qed

lemma wf_disable: "xhci_wf x \<Longrightarrow> xhci_wf (disable_slot k x)"
  by (auto simp: disable_slot_def xhci_wf_def dom_def split: if_splits)

lemma keeps_address: "keeps (address_device k a)"
proof (rule keepsI)
  fix x b x' b'
  assume w: "xhci_wf x" and s: "address_device k a (x, b) = Inr (x', b')"
  have at: "xhci_wf (if 1 \<le> p \<and> p \<le> 6 then upd_slot k (\<lambda>s. s\<lparr>attached_device := ports x ! (unat p - 1)\<rparr>) x else x)" for p :: u8
  proof (cases "1 \<le> p \<and> p \<le> 6")
    case True
    have "k < length (usb_store x)" if "ports x ! (unat p - 1) = Some k" for k
      using w nth_mem [of "unat p - 1" "ports x"] that True by (fastforce simp: xhci_wf_def word_le_nat_alt)
    then have "xhci_wf (upd_slot k (\<lambda>s. s\<lparr>attached_device := ports x ! (unat p - 1)\<rparr>) x)" using w by (intro wf_upd_slot) (auto simp: slot_wf_def)
    then show ?thesis using True by simp
  qed (use w in auto)
  have ep0: "xhci_wf (upd_slot k (\<lambda>s. s\<lparr>ep0_pcs := c, ep0_tr_dequeue := d\<rparr>) y)" if "xhci_wf y" for c d y
    using that by (rule wf_upd_slot) (simp add: slot_wf_def)
  have sv: "xhci_wf x'" if "xhci_wf y" "save_ep_ctx_from_input k 1 a (upd_slot k (\<lambda>s. s\<lparr>ep0_pcs := c, ep0_tr_dequeue := d\<rparr>) y, b1) = Inr (x', b')" for c d y b1
    by (rule keepsD [OF keeps_save ep0 [OF that(1)] that(2)])
  show "xhci_wf x'"
  proof (cases "slots_x x k = None")
    case True
    with s w show ?thesis by (simp add: address_device_def)
  next
    case False
    with s obtain p :: u8 and c d where "save_ep_ctx_from_input k 1 a (upd_slot k (\<lambda>s. s\<lparr>ep0_pcs := c, ep0_tr_dequeue := d\<rparr>)
        (if 1 \<le> p \<and> p \<le> 6 then upd_slot k (\<lambda>s. s\<lparr>attached_device := ports x ! (unat p - 1)\<rparr>) x else x), b) = Inr (x', b')"
      unfolding address_device_def by (auto simp: and_then_Inr_iff Let_def simp del: One_nat_def split del: if_split)
    then show ?thesis by (rule sv [OF at])
  qed
qed

lemma keeps_config: "keeps (config_eps js k a fresh flags)"
proof (induction js)
  case (Cons i js)
  show ?case
  proof (rule keepsI)
    fix x b x' b'
    assume w: "xhci_wf x" and s: "config_eps (i # js) k a fresh flags (x, b) = Inr (x', b')"
    from s obtain y c where y: "config_eps js k a fresh flags (y, c) = Inr (x', b')" and
      st: "(if bit flags i then and_then (save_ep_ctx_from_input k i a (x, b)) (\<lambda>(x, b).
          if fresh \<and> slots_x x k \<noteq> None then (if 16 \<le> i then Inl Vector_index else Inr (set_ring k i 0 0 x, b)) else Inr (x, b))
        else Inr (x, b)) = Inr (y, c)"
      by (auto simp: and_then_Inr_iff)
    have "xhci_wf y"
      using st w by (auto simp: and_then_Inr_iff split: if_splits intro: keepsD [OF keeps_save] wf_set_ring)
    then show "xhci_wf x'" using keepsD [OF Cons.IH _ y] by blast
  qed
qed (auto intro: keepsI)

lemma keeps_stop: "keeps (stop_endpoint k ep)"
  by (rule keepsI)
    (auto simp: stop_endpoint_def and_then_Inr_iff Let_def split: if_splits option.splits intro: keepsD [OF keeps_push_event])

lemma keeps_set_tr: "keeps (set_tr_dequeue k ep a)"
  by (rule keepsI) (auto simp: set_tr_dequeue_def and_then_Inr_iff Let_def simp del: insert_iff split: if_splits intro!: wf_set_ring bit_pcs)

lemma keeps_body: "keeps (command_body t)"
  by (rule keepsI)
    (auto simp: command_body_def Let_def config_endpoint_def and_then_Inr_iff split: if_splits
      intro: wf_enable wf_disable keepsD [OF keeps_address] keepsD [OF keeps_config] keepsD [OF keeps_stop] keepsD [OF keeps_set_tr])

lemma keeps_command: "keeps (run_command t)"
proof (rule keepsI)
  fix x b x' b'
  assume w: "xhci_wf x" and s: "run_command t (x, b) = Inr (x', b')"
  then obtain y c z d where "command_body t (x, b) = Inr (y, c)" "push_event (completion t (crcr_dequeue x)) (y, c) = Inr (z, d)"
    "x' = z\<lparr>crcr_dequeue := crcr_dequeue z + 16\<rparr>"
    by (auto simp: run_command_def and_then_Inr_iff)
  moreover from this have "xhci_wf z" using keepsD [OF keeps_push_event] keepsD [OF keeps_body w] by metis
  ultimately show "xhci_wf x'" by (simp add: xhci_wf_def)
qed

section \<open>Loops keep the arrays\<close>

text \<open>The same for operations that may not end.\<close>

definition keeps_o :: "(xs \<Rightarrow> xs result option) \<Rightarrow> bool" where
  "keeps_o f \<longleftrightarrow> (\<forall>x b x' b'. xhci_wf x \<longrightarrow> f (x, b) = Some (Inr (x', b')) \<longrightarrow> xhci_wf x')"

lemma keeps_oI: "(\<And>x b x' b'. xhci_wf x \<Longrightarrow> f (x, b) = Some (Inr (x', b')) \<Longrightarrow> xhci_wf x') \<Longrightarrow> keeps_o f"
  by (auto simp: keeps_o_def)

lemma keeps_oD: "keeps_o f \<Longrightarrow> xhci_wf x \<Longrightarrow> f (x, b) = Some (Inr (x', b')) \<Longrightarrow> xhci_wf x'"
  by (auto simp: keeps_o_def)

lemma bindo_Inr_iff: "bindo r f = Some (Inr y) \<longleftrightarrow> (\<exists>z. r = Some (Inr z) \<and> f z = Some (Inr y))"
  by (auto simp: bindo_def split: option.splits sum.splits)

lemma keeps_o_Some: "keeps f \<Longrightarrow> keeps_o (\<lambda>s. Some (f s))"
  by (auto simp: keeps_def keeps_o_def)

lemma keeps_o_bind: "keeps_o f \<Longrightarrow> keeps_o g \<Longrightarrow> keeps_o (\<lambda>s. bindo (f s) g)"
  unfolding keeps_o_def bindo_Inr_iff by (metis surj_pair)

lemma keeps_o_ring: "keeps_o (process_command_ring fuel)"
proof (induction fuel)
  case (Suc fuel)
  show ?case
  proof (rule keeps_oI)
    fix x b x' b'
    assume w: "xhci_wf x" and s: "process_command_ring (Suc fuel) (x, b) = Some (Inr (x', b'))"
    have l: "xhci_wf (x\<lparr>crcr_dequeue := a, x_pcs := c\<rparr>)" "xhci_wf (x\<lparr>crcr_dequeue := a\<rparr>)" for a c using w by (simp_all add: xhci_wf_def)
    show "xhci_wf x'"
      using s w by (auto simp: bindo_Inr_iff split: if_splits
        intro: keeps_oD [OF Suc.IH l(1)] keeps_oD [OF Suc.IH l(2)] keeps_oD [OF Suc.IH keepsD [OF keeps_command w]])
  qed
qed (simp add: keeps_o_def)

lemma wf_store: "xhci_wf x \<Longrightarrow> xhci_wf (x\<lparr>usb_store := (usb_store x)[k := d]\<rparr>)"
  by (simp add: xhci_wf_def)

lemma keeps_data: "keeps (ep0_data k i setup_pkt t a)"
  by (rule keepsI)
    (auto simp: ep0_data_def Let_def and_then_Inr_iff split: if_splits prod.splits intro: wf_store keepsD [OF keeps_push_event])

lemma stage_wf:
  assumes "xhci_wf x" and "ep0_stage k i t a (setup_pkt, x, b) = Inr (setup_pkt', x', b')"
  shows "xhci_wf x'"
  using assms by (auto simp: ep0_stage_def and_then_Inr_iff split: if_splits intro: keepsD [OF keeps_data] keepsD [OF keeps_push_event])

lemma ep0_loop_wf: "xhci_wf x \<Longrightarrow> ep0_loop fuel k i a (setup_pkt, x, b) = Some (Inr (x', b')) \<Longrightarrow> xhci_wf x'"
proof (induction fuel arbitrary: a setup_pkt x b)
  case (Suc fuel)
  have l: "xhci_wf (upd_slot k (\<lambda>s. s\<lparr>ep0_pcs := \<not> ep0_pcs s\<rparr>) x)"
    using Suc.prems(1) by (auto intro: wf_upd_slot simp: slot_wf_def)
  have e: "xhci_wf (upd_slot k (\<lambda>s. s\<lparr>ep0_tr_dequeue := d\<rparr>) y)" if "xhci_wf y" for d y
    using that by (auto intro: wf_upd_slot simp: slot_wf_def)
  show ?case
    using Suc.prems
    by (auto simp: bindo_Inr_iff split: if_splits option.splits intro: Suc.IH [OF l] Suc.IH [OF Suc.prems(1)]
        Suc.IH [OF e [OF stage_wf [OF Suc.prems(1)]]])
qed simp

lemma keeps_ep0: "keeps_o (process_ep0_transfer_ring fuel k a)"
  by (rule keeps_oI) (auto simp: process_ep0_transfer_ring_def split: option.splits intro: ep0_loop_wf)

lemma sync_wf:
  assumes "xhci_wf x" and "ep_sync k i sl (x, b) = Inr (found, x', b')"
  shows "xhci_wf x'"
  using assms bit_pcs
  by (auto simp: ep_sync_def and_then_Inr_iff Let_def simp del: insert_iff split: if_splits intro: wf_set_ring)

lemma serve_wf:
  assumes "xhci_wf x" and "ep_serve k i d t a (x, b) = Inr (go, x', b')"
  shows "xhci_wf x'"
proof -
  have u: "xhci_wf (upd_slot k (\<lambda>s. s\<lparr>ep_last_complete := (ep_last_complete s)[i := c]\<rparr>) x)" for c
    using assms(1) by (auto intro: wf_upd_slot slot_wf_upd)
  show ?thesis
    using assms by (auto simp: ep_serve_def and_then_Inr_iff Let_def split: if_splits option.splits
        intro: keepsD [OF keeps_push_event u])
qed

lemma ep_loop_wf:
  "xhci_wf x \<Longrightarrow> p \<in> {0, 1} \<Longrightarrow> ep_loop fuel k i d a p (x, b) = Some (Inr (p', x', b')) \<Longrightarrow> xhci_wf x' \<and> p' \<in> {0, 1}"
proof (induction fuel arbitrary: a p x b)
  case (Suc fuel)
  have u: "xhci_wf (upd_slot k (\<lambda>s. s\<lparr>ep_deq := (ep_deq s)[i := c]\<rparr>) y)" if "xhci_wf y" for c y
    using that by (auto intro: wf_upd_slot slot_wf_upd)
  have q: "xhci_wf (upd_slot k (\<lambda>s. s\<lparr>ep_pcs := (ep_pcs s)[i := c]\<rparr>) y)" if "xhci_wf y" "c \<in> {0, 1}" for c y
    using that by (auto intro: wf_upd_slot slot_wf_upd)
  from Suc.prems(3) consider "x' = x" "p' = p"
    | c where "ep_loop fuel k i d c p (upd_slot k (\<lambda>s. s\<lparr>ep_deq := (ep_deq s)[i := c]\<rparr>) x, b) = Some (Inr (p', x', b'))"
    | c e where "e \<in> {0, 1}" "ep_loop fuel k i d c e (upd_slot k (\<lambda>s. s\<lparr>ep_pcs := (ep_pcs s)[i := e]\<rparr>)
        (upd_slot k (\<lambda>s. s\<lparr>ep_deq := (ep_deq s)[i := c]\<rparr>) x), b) = Some (Inr (p', x', b'))"
    | t go y b1 where "ep_serve k i d t a (x, b) = Inr (go, y, b1)" "go \<longrightarrow> ep_loop fuel k i d (a + 16) p
        (upd_slot k (\<lambda>s. s\<lparr>ep_deq := (ep_deq s)[i := a + 16]\<rparr>) y, b1) = Some (Inr (p', x', b'))" "go \<or> x' = y \<and> p' = p"
    by (auto simp: bindo_Inr_iff Let_def split: if_splits)
  then show ?case
  proof cases
    case 1
    then show ?thesis using Suc.prems by simp
  next
    case 2
    then show ?thesis using Suc.IH [OF u [OF Suc.prems(1)] Suc.prems(2)] by blast
  next
    case 3
    then show ?thesis using Suc.IH [OF q [OF u [OF Suc.prems(1)]]] by blast
  next
    case 4
    then have "xhci_wf y" using serve_wf [OF Suc.prems(1)] by blast
    with 4 show ?thesis using Suc.IH [OF u Suc.prems(2)] Suc.prems(2) by blast
  qed
qed simp

lemma publish_wf:
  assumes "xhci_wf x" and "p \<in> {0, 1}" and "ep_publish k i p (x, b) = Inr (x', b')"
  shows "xhci_wf x'"
proof -
  have "xhci_wf (upd_slot k (\<lambda>s. s\<lparr>ep_pcs := (ep_pcs s)[i := p]\<rparr>) x)" using assms by (auto intro: wf_upd_slot slot_wf_upd)
  with assms(3) show ?thesis by (auto simp: ep_publish_def and_then_Inr_iff Let_def split: if_splits option.splits)
qed

lemma keeps_ep_ring: "keeps_o (process_ep_ring fuel k i)"
proof (rule keeps_oI)
  fix x b x' b'
  assume w: "xhci_wf x" and s: "process_ep_ring fuel k i (x, b) = Some (Inr (x', b'))"
  show "xhci_wf x'"
  proof (cases "x' = x")
    case False
    then obtain sl found y c where i: "i < 16" and y: "ep_sync k i sl (x, b) = Inr (found, y, c)"
      and r: "x' = y \<or> (\<exists>sl d p z e. slots_x y k = Some sl \<and> ep_loop fuel k i d (ep_deq sl ! i) (ep_pcs sl ! i) (y, c) = Some (Inr (p, z, e)) \<and>
        ep_publish k i p (z, e) = Inr (x', b'))"
      using s by (auto simp: process_ep_ring_def bindo_Inr_iff not_le split: if_splits option.splits) blast+
    have wy: "xhci_wf y" by (rule sync_wf [OF w y])
    from r show ?thesis
    proof
      assume "\<exists>sl d p z e. slots_x y k = Some sl \<and> ep_loop fuel k i d (ep_deq sl ! i) (ep_pcs sl ! i) (y, c) = Some (Inr (p, z, e)) \<and>
        ep_publish k i p (z, e) = Inr (x', b')"
      then obtain sl d p z e where q: "slots_x y k = Some sl" "ep_loop fuel k i d (ep_deq sl ! i) (ep_pcs sl ! i) (y, c) = Some (Inr (p, z, e))"
        "ep_publish k i p (z, e) = Inr (x', b')" by blast
      have "slot_wf (length (usb_store y)) sl" using q(1) wy by (simp add: xhci_wf_def)
      then have l: "length (ep_pcs sl) = 16" "set (ep_pcs sl) \<subseteq> {0, 1}" by (simp_all add: slot_wf_def)
      have "ep_pcs sl ! i \<in> {0, 1}" by (rule subsetD [OF l(2) nth_mem]) (use i l(1) in simp)
      from ep_loop_wf [OF wy this q(2)] show ?thesis using publish_wf [OF _ _ q(3)] by blast
    qed (use wy in simp)
  qed (use w in simp)
qed

lemma keeps_service: "keeps_o (service_eps fuel k js)" "keeps_o (service_slots fuel ks)"
proof -
  have e: "keeps_o (service_eps fuel k js)" for k js
  proof (induction js)
    case (Cons i js)
    show ?case
      by (rule keeps_oI) (auto simp: bindo_Inr_iff split: option.splits if_splits intro: keeps_oD [OF Cons.IH] keeps_oD [OF Cons.IH keeps_oD [OF keeps_ep_ring]])
  qed (simp add: keeps_o_def)
  then show "keeps_o (service_eps fuel k js)" .
  show "keeps_o (service_slots fuel ks)"
  proof (induction ks)
    case (Cons k ks)
    show ?case
      by (rule keeps_oI) (auto simp: bindo_Inr_iff split: option.splits if_splits intro: keeps_oD [OF Cons.IH] keeps_oD [OF Cons.IH keeps_oD [OF e]])
  qed (simp add: keeps_o_def)
qed

lemma keeps_tick: "keeps_o (xhci_tick fuel)"
proof (rule keeps_oI)
  fix x b x' b'
  assume w: "xhci_wf x" and s: "xhci_tick fuel (x, b) = Some (Inr (x', b'))"
  then obtain y c where y: "service_slots fuel (map of_nat [0..<256]) (x\<lparr>tick_counter := tick_counter x + 1\<rparr>, b) = Some (Inr (y, c))"
    "xhci_update_irq (y, c) = Inr (x', b')" by (auto simp: xhci_tick_def bindo_Inr_iff)
  have "xhci_wf (x\<lparr>tick_counter := tick_counter x + 1\<rparr>)" using w by (simp add: xhci_wf_def)
  from keepsD [OF keeps_irq keeps_oD [OF keeps_service(2) this y(1)] y(2)] show "xhci_wf x'" .
qed

lemma keeps_doorbell: "keeps_o (write_doorbell fuel off v)"
  by (rule keeps_oI) (auto simp: write_doorbell_def Let_def split: if_splits option.splits
      intro: keeps_oD [OF keeps_o_ring] keeps_oD [OF keeps_ep0] keeps_oD [OF keeps_ep_ring])

lemma zero_intr_wf: "intr_wf zero_interrupter"
  by (simp add: intr_wf_def zero_interrupter_def)

lemma reset_wf: "xhci_wf x \<Longrightarrow> xhci_wf (xhci_reset x)"
  by (simp add: xhci_wf_def xhci_reset_def zero_intr_wf)

lemma keeps_op: "keeps (op_write op sz v)"
proof (rule keepsI)
  fix x b x' b'
  assume w: "xhci_wf x" and s: "op_write op sz v (x, b) = Inr (x', b')"
  have o: "xhci_wf (x\<lparr>usbcmd := c\<rparr>)" "xhci_wf ((xhci_reset (x\<lparr>usbcmd := c\<rparr>))\<lparr>usbcmd := d\<rparr>)" for c d
    using w reset_wf [of "x\<lparr>usbcmd := c\<rparr>"] by (simp_all add: xhci_wf_def)
  have i: "xhci_wf x'" if "xhci_update_irq (y, b) = Inr (x', b')" "xhci_wf y" for y using keepsD [OF keeps_irq that(2,1)] .
  show "xhci_wf x'"
    using s w o i by (auto simp: op_write_def Let_def split: if_splits) (auto simp: xhci_wf_def)
qed

lemma page_aligned: "64 dvd unat (v AND NOT 0x3F :: u64)"
proof -
  have "take_bit 6 (v AND NOT (mask 6)) = 0" by (rule bit_word_eqI) (auto simp: bit_simps)
  then have "take_bit 6 (unat (v AND NOT (mask 6))) = 0" by (metis unsigned_take_bit_eq unsigned_0)
  moreover have "(0x3F :: u64) = mask 6" by (simp add: mask_eq_exp_minus_1)
  ultimately have "take_bit 6 (unat (v AND NOT 0x3F)) = 0" by presburger
  then show ?thesis by (simp add: take_bit_eq_0_iff)
qed

lemma keeps_segment: "keeps update_event_ring_segment"
proof (rule keepsI)
  fix x b x' b'
  assume w: "xhci_wf x" and s: "update_event_ring_segment (x, b) = Inr (x', b')"
  define i where "i = intr x"
  have d: "16 dvd unat (event_enqueue_ptr i)" using w by (simp add: i_def xhci_wf_def intr_wf_def)
  have seg: "intr_wf (if event_enqueue_ptr i < B \<or> B + ucast n * 16 \<le> event_enqueue_ptr i
      then i\<lparr>ring_base := B, ring_size_trbs := n, ring_end := B + ucast n * 16, event_enqueue_ptr := B\<rparr>
      else i\<lparr>ring_base := B, ring_size_trbs := n, ring_end := B + ucast n * 16\<rparr>)" if "64 dvd unat B" for B :: u64 and n :: u32
  proof -
    have "16 dvd unat B" using that by (auto intro: dvd_trans [of 16 64])
    then show ?thesis using that d base_less_end [of n B] by (auto simp: intr_wf_def not_less not_le)
  qed
  show "xhci_wf x'"
  proof (cases "erstba i = 0 \<or> erstsz i = 0")
    case True
    with s w show ?thesis by (auto simp: update_event_ring_segment_def i_def Let_def)
  next
    case False
    with s obtain bs where eq: "x' = x\<lparr>intr := (let B = le_word (take 8 bs) AND NOT 0x3F; n = ucast (le_word (take 4 (drop 8 bs))) in
      if event_enqueue_ptr i < B \<or> B + ucast n * 16 \<le> event_enqueue_ptr i
      then i\<lparr>ring_base := B, ring_size_trbs := n, ring_end := B + ucast n * 16, event_enqueue_ptr := B\<rparr>
      else i\<lparr>ring_base := B, ring_size_trbs := n, ring_end := B + ucast n * 16\<rparr>)\<rparr>"
      by (auto simp: update_event_ring_segment_def i_def [symmetric] Let_def and_then_Inr_iff split del: if_split)
    show ?thesis unfolding eq Let_def by (rule xhci_wf_intr [OF w seg [OF page_aligned]])
  qed
qed

lemma keeps_port: "keeps (port_write idx v)"
proof (rule keepsI)
  fix x b x' b'
  assume w: "xhci_wf x" and s: "port_write idx v (x, b) = Inr (x', b')"
  have p: "xhci_wf (y\<lparr>port_sc := (port_sc y)[j := c]\<rparr>) = xhci_wf y" "xhci_wf (y\<lparr>port_sc := (port_sc y)[j := c, j := d]\<rparr>) = xhci_wf y" for y c d j
    by (simp_all add: xhci_wf_def)
  from s obtain y c where y: "port_power idx v (x\<lparr>port_sc := (port_sc x)[idx := port_sc x ! idx AND NOT (v AND 0x260000)]\<rparr>, b) = Inr (y, c)"
    and r: "port_reset idx v (y, c) = Inr (x', b')" by (auto simp: port_write_def and_then_Inr_iff)
  have "xhci_wf y" using y w by (auto simp: port_power_def Let_def p split: if_splits dest!: keepsD [OF keeps_push_event, rotated])
  with r show "xhci_wf x'" by (auto simp: port_reset_def p split: if_splits dest!: keepsD [OF keeps_push_event, rotated])
qed

lemma intr_wf_regs [simp]:
  "intr_wf (i\<lparr>imod := v\<rparr>) = intr_wf i" "intr_wf (i\<lparr>erstsz := v\<rparr>) = intr_wf i" "intr_wf (i\<lparr>erstba := a\<rparr>) = intr_wf i"
  "intr_wf (i\<lparr>erdp := a\<rparr>) = intr_wf i"
  by (simp_all add: intr_wf_def)

lemma keeps_rt: "keeps (rt_write rt sz v)"
proof (rule keepsI)
  fix x b x' b'
  assume w: "xhci_wf x" and s: "rt_write rt sz v (x, b) = Inr (x', b')"
  then have "intr_wf (intr x)" by (simp add: xhci_wf_def)
  then show "xhci_wf x'"
    using s w by (auto simp: rt_write_def Let_def split: if_splits
        intro: xhci_wf_intr dest!: keepsD [OF keeps_irq, rotated] keepsD [OF keeps_segment, rotated])
qed

lemma keeps_write: "keeps_o (xhci_write fuel off sz v)"
  by (rule keeps_oI) (auto simp: xhci_write_def split: if_splits
      intro: keepsD [OF keeps_op] keepsD [OF keeps_port] keepsD [OF keeps_rt] keeps_oD [OF keeps_doorbell])

lemma attach_wf:
  assumes "xhci_wf x" and "xhci_attach p d sp (x, b) = Inr (x', b')"
  shows "xhci_wf x'"
proof (cases "6 \<le> p")
  case False
  define y where "y c st = x\<lparr>usb_store := usb_store x @ [d], ports := (ports x)[unat p := Some (length (usb_store x))],
      port_sc := (port_sc x)[unat p := c], usbsts := st\<rparr>" for c st
  have "slot_wf (Suc n) s" if "slot_wf n s" for n s using that by (fastforce simp: slot_wf_def)
  then have "xhci_wf (y c st)" for c st
    using assms(1) by (auto simp: y_def xhci_wf_def less_SucI dest!: set_update_subset_insert [THEN subsetD])
  then show ?thesis using assms(2) False by (auto simp: xhci_attach_def Let_def y_def [symmetric] dest!: keepsD [OF keeps_push_event, rotated])
qed (use assms in \<open>simp add: xhci_attach_def\<close>)

section \<open>The controller behind the bridge\<close>

interpretation usb: pci_function xhci_wf "xhci_write fuel" "xhci_tick fuel" for fuel
  by unfold_locales (auto intro: keeps_oD [OF keeps_write] keeps_oD [OF keeps_tick])

text \<open>
  The bridge with a controller in slot 1 from its construction on: the guest writes to the windows of the bridge, the machine
  ticks, a USB device is plugged in, and between two operations the board changes in any way.
\<close>

inductive bridge_reach :: "xhci heg \<Rightarrow> bool" where
  reach_new: "bridge_reach (pci_attach 1 (new_xhci irq) (fst (new_heg base with_fdt p m)))"
| reach_write: "bridge_reach h \<Longrightarrow> bridge_write fuel a sz v (h, b) = Some (Inr (h', b')) \<Longrightarrow> bridge_reach h'"
| reach_tick: "bridge_reach h \<Longrightarrow> bridge_tick fuel (h, b) = Some (Inr (h', b')) \<Longrightarrow> bridge_reach h'"
| reach_plug: "bridge_reach h \<Longrightarrow> slot < 32 \<Longrightarrow> heg_devices h ! slot = Some f \<Longrightarrow> xhci_attach port d sp (fun_dev f, b) = Inr (x', b') \<Longrightarrow>
    bridge_reach (h\<lparr>heg_devices := (heg_devices h)[slot := Some (f\<lparr>fun_dev := x'\<rparr>)]\<rparr>)"

lemma new_xhci_wf: "xhci_wf (fun_dev (new_xhci irq))" "pci_wf (fun_pci (new_xhci irq))"
proof -
  show "xhci_wf (fun_dev (new_xhci irq))"
    unfolding new_xhci_def pci_fun.select_convs by (rule reset_wf) (simp add: xhci_wf_def zero_intr_wf)
  show "pci_wf (fun_pci (new_xhci irq))"
    using new_pci_dev_wf by (simp add: new_xhci_def init_bar_wf pci_wf_def write_config_fast_def init_bar_def)
qed

lemma new_heg_ok: "heg_ok dev_ok (fst (new_heg base with_fdt p m))"
  by (simp add: new_heg_def heg_ok_def heg_wf_def split: prod.split)


section \<open>Examples\<close>

definition usb_board :: board where
  "usb_board = idle_board\<lparr>b_harts := [new_hart 0 0x4000]\<rparr>"

lemma usb_board_mem [simp]: "b_mem usb_board = b_mem idle_board"
  by (simp add: usb_board_def)

lemma usb_board_ctl: "ctl_ok (b_plic usb_board, b_harts usb_board)"
  using ctl_ok_init [of "[new_hart 0 0x4000]" 1] by (simp add: usb_board_def idle_board_def)

lemma idle_inside:
  assumes "unat (a - 0x80000000) < 0x4000"
  shows "map_inside (b_mem idle_board) a 1"
proof -
  define d where "d = a - 0x80000000"
  have a: "a = d + 0x80000000" and d: "unat d < 0x4000" using assms by (simp_all add: d_def)
  have "unat a = unat d + 0x80000000" using d by (simp add: a unat_word_ariths)
  then have "0x80000000 \<le> a" "a < 0x80004000" using d by (simp_all add: word_le_nat_alt word_less_nat_alt)
  with assms show ?thesis
    by (simp add: map_inside_def idle_board_def guest_ptr_def find_region_def add_region_def empty_map_def region_ptr_def new_region_def
        array_ok_def not_le)
qed

lemma idle_dma:
  assumes "unat (a - 0x80000000) + n \<le> 0x4000"
  shows "dma_ok (b_mem idle_board) a n"
proof -
  have "unat (a - 0x80000000 + of_nat j) = unat (a - 0x80000000) + j" if "j < n" for j
    using assms that by (simp add: unat_word_ariths(1) unat_of_nat_64)
  then have "unat (a + of_nat j - 0x80000000) < 0x4000" if "j < n" for j
    using assms that by (simp add: diff_add_eq)
  then show ?thesis using assms by (auto simp: dma_ok_def simp del: One_nat_def intro: idle_inside)
qed

text \<open>A block at 0x80001000, and nothing else in memory.\<close>

definition board_with :: "trb \<Rightarrow> board" where
  "board_with t = (case write_trb 0x80001000 t usb_board of Inr b \<Rightarrow> b | Inl e \<Rightarrow> usb_board)"

lemma board_with:
  "read_trb 0x80001000 (board_with t) = Inr t"
  "read_trb 0x80001010 (board_with t) = Inr \<lparr>trb_parameter = 0, trb_status = 0, trb_control = 0\<rparr>"
  "same_range (b_mem idle_board) (b_mem (board_with t))" "ctl_ok (b_plic (board_with t), b_harts (board_with t))"
proof -
  have d: "dma_ok (b_mem idle_board) 0x80001000 (length (trb_bytes t))" by (rule idle_dma) simp
  have d2: "dma_ok (b_mem idle_board) 0x80001010 16" by (rule idle_dma) simp
  obtain m where m: "copy_to_dram (trb_bytes t) 0x80001000 (b_mem idle_board) = Inr m" "same_range (b_mem idle_board) m"
    using copy_to_frame [OF d] by blast
  have b: "board_with t = usb_board\<lparr>b_mem := m\<rparr>" using m(1) by (simp add: board_with_def write_trb_def write_dma_def)
  show "read_trb 0x80001000 (board_with t) = Inr t"
    using copy_to_from [OF d m(1)] by (simp add: b read_trb_def read_dma_def trb_of_bytes)
  have "apart 0x80001000 16 0x80001010 16" by (rule apart_sym, rule apart_above) simp_all
  then have "copy_from_dram 16 0x80001010 m = Inr (replicate 16 0)"
    using copy_to_apart [OF d m(1) d2] idle_copy [of "0x80001010" 16] by simp
  then show "read_trb 0x80001010 (board_with t) = Inr \<lparr>trb_parameter = 0, trb_status = 0, trb_control = 0\<rparr>"
    by (simp add: b read_trb_def read_dma_def trb_of_def numeral_eq_Suc)
  show "same_range (b_mem idle_board) (b_mem (board_with t))" "ctl_ok (b_plic (board_with t), b_harts (board_with t))"
    using m(2) usb_board_ctl by (simp_all add: b)
qed

text \<open>A controller whose command ring is there and whose event ring of four entries is at 0x80002000, about to wrap.\<close>

definition ready_xhci :: xhci where
  "ready_xhci = (fun_dev (new_xhci 5))\<lparr>crcr_dequeue := 0x80001000,
     intr := zero_interrupter\<lparr>ring_base := 0x80002000, ring_end := 0x80002040, ring_size_trbs := 4, event_enqueue_ptr := 0x80002030\<rparr>\<rparr>"

lemma ready_simps:
  "crcr_dequeue ready_xhci = 0x80001000" "x_pcs ready_xhci" "x_irq ready_xhci = 5" "slots_x ready_xhci = Map.empty"
  "ring_base (intr ready_xhci) = 0x80002000" "ring_end (intr ready_xhci) = 0x80002040" "event_enqueue_ptr (intr ready_xhci) = 0x80002030"
  "intr_pcs (intr ready_xhci)" "ports ready_xhci = replicate 6 None"
  by (simp_all add: ready_xhci_def new_xhci_def xhci_reset_def zero_interrupter_def)

lemma ready_ring: "ring_at 4 3 (ready_xhci, board_with t)"
proof -
  have "dma_ok (b_mem (board_with t)) 0x80002000 64" using idle_dma [of "0x80002000" 64] dma_ok_same [OF board_with(3)] by simp
  then show ?thesis using board_with(4) by (simp add: ring_at_def ready_simps)
qed

abbreviation (input) enable_slot_trb :: trb where
  "enable_slot_trb \<equiv> \<lparr>trb_parameter = 0, trb_status = 0, trb_control = 0x2401\<rparr>"

theorem xhci_commands_complete_witness:
  "\<exists>x' b'. write_doorbell 2 0 0 (ready_xhci, board_with enable_slot_trb) = Some (Inr (x', b')) \<and> crcr_dequeue x' = 0x80001010 \<and>
     slots_x x' = [1 \<mapsto> new_slot] \<and> read_trb 0x80002030 b' = Inr \<lparr>trb_parameter = 0x80001000, trb_status = 0x1000000, trb_control = 0x1008401\<rparr>"
proof -
  let ?t = enable_slot_trb
  have c: "commands_at True 0x80001000 [?t] (board_with ?t)"
    using board_with(1,2) [of ?t] by (simp add: local_command_def get_type_def bf_get_def mask_eq_exp_minus_1)
  have d: "dma_ok (b_mem (board_with ?t)) 0x80001000 32" using idle_dma [of "0x80001000" 32] dma_ok_same [OF board_with(3)] by simp
  have a: "apart (0x80002000 :: u64) 64 0x80001000 32" by (rule apart_above) simp_all
  have e: "with_cycle True (completion ?t 0x80001000) = \<lparr>trb_parameter = 0x80001000, trb_status = 0x1000000, trb_control = 0x1008401\<rparr>"
    by (simp add: completion_def command_event_def new_event_def with_cycle_def get_type_def bf_get_def bf_set_def mask_eq_exp_minus_1)
  have s: "slot_effect None ?t Map.empty = [1 \<mapsto> new_slot]"
    by (simp add: slot_effect_def get_type_def bf_get_def new_slot_def mask_eq_exp_minus_1)
  show ?thesis
    using xhci_commands_complete [OF ready_ring [of ?t], of "[?t]"] c d a e s
    by (simp add: ready_simps entry_def numeral_2_eq_2)
qed

theorem xhci_self_link_hangs_witness:
  "write_doorbell 1000 0 0 (ready_xhci, board_with \<lparr>trb_parameter = 0x80001000, trb_status = 0, trb_control = 0x1801\<rparr>) = None"
  by (rule xhci_self_link_hangs [OF board_with(1) [folded ready_simps(1)]]) (simp_all add: ready_simps get_type_def bf_get_def mask_eq_exp_minus_1)

theorem xhci_stop_endpoint_out_of_bounds_witness:
  "run_command \<lparr>trb_parameter = 0, trb_status = 0, trb_control = 0x01033C01\<rparr>
     ((fun_dev (new_xhci 5))\<lparr>slots_x := [1 \<mapsto> new_slot]\<rparr>, idle_board) = Inl Vector_index"
  by (rule xhci_stop_endpoint_out_of_bounds) (simp_all add: get_type_def get_slot_id_def bf_get_def mask_eq_exp_minus_1)

definition usb_bridge :: "xhci heg" where
  "usb_bridge = pci_attach 1 (new_xhci 5) (fst (new_heg 0x30000000 False (plic_init_auto 1) empty_map))"


end
