(* ===== verification/Framebuffer.thy ===== *)
theory Framebuffer
  imports Pci
begin

unbundle bit_operations_syntax

text \<open>
  The framebuffer, src/devices/framebuffer.cpp: a buffer of pixels that the guest reads and writes, shown in a window of the
  host about sixty times a second. The pixel buffer is a list of bytes, an access that leaves it is undefined
  (\<open>Inl Vector_index\<close>), and the frames handed to the window are a list. The clock of the host in nanoseconds is an argument.
\<close>

record framebuffer =
  fb_start :: u64
  fb_size :: u64
  fb_buffer :: "u8 list"
  last_frame_time :: int
  fb_frames :: "u8 list list"

text \<open>The constructor, with the region in the memory map and the node in the device tree.\<close>

definition new_framebuffer :: "u64 \<Rightarrow> u64 \<Rightarrow> u64 \<Rightarrow> memory_map \<Rightarrow> framebuffer \<times> memory_map" where
  "new_framebuffer base width height m =
     (let sz = width * height * 4 + 4 in
      (\<lparr>fb_start = base, fb_size = sz, fb_buffer = replicate (unat (width * height * 4)) 0, last_frame_time = 0, fb_frames = []\<rparr>,
       add_region base sz m))"

definition framebuffer_fdt :: "u64 \<Rightarrow> u64 \<Rightarrow> u64 \<Rightarrow> node \<Rightarrow> node" where
  "framebuffer_fdt base width height root =
     (let nd = create_reg ''framebuffer'' base;
          nd = add_prop_reg ''reg'' base (width * height * 4 + 4) nd;
          nd = add_prop ''compatible'' (map of_char ''simple-framebuffer'') nd;
          nd = add_prop_str ''format'' ''x8r8g8b8'' nd;
          nd = add_prop_u32 ''width'' (ucast width) nd;
          nd = add_prop_u32 ''height'' (ucast height) nd;
          nd = add_prop_u32 ''stride'' (ucast (width * 4)) nd
      in fdt_node_add_child (fdt_node_find ''soc'' (Some []) root) nd root)"

definition fb_read :: "u64 \<Rightarrow> memory_size \<Rightarrow> framebuffer \<Rightarrow> u64 result" where
  "fb_read addr sz d =
     (let offs = addr - fb_start d in
      if fb_size d \<le> offs \<or> sz \<notin> {1, 2, 4, 8} then Inr 0
      else if unat offs + sz \<le> length (fb_buffer d) then Inr (le_word (take sz (drop (unat offs) (fb_buffer d))))
      else Inl Vector_index)"

definition fb_write :: "u64 \<Rightarrow> memory_size \<Rightarrow> u64 \<Rightarrow> framebuffer \<Rightarrow> framebuffer result" where
  "fb_write addr sz val d =
     (let offs = addr - fb_start d in
      if fb_size d \<le> offs \<or> sz \<notin> {1, 2, 4, 8} then Inr d
      else if unat offs + sz \<le> length (fb_buffer d) then Inr (d\<lparr>fb_buffer := put_bytes (unat offs) (le_bytes sz val) (fb_buffer d)\<rparr>)
      else Inl Vector_index)"

definition fb_tick :: "int \<Rightarrow> framebuffer \<Rightarrow> framebuffer" where
  "fb_tick now d =
     (if 16 \<le> tdiv (now - last_frame_time d) 1000000
      then d\<lparr>fb_frames := fb_frames d @ [fb_buffer d], last_frame_time := now\<rparr> else d)"

section \<open>The pixels are a byte store\<close>

lemma nth_put_bytes:
  assumes "off + length bs \<le> length xs" and "j < length xs"
  shows "put_bytes off bs xs ! j = (if off \<le> j \<and> j < off + length bs then bs ! (j - off) else xs ! j)"
  using assms by (auto simp: put_bytes_def nth_append)

definition fb_inside :: "framebuffer \<Rightarrow> u64 \<Rightarrow> nat \<Rightarrow> bool" where
  "fb_inside d a n \<longleftrightarrow> n \<in> {1, 2, 4, 8} \<and> a - fb_start d < fb_size d \<and> unat (a - fb_start d) + n \<le> length (fb_buffer d)"

lemma fb_read_inside: "fb_inside d a n \<Longrightarrow> fb_read a n d = Inr (le_word (take n (drop (unat (a - fb_start d)) (fb_buffer d))))"
  by (auto simp: fb_inside_def fb_read_def Let_def)

lemma fb_write_inside:
  "fb_inside d a n \<Longrightarrow> fb_write a n v d = Inr (d\<lparr>fb_buffer := put_bytes (unat (a - fb_start d)) (le_bytes n v) (fb_buffer d)\<rparr>)"
  by (auto simp: fb_inside_def fb_write_def Let_def)

lemma take_put_apart:
  assumes "p + length bs \<le> length xs" and "q + k \<le> length xs" and "p + length bs \<le> q \<or> q + k \<le> p"
  shows "take k (drop q (put_bytes p bs xs)) = take k (drop q xs)"
  using assms by (intro nth_equalityI) (auto simp: nth_put_bytes)

lemma apart_ranges:
  assumes "apart a n b k" and "0 < n" and "0 < k"
  shows "unat a + n \<le> unat b \<or> unat b + k \<le> unat a"
proof (rule ccontr)
  assume "\<not> ?thesis"
  then have c: "unat b < unat a + n" "unat a < unat b + k" by auto
  have e: "x + of_nat (unat y - unat x) = y" if "unat x \<le> unat y" for x y :: u64
    using that by (simp add: of_nat_diff)
  show False
  proof (cases "unat a \<le> unat b")
    case True
    then have "unat b - unat a < n" using c by simp
    then have "a + of_nat (unat b - unat a) \<noteq> b + of_nat 0" using assms(1,3) unfolding apart_def by blast
    then show False using e [OF True] by simp
  next
    case False
    then have "unat a - unat b < k" using c by simp
    moreover have "b + of_nat (unat a - unat b) = a" using False by (intro e) simp
    moreover from this have "a + of_nat 0 \<noteq> b + of_nat (unat a - unat b)"
      using assms(1,2) \<open>unat a - unat b < k\<close> unfolding apart_def by blast
    ultimately show False by simp
  qed
qed

interpretation fb: byte_store fb_inside fb_read fb_write
proof
  fix d d' :: framebuffer and a b v :: u64 and n k :: nat
  assume ia: "fb_inside d a n"
  let ?p = "unat (a - fb_start d)"
  have n: "n \<le> 8" "0 < n" "?p + n \<le> length (fb_buffer d)" "a - fb_start d < fb_size d" using ia by (auto simp: fb_inside_def)
  show "\<exists>v. fb_read a n d = Inr v" "\<exists>d'. fb_write a n v d = Inr d'" using fb_read_inside [OF ia] fb_write_inside [OF ia] by auto
  assume w: "fb_write a n v d = Inr d'"
  then have d': "d' = d\<lparr>fb_buffer := put_bytes ?p (le_bytes n v) (fb_buffer d)\<rparr>" using fb_write_inside [OF ia] by simp
  show "fb_inside d' b k = fb_inside d b k" using n by (simp add: d' fb_inside_def)
  have "fb_inside d' a n" using ia n by (simp add: d' fb_inside_def)
  then show "fb_read a n d' = Inr (v AND mask (8 * n))"
    using take_put_bytes [of ?p "fb_buffer d" "le_bytes n v"] n by (simp add: fb_read_inside d' le_word_le_bytes)
  assume ib: "fb_inside d b k" and ap: "apart a n b k"
  let ?q = "unat (b - fb_start d)"
  have k: "0 < k" "?q + k \<le> length (fb_buffer d)" using ib by (auto simp: fb_inside_def)
  have "fb_inside d' b k" using ib n by (simp add: d' fb_inside_def)
  moreover have "?p + n \<le> ?q \<or> ?q + k \<le> ?p"
  proof (rule apart_ranges)
    show "apart (a - fb_start d) n (b - fb_start d) k" using ap by (simp add: apart_diff)
  qed (use n k in auto)
  ultimately show "fb_read b k d' = fb_read b k d"
    using take_put_apart [of ?p "le_bytes n v" "fb_buffer d" ?q k] n k by (simp add: fb_read_inside [OF ib] fb_read_inside d')
qed

section \<open>Pixels and frames\<close>

text \<open>A pixel reads back after any writes to other pixels, and the next frame shows the buffer as it is.\<close>

lemma pixel_kept:
  assumes "fb_inside d a 4" and "\<forall>(b, k, w) \<in> set ws. fb_inside d b k \<and> apart b k a 4"
  shows "\<exists>d'. fb.wr_all ((a, 4, v) # ws) d = Inr d' \<and> fb_read a 4 d' = Inr (v AND 0xFFFFFFFF)"
  using fb.rd_after_wr_then_frame [OF assms, of v] by (simp add: mask_eq_exp_minus_1)

lemma frame_shown:
  "last_frame_time d + 16000000 \<le> now \<Longrightarrow> fb_frames (fb_tick now d) = fb_frames d @ [fb_buffer d]"
  "last_frame_time d \<le> now \<Longrightarrow> now < last_frame_time d + 16000000 \<Longrightarrow> fb_tick now d = d"
proof -
  have t: "tdiv e 1000000 = e div 1000000" if "0 \<le> e" for e using that by (cases "e = 0") (simp_all add: tdiv_def)
  assume "last_frame_time d + 16000000 \<le> now"
  then have "16 \<le> (now - last_frame_time d) div 1000000" "0 \<le> now - last_frame_time d" by simp_all
  then show "fb_frames (fb_tick now d) = fb_frames d @ [fb_buffer d]" by (simp add: fb_tick_def t)
next
  have t: "tdiv e 1000000 = e div 1000000" if "0 \<le> e" for e using that by (cases "e = 0") (simp_all add: tdiv_def)
  assume "last_frame_time d \<le> now" "now < last_frame_time d + 16000000"
  then have "(now - last_frame_time d) div 1000000 < 16" "0 \<le> now - last_frame_time d" by simp_all
  then show "fb_tick now d = d" by (simp add: fb_tick_def t)
qed

text \<open>
  The registers of the device are four bytes longer than the buffer: an access to the last four bytes of the range passes
  the check of the device and leaves the buffer.
\<close>

lemma fb_tail_out_of_bounds:
  assumes "unat width * unat height * 4 + 4 < 2 ^ 64" and "d = fst (new_framebuffer base width height m)" and "j < 4"
    and "n \<in> {1, 2, 4, 8}"
  shows "fb_read (base + width * height * 4 + of_nat j) n d = Inl Vector_index"
    and "fb_write (base + width * height * 4 + of_nat j) n v d = Inl Vector_index"
proof -
  have w: "unat (width * height * 4) = unat width * unat height * 4" using assms(1) by (simp add: unat_word_ariths mult.commute)
  then have l: "unat (width * height * 4 + of_nat j) = unat width * unat height * 4 + j"
    "unat (width * height * 4 + 4) = unat width * unat height * 4 + 4"
    using assms(1,3) by (simp_all add: unat_word_ariths(1) unat_of_nat_64 mult.commute)
  have o: "base + width * height * 4 + of_nat j - base = width * height * 4 + of_nat j" by simp
  have "\<not> width * height * 4 + 4 \<le> width * height * 4 + of_nat j" using l assms(3) by (simp add: word_le_nat_alt)
  moreover have "\<not> unat (width * height * 4 + of_nat j) + n \<le> unat (width * height * 4)" using l w assms(4) by auto
  ultimately show "fb_read (base + width * height * 4 + of_nat j) n d = Inl Vector_index"
    and "fb_write (base + width * height * 4 + of_nat j) n v d = Inl Vector_index"
    using assms(2,4) unfolding fb_read_def fb_write_def by (simp_all only: Let_def new_framebuffer_def fst_conv framebuffer.simps o length_replicate) auto
qed

end
