(* ===== verification/Instr_Table.thy ===== *)
theory Instr_Table
  imports Opcodes
begin

unbundle bit_operations_syntax

text \<open>
  The instruction table: the calls of \<open>register_instr\<close> in the functions \<open>init_*\<close> of src/sets, in their
  order, and \<open>init_all_instrs\<close> of src/decode.cpp, which runs them and builds the lookup tables. Floating
  point is compiled in (\<open>USE_FPU\<close>); the native translators of the JIT are not part of the model.
\<close>

definition register_all ::
  "(string \<times> handler \<times> (u32 \<Rightarrow> u64) option) list \<Rightarrow> handler decoder \<Rightarrow> handler decoder" where
  "register_all tbl d = fold (\<lambda>(m, f, dec) d. register_instr m f dec d) tbl d"

definition init_rv64i :: "handler decoder \<Rightarrow> handler decoder" where
  "init_rv64i = register_all [
     (''0000000**********000*****0110011'', RV_I H_ADD, None),
     (''0000000**********000*****0111011'', RV_I H_ADDW, None),
     (''0100000**********000*****0110011'', RV_I H_SUB, None),
     (''0100000**********000*****0111011'', RV_I H_SUBW, None),
     (''0000000**********100*****0110011'', RV_I H_XOR, None),
     (''0000000**********110*****0110011'', RV_I H_OR, None),
     (''0000000**********111*****0110011'', RV_I H_AND, None),
     (''0000000**********001*****0110011'', RV_I H_SLL, None),
     (''0000000**********001*****0111011'', RV_I H_SLLW, None),
     (''0000000**********101*****0110011'', RV_I H_SRL, None),
     (''0000000**********101*****0111011'', RV_I H_SRLW, None),
     (''0100000**********101*****0110011'', RV_I H_SRA, None),
     (''0100000**********101*****0111011'', RV_I H_SRAW, None),
     (''0000000**********010*****0110011'', RV_I H_SLT, None),
     (''0000000**********011*****0110011'', RV_I H_SLTU, None),
     (''*****************000*****0010011'', RV_I H_ADDI, Some imm_I),
     (''*****************000*****0011011'', RV_I H_ADDIW, Some imm_I),
     (''*****************100*****0010011'', RV_I H_XORI, Some imm_I),
     (''*****************110*****0010011'', RV_I H_ORI, Some imm_I),
     (''*****************111*****0010011'', RV_I H_ANDI, Some imm_I),
     (''000000***********001*****0010011'', RV_I H_SLLI, Some shamt64),
     (''0000000**********001*****0011011'', RV_I H_SLLIW, Some shamt),
     (''0000000**********101*****0011011'', RV_I H_SRLIW, Some shamt),
     (''0100000**********101*****0011011'', RV_I H_SRAIW, Some shamt),
     (''000000***********101*****0010011'', RV_I H_SRLI, Some shamt64),
     (''010000***********101*****0010011'', RV_I H_SRAI, Some shamt64),
     (''*****************010*****0010011'', RV_I H_SLTI, Some imm_I),
     (''*****************011*****0010011'', RV_I H_SLTIU, Some imm_I),
     (''*****************000*****0000011'', RV_I H_LB, Some imm_I),
     (''*****************001*****0000011'', RV_I H_LH, Some imm_I),
     (''*****************010*****0000011'', RV_I H_LW, Some imm_I),
     (''*****************011*****0000011'', RV_I H_LD, Some imm_I),
     (''*****************100*****0000011'', RV_I H_LBU, Some imm_I),
     (''*****************101*****0000011'', RV_I H_LHU, Some imm_I),
     (''*****************110*****0000011'', RV_I H_LWU, Some imm_I),
     (''*****************000*****0100011'', RV_I H_SB, Some imm_S),
     (''*****************001*****0100011'', RV_I H_SH, Some imm_S),
     (''*****************010*****0100011'', RV_I H_SW, Some imm_S),
     (''*****************011*****0100011'', RV_I H_SD, Some imm_S),
     (''*****************000*****1100011'', RV_I H_BEQ, Some imm_B),
     (''*****************001*****1100011'', RV_I H_BNE, Some imm_B),
     (''*****************100*****1100011'', RV_I H_BLT, Some imm_B),
     (''*****************101*****1100011'', RV_I H_BGE, Some imm_B),
     (''*****************110*****1100011'', RV_I H_BLTU, Some imm_B),
     (''*****************111*****1100011'', RV_I H_BGEU, Some imm_B),
     (''*************************1101111'', RV_I H_JAL, Some imm_J),
     (''*****************000*****1100111'', RV_I H_JALR, Some imm_I),
     (''*************************0110111'', RV_I H_LUI, Some imm_U),
     (''*************************0010111'', RV_I H_AUIPC, Some imm_U),
     (''00000000000000000000000001110011'', RV_I H_ECALL, None),
     (''00000000000100000000000001110011'', RV_I H_EBREAK, None),
     (''0000********00000000000000001111'', RV_I H_FENCE, Some imm_I)]"

definition init_rv64m :: "handler decoder \<Rightarrow> handler decoder" where
  "init_rv64m = register_all [
     (''0000001**********000*****0110011'', RV_M H_MUL, None),
     (''0000001**********000*****0111011'', RV_M H_MULW, None),
     (''0000001**********001*****0110011'', RV_M H_MULH, None),
     (''0000001**********010*****0110011'', RV_M H_MULHSU, None),
     (''0000001**********011*****0110011'', RV_M H_MULHU, None),
     (''0000001**********100*****0110011'', RV_M H_DIV, None),
     (''0000001**********101*****0110011'', RV_M H_DIVU, None),
     (''0000001**********101*****0111011'', RV_M H_DIVUW, None),
     (''0000001**********100*****0111011'', RV_M H_DIVW, None),
     (''0000001**********110*****0110011'', RV_M H_REM, None),
     (''0000001**********111*****0110011'', RV_M H_REMU, None),
     (''0000001**********111*****0111011'', RV_M H_REMUW, None),
     (''0000001**********110*****0111011'', RV_M H_REMW, None)]"

definition init_rv64a :: "handler decoder \<Rightarrow> handler decoder" where
  "init_rv64a = register_all [
     (''00001************010*****0101111'', RV_A H_AMOSWAP_W, None),
     (''00000************010*****0101111'', RV_A H_AMOADD_W, None),
     (''01100************010*****0101111'', RV_A H_AMOAND_W, None),
     (''00100************010*****0101111'', RV_A H_AMOXOR_W, None),
     (''01000************010*****0101111'', RV_A H_AMOOR_W, None),
     (''10000************010*****0101111'', RV_A H_AMOMIN_W, None),
     (''11000************010*****0101111'', RV_A H_AMOMINU_W, None),
     (''10100************010*****0101111'', RV_A H_AMOMAX_W, None),
     (''11100************010*****0101111'', RV_A H_AMOMAXU_W, None),
     (''00010************010*****0101111'', RV_A H_LR_W, None),
     (''00011************010*****0101111'', RV_A H_SC_W, None),
     (''00001************011*****0101111'', RV_A H_AMOSWAP_D, None),
     (''00000************011*****0101111'', RV_A H_AMOADD_D, None),
     (''01100************011*****0101111'', RV_A H_AMOAND_D, None),
     (''00100************011*****0101111'', RV_A H_AMOXOR_D, None),
     (''01000************011*****0101111'', RV_A H_AMOOR_D, None),
     (''10000************011*****0101111'', RV_A H_AMOMIN_D, None),
     (''11000************011*****0101111'', RV_A H_AMOMINU_D, None),
     (''10100************011*****0101111'', RV_A H_AMOMAX_D, None),
     (''11100************011*****0101111'', RV_A H_AMOMAXU_D, None),
     (''00010************011*****0101111'', RV_A H_LR_D, None),
     (''00011************011*****0101111'', RV_A H_SC_D, None)]"

definition init_rv64f :: "handler decoder \<Rightarrow> handler decoder" where
  "init_rv64f = register_all [
     (''*****00******************1000011'', RV_F H_FMADD_S, None),
     (''*****00******************1000111'', RV_F H_FMSUB_S, None),
     (''*****00******************1001111'', RV_F H_FNMADD_S, None),
     (''*****00******************1001011'', RV_F H_FNMSUB_S, None),
     (''0000000******************1010011'', RV_F H_FADD_S, None),
     (''0000100******************1010011'', RV_F H_FSUB_S, None),
     (''0001000******************1010011'', RV_F H_FMUL_S, None),
     (''0001100******************1010011'', RV_F H_FDIV_S, None),
     (''010110000000*************1010011'', RV_F H_FSQRT_S, None),
     (''0010000**********000*****1010011'', RV_F H_FSGNJ_S, None),
     (''0010000**********001*****1010011'', RV_F H_FSGNJN_S, None),
     (''0010000**********010*****1010011'', RV_F H_FSGNJX_S, None),
     (''0010100**********000*****1010011'', RV_F H_FMIN_S, None),
     (''0010100**********001*****1010011'', RV_F H_FMAX_S, None),
     (''110000000000*************1010011'', RV_F H_FCVT_W_S, None),
     (''110000000001*************1010011'', RV_F H_FCVT_WU_S, None),
     (''110100000000*************1010011'', RV_F H_FCVT_S_W, None),
     (''110100000001*************1010011'', RV_F H_FCVT_S_WU, None),
     (''110000000010*************1010011'', RV_F H_FCVT_L_S, None),
     (''110000000011*************1010011'', RV_F H_FCVT_LU_S, None),
     (''110100000010*************1010011'', RV_F H_FCVT_S_L, None),
     (''110100000011*************1010011'', RV_F H_FCVT_S_LU, None),
     (''111000000000*****000*****1010011'', RV_F H_FMV_X_W, None),
     (''111100000000*****000*****1010011'', RV_F H_FMV_W_X, None),
     (''1010000**********010*****1010011'', RV_F H_FEQ_S, None),
     (''1010000**********001*****1010011'', RV_F H_FLT_S, None),
     (''1010000**********000*****1010011'', RV_F H_FLE_S, None),
     (''111000000000*****001*****1010011'', RV_F H_FCLASS_S, None),
     (''*****************010*****0000111'', RV_F H_FLW, Some imm_I),
     (''*****************010*****0100111'', RV_F H_FSW, Some imm_S)]"

definition init_rv64d :: "handler decoder \<Rightarrow> handler decoder" where
  "init_rv64d = register_all [
     (''*****01******************1000011'', RV_D H_FMADD_D, None),
     (''*****01******************1000111'', RV_D H_FMSUB_D, None),
     (''*****01******************1001111'', RV_D H_FNMADD_D, None),
     (''*****01******************1001011'', RV_D H_FNMSUB_D, None),
     (''0000001******************1010011'', RV_D H_FADD_D, None),
     (''0000101******************1010011'', RV_D H_FSUB_D, None),
     (''0001001******************1010011'', RV_D H_FMUL_D, None),
     (''0001101******************1010011'', RV_D H_FDIV_D, None),
     (''010110100000*************1010011'', RV_D H_FSQRT_D, None),
     (''0010001**********000*****1010011'', RV_D H_FSGNJ_D, None),
     (''0010001**********001*****1010011'', RV_D H_FSGNJN_D, None),
     (''0010001**********010*****1010011'', RV_D H_FSGNJX_D, None),
     (''0010101**********000*****1010011'', RV_D H_FMIN_D, None),
     (''0010101**********001*****1010011'', RV_D H_FMAX_D, None),
     (''010000000001*************1010011'', RV_D H_FCVT_S_D, None),
     (''010000100000*************1010011'', RV_D H_FCVT_D_S, None),
     (''110000100000*************1010011'', RV_D H_FCVT_W_D, None),
     (''110000100001*************1010011'', RV_D H_FCVT_WU_D, None),
     (''110100100000*************1010011'', RV_D H_FCVT_D_W, None),
     (''110100100001*************1010011'', RV_D H_FCVT_D_WU, None),
     (''110000100010*************1010011'', RV_D H_FCVT_L_D, None),
     (''110000100011*************1010011'', RV_D H_FCVT_LU_D, None),
     (''110100100010*************1010011'', RV_D H_FCVT_D_L, None),
     (''110100100011*************1010011'', RV_D H_FCVT_D_LU, None),
     (''111000100000*****000*****1010011'', RV_D H_FMV_X_D, None),
     (''111100100000*****000*****1010011'', RV_D H_FMV_D_X, None),
     (''1010001**********010*****1010011'', RV_D H_FEQ_D, None),
     (''1010001**********001*****1010011'', RV_D H_FLT_D, None),
     (''1010001**********000*****1010011'', RV_D H_FLE_D, None),
     (''111000100000*****001*****1010011'', RV_D H_FCLASS_D, None),
     (''*****************011*****0000111'', RV_D H_FLD, Some imm_I),
     (''*****************011*****0100111'', RV_D H_FSD, Some imm_S)]"

definition init_rv64c :: "handler decoder \<Rightarrow> handler decoder" where
  "init_rv64c = register_all [
     (''000***********00'', RV_C H_C_ADDI4SPN, Some d_c_uimm),
     (''010***********00'', RV_C H_C_LW, Some d_c_uimm_cl),
     (''011***********00'', RV_C H_C_LD, Some d_c_uimm_cl1),
     (''110***********00'', RV_C H_C_SW, Some d_c_uimm_cl),
     (''111***********00'', RV_C H_C_SD, Some d_c_uimm_cl1),
     (''0000000000000001'', RV_C H_C_NOP, None),
     (''000***********01'', RV_C H_C_ADDI, Some d_c_nzimm),
     (''001***********01'', RV_C H_C_ADDIW, Some d_c_nzimm),
     (''010***********01'', RV_C H_C_LI, Some d_c_nzimm),
     (''011***********01'', RV_C H_C_LUI_ADDI16SP, Some d_c_nzimm),
     (''100*00********01'', RV_C H_C_SRLI, Some d_c_uimm_arith),
     (''100*01********01'', RV_C H_C_SRAI, Some d_c_uimm_arith),
     (''100*10********01'', RV_C H_C_ANDI, Some d_c_uimm_arith),
     (''100011***00***01'', RV_C H_C_SUB, None),
     (''100011***01***01'', RV_C H_C_XOR, None),
     (''100011***10***01'', RV_C H_C_OR, None),
     (''100011***11***01'', RV_C H_C_AND, None),
     (''100111***00***01'', RV_C H_C_SUBW, None),
     (''100111***01***01'', RV_C H_C_ADDW, None),
     (''101***********01'', RV_C H_C_J, Some d_c_j_imm),
     (''110***********01'', RV_C H_C_BEQZ, Some d_c_b_imm),
     (''111***********01'', RV_C H_C_BNEZ, Some d_c_b_imm),
     (''000***********10'', RV_C H_C_SLLI, Some d_c_uimm_arith),
     (''010***********10'', RV_C H_C_LWSP, Some d_c_uimm_lwsp),
     (''011***********10'', RV_C H_C_LDSP, Some d_c_uimm_ldsp),
     (''1000*****0000010'', RV_C H_C_JR, None),
     (''1000**********10'', RV_C H_C_MV, None),
     (''1001000000000010'', RV_C H_C_EBREAK, None),
     (''1001*****0000010'', RV_C H_C_JALR, None),
     (''1001**********10'', RV_C H_C_ADD, None),
     (''110***********10'', RV_C H_C_SWSP, Some d_c_uimm_swsp),
     (''111***********10'', RV_C H_C_SDSP, Some d_c_uimm_sdsp),
     (''001***********00'', RV_C H_C_FLD, Some d_c_uimm_cl1),
     (''101***********00'', RV_C H_C_FSD, Some d_c_uimm_cl1),
     (''001***********10'', RV_C H_C_FLDSP, Some d_c_uimm_ldsp),
     (''101***********10'', RV_C H_C_FSDSP, Some d_c_uimm_sdsp)]"

definition init_priv :: "handler decoder \<Rightarrow> handler decoder" where
  "init_priv = register_all [
     (''00110000001000000000000001110011'', RV_priv H_MRET, None),
     (''00010000001000000000000001110011'', RV_priv H_SRET, None),
     (''00010000010100000000000001110011'', RV_priv H_WFI, None),
     (''0001001**********000000001110011'', RV_priv H_SFENCE_VMA, None)]"

definition init_zicsr :: "handler decoder \<Rightarrow> handler decoder" where
  "init_zicsr = register_all [
     (''*****************001*****1110011'', RV_zicsr H_CSRRW, Some imm_Zicsr),
     (''*****************010*****1110011'', RV_zicsr H_CSRRS, Some imm_Zicsr),
     (''*****************011*****1110011'', RV_zicsr H_CSRRC, Some imm_Zicsr),
     (''*****************101*****1110011'', RV_zicsr H_CSRRWI, Some imm_Zicsr),
     (''*****************110*****1110011'', RV_zicsr H_CSRRSI, Some imm_Zicsr),
     (''*****************111*****1110011'', RV_zicsr H_CSRRCI, Some imm_Zicsr)]"

definition init_zifencei :: "handler decoder \<Rightarrow> handler decoder" where
  "init_zifencei = register_all [
     (''*****************001*****0001111'', RV_zifencei H_FENCE_I, None)]"

definition init_zba :: "handler decoder \<Rightarrow> handler decoder" where
  "init_zba = register_all [
     (''0000100**********000*****0111011'', RV_zba H_ADD_UW, None),
     (''0010000**********010*****0110011'', RV_zba H_SH1ADD, None),
     (''0010000**********010*****0111011'', RV_zba H_SH1ADD_UW, None),
     (''0010000**********100*****0110011'', RV_zba H_SH2ADD, None),
     (''0010000**********100*****0111011'', RV_zba H_SH2ADD_UW, None),
     (''0010000**********110*****0110011'', RV_zba H_SH3ADD, None),
     (''0010000**********110*****0111011'', RV_zba H_SH3ADD_UW, None),
     (''000010***********001*****0011011'', RV_zba H_SLLI_UW, None)]"

definition init_zbb :: "handler decoder \<Rightarrow> handler decoder" where
  "init_zbb = register_all [
     (''0100000**********111*****0110011'', RV_zbb H_ANDN, None),
     (''0100000**********110*****0110011'', RV_zbb H_ORN, None),
     (''0100000**********100*****0110011'', RV_zbb H_XNOR, None),
     (''011000000000*****001*****0010011'', RV_zbb H_CLZ, None),
     (''011000000000*****001*****0011011'', RV_zbb H_CLZW, None),
     (''011000000001*****001*****0010011'', RV_zbb H_CTZ, None),
     (''011000000001*****001*****0011011'', RV_zbb H_CTZW, None),
     (''011000000010*****001*****0010011'', RV_zbb H_CPOP, None),
     (''011000000010*****001*****0011011'', RV_zbb H_CPOPW, None),
     (''0000101**********110*****0110011'', RV_zbb H_MAX, None),
     (''0000101**********111*****0110011'', RV_zbb H_MAXU, None),
     (''0000101**********100*****0110011'', RV_zbb H_MIN, None),
     (''0000101**********101*****0110011'', RV_zbb H_MINU, None),
     (''011000000100*****001*****0010011'', RV_zbb H_SEXT_B, None),
     (''011000000101*****001*****0010011'', RV_zbb H_SEXT_H, None),
     (''000010000000*****100*****0111011'', RV_zbb H_ZEXT_H, None),
     (''0110000**********001*****0110011'', RV_zbb H_ROL, None),
     (''0110000**********001*****0111011'', RV_zbb H_ROLW, None),
     (''0110000**********101*****0110011'', RV_zbb H_ROR, None),
     (''011000***********101*****0010011'', RV_zbb H_RORI, None),
     (''0110000**********101*****0011011'', RV_zbb H_RORIW, None),
     (''0110000**********101*****0111011'', RV_zbb H_RORW, None),
     (''001010000111*****101*****0010011'', RV_zbb H_ORC_B, None),
     (''011010111000*****101*****0010011'', RV_zbb H_REV8, None)]"

definition init_zbc :: "handler decoder \<Rightarrow> handler decoder" where
  "init_zbc = register_all [
     (''0000101**********001*****0110011'', RV_zbc H_CLMUL, None),
     (''0000101**********011*****0110011'', RV_zbc H_CLMULH, None),
     (''0000101**********010*****0110011'', RV_zbc H_CLMULR, None)]"

definition init_zbs :: "handler decoder \<Rightarrow> handler decoder" where
  "init_zbs = register_all [
     (''0100100**********001*****0110011'', RV_zbs H_BCLR, None),
     (''010010***********001*****0010011'', RV_zbs H_BCLRI, None),
     (''0100100**********101*****0110011'', RV_zbs H_BEXT, None),
     (''010010***********101*****0010011'', RV_zbs H_BEXTI, None),
     (''0110100**********001*****0110011'', RV_zbs H_BINV, None),
     (''011010***********001*****0010011'', RV_zbs H_BINVI, None),
     (''0010100**********001*****0110011'', RV_zbs H_BSET, None),
     (''001010***********001*****0010011'', RV_zbs H_BSETI, None)]"

definition init_zicboz :: "handler decoder \<Rightarrow> handler decoder" where
  "init_zicboz = register_all [
     (''000000000100*****010000000001111'', RV_zicboz H_cbo_zero, None)]"

definition init_all_instrs :: "handler decoder \<Rightarrow> handler decoder option" where
  "init_all_instrs d =
     (let d = init_rv64i d;
          d = init_rv64m d;
          d = init_rv64a d;
          d = init_rv64f d;
          d = init_rv64d d;
          d = init_rv64c d;
          d = init_priv d;
          d = init_zicsr d;
          d = init_zifencei d;
          d = init_zba d;
          d = init_zbb d;
          d = init_zbc d;
          d = init_zbs d;
          d = init_zicboz d
      in build_lut d)"

section \<open>The table is fit for hashing\<close>

text \<open>
  The condition \<open>table_ok\<close> of the decoder, decided on the mask strings. A mask gives a row of
  digits, one for each position that the hash reads; two rows are told apart by a position where
  one has a 0 and the other a 1. \<open>apart_heads\<close> checks all pairs by branching on one position after
  the other, so that the 204 full-size masks need no quadratic comparison.
\<close>

datatype trit = T0 | T1 | TX

definition trit_of :: "char \<Rightarrow> trit" where
  "trit_of c = (if c = CHR ''0'' then T0 else if c = CHR ''1'' then T1 else TX)"

definition conflict_at :: "string \<Rightarrow> string \<Rightarrow> nat \<Rightarrow> bool" where
  "conflict_at a b p \<longleftrightarrow> {trit_of (a ! p), trit_of (b ! p)} = {T0, T1}"

primrec branch :: "trit \<Rightarrow> trit list list \<Rightarrow> trit list list" where
  "branch t [] = []"
| "branch t (x # xs) = (case x of [] \<Rightarrow> branch t xs | h # r \<Rightarrow> if h = t then branch t xs else r # branch t xs)"

fun apart_heads :: "nat list \<Rightarrow> trit list list \<Rightarrow> bool" where
  "apart_heads ps [] = True"
| "apart_heads ps [x] = True"
| "apart_heads [] (x # y # xs) = False"
| "apart_heads (p # ps) (x # y # xs) =
     (apart_heads ps (branch T0 (x # y # xs)) \<and> apart_heads ps (branch T1 (x # y # xs)))"

abbreviation trits :: "nat list \<Rightarrow> string \<Rightarrow> trit list" where
  "trits ps s \<equiv> map (\<lambda>p. trit_of (s ! p)) ps"

lemma branch_trits:
  "branch t (map (trits (p # ps)) xs) = map (trits ps) (filter (\<lambda>s. trit_of (s ! p) \<noteq> t) xs)"
  by (induction xs) auto

lemma sorted_wrt_split:
  assumes "sorted_wrt R (filter P xs)" "sorted_wrt R (filter Q xs)"
    and "\<And>a b. a \<in> set xs \<Longrightarrow> b \<in> set xs \<Longrightarrow> S a b \<or> (P a \<and> P b) \<or> (Q a \<and> Q b)"
    and "\<And>a b. R a b \<Longrightarrow> S a b"
  shows "sorted_wrt S xs"
  using assms
proof (induction xs)
  case (Cons x xs)
  have "S x y" if "y \<in> set xs" for y
    using Cons.prems(1,2) Cons.prems(3) [of x y] Cons.prems(4) that by (auto split: if_splits)
  moreover have "sorted_wrt S xs"
  proof (rule Cons.IH)
    show "sorted_wrt R (filter P xs)" "sorted_wrt R (filter Q xs)"
      using Cons.prems(1,2) by (auto split: if_splits)
  qed (use Cons.prems(3,4) in auto)
  ultimately show ?case by simp
qed simp

lemma apart_heads_sorted:
  "apart_heads ps (map (trits ps) xs) \<Longrightarrow> sorted_wrt (\<lambda>a b. \<exists>p \<in> set ps. conflict_at a b p) xs"
proof (induction ps arbitrary: xs)
  case Nil
  then show ?case by (cases "([] :: nat list, map (trits []) xs)" rule: apart_heads.cases) auto
next
  case (Cons p ps)
  consider "xs = []" | x where "xs = [x]" | x y zs where "xs = x # y # zs" by (metis list.exhaust)
  then show ?case
  proof cases
    case 3
    then have "apart_heads ps (branch t (map (trits (p # ps)) xs))" if "t = T0 \<or> t = T1" for t
      using Cons.prems that by auto
    then have "sorted_wrt (\<lambda>a b. \<exists>p \<in> set ps. conflict_at a b p) (filter (\<lambda>s. trit_of (s ! p) \<noteq> t) xs)"
      if "t = T0 \<or> t = T1" for t
      using Cons.IH that by (simp only: branch_trits)
    then have "sorted_wrt (\<lambda>a b. \<exists>p \<in> set ps. conflict_at a b p) (filter (\<lambda>s. trit_of (s ! p) \<noteq> T0) xs)"
      "sorted_wrt (\<lambda>a b. \<exists>p \<in> set ps. conflict_at a b p) (filter (\<lambda>s. trit_of (s ! p) \<noteq> T1) xs)" by blast+
    then show ?thesis by (rule sorted_wrt_split) (auto simp: conflict_at_def)
  qed auto
qed

lemma mask_loop_bits:
  assumes "mask_loop cs i m k = (m', k')"
  shows "bit m' j \<longleftrightarrow> bit m j \<or> (j < 32 \<and> i \<le> j \<and> j < i + length cs \<and> cs ! (j - i) \<in> {CHR ''0'', CHR ''1''})"
    and "bit k' j \<longleftrightarrow> bit k j \<or> (j < 32 \<and> i \<le> j \<and> j < i + length cs \<and> cs ! (j - i) = CHR ''1'')"
proof -
  have "(bit m' j \<longleftrightarrow> bit m j \<or> (j < 32 \<and> i \<le> j \<and> j < i + length cs \<and> cs ! (j - i) \<in> {CHR ''0'', CHR ''1''})) \<and>
        (bit k' j \<longleftrightarrow> bit k j \<or> (j < 32 \<and> i \<le> j \<and> j < i + length cs \<and> cs ! (j - i) = CHR ''1''))"
    using assms
  proof (induction cs i m k rule: mask_loop.induct)
    case (2 c cs i m k)
    consider "j < i" | "j = i" | "i < j" by linarith
    then show ?case
    proof cases
      case 3
      then obtain d where "j = Suc (i + d)" using less_iff_Suc_add by auto
      then show ?thesis using 2 by (auto simp: bit_simps split: if_splits)
    qed (use 2 in \<open>auto simp: bit_simps split: if_splits\<close>)
  qed (simp, linarith)
  then show "bit m' j \<longleftrightarrow> bit m j \<or> (j < 32 \<and> i \<le> j \<and> j < i + length cs \<and> cs ! (j - i) \<in> {CHR ''0'', CHR ''1''})"
    "bit k' j \<longleftrightarrow> bit k j \<or> (j < 32 \<and> i \<le> j \<and> j < i + length cs \<and> cs ! (j - i) = CHR ''1'')" by blast+
qed

abbreviation make_of :: "string \<times> 'f \<times> (u32 \<Rightarrow> u64) option \<Rightarrow> 'f instruction" where
  "make_of e \<equiv> (case e of (m, f, dec) \<Rightarrow> make_instr m f dec)"

lemma make_instr_bits:
  "bit (mask_i (make_instr m f dec)) j \<longleftrightarrow> j < 32 \<and> j < length m \<and> rev m ! j \<in> {CHR ''0'', CHR ''1''}"
  "bit (match_i (make_instr m f dec)) j \<longleftrightarrow> j < 32 \<and> j < length m \<and> rev m ! j = CHR ''1''"
  "size_i (make_instr m f dec) = of_nat (length m div 8)"
proof -
  obtain a b where ab: "mask_loop (rev m) 0 0 0 = (a, b)" by (cases "mask_loop (rev m) 0 0 0")
  show "bit (mask_i (make_instr m f dec)) j \<longleftrightarrow> j < 32 \<and> j < length m \<and> rev m ! j \<in> {CHR ''0'', CHR ''1''}"
    "bit (match_i (make_instr m f dec)) j \<longleftrightarrow> j < 32 \<and> j < length m \<and> rev m ! j = CHR ''1''"
    "size_i (make_instr m f dec) = of_nat (length m div 8)"
    using mask_loop_bits [OF ab, of j] by (simp_all add: make_instr_def ab)
qed

fun low_ok :: "string \<Rightarrow> bool" where
  "low_ok (x # y # r) =
     (if length r = 14 then (x, y) \<in> {(CHR ''0'', CHR ''0''), (CHR ''0'', CHR ''1''), (CHR ''1'', CHR ''0'')}
      else length r = 30 \<and> x = CHR ''1'' \<and> y = CHR ''1'')"
| "low_ok r = False"

lemma low_okD:
  "low_ok r \<Longrightarrow> (length r = 16 \<or> length r = 32) \<and> r ! 0 \<in> {CHR ''0'', CHR ''1''} \<and> r ! 1 \<in> {CHR ''0'', CHR ''1''} \<and>
    (length r = 32 \<longleftrightarrow> r ! 0 = CHR ''1'' \<and> r ! 1 = CHR ''1'')"
  by (cases r rule: low_ok.cases) (auto split: if_splits)

definition mask_ok :: "string \<Rightarrow> bool" where
  "mask_ok m = low_ok (rev m)"

lemma mask_okD:
  assumes "mask_ok m"
  shows "length m = 16 \<or> length m = 32" "rev m ! 0 \<in> {CHR ''0'', CHR ''1''}" "rev m ! 1 \<in> {CHR ''0'', CHR ''1''}"
    "length m = 32 \<longleftrightarrow> rev m ! 0 = CHR ''1'' \<and> rev m ! 1 = CHR ''1''"
  using low_okD [of "rev m"] assms by (auto simp: mask_ok_def)

lemma low2_bits: "w AND 3 = 3 \<longleftrightarrow> bit w 0 \<and> bit w 1" for w :: u32
  using low2_eq [of w "-1"] by simp

lemma mask_ok_instr: "mask_ok m \<Longrightarrow> instr_ok (make_instr m f dec)"
proof -
  assume "mask_ok m"
  note len = mask_okD(1) [OF this] and r = mask_okD(2,3) [OF this] and full = mask_okD(4) [OF this]
  let ?i = "make_instr m f dec"
  have "match_i ?i AND NOT (mask_i ?i) = 0"
    by (rule bit_word_eqI) (simp add: bit_simps make_instr_bits)
  moreover have "mask_i ?i AND 3 = 3" using len r by (auto simp: low2_bits make_instr_bits)
  moreover have "mask_i ?i AND 0xFFFF = mask_i ?i" if "length m = 16"
  proof (rule bit_word_eqI)
    fix n :: nat assume "n < LENGTH(32)"
    have "bit (0xFFFF :: u32) n \<longleftrightarrow> n < 16"
      using bit_mask_iff [of 16 n, where 'a = "32 word"] by (auto simp: mask_eq_exp_minus_1)
    then show "bit (mask_i ?i AND 0xFFFF) n = bit (mask_i ?i) n"
      using that by (auto simp: bit_and_iff make_instr_bits)
  qed
  moreover have "(match_i ?i AND 3 = 3) = (length m = 32)"
    using len full by (auto simp: low2_bits make_instr_bits)
  moreover have "(size_i ?i = 2) = (length m = 16)" "(size_i ?i = 4) = (length m = 32)"
    using len by (auto simp: make_instr_bits)
  ultimately show ?thesis using len by (auto simp: instr_ok_def)
qed

lemma conflict_apart:
  assumes "length a = 32" "length b = 32" "p < 32" "bit (HASH_MASK :: u32) p" "conflict_at (rev a) (rev b) p"
  shows "hash_apart HASH_MASK (make_instr a f dec) (make_instr b g dec')"
proof -
  have "bit ((match_i (make_instr a f dec) XOR match_i (make_instr b g dec')) AND
     mask_i (make_instr a f dec) AND mask_i (make_instr b g dec') AND HASH_MASK) p"
    using assms by (auto simp: bit_and_iff bit_xor_iff make_instr_bits conflict_at_def trit_of_def doubleton_eq_iff split: if_splits)
  then show ?thesis by (auto simp: hash_apart_def)
qed

abbreviation hash_bits :: "nat list" where
  "hash_bits \<equiv> [6, 5, 4, 3, 2, 12, 13, 14, 25, 26, 27, 28, 29, 30, 31, 20, 21, 22, 23, 24]"

lemma sorted_wrt_filterD:
  "sorted_wrt R (filter P xs) \<Longrightarrow> sorted_wrt (\<lambda>a b. P a \<longrightarrow> P b \<longrightarrow> R a b) xs"
  by (induction xs) (auto split: if_splits)

lemma table_ok_masks:
  assumes "list_all mask_ok (map fst tbl)"
    and "apart_heads hash_bits (map (\<lambda>m. trits hash_bits (rev m)) (filter (\<lambda>m. length m = 32) (map fst tbl)))"
  shows "table_ok (map make_of tbl)"
proof -
  have "sorted_wrt (\<lambda>a b. \<exists>p \<in> set hash_bits. conflict_at (rev a) (rev b) p) (filter (\<lambda>m. length m = 32) (map fst tbl))"
    using apart_heads_sorted [of hash_bits "map rev (filter (\<lambda>m. length m = 32) (map fst tbl))"] assms(2)
    by (simp only: map_map comp_def sorted_wrt_map)
  then have s: "sorted_wrt (\<lambda>a b. length (fst a) = 32 \<longrightarrow> length (fst b) = 32 \<longrightarrow>
     (\<exists>p \<in> set hash_bits. conflict_at (rev (fst a)) (rev (fst b)) p)) tbl"
    by (auto dest!: sorted_wrt_filterD simp: sorted_wrt_map)
  have ok: "mask_ok (fst e)" if "e \<in> set tbl" for e using assms(1) that by (auto simp: list_all_iff)
  have "sorted_wrt (\<lambda>a b. size_i (make_of a) = 4 \<longrightarrow> size_i (make_of b) = 4 \<longrightarrow>
      hash_apart HASH_MASK (make_of a) (make_of b)) tbl"
  proof (rule sorted_wrt_mono_rel [OF _ s])
    fix a b assume ab: "a \<in> set tbl" "b \<in> set tbl"
      and c: "length (fst a) = 32 \<longrightarrow> length (fst b) = 32 \<longrightarrow>
        (\<exists>p \<in> set hash_bits. conflict_at (rev (fst a)) (rev (fst b)) p)"
    have len: "length (fst e) = 32" if "e \<in> set tbl" "size_i (make_of e) = 4" for e
    proof -
      have "length (fst e) = 16 \<or> length (fst e) = 32" using mask_okD(1) ok that(1) by blast
      then show ?thesis using that(2) by (cases e) (auto simp: make_instr_bits)
    qed
    show "size_i (make_of a) = 4 \<longrightarrow> size_i (make_of b) = 4 \<longrightarrow> hash_apart HASH_MASK (make_of a) (make_of b)"
    proof (intro impI)
      assume sz: "size_i (make_of a) = 4" "size_i (make_of b) = 4"
      with c len ab obtain p where p: "p \<in> set hash_bits" "conflict_at (rev (fst a)) (rev (fst b)) p" by blast
      have "p < 32 \<and> bit (HASH_MASK :: u32) p" using p(1) by auto
      then show "hash_apart HASH_MASK (make_of a) (make_of b)"
        using conflict_apart [OF len [OF ab(1) sz(1)] len [OF ab(2) sz(2)] _ _ p(2)]
        by (simp add: case_prod_beta)
    qed
  qed
  moreover have "instr_ok (make_of e)" if "e \<in> set tbl" for e
    using mask_ok_instr [OF ok [OF that]] by (simp add: case_prod_beta)
  ultimately show ?thesis by (simp add: table_ok_def sorted_wrt_map)
qed

lemma instructions_register_all [simp]:
  "instructions (register_all tbl d) = instructions d @ map make_of tbl"
  by (induction tbl arbitrary: d) (auto simp: register_all_def register_instr_def Let_def)

lemma fresh_register_all [simp]: "fresh_tables (register_all tbl d) = fresh_tables d"
proof (induction tbl arbitrary: d)
  case (Cons e tbl)
  obtain m f dec where e: "e = (m, f, dec)" by (cases e)
  have "fresh_tables (register_instr m f dec d) = fresh_tables d"
    by (simp add: register_instr_def Let_def fresh_tables_def)
  with Cons show ?case by (simp add: register_all_def e)
qed (simp add: register_all_def)

definition registered :: "handler decoder" where
  "registered = init_zicboz (init_zbs (init_zbc (init_zbb (init_zba (init_zifencei (init_zicsr (init_priv
     (init_rv64c (init_rv64d (init_rv64f (init_rv64a (init_rv64m (init_rv64i new_decoder)))))))))))))"

lemmas init_defs = init_rv64i_def init_rv64m_def init_rv64a_def init_rv64f_def init_rv64d_def init_rv64c_def
  init_priv_def init_zicsr_def init_zifencei_def init_zba_def init_zbb_def init_zbc_def init_zbs_def init_zicboz_def

lemma trit_of_digit: "trit_of CHR ''0'' = T0" "trit_of CHR ''1'' = T1" "trit_of CHR ''*'' = TX"
  by (simp_all add: trit_of_def)

definition row :: "string \<Rightarrow> trit list" where "row m = trits hash_bits (rev m)"

fun rows :: "string list \<Rightarrow> trit list list" where
  "rows [] = []"
| "rows (m # ms) = (if length m = 32 then row m # rows ms else rows ms)"

lemma rows_filter: "rows ms = map row (filter (\<lambda>m. length m = 32) ms)"
  by (induction ms) auto

lemma apart_rows:
  "apart_heads hash_bits (rows ms) \<Longrightarrow> apart_heads hash_bits (map (\<lambda>m. trits hash_bits (rev m)) (filter (\<lambda>m. length m = 32) ms))"
  by (simp only: rows_filter row_def [abs_def])

lemma rows_append: "rows (xs @ ys) = rows xs @ rows ys"
  by (simp add: rows_filter)

lemma rows_step:
  "rows ([b31, b30, b29, b28, b27, b26, b25, b24, b23, b22, b21, b20, b19, b18, b17, b16, b15, b14, b13, b12, b11, b10, b9, b8, b7, b6, b5, b4, b3, b2, b1, b0] # ms) =
     [trit_of b6, trit_of b5, trit_of b4, trit_of b3, trit_of b2, trit_of b12, trit_of b13, trit_of b14, trit_of b25, trit_of b26, trit_of b27, trit_of b28, trit_of b29, trit_of b30, trit_of b31, trit_of b20, trit_of b21, trit_of b22, trit_of b23, trit_of b24] # rows ms"
  "rows ([b15, b14, b13, b12, b11, b10, b9, b8, b7, b6, b5, b4, b3, b2, b1, b0] # ms) = rows ms"
  by (simp_all add: row_def)

lemma branch_step:
  "branch T0 ((T0 # r) # xs) = branch T0 xs" "branch T0 ((T1 # r) # xs) = r # branch T0 xs"
  "branch T0 ((TX # r) # xs) = r # branch T0 xs" "branch T1 ((T0 # r) # xs) = r # branch T1 xs"
  "branch T1 ((T1 # r) # xs) = branch T1 xs" "branch T1 ((TX # r) # xs) = r # branch T1 xs"
  by simp_all

lemma registered_table: "table_ok (instructions registered)"
proof -
  have cat: "instructions registered = map make_of tbl \<Longrightarrow> list_all mask_ok (map fst tbl) \<Longrightarrow>
    apart_heads hash_bits (rows (map fst tbl)) \<Longrightarrow> ?thesis" for tbl
    using table_ok_masks [of tbl] apart_rows by simp
  show ?thesis
    apply (rule cat)
      apply (simp only: registered_def init_defs instructions_register_all map_append [symmetric] append_assoc
        new_decoder_def decoder.simps append_Nil)
     apply (simp add: mask_ok_def)
    apply (simp only: map_append rows_append list.map fst_conv)
    apply (simp only: rows_step rows.simps(1))
    apply (simp only: trit_of_digit append.simps)
    apply (simp only: apart_heads.simps branch_step branch.simps(1) simp_thms)
    done
qed

lemma init_all_registered: "init_all_instrs new_decoder = build_lut registered"
  by (simp add: init_all_instrs_def registered_def)

lemma registered_fresh: "fresh_tables registered"
proof -
  have "fresh_tables (new_decoder :: handler decoder)" by (simp add: fresh_tables_def new_decoder_def)
  then show ?thesis by (simp add: registered_def init_defs)
qed

text \<open>
  C8. Start-up of the decoder ends: registering all 240 instructions of the sets and building the
  lookup tables terminates without an index outside a table, and the tables then find for every
  instruction word what a scan of the registered masks finds.
\<close>

theorem decoder_startup:
  "\<exists>d. init_all_instrs new_decoder = Some d \<and> length (instructions d) = 240 \<and>
     (\<forall>w. find_inst d w = decode_ref (instructions d) w)"
proof -
  have "length (instructions registered) = 240"
    by (simp add: registered_def init_defs new_decoder_def)
  then show ?thesis
    using build_lut_correct [OF registered_table registered_fresh] by (auto simp: init_all_registered)
qed

end
