(* ===== verification/Rv64m.thy ===== *)
theory Rv64m
  imports Rv64i
begin

unbundle bit_operations_syntax

text \<open>
  Multiplication and division, src/sets/rv64m.cpp, and their arithmetic meaning. The product of two
  \<open>int32_t\<close> values in \<open>MULW\<close> wraps, as the compilers the project builds with define it.
\<close>

section \<open>Handlers\<close>

definition exec_MULW :: reg_handler where
  "exec_MULW i h = wr_rd i (scast (w1 i h * w2 i h)) h"

definition exec_DIVW :: reg_handler where
  "exec_DIVW i h =
     (if w2 i h = 0 then wr_rd i (- 1) h
      else if w1 i h = 0 then wr_rd i 0 h
      else if w1 i h = 0x80000000 \<and> w2 i h = - 1 then wr_rd i (scast (w1 i h)) h
      else wr_rd i (word_of_int (tdiv (sint (w1 i h)) (sint (w2 i h)))) h)"

definition exec_DIVUW :: reg_handler where
  "exec_DIVUW i h =
     (if w2 i h = 0 then wr_rd i (- 1) h
      else if w1 i h = 0 then wr_rd i 0 h
      else wr_rd i (scast (w1 i h div w2 i h)) h)"

definition exec_REMW :: reg_handler where
  "exec_REMW i h =
     (if w2 i h = 0 then wr_rd i (scast (w1 i h)) h
      else if w1 i h = 0x80000000 \<and> w2 i h = - 1 then wr_rd i 0 h
      else wr_rd i (word_of_int (trem (sint (w1 i h)) (sint (w2 i h)))) h)"

definition exec_REMUW :: reg_handler where
  "exec_REMUW i h =
     (if w2 i h = 0 then wr_rd i (r1 i h) h
      else wr_rd i (scast (w1 i h mod w2 i h)) h)"

definition exec_MUL :: reg_handler where
  "exec_MUL i h = wr_rd i (r1 i h * r2 i h) h"

definition exec_MULH :: reg_handler where
  "exec_MULH i h =
     (let res = scast (r1 i h) * scast (r2 i h) :: u128 in wr_rd i (ucast (signed_drop_bit 64 res)) h)"

definition exec_MULHSU :: reg_handler where
  "exec_MULHSU i h =
     (let res = scast (r1 i h) * ucast (r2 i h) :: u128 in wr_rd i (ucast (drop_bit 64 res)) h)"

definition exec_MULHU :: reg_handler where
  "exec_MULHU i h =
     (let res = ucast (r1 i h) * ucast (r2 i h) :: u128 in wr_rd i (ucast (drop_bit 64 res)) h)"

definition exec_DIV :: reg_handler where
  "exec_DIV i h =
     (if r2 i h = 0 then wr_rd i (- 1) h
      else if r1 i h = 0 then wr_rd i 0 h
      else if r1 i h = 0x8000000000000000 \<and> r2 i h = - 1 then wr_rd i (r1 i h) h
      else wr_rd i (word_of_int (tdiv (sint (r1 i h)) (sint (r2 i h)))) h)"

definition exec_DIVU :: reg_handler where
  "exec_DIVU i h =
     (if r2 i h = 0 then wr_rd i (- 1) h
      else if r1 i h = 0 then wr_rd i 0 h
      else wr_rd i (r1 i h div r2 i h) h)"

definition exec_REM :: reg_handler where
  "exec_REM i h =
     (if r2 i h = 0 then wr_rd i (r1 i h) h
      else if r1 i h = 0x8000000000000000 \<and> r2 i h = - 1 then wr_rd i 0 h
      else wr_rd i (word_of_int (trem (sint (r1 i h)) (sint (r2 i h)))) h)"

definition exec_REMU :: reg_handler where
  "exec_REMU i h =
     (if r2 i h = 0 then wr_rd i (r1 i h) h
      else wr_rd i (r1 i h mod r2 i h) h)"

fun exec_m :: "op_m \<Rightarrow> vm_handler" where
  "exec_m H_MUL = on_hart exec_MUL"
| "exec_m H_MULW = on_hart exec_MULW"
| "exec_m H_MULH = on_hart exec_MULH"
| "exec_m H_MULHSU = on_hart exec_MULHSU"
| "exec_m H_MULHU = on_hart exec_MULHU"
| "exec_m H_DIV = on_hart exec_DIV"
| "exec_m H_DIVU = on_hart exec_DIVU"
| "exec_m H_DIVUW = on_hart exec_DIVUW"
| "exec_m H_DIVW = on_hart exec_DIVW"
| "exec_m H_REM = on_hart exec_REM"
| "exec_m H_REMU = on_hart exec_REMU"
| "exec_m H_REMUW = on_hart exec_REMUW"
| "exec_m H_REMW = on_hart exec_REMW"

section \<open>Arithmetic meaning\<close>

text \<open>The value a register handler leaves in its destination.\<close>

definition rd_value :: "reg_handler \<Rightarrow> instruction_data \<Rightarrow> hart \<Rightarrow> u64" where
  "rd_value f i h = GPR (snd (f i h)) (rd i)"

lemma rd_value_wr_rd: "f i h = wr_rd i x h \<Longrightarrow> rd_value f i h = x"
  by (simp add: rd_value_def wr_rd_def)

lemma tdiv_trem: "tdiv a b * b + trem a b = a"
proof -
  have "tdiv a b * b = sgn a * ((sgn b * b) * (\<bar>a\<bar> div \<bar>b\<bar>))"
    by (simp only: tdiv_def ac_simps)
  also have "sgn b * b = \<bar>b\<bar>" by (simp add: sgn_mult_self_eq abs_if sgn_if)
  finally have "tdiv a b * b + trem a b = sgn a * (\<bar>b\<bar> * (\<bar>a\<bar> div \<bar>b\<bar>) + \<bar>a\<bar> mod \<bar>b\<bar>)"
    by (simp only: trem_def distrib_left)
  also have "\<dots> = a" by (simp only: mult_div_mod_eq mult_sgn_abs)
  finally show ?thesis .
qed

lemma abs_trem: "b \<noteq> 0 \<Longrightarrow> \<bar>trem a b\<bar> < \<bar>b\<bar>"
  by (auto simp: trem_def abs_mult sgn_if)

lemma sgn_trem: "trem a b = 0 \<or> sgn (trem a b) = sgn a"
proof -
  have "0 \<le> \<bar>a\<bar> mod \<bar>b\<bar>" by (cases "b = 0") simp_all
  then show ?thesis
    by (cases "\<bar>a\<bar> mod \<bar>b\<bar> = 0") (simp_all add: trem_def sgn_mult)
qed

lemma abs_tdiv: "b \<noteq> 0 \<Longrightarrow> \<bar>tdiv a b\<bar> \<le> \<bar>a\<bar>"
proof -
  assume "b \<noteq> 0"
  then have "\<bar>a\<bar> div \<bar>b\<bar> \<le> \<bar>a\<bar> div 1" "0 \<le> \<bar>a\<bar> div \<bar>b\<bar>"
    by (intro zdiv_mono2, simp_all add: pos_imp_zdiv_nonneg_iff)
  then show ?thesis by (auto simp: tdiv_def abs_mult sgn_if)
qed

lemma abs_tdiv_2: "1 < \<bar>b\<bar> \<Longrightarrow> 2 * \<bar>tdiv a b\<bar> \<le> \<bar>a\<bar>"
proof -
  assume "1 < \<bar>b\<bar>"
  then have "\<bar>a\<bar> div \<bar>b\<bar> \<le> \<bar>a\<bar> div 2" "0 \<le> \<bar>a\<bar> div \<bar>b\<bar>"
    by (intro zdiv_mono2, simp_all add: pos_imp_zdiv_nonneg_iff)
  then show ?thesis by (auto simp: tdiv_def abs_mult sgn_if)
qed

lemma sint_word_of_int_64: "- (2 ^ 63) \<le> k \<Longrightarrow> k < 2 ^ 63 \<Longrightarrow> sint (word_of_int k :: u64) = k"
  by (simp add: signed_of_int signed_take_bit_int_eq_self)

lemma high_part:
  "(ucast (drop_bit 64 (word_of_int k :: u128)) :: u64) = word_of_int (k div 2 ^ 64)"
  "(ucast (signed_drop_bit 64 (word_of_int k :: u128)) :: u64) = word_of_int (k div 2 ^ 64)"
  unfolding drop_bit_eq_div [symmetric] by (rule bit_word_eqI; simp add: bit_simps)+

lemma low_part: "uint (word_of_int k :: u64) = k mod 2 ^ 64"
  by (simp add: unsigned_of_int take_bit_eq_mod)

lemma product_split: "k = k div 2 ^ 64 * 2 ^ 64 + uint (word_of_int k :: u64)" for k :: int
  unfolding low_part by simp

lemma sint_bound_64: "- (2 ^ 63) \<le> sint a \<and> sint a < 2 ^ 63" for a :: u64
  using sint_greater_eq [of a] sint_less [of a] by simp

section \<open>Properties\<close>

lemma mul_words:
  "scast a * scast b = (word_of_int (sint a * sint b) :: u128)"
  "scast a * ucast b = (word_of_int (sint a * uint b) :: u128)"
  "ucast a * ucast b = (word_of_int (uint a * uint b) :: u128)"
  "a * b = word_of_int (sint a * sint b)" "a * b = word_of_int (sint a * uint b)" "a * b = word_of_int (uint a * uint b)"
  for a b :: u64
  by simp_all

lemma product_bounds:
  fixes a b :: u64
  shows "- (2 ^ 63) \<le> sint a * sint b div 2 ^ 64 \<and> sint a * sint b div 2 ^ 64 < 2 ^ 63"
    and "- (2 ^ 63) \<le> sint a * uint b div 2 ^ 64 \<and> sint a * uint b div 2 ^ 64 < 2 ^ 63"
    and "0 \<le> uint a * uint b div 2 ^ 64 \<and> uint a * uint b div 2 ^ 64 < 2 ^ 64"
proof -
  have a: "\<bar>sint a\<bar> \<le> 2 ^ 63" and b: "\<bar>sint b\<bar> \<le> 2 ^ 63" using sint_bound_64 [of a] sint_bound_64 [of b] by auto
  have ub: "0 \<le> uint b" "uint b < 2 ^ 64" and ua: "0 \<le> uint a" "uint a < 2 ^ 64"
    using unsigned_less [of a, where ?'a = int] unsigned_less [of b, where ?'a = int] by simp_all
  have "\<bar>sint a * sint b\<bar> \<le> 2 ^ 63 * 2 ^ 63" unfolding abs_mult using a b by (intro mult_mono) auto
  then show "- (2 ^ 63) \<le> sint a * sint b div 2 ^ 64 \<and> sint a * sint b div 2 ^ 64 < 2 ^ 63" by auto
  have "\<bar>sint a * uint b\<bar> \<le> 2 ^ 63 * (2 ^ 64 - 1)" unfolding abs_mult using a ub by (intro mult_mono) auto
  then show "- (2 ^ 63) \<le> sint a * uint b div 2 ^ 64 \<and> sint a * uint b div 2 ^ 64 < 2 ^ 63" by auto
  have "uint a * uint b \<le> (2 ^ 64 - 1) * (2 ^ 64 - 1)" using ua ub by (intro mult_mono) auto
  then show "0 \<le> uint a * uint b div 2 ^ 64 \<and> uint a * uint b div 2 ^ 64 < 2 ^ 64"
    using ua ub by (auto simp: pos_imp_zdiv_nonneg_iff)
qed

text \<open>
  C32. The multiplication instructions compute the full 128-bit product: MULH, MULHSU and MULHU return
  its upper half for signed, signed by unsigned and unsigned operands, MUL its lower half.
\<close>

theorem mul_full_product:
  "sint (r1 i h) * sint (r2 i h) = sint (rd_value exec_MULH i h) * 2 ^ 64 + uint (rd_value exec_MUL i h) \<and>
   sint (r1 i h) * uint (r2 i h) = sint (rd_value exec_MULHSU i h) * 2 ^ 64 + uint (rd_value exec_MUL i h) \<and>
   uint (r1 i h) * uint (r2 i h) = uint (rd_value exec_MULHU i h) * 2 ^ 64 + uint (rd_value exec_MUL i h)"
proof -
  have v: "rd_value exec_MUL i h = r1 i h * r2 i h"
    "rd_value exec_MULH i h = word_of_int (sint (r1 i h) * sint (r2 i h) div 2 ^ 64)"
    "rd_value exec_MULHSU i h = word_of_int (sint (r1 i h) * uint (r2 i h) div 2 ^ 64)"
    "rd_value exec_MULHU i h = word_of_int (uint (r1 i h) * uint (r2 i h) div 2 ^ 64)"
    unfolding rd_value_def wr_rd_def exec_MUL_def exec_MULH_def exec_MULHSU_def exec_MULHU_def Let_def mul_words(1-3)
    by (simp_all only: snd_conv set_reg_simps fun_upd_same high_part)
  have "uint (word_of_int (uint (r1 i h) * uint (r2 i h) div 2 ^ 64) :: u64) = uint (r1 i h) * uint (r2 i h) div 2 ^ 64"
    unfolding low_part using product_bounds(3) by (simp only: mod_pos_pos_trivial)
  then show ?thesis
    using product_bounds [of "r1 i h" "r2 i h"]
    by (metis v mul_words(4-6) product_split sint_word_of_int_64)
qed

text \<open>The quotient and remainder of a 64-bit and of a 32-bit signed division fit their registers.\<close>

lemma tdiv_fits:
  fixes a b :: u64
  assumes "b \<noteq> 0" "\<not> (a = 0x8000000000000000 \<and> b = - 1)"
  shows "sint (word_of_int (tdiv (sint a) (sint b)) :: u64) = tdiv (sint a) (sint b)"
    and "sint (word_of_int (trem (sint a) (sint b)) :: u64) = trem (sint a) (sint b)"
proof -
  have b0: "sint b \<noteq> 0" using assms(1) by (metis signed_0 signed_word_eqI)
  have bd: "\<bar>tdiv (sint a) (sint b)\<bar> \<le> \<bar>sint a\<bar>" by (rule abs_tdiv [OF b0])
  have "tdiv (sint a) (sint b) < 2 ^ 63"
  proof (cases "sint a = - (2 ^ 63)")
    case True
    then have "a = 0x8000000000000000" by (intro signed_word_eqI) simp
    then have "sint b \<noteq> - 1" using assms(2) by (metis sint_n1 signed_word_eqI)
    show ?thesis
    proof (cases "sint b = 1")
      case True
      with \<open>sint a = - (2 ^ 63)\<close> show ?thesis by (simp add: tdiv_def)
    next
      case False
      then have "1 < \<bar>sint b\<bar>" using b0 \<open>sint b \<noteq> - 1\<close> by linarith
      from abs_tdiv_2 [OF this, of "sint a"] sint_bound_64 [of a] show ?thesis by auto
    qed
  next
    case False
    with bd sint_bound_64 [of a] show ?thesis by auto
  qed
  with bd sint_bound_64 [of a] show "sint (word_of_int (tdiv (sint a) (sint b)) :: u64) = tdiv (sint a) (sint b)"
    by (intro sint_word_of_int_64) auto
  show "sint (word_of_int (trem (sint a) (sint b)) :: u64) = trem (sint a) (sint b)"
    using abs_trem [OF b0, of "sint a"] sint_bound_64 [of b] by (intro sint_word_of_int_64) auto
qed

lemma sint_bound_32: "- (2 ^ 31) \<le> sint a \<and> sint a < 2 ^ 31" for a :: u32
  using sint_greater_eq [of a] sint_less [of a] by simp

lemma sint_scast_32 [simp]: "sint (scast a :: u64) = sint a" for a :: u32
  by (rule signed_scast_eq [THEN trans]) (use sint_bound_32 [of a] in \<open>simp add: signed_take_bit_int_eq_self\<close>)

lemma tdiv_fits_32:
  fixes a b :: u32
  assumes "b \<noteq> 0"
  shows "sint (word_of_int (tdiv (sint a) (sint b)) :: u64) = tdiv (sint a) (sint b)"
    and "sint (word_of_int (trem (sint a) (sint b)) :: u64) = trem (sint a) (sint b)"
proof -
  have b0: "sint b \<noteq> 0" using assms by (metis signed_0 signed_word_eqI)
  show "sint (word_of_int (tdiv (sint a) (sint b)) :: u64) = tdiv (sint a) (sint b)"
    using abs_tdiv [OF b0, of "sint a"] sint_bound_32 [of a] by (intro sint_word_of_int_64) auto
  show "sint (word_of_int (trem (sint a) (sint b)) :: u64) = trem (sint a) (sint b)"
    using abs_trem [OF b0, of "sint a"] sint_bound_32 [of b] by (intro sint_word_of_int_64) auto
qed

text \<open>The division law of the manual for a dividend, divisor, quotient and remainder.\<close>

definition divides_as :: "int \<Rightarrow> int \<Rightarrow> int \<Rightarrow> int \<Rightarrow> bool" where
  "divides_as a b q r \<longleftrightarrow> q * b + r = a \<and> \<bar>r\<bar> < \<bar>b\<bar> \<and> (r = 0 \<or> sgn r = sgn a)"

lemma divides_as_t: "b \<noteq> 0 \<Longrightarrow> divides_as a b (tdiv a b) (trem a b)"
  using abs_trem [of b a] sgn_trem [of a b] by (simp add: divides_as_def tdiv_trem)

lemma divides_as_u: "b \<noteq> 0 \<Longrightarrow> divides_as (uint a) (uint b) (uint (a div b)) (uint (a mod b))" for a b :: "'a::len word"
proof -
  assume "b \<noteq> 0"
  then have b: "0 < uint b" by (metis unsigned_eq_0_iff le_less unsigned_greater_eq)
  have m: "0 \<le> uint a mod uint b" "uint a mod uint b < uint b" using b by simp_all
  have "uint a mod uint b = 0 \<or> 0 < uint a" using unsigned_greater_eq [of a, where ?'a = int] by (auto simp: le_less)
  then show ?thesis using b m by (auto simp: divides_as_def uint_div uint_mod sgn_if)
qed

lemma tdiv_0 [simp]: "tdiv 0 b = 0" by (simp add: tdiv_def)


end
