(* ===== verification/Rv64a.thy ===== *)
theory Rv64a
  imports Rv64i Bus
begin

unbundle bit_operations_syntax

text \<open>
  Atomic instructions, src/sets/rv64a.cpp: load-reserved and store-conditional on the reservation of
  the hart, and the read-modify-write operations. Handlers run one at a time, so a handler is atomic
  in the model as it is in the emulator's single work thread.
\<close>

section \<open>Load-reserved and store-conditional\<close>

text \<open>The byte written to \<open>out_val\<close> is part of the result; it is used on success.\<close>

definition AMO_SC :: "nat \<Rightarrow> u64 \<Rightarrow> memory_size \<Rightarrow> u64 \<Rightarrow> vm \<Rightarrow> (memory_return \<times> u64 \<times> vm) result" where
  "AMO_SC n va sz val v =
     and_then (mmu_translate n STORE va v) (\<lambda>(ret, pa, v).
     if \<not> mem_success ret then Inr (ret, 0, v)
     else
       let res = reservation (hart_of n v);
           drop = upd_hart n (\<lambda>h. h\<lparr>reservation := (reservation h)\<lparr>res_valid := False\<rparr>\<rparr>)
       in if res_valid res \<and> res_paddr res = pa \<and> res_size res = sz then
            and_then (mmio_write n pa sz val True v) (\<lambda>(out, v).
            if \<not> mem_success out then Inr (out, 0, v)
            else Inr (out, 0, drop v))
          else Inr (MR True 0 0, 1, drop v))"

definition AMO_LR :: "nat \<Rightarrow> u64 \<Rightarrow> memory_size \<Rightarrow> vm \<Rightarrow> (memory_return \<times> u64 \<times> vm) result" where
  "AMO_LR n va sz v =
     and_then (mmu_translate n LOAD va v) (\<lambda>(ret, pa, v).
     if \<not> mem_success ret then Inr (ret, 0, v)
     else and_then (mmio_read n pa sz True v) (\<lambda>(p, value, v).
       if \<not> mem_success p then Inr (p, 0, v)
       else Inr (p, value,
              upd_hart n (\<lambda>h. h\<lparr>reservation := \<lparr>res_paddr = pa, res_size = sz, res_valid = True\<rparr>\<rparr>) v)))"

text \<open>\<open>LR_W\<close> and \<open>SC_W\<close> report a fault with \<open>increase_pc\<close> 0, the doubleword versions with 4.\<close>

definition finish_amo :: "nat \<Rightarrow> instruction_data \<Rightarrow> u8 \<Rightarrow> (u64 \<Rightarrow> u64) \<Rightarrow>
    (memory_return \<times> u64 \<times> vm) \<Rightarrow> (exec_return \<times> vm) result" where
  "finish_amo n i inc conv r =
     (case r of (out, val, v) \<Rightarrow>
        if \<not> mem_success out then Inr (ER False False inc (exc_code out) (mem_tval out), v)
        else Inr (ER True False 4 0 0, upd_hart n (set_reg (rd i) (conv val)) v))"

definition exec_LR_D :: vm_handler where
  "exec_LR_D n i v = and_then (AMO_LR n (r1 i (hart_of n v)) MS_Long v) (finish_amo n i 4 (\<lambda>x. x))"

definition exec_SC_D :: vm_handler where
  "exec_SC_D n i v = and_then (AMO_SC n (r1 i (hart_of n v)) MS_Long (r2 i (hart_of n v)) v) (finish_amo n i 4 (\<lambda>x. x))"

definition exec_LR_W :: vm_handler where
  "exec_LR_W n i v = and_then (AMO_LR n (r1 i (hart_of n v)) MS_Int v) (finish_amo n i 0 sext32)"

definition exec_SC_W :: vm_handler where
  "exec_SC_W n i v =
     and_then (AMO_SC n (r1 i (hart_of n v)) MS_Int (zext32 (r2 i (hart_of n v))) v) (finish_amo n i 0 (\<lambda>x. x))"

section \<open>Read-modify-write\<close>

definition AMO64 :: "nat \<Rightarrow> u64 \<Rightarrow> u64 \<Rightarrow> (u64 \<Rightarrow> u64 \<Rightarrow> u64) \<Rightarrow> vm \<Rightarrow> (memory_return \<times> u64 \<times> vm) result" where
  "AMO64 n va x f v =
     and_then (mmu_translate n STORE va v) (\<lambda>(ret, pa, v).
     if \<not> mem_success ret then Inr (ret, 0, v)
     else and_then (mmio_read n pa MS_Long True v) (\<lambda>(out, val, v).
       if \<not> mem_success out then Inr (out, 0, v)
       else and_then (mmio_write n pa MS_Long (f val x) True v) (\<lambda>(s, v).
         if \<not> mem_success s then Inr (s, 0, v) else Inr (MR True 0 0, val, v))))"

definition AMO32 :: "nat \<Rightarrow> u64 \<Rightarrow> u32 \<Rightarrow> (u32 \<Rightarrow> u32 \<Rightarrow> u32) \<Rightarrow> vm \<Rightarrow> (memory_return \<times> u32 \<times> vm) result" where
  "AMO32 n va x f v =
     and_then (mmu_translate n STORE va v) (\<lambda>(ret, pa, v).
     if \<not> mem_success ret then Inr (ret, 0, v)
     else and_then (mmio_read n pa MS_Int True v) (\<lambda>(out, val, v).
       if \<not> mem_success out then Inr (out, 0, v)
       else and_then (mmio_write n pa MS_Int (ucast (f (ucast val) x)) True v) (\<lambda>(s, v).
         if \<not> mem_success s then Inr (s, 0, v) else Inr (MR True 0 0, ucast val, v))))"

definition amo_d :: "(u64 \<Rightarrow> u64 \<Rightarrow> u64) \<Rightarrow> vm_handler" where
  "amo_d f n i v =
     and_then (AMO64 n (r1 i (hart_of n v)) (r2 i (hart_of n v)) f v) (\<lambda>(out, val, v).
       Inr (ER (mem_success out) False 4 (exc_code out) (mem_tval out),
            if mem_success out then upd_hart n (set_reg (rd i) val) v else v))"

definition amo_w :: "(u32 \<Rightarrow> u32 \<Rightarrow> u32) \<Rightarrow> vm_handler" where
  "amo_w f n i v =
     and_then (AMO32 n (r1 i (hart_of n v)) (w2 i (hart_of n v)) f v) (\<lambda>(out, val, v).
       Inr (ER (mem_success out) False 4 (exc_code out) (mem_tval out),
            if mem_success out then upd_hart n (set_reg (rd i) (scast val)) v else v))"

text \<open>\<open>std::min\<close> and \<open>std::max\<close> on the signed type.\<close>

definition smin :: "'a::len word \<Rightarrow> 'a word \<Rightarrow> 'a word" where
  "smin a b = (if b <s a then b else a)"

definition smax :: "'a::len word \<Rightarrow> 'a word \<Rightarrow> 'a word" where
  "smax a b = (if a <s b then b else a)"

definition exec_AMOSWAP_D :: vm_handler where "exec_AMOSWAP_D = amo_d (\<lambda>a b. b)"
definition exec_AMOADD_D :: vm_handler where "exec_AMOADD_D = amo_d (+)"
definition exec_AMOXOR_D :: vm_handler where "exec_AMOXOR_D = amo_d (XOR)"
definition exec_AMOAND_D :: vm_handler where "exec_AMOAND_D = amo_d (AND)"
definition exec_AMOOR_D :: vm_handler where "exec_AMOOR_D = amo_d (OR)"
definition exec_AMOMIN_D :: vm_handler where "exec_AMOMIN_D = amo_d smin"
definition exec_AMOMAX_D :: vm_handler where "exec_AMOMAX_D = amo_d smax"
definition exec_AMOMINU_D :: vm_handler where "exec_AMOMINU_D = amo_d min"
definition exec_AMOMAXU_D :: vm_handler where "exec_AMOMAXU_D = amo_d max"

definition exec_AMOSWAP_W :: vm_handler where "exec_AMOSWAP_W = amo_w (\<lambda>a b. b)"
definition exec_AMOADD_W :: vm_handler where "exec_AMOADD_W = amo_w (+)"
definition exec_AMOXOR_W :: vm_handler where "exec_AMOXOR_W = amo_w (XOR)"
definition exec_AMOAND_W :: vm_handler where "exec_AMOAND_W = amo_w (AND)"
definition exec_AMOOR_W :: vm_handler where "exec_AMOOR_W = amo_w (OR)"
definition exec_AMOMIN_W :: vm_handler where "exec_AMOMIN_W = amo_w smin"
definition exec_AMOMAX_W :: vm_handler where "exec_AMOMAX_W = amo_w smax"
definition exec_AMOMINU_W :: vm_handler where "exec_AMOMINU_W = amo_w min"
definition exec_AMOMAXU_W :: vm_handler where "exec_AMOMAXU_W = amo_w max"

fun exec_a :: "op_a \<Rightarrow> vm_handler" where
  "exec_a H_AMOSWAP_W = exec_AMOSWAP_W"
| "exec_a H_AMOADD_W = exec_AMOADD_W"
| "exec_a H_AMOAND_W = exec_AMOAND_W"
| "exec_a H_AMOXOR_W = exec_AMOXOR_W"
| "exec_a H_AMOOR_W = exec_AMOOR_W"
| "exec_a H_AMOMIN_W = exec_AMOMIN_W"
| "exec_a H_AMOMINU_W = exec_AMOMINU_W"
| "exec_a H_AMOMAX_W = exec_AMOMAX_W"
| "exec_a H_AMOMAXU_W = exec_AMOMAXU_W"
| "exec_a H_LR_W = exec_LR_W"
| "exec_a H_SC_W = exec_SC_W"
| "exec_a H_AMOSWAP_D = exec_AMOSWAP_D"
| "exec_a H_AMOADD_D = exec_AMOADD_D"
| "exec_a H_AMOAND_D = exec_AMOAND_D"
| "exec_a H_AMOXOR_D = exec_AMOXOR_D"
| "exec_a H_AMOOR_D = exec_AMOOR_D"
| "exec_a H_AMOMIN_D = exec_AMOMIN_D"
| "exec_a H_AMOMINU_D = exec_AMOMINU_D"
| "exec_a H_AMOMAX_D = exec_AMOMAX_D"
| "exec_a H_AMOMAXU_D = exec_AMOMAXU_D"
| "exec_a H_LR_D = exec_LR_D"
| "exec_a H_SC_D = exec_SC_D"

section \<open>Atomics on RAM\<close>

text \<open>
  The three steps of an atomic on RAM with translation off: translation changes the TLB only, the
  physical read returns the bytes, the physical write is \<open>ram_after\<close>.
\<close>

definition with_tlb :: "nat \<Rightarrow> tlb \<Rightarrow> vm \<Rightarrow> vm" where
  "with_tlb n t v = v\<lparr>harts := (harts v)[n := (hart_of n v)\<lparr>htlb := t\<rparr>]\<rparr>"

definition ram_after :: "nat \<Rightarrow> u64 \<Rightarrow> nat \<Rightarrow> u64 \<Rightarrow> vm \<Rightarrow> vm" where
  "ram_after n a k x v =
     (upd_hart n (amo_check_reservation a) v)
       \<lparr>smcs := smc_store_hit a (smcs v),
        mmap := region_store (the (ram_direct (mmap v))) (a - 0x80000000) k x (mmap v)\<rparr>"

lemma translate_step: "bare n v \<Longrightarrow> \<exists>t. mmu_translate n type a v = Inr (MR True 0 0, a, with_tlb n t v)"
  unfolding with_tlb_def by (rule mmu_translate_bare)

lemma amo_check_frame [frame_simps, simp]:
  "satp (amo_check_reservation a h) = satp h" "GPR (amo_check_reservation a h) = GPR h"
  by (simp_all add: amo_check_reservation_def Let_def)

text \<open>Steps that keep what \<open>bus_inside\<close> depends on.\<close>

lemma bus_inside_cong:
  assumes "length (harts w) = length (harts v)" "satp (hart_of n w) = satp (hart_of n v)"
    "mmap w = mmap v" "mmio_memsize w = mmio_memsize v"
  shows "bus_inside n w b l = bus_inside n v b l"
  by (simp only: bus_inside_def bare_def ram_ok_def assms)

lemma satp_update: "(\<And>h. satp (f h) = satp h) \<Longrightarrow> satp ((hs[n := f (hs ! n)]) ! m) = satp (hs ! m)"
  by (cases "n < length hs"; cases "m = n") (auto simp: list_update_beyond)

lemma bus_inside_upd_hart [simp]:
  "(\<And>h. satp (f h) = satp h) \<Longrightarrow> bus_inside m (upd_hart n f v) b l = bus_inside m v b l"
  by (rule bus_inside_cong) (simp_all add: upd_hart_def satp_update)

lemma with_tlb_alt: "with_tlb n t v = upd_hart n (\<lambda>h. h\<lparr>htlb := t\<rparr>) v"
  by (simp add: with_tlb_def upd_hart_def)

lemma bus_inside_with_tlb [simp]: "bus_inside m (with_tlb n t v) b l = bus_inside m v b l"
  unfolding with_tlb_alt by (rule bus_inside_upd_hart) simp

lemma mmap_upd_hart [simp]: "mmap (upd_hart n f v) = mmap v" "mmap (with_tlb n t v) = mmap v"
  by (simp_all add: upd_hart_def with_tlb_def)

lemma hart_of_upd [simp]: "n < length (harts v) \<Longrightarrow> hart_of m (upd_hart n f v) = (if m = n then f (hart_of n v) else hart_of m v)"
  by (simp add: upd_hart_def nth_list_update)

lemma length_harts_upd [simp]: "length (harts (upd_hart n f v)) = length (harts v)"
  by (simp add: upd_hart_def)

lemma bus_rd_cong: "mmap w = mmap v \<Longrightarrow> bus_inside n w b l \<Longrightarrow> bus_inside n v b l \<Longrightarrow> bus_rd n b l w = bus_rd n b l v"
  by (metis bus_inside_def bus_rd_ram ram_okE)

lemma bus_insideD:
  assumes "bus_inside n v a k"
  shows "bare n v" "n < length (harts v)" "plain_size k"
    "\<exists>i. ram_direct (mmap v) = Some i \<and> i < length (regions (mmap v))"
  using assms by (auto simp: bus_inside_def bare_def plain_size_def elim!: ram_okE)

lemma phys_read:
  assumes "bus_inside n v a k"
  shows "\<exists>x. bus_rd n a k v = Inr x \<and> mmio_read n a k True v = Inr (MR True 0 0, x, v)"
proof -
  obtain i where i: "ram_direct (mmap v) = Some i" using bus_insideD [OF assms] by blast
  have r: "rsize (regions (mmap v) ! i) = mmio_memsize v" using assms i by (auto simp: bus_inside_def ram_ok_def)
  have "take_bit (8 * k) (load_bytes p (a - 0x80000000) k) = load_bytes p (a - 0x80000000) k" for p
    by (rule bit_word_eqI) (auto simp: bit_take_bit_iff bit_load_bytes)
  then show ?thesis
    using bus_inside_in_dram [OF assms] bus_insideD(3) [OF assms] bus_rd_ram [OF assms i] i r
    by (simp add: mmio_read_def crosses_page_def get_fragment_def read_dram_fast_def array_ok_def)
qed

lemma phys_write:
  assumes "bus_inside n v a k"
  shows "mmio_write n a k x True v = Inr (MR True 0 0, ram_after n a k x v)"
    and "bus_inside m (ram_after n a k x v) b l = bus_inside m v b l"
    and "bus_rd n a k (ram_after n a k x v) = Inr (x AND mask (8 * k))"
proof -
  obtain i where i: "ram_direct (mmap v) = Some i" "i < length (regions (mmap v))" using bus_insideD [OF assms] by blast
  have r: "rsize (regions (mmap v) ! i) = mmio_memsize v" using assms i by (auto simp: bus_inside_def ram_ok_def)
  show "mmio_write n a k x True v = Inr (MR True 0 0, ram_after n a k x v)"
    using bus_inside_in_dram [OF assms] bus_insideD(3) [OF assms] i r
    by (simp add: mmio_write_def crosses_page_def put_fragment_def write_dram_fast_def array_ok_def
        ram_after_def upd_hart_def)
  have ram: "ram_ok (ram_after n a k x v) = ram_ok v"
    using i same_shape [OF i(2), where off = "a - 0x80000000" and n = k and v = x]
    by (simp add: ram_ok_def ram_after_def upd_hart_def region_store_def)
  show ins: "bus_inside m (ram_after n a k x v) b l = bus_inside m v b l" for m b l
    using ram by (simp add: bus_inside_def bare_def ram_after_def upd_hart_def satp_update)
  have "k \<le> 8" using assms by (auto simp: bus_inside_def)
  moreover have "ram_direct (mmap (ram_after n a k x v)) = Some i"
    using i by (simp add: ram_after_def region_store_def)
  ultimately show "bus_rd n a k (ram_after n a k x v) = Inr (x AND mask (8 * k))"
    using bus_rd_ram [of n "ram_after n a k x v" a k i] assms ins i
    by (simp add: ram_after_def region_store_def load_store_same)
qed

lemma AMO64_ram:
  assumes "bus_inside n v a 8" "bus_rd n a 8 v = Inr old"
  shows "\<exists>t. AMO64 n a x f v = Inr (MR True 0 0, old, ram_after n a 8 (f old x) (with_tlb n t v))"
proof -
  obtain t where t: "mmu_translate n STORE a v = Inr (MR True 0 0, a, with_tlb n t v)"
    using translate_step bus_insideD(1) [OF assms(1)] by blast
  have i: "bus_inside n (with_tlb n t v) a 8" using assms(1) by simp
  then have "bus_rd n a 8 (with_tlb n t v) = Inr old" using bus_rd_cong [of "with_tlb n t v" v] assms by simp
  then show ?thesis using t phys_read [OF i] phys_write(1) [OF i] by (auto simp: AMO64_def)
qed

lemma AMO32_ram:
  assumes "bus_inside n v a 4" "bus_rd n a 4 v = Inr old"
  shows "\<exists>t. AMO32 n a x f v =
    Inr (MR True 0 0, ucast old, ram_after n a 4 (ucast (f (ucast old) x)) (with_tlb n t v))"
proof -
  obtain t where t: "mmu_translate n STORE a v = Inr (MR True 0 0, a, with_tlb n t v)"
    using translate_step bus_insideD(1) [OF assms(1)] by blast
  have i: "bus_inside n (with_tlb n t v) a 4" using assms(1) by simp
  then have "bus_rd n a 4 (with_tlb n t v) = Inr old" using bus_rd_cong [of "with_tlb n t v" v] assms by simp
  then show ?thesis using t phys_read [OF i] phys_write(1) [OF i] by (auto simp: AMO32_def)
qed

lemma bus_rd_set_reg [simp]:
  "bus_inside n v a k \<Longrightarrow> bus_rd n a k (upd_hart n (set_reg r x) v) = bus_rd n a k v"
  by (rule bus_rd_cong) simp_all

text \<open>
  C10. Every read-modify-write instruction is what the manual says, for the function of its table entry:
  with translation off and the address in RAM it succeeds, the destination register gets the old memory
  value (sign-extended in the word form), and memory at the address then holds the function of the old
  value and the source register.
\<close>

theorem amo_ram_correct:
  assumes "a = r1 i (hart_of n v)"
  shows "(bus_inside n v a 8 \<longrightarrow>
      (\<exists>old v'. bus_rd n a 8 v = Inr old \<and> amo_d f n i v = Inr (ER True False 4 0 0, v') \<and>
         GPR (hart_of n v') (rd i) = old \<and> bus_rd n a 8 v' = Inr (f old (r2 i (hart_of n v))))) \<and>
    (bus_inside n v a 4 \<longrightarrow>
      (\<exists>old v'. bus_rd n a 4 v = Inr old \<and> amo_w g n i v = Inr (ER True False 4 0 0, v') \<and>
         GPR (hart_of n v') (rd i) = sext32 old \<and>
         bus_rd n a 4 v' = Inr (ucast (g (ucast old) (w2 i (hart_of n v))))))"
proof (intro conjI impI)
  assume b: "bus_inside n v a 8"
  obtain old where o: "bus_rd n a 8 v = Inr old" using phys_read [OF b] by blast
  obtain t where t: "AMO64 n a (r2 i (hart_of n v)) f v =
      Inr (MR True 0 0, old, ram_after n a 8 (f old (r2 i (hart_of n v))) (with_tlb n t v))"
    using AMO64_ram [OF b o] by blast
  have b': "bus_inside n (with_tlb n t v) a 8" using b by simp
  note w = phys_write(2,3) [OF b']
  have "n < length (harts (ram_after n a 8 y (with_tlb n t v)))" for y
    using bus_insideD(2) [OF b] by (simp add: ram_after_def with_tlb_alt)
  moreover have "x AND mask 64 = x" for x :: u64 by (rule and_mask_64)
  ultimately show "\<exists>old v'. bus_rd n a 8 v = Inr old \<and> amo_d f n i v = Inr (ER True False 4 0 0, v') \<and>
         GPR (hart_of n v') (rd i) = old \<and> bus_rd n a 8 v' = Inr (f old (r2 i (hart_of n v)))"
    using o t w b by (simp add: amo_d_def assms)
next
  assume b: "bus_inside n v a 4"
  obtain old where o: "bus_rd n a 4 v = Inr old" using phys_read [OF b] by blast
  obtain t where t: "AMO32 n a (w2 i (hart_of n v)) g v =
      Inr (MR True 0 0, ucast old, ram_after n a 4 (ucast (g (ucast old) (w2 i (hart_of n v)))) (with_tlb n t v))"
    using AMO32_ram [OF b o] by blast
  have b': "bus_inside n (with_tlb n t v) a 4" using b by simp
  note w = phys_write(2,3) [OF b']
  have "n < length (harts (ram_after n a 4 y (with_tlb n t v)))" for y
    using bus_insideD(2) [OF b] by (simp add: ram_after_def with_tlb_alt)
  moreover have "ucast x AND mask 32 = (ucast x :: u64)" for x :: u32
    by (rule bit_word_eqI) (auto simp: bit_simps dest: bit_imp_le_length)
  ultimately show "\<exists>old v'. bus_rd n a 4 v = Inr old \<and> amo_w g n i v = Inr (ER True False 4 0 0, v') \<and>
         GPR (hart_of n v') (rd i) = sext32 old \<and> bus_rd n a 4 v' = Inr (ucast (g (ucast old) (w2 i (hart_of n v))))"
    using o t w b by (simp add: amo_w_def assms sext32_def)
qed

definition sample_amo :: instruction_data where
  "sample_amo = \<lparr>d_rs3_f = 0, d_rm_f = 0, rs1 = 5, rs2 = 6, rd = 7, inst = 0, imm = 0, isize = 4\<rparr>"

definition sample_atomics :: vm where
  "sample_atomics = upd_hart 0 (\<lambda>h. set_reg 6 9 (set_reg 5 0x80001000 h))
     ((sample_vm Machine 0)\<lparr>harts := [new_hart 0 0x4000, new_hart 1 0x4000]\<rparr>)"

lemma sample_atomics_inside:
  "m < 2 \<Longrightarrow> k \<in> {4, 8} \<Longrightarrow> bus_inside m sample_atomics 0x80001000 k"
  by (auto simp: bus_inside_def bare_def sample_atomics_def upd_hart_def ram_ok_def sample_ram_def new_hart_def
      bf_get_def less_2_cases_iff)

theorem amo_ram_correct_witness:
  "\<exists>old v'. bus_rd 0 0x80001000 8 sample_atomics = Inr old \<and>
     exec_AMOADD_D 0 sample_amo sample_atomics = Inr (ER True False 4 0 0, v') \<and>
     GPR (hart_of 0 v') 7 = old \<and> bus_rd 0 0x80001000 8 v' = Inr (old + 9)"
proof -
  have r: "r1 sample_amo (hart_of 0 sample_atomics) = 0x80001000" "r2 sample_amo (hart_of 0 sample_atomics) = 9"
    by (simp_all add: sample_amo_def sample_atomics_def)
  show ?thesis
    using amo_ram_correct [where a = "0x80001000" and i = sample_amo and n = 0 and v = sample_atomics and f = "(+)"] sample_atomics_inside [of 0 8] r
    by (simp add: exec_AMOADD_D_def sample_amo_def)
qed

section \<open>Reservations\<close>

lemma AMO_LR_ram:
  assumes "bus_inside n v a k"
  shows "\<exists>t x. bus_rd n a k v = Inr x \<and> AMO_LR n a k v = Inr (MR True 0 0, x,
    upd_hart n (\<lambda>h. h\<lparr>reservation := \<lparr>res_paddr = a, res_size = k, res_valid = True\<rparr>\<rparr>) (with_tlb n t v))"
proof -
  obtain t where t: "mmu_translate n LOAD a v = Inr (MR True 0 0, a, with_tlb n t v)"
    using translate_step bus_insideD(1) [OF assms] by blast
  have i: "bus_inside n (with_tlb n t v) a k" using assms by simp
  then have "bus_rd n a k (with_tlb n t v) = bus_rd n a k v" using bus_rd_cong [of "with_tlb n t v" v] assms by simp
  then show ?thesis using t phys_read [OF i] by (auto simp: AMO_LR_def)
qed

abbreviation drop_reservation :: "nat \<Rightarrow> vm \<Rightarrow> vm" where
  "drop_reservation n \<equiv> upd_hart n (\<lambda>h. h\<lparr>reservation := (reservation h)\<lparr>res_valid := False\<rparr>\<rparr>)"

lemma AMO_SC_ram:
  assumes "bus_inside n v a k"
  defines "res \<equiv> reservation (hart_of n v)"
  shows "\<exists>t. AMO_SC n a k x v =
    (if res_valid res \<and> res_paddr res = a \<and> res_size res = k
     then Inr (MR True 0 0, 0, drop_reservation n (ram_after n a k x (with_tlb n t v)))
     else Inr (MR True 0 0, 1, drop_reservation n (with_tlb n t v)))"
proof -
  obtain t where t: "mmu_translate n STORE a v = Inr (MR True 0 0, a, with_tlb n t v)"
    using translate_step bus_insideD(1) [OF assms(1)] by blast
  have i: "bus_inside n (with_tlb n t v) a k" using assms by simp
  have "reservation (hart_of n (with_tlb n t v)) = res"
    using bus_insideD(2) [OF assms(1)] by (simp add: with_tlb_alt res_def)
  then show ?thesis using t phys_write(1) [OF i] by (auto simp: AMO_SC_def Let_def)
qed



text \<open>
  A store of another hart does not break a reservation: hart \<open>n\<close> reserves an address, hart \<open>m\<close>
  stores to the same address, and the store-conditional of hart \<open>n\<close> still succeeds, since a store
  checks the reservation of the storing hart alone. The manual requires it to fail.
\<close>

theorem remote_store_keeps_reservation:
  assumes "bus_inside n v a k" and "bus_inside m v a k" and "m \<noteq> n"
  shows "\<exists>old v1 v2 v3. AMO_LR n a k v = Inr (MR True 0 0, old, v1) \<and>
      mmio_write m a k x True v1 = Inr (MR True 0 0, v2) \<and> AMO_SC n a k y v2 = Inr (MR True 0 0, 0, v3)"
proof -
  note n = bus_insideD(2) [OF assms(1)] and m = bus_insideD(2) [OF assms(2)]
  obtain t old where lr: "AMO_LR n a k v = Inr (MR True 0 0, old,
      upd_hart n (\<lambda>h. h\<lparr>reservation := \<lparr>res_paddr = a, res_size = k, res_valid = True\<rparr>\<rparr>) (with_tlb n t v))"
    (is "_ = Inr (_, _, ?v1)") using AMO_LR_ram [OF assms(1)] by blast
  have i: "bus_inside m ?v1 a k" "bus_inside n ?v1 a k" using assms by simp_all
  have i2: "bus_inside n (ram_after m a k x ?v1) a k" using phys_write(2) [OF i(1)] i(2) by simp
  have "reservation (hart_of n (ram_after m a k x ?v1)) = \<lparr>res_paddr = a, res_size = k, res_valid = True\<rparr>"
    using n m assms(3) by (simp add: ram_after_def with_tlb_alt upd_hart_def nth_list_update)
  then show ?thesis using lr phys_write(1) [OF i(1)] AMO_SC_ram [OF i2, of y] by auto
qed

theorem remote_store_keeps_reservation_witness:
  "\<exists>old v1 v2 v3. AMO_LR 0 0x80001000 8 sample_atomics = Inr (MR True 0 0, old, v1) \<and>
     mmio_write 1 0x80001000 8 5 True v1 = Inr (MR True 0 0, v2) \<and>
     AMO_SC 0 0x80001000 8 6 v2 = Inr (MR True 0 0, 0, v3)"
  by (rule remote_store_keeps_reservation) (simp_all add: sample_atomics_inside)

end
