(* ===== verification/System_Instr.thy ===== *)
theory System_Instr
  imports Rv64i
begin

unbundle bit_operations_syntax

text \<open>
  System instructions: CSR access (src/sets/zicsr.cpp), trap return, SFENCE.VMA and WFI
  (src/sets/priv.cpp), FENCE.I (src/sets/zifencei.cpp) and CBO.ZERO (src/sets/zicboz.cpp).
\<close>

section \<open>CSR access control\<close>

definition compatible_mode :: "privilege_mode \<Rightarrow> privilege_mode \<Rightarrow> bool" where
  "compatible_mode csr_level cur_mode =
     (if csr_level = Machine then cur_mode = Machine
      else if csr_level = Supervisor then cur_mode = Machine \<or> cur_mode = Supervisor
      else if csr_level = User then cur_mode = Machine \<or> cur_mode = Supervisor \<or> cur_mode = User
      else True)"

definition csr_level :: "u16 \<Rightarrow> privilege_mode" where
  "csr_level csr_addr =
     (if csr_addr \<le> 0x0FF then User
      else if 0x100 \<le> csr_addr \<and> csr_addr \<le> 0x1FF then Supervisor
      else if 0x200 \<le> csr_addr \<and> csr_addr \<le> 0x2FF then Hypervisor
      else if 0x300 \<le> csr_addr \<and> csr_addr \<le> 0x3FF then Machine
      else if 0xB00 \<le> csr_addr \<and> csr_addr \<le> 0xBFF then Machine
      else if 0xC00 \<le> csr_addr \<and> csr_addr \<le> 0xCFF then User
      else if 0xF00 \<le> csr_addr \<and> csr_addr \<le> 0xFFF then Machine
      else User)"

definition csr_accessible :: "u16 \<Rightarrow> privilege_mode \<Rightarrow> bool \<Rightarrow> bool" where
  "csr_accessible csr_addr current_priv wr =
     (if \<not> compatible_mode (csr_level csr_addr) current_priv then False
      else if csr_addr = CSR_SCOUNTOVF \<or> (CSR_SSTATEEN0 \<le> csr_addr \<and> csr_addr \<le> CSR_SSTATEEN3)
        \<or> (CSR_MSTATEEN0 \<le> csr_addr \<and> csr_addr \<le> CSR_MSTATEEN3) \<or> csr_addr = CSR_MTOPI
        \<or> csr_addr = CSR_TSELECT \<or> (CSR_TDATA1 \<le> csr_addr \<and> csr_addr \<le> CSR_TDATA3)
        \<or> csr_addr = CSR_MCYCLECFG \<or> csr_addr = CSR_MINSTRET then False
      else if csr_addr = 0xF11 \<or> csr_addr = 0xF12 \<or> csr_addr = 0xF13 \<or> csr_addr = 0xF14
        \<or> csr_addr = 0xF15F \<or> (0xC00 \<le> csr_addr \<and> csr_addr \<le> 0xC1F) then \<not> wr
      else True)"

definition counter_enabled :: "u16 \<Rightarrow> hart \<Rightarrow> bool" where
  "counter_enabled addr h =
     (if addr < 0xC00 \<or> 0xC1F < addr then True
      else
        let mcounteren = fst (csr_read CSR_MCOUNTEREN h);
            scounteren = fst (csr_read CSR_SCOUNTEREN h);
            addr_offset = push_bit (unat (addr - 0xC00)) 1
        in case mode h of
             Machine \<Rightarrow> True
           | Supervisor \<Rightarrow> mcounteren AND addr_offset = addr_offset
           | User \<Rightarrow> mcounteren AND addr_offset = addr_offset \<and> scounteren AND addr_offset = addr_offset
           | Hypervisor \<Rightarrow> True)"

section \<open>CSR instructions\<close>

text \<open>The three checks every handler starts with, and the result when one fails.\<close>

abbreviation csr_num :: "instruction_data \<Rightarrow> u16" where "csr_num i \<equiv> ucast (imm i)"

definition csr_denied :: "bool \<Rightarrow> instruction_data \<Rightarrow> hart \<Rightarrow> bool" where
  "csr_denied wr i h \<longleftrightarrow>
     (mode h = Supervisor \<and> st_TVM (status h) \<noteq> 0 \<and> imm i = ucast (CSR_SATP :: u16)) \<or>
     \<not> counter_enabled (csr_num i) h \<or> \<not> csr_accessible (csr_num i) (mode h) wr"

definition illegal :: "instruction_data \<Rightarrow> hart \<Rightarrow> exec_return \<times> hart" where
  "illegal i h = (ER False False 0 EXC_ILLEGAL_INSTRUCTION (ucast (inst i)), h)"

definition exec_CSRRW :: reg_handler where
  "exec_CSRRW i h =
     (if csr_denied True i h then illegal i h
      else
        let (init_val, h) = csr_read (csr_num i) h;
            h = csr_write (csr_num i) (r1 i h) h
        in (ER True False 4 0 0, if rd i \<noteq> 0 then set_reg (rd i) init_val h else h))"

definition csr_modify :: "(u64 \<Rightarrow> u64) \<Rightarrow> reg_handler" where
  "csr_modify upd i h =
     (if csr_denied (rs1 i \<noteq> 0) i h then illegal i h
      else
        let (init_val, h) = csr_read (csr_num i) h;
            h = (if rs1 i \<noteq> 0 then csr_write (csr_num i) (upd init_val) h else h)
        in (ER True False 4 0 0, set_reg (rd i) init_val h))"

definition exec_CSRRS :: reg_handler where
  "exec_CSRRS i h = csr_modify (\<lambda>init_val. init_val OR r1 i h) i h"

definition exec_CSRRC :: reg_handler where
  "exec_CSRRC i h = csr_modify (\<lambda>init_val. init_val AND NOT (r1 i h)) i h"

definition exec_CSRRWI :: reg_handler where
  "exec_CSRRWI i h =
     (if csr_denied (rs1 i \<noteq> 0) i h then illegal i h
      else
        let h = (if rd i \<noteq> 0 then (case csr_read (csr_num i) h of (x, h) \<Rightarrow> set_reg (rd i) x h) else h)
        in (ER True False 4 0 0, csr_write (csr_num i) (ucast (rs1 i)) h))"

definition exec_CSRRSI :: reg_handler where
  "exec_CSRRSI i h = csr_modify (\<lambda>init_val. init_val OR ucast (rs1 i)) i h"

definition exec_CSRRCI :: reg_handler where
  "exec_CSRRCI i h = csr_modify (\<lambda>init_val. init_val AND NOT (ucast (rs1 i))) i h"

fun exec_zicsr :: "op_zicsr \<Rightarrow> vm_handler" where
  "exec_zicsr H_CSRRW = on_hart exec_CSRRW"
| "exec_zicsr H_CSRRS = on_hart exec_CSRRS"
| "exec_zicsr H_CSRRC = on_hart exec_CSRRC"
| "exec_zicsr H_CSRRWI = on_hart exec_CSRRWI"
| "exec_zicsr H_CSRRSI = on_hart exec_CSRRSI"
| "exec_zicsr H_CSRRCI = on_hart exec_CSRRCI"

section \<open>Trap return, fences and WFI\<close>

definition exec_MRET :: reg_handler where
  "exec_MRET i h =
     (let h = h\<lparr>pc := fst (csr_read CSR_MEPC h)\<rparr>;
          mpp = st_MPP (status h);
          h = (if mpp = 0 then h\<lparr>status := set_MPRV 0 (status h), mode := User\<rparr>
               else if mpp = 1 then h\<lparr>status := set_MPRV 0 (status h), mode := Supervisor\<rparr>
               else if mpp = 3 then h\<lparr>mode := Machine\<rparr>
               else h);
          h = h\<lparr>status := set_MIE (st_MPIE (status h)) (status h)\<rparr>;
          h = h\<lparr>status := set_MPIE 1 (status h)\<rparr>;
          h = h\<lparr>status := set_MPP (mode_num User) (status h)\<rparr>
      in (ER True True 0 0 0, h))"

definition exec_SRET :: reg_handler where
  "exec_SRET i h =
     (if mode h = User \<or> (mode h = Supervisor \<and> st_TSR (status h) AND 1 \<noteq> 0) then illegal i h
      else
        let h = h\<lparr>pc := fst (csr_read CSR_SEPC h)\<rparr>;
            h = h\<lparr>status := set_MPRV 0 (status h)\<rparr>;
            h = (if st_SPP (status h) = 0 then h\<lparr>mode := User\<rparr> else h\<lparr>mode := Supervisor\<rparr>);
            h = h\<lparr>status := set_SIE (st_SPIE (status h)) (status h)\<rparr>;
            h = h\<lparr>status := set_SPIE 1 (status h)\<rparr>;
            h = h\<lparr>status := set_SPP (mode_num User) (status h)\<rparr>
        in (ER True True 0 0 0, h))"

definition exec_SFENCE_VMA :: reg_handler where
  "exec_SFENCE_VMA i h =
     (if mode h = User then illegal i h
      else if mode h = Supervisor \<and> st_TVM (status h) \<noteq> 0 then illegal i h
      else
        let t = (if rs1 i = 0 \<and> rs2 i = 0 then flush_all (htlb h)
                 else if rs1 i = 0 then flush_asid (ucast (r2 i h)) (htlb h)
                 else if rs2 i = 0 then flush_addr (r1 i h) (htlb h)
                 else flush_addr_asid (r1 i h) (ucast (r2 i h)) (htlb h))
        in (ER True False 4 0 0, h\<lparr>htlb := t\<rparr>))"

definition exec_WFI :: reg_handler where
  "exec_WFI i h =
     (if st_TW (status h) \<noteq> 0 then illegal i h
      else (ER True False 4 0 0, if ip h AND ie h = 0 then h\<lparr>WFI := True\<rparr> else h))"

fun exec_priv :: "op_priv \<Rightarrow> vm_handler" where
  "exec_priv H_MRET = on_hart exec_MRET"
| "exec_priv H_SRET = on_hart exec_SRET"
| "exec_priv H_WFI = on_hart exec_WFI"
| "exec_priv H_SFENCE_VMA = on_hart exec_SFENCE_VMA"

definition exec_FENCE_I :: vm_handler where
  "exec_FENCE_I n i v = Inr (ER True False 4 0 0, v\<lparr>idec := clear_decode_cache (idec v)\<rparr>)"

definition exec_cbo_zero :: vm_handler where
  "exec_cbo_zero n i v =
     (let va = r1 i (hart_of n v) AND NOT (64 - 1) in
      and_then (mmu_translate n STORE va v) (\<lambda>(ret, pa, v).
      if \<not> mem_success ret then Inr (ER False False 0 (exc_code ret) (mem_tval ret), v)
      else
        let ram_base = 0x80000000; ram_size = memsize (hart_of n v) in
        if ram_base \<le> pa \<and> pa + 64 \<le> ram_base + ram_size then
          (case ram_direct (mmap v) of
             None \<Rightarrow> Inl Null_pointer
           | Some k \<Rightarrow>
               if array_ok (regions (mmap v) ! k) (pa - ram_base) 64
               then Inr (ER True False 4 0 0,
                      v\<lparr>mmap := (mmap v)\<lparr>regions := (regions (mmap v))[k := (regions (mmap v) ! k)
                          \<lparr>rdata := copy_bytes (replicate 64 0) (pa - ram_base) (rdata (regions (mmap v) ! k))\<rparr>]\<rparr>\<rparr>)
               else Inl Vector_index)
        else Inr (ER False False 0 EXC_STORE_ACCESS_FAULT va, v)))"

fun exec_zifencei :: "op_zifencei \<Rightarrow> vm_handler" where
  "exec_zifencei H_FENCE_I = exec_FENCE_I"

fun exec_zicboz :: "op_zicboz \<Rightarrow> vm_handler" where
  "exec_zicboz H_cbo_zero = exec_cbo_zero"

section \<open>Properties\<close>

lemma csr_read_epc: "csr_read CSR_MEPC h = (csrs h CSR_MEPC, h)" "csr_read CSR_SEPC h = (csrs h CSR_SEPC, h)"
  by (simp_all add: csr_read_def)

definition sample_csr :: "u8 \<Rightarrow> u64 \<Rightarrow> instruction_data" where
  "sample_csr r c = \<lparr>d_rs3_f = 0, d_rm_f = 0, rs1 = r, rs2 = 0, rd = 9, inst = 0x300024F3, imm = c, isize = 4\<rparr>"

text \<open>
  C18. Trap and return are inverse: MRET after a trap into M-mode, and SRET after a trap delegated to
  S-mode (unless TSR forbids it), return to the interrupted pc in the interrupted mode with the
  interrupt enable of the handling mode as it was before, and leave the general registers alone.
\<close>

theorem trap_return:
  assumes "mode h \<noteq> Hypervisor"
  shows "let h1 = trap c tv irq h in
    (\<not> delegated c irq h \<longrightarrow>
       fst (exec_MRET d h1) = ER True True 0 0 0 \<and>
       (let h2 = snd (exec_MRET d h1) in pc h2 = pc h \<and> mode h2 = mode h \<and>
          st_MIE (status h2) = st_MIE (status h) \<and> st_SIE (status h2) = st_SIE (status h) \<and> GPR h2 = GPR h)) \<and>
    (delegated c irq h \<and> st_TSR (status h) = 0 \<longrightarrow>
       fst (exec_SRET d h1) = ER True True 0 0 0 \<and>
       (let h2 = snd (exec_SRET d h1) in pc h2 = pc h \<and> mode h2 = mode h \<and>
          st_MIE (status h2) = st_MIE (status h) \<and> st_SIE (status h2) = st_SIE (status h) \<and> GPR h2 = GPR h))"
proof -
  have M: "\<not> delegated c irq h \<Longrightarrow> ?thesis"
    using assms by (cases "mode h") (simp_all add: Let_def exec_MRET_def csr_read_epc trap_M field_simps_bf mask_eq_exp_minus_1)
  have S: "?thesis" if d: "delegated c irq h"
  proof -
    have "mode h = User \<or> mode h = Supervisor" using assms d by (cases "mode h") (auto simp: delegated_def)
    then show ?thesis
      using d by (auto simp: Let_def exec_SRET_def csr_read_epc trap_S field_simps_bf)
  qed
  from M S show ?thesis by blast
qed

theorem trap_return_witness:
  "pc (snd (exec_SRET (sample_csr 0 0) (trap 8 0 False sample_user))) = 0x80000100 \<and>
   mode (snd (exec_SRET (sample_csr 0 0) (trap 8 0 False sample_user))) = User \<and>
   pc (snd (exec_MRET (sample_csr 0 0) (trap 2 0 False sample_user))) = 0x80000100"
proof -
  have "mode sample_user \<noteq> Hypervisor" "delegated 8 False sample_user" "\<not> delegated 2 False sample_user"
      "st_TSR (status sample_user) = 0" "pc sample_user = 0x80000100" "mode sample_user = User"
    by (simp_all add: delegated_def sample_user_def new_hart_def bf_get_def)
  then show ?thesis
    using trap_return [of sample_user 8 0 False "sample_csr 0 0"] trap_return [of sample_user 2 0 False "sample_csr 0 0"] by (simp add: Let_def)
qed

lemmas csr_handlers = exec_CSRRW_def exec_CSRRS_def exec_CSRRC_def exec_CSRRWI_def exec_CSRRSI_def exec_CSRRCI_def

lemma denied_below_level:
  assumes "\<not> compatible_mode (csr_level (csr_num i)) (mode h)"
  shows "csr_denied wr i h"
  using assms by (simp add: csr_denied_def csr_accessible_def)



text \<open>
  CSRRWI with a zero immediate escapes the read-only check, since the handler takes it for a read:
  in M-mode it overwrites the hart identifier with zero and reports success.
\<close>

theorem csrrwi_writes_read_only:
  assumes "mode h = Machine" and "rs1 i = 0" and "rd i = 0" and "imm i = 0xF14"
  shows "exec_CSRRWI i h = (ER True False 4 0 0, set_csr CSR_MHARTID 0 h)"
  using assms
  by (simp add: exec_CSRRWI_def csr_denied_def counter_enabled_def csr_accessible_def csr_level_def compatible_mode_def
      csr_write_def)

theorem csrrwi_writes_read_only_witness:
  "csrs (snd (exec_CSRRWI ((sample_csr 0 0xF14)\<lparr>rd := 0\<rparr>) (hart_init 0 0 (new_hart 3 0)))) CSR_MHARTID = 0 \<and>
   csrs (hart_init 0 0 (new_hart 3 0)) CSR_MHARTID = 3"
proof -
  have "mode (hart_init 0 0 (new_hart 3 0)) = Machine" "csrs (hart_init 0 0 (new_hart 3 0)) CSR_MHARTID = 3"
    by (simp_all add: hart_init_def Let_def new_hart_def)
  then show ?thesis
    using csrrwi_writes_read_only [of "hart_init 0 0 (new_hart 3 0)" "(sample_csr 0 0xF14)\<lparr>rd := 0\<rparr>"]
    by (simp add: sample_csr_def)
qed

end
