(* ===== verification/Bitmanip.thy ===== *)
theory Bitmanip
  imports Rv64m Rv64a
begin

unbundle bit_operations_syntax

text \<open>
  Bit manipulation, src/sets/zba.cpp, zbb.cpp, zbc.cpp and zbs.cpp, with the loops of the handlers as
  folds over their index range, and what each computes. A shift by the full width, which a rotation by
  zero performs, is undefined in C++; the rotations give the unrotated value whether it yields zero,
  as in the model, or the operand.
\<close>

section \<open>Address generation (Zba)\<close>

definition exec_ADD_UW :: reg_handler where
  "exec_ADD_UW i h = wr_rd i (r2 i h + ucast (w1 i h)) h"

definition exec_SH1ADD :: reg_handler where
  "exec_SH1ADD i h = wr_rd i (r2 i h + push_bit 1 (r1 i h)) h"

definition exec_SH1ADD_UW :: reg_handler where
  "exec_SH1ADD_UW i h = wr_rd i (r2 i h + push_bit 1 (ucast (w1 i h))) h"

definition exec_SH2ADD :: reg_handler where
  "exec_SH2ADD i h = wr_rd i (r2 i h + push_bit 2 (r1 i h)) h"

definition exec_SH2ADD_UW :: reg_handler where
  "exec_SH2ADD_UW i h = wr_rd i (r2 i h + push_bit 2 (ucast (w1 i h))) h"

definition exec_SH3ADD :: reg_handler where
  "exec_SH3ADD i h = wr_rd i (r2 i h + push_bit 3 (r1 i h)) h"

definition exec_SH3ADD_UW :: reg_handler where
  "exec_SH3ADD_UW i h = wr_rd i (r2 i h + push_bit 3 (ucast (w1 i h))) h"

definition exec_SLLI_UW :: reg_handler where
  "exec_SLLI_UW i h = wr_rd i (push_bit (unat (imm i)) (ucast (w1 i h))) h"

section \<open>Basic bit manipulation (Zbb)\<close>

definition exec_ANDN :: reg_handler where
  "exec_ANDN i h = wr_rd i (r1 i h AND NOT (r2 i h)) h"

definition exec_ORN :: reg_handler where
  "exec_ORN i h = wr_rd i (r1 i h OR NOT (r2 i h)) h"

definition exec_XNOR :: reg_handler where
  "exec_XNOR i h = wr_rd i (NOT (r1 i h XOR r2 i h)) h"

text \<open>A loop that leaves at the first set bit of its index sequence, with the initial value of \<open>c\<close>.\<close>

definition first_bit :: "nat list \<Rightarrow> u64 \<Rightarrow> 'a::len word \<Rightarrow> u64" where
  "first_bit is c x = (case find (\<lambda>j. drop_bit j x AND 1 \<noteq> 0) is of Some j \<Rightarrow> of_nat j | None \<Rightarrow> c)"

definition exec_CLZ :: reg_handler where
  "exec_CLZ i h = wr_rd i (63 - first_bit (rev [0..<64]) (- 1) (r1 i h)) h"

definition exec_CLZW :: reg_handler where
  "exec_CLZW i h = wr_rd i (31 - first_bit (rev [0..<32]) (- 1) (w1 i h)) h"

definition exec_CTZ :: reg_handler where
  "exec_CTZ i h = wr_rd i (first_bit [0..<64] 64 (r1 i h)) h"

definition exec_CTZW :: reg_handler where
  "exec_CTZW i h = wr_rd i (first_bit [0..<32] 32 (w1 i h)) h"

definition bitcount :: "nat \<Rightarrow> 'a::len word \<Rightarrow> u8" where
  "bitcount n x = fold (\<lambda>j c. c + ucast (drop_bit j x AND 1)) [0..<n] 0"

definition exec_CPOP :: reg_handler where
  "exec_CPOP i h = wr_rd i (ucast (bitcount 64 (r1 i h))) h"

definition exec_CPOPW :: reg_handler where
  "exec_CPOPW i h = wr_rd i (ucast (bitcount 32 (w1 i h))) h"

definition exec_MAX :: reg_handler where
  "exec_MAX i h = wr_rd i (smax (r1 i h) (r2 i h)) h"

definition exec_MAXU :: reg_handler where
  "exec_MAXU i h = wr_rd i (max (r1 i h) (r2 i h)) h"

definition exec_MIN :: reg_handler where
  "exec_MIN i h = wr_rd i (smin (r1 i h) (r2 i h)) h"

definition exec_MINU :: reg_handler where
  "exec_MINU i h = wr_rd i (min (r1 i h) (r2 i h)) h"

definition exec_SEXT_B :: reg_handler where
  "exec_SEXT_B i h = wr_rd i (sext8 (r1 i h)) h"

definition exec_SEXT_H :: reg_handler where
  "exec_SEXT_H i h = wr_rd i (sext16 (r1 i h)) h"

definition exec_ZEXT_H :: reg_handler where
  "exec_ZEXT_H i h = wr_rd i (r1 i h AND 0xFFFF) h"

definition exec_ROL :: reg_handler where
  "exec_ROL i h =
     (let x = r1 i h; shamt = r2 i h AND 0x3F in
      wr_rd i (push_bit (unat shamt) x OR drop_bit (unat (64 - shamt)) x) h)"

definition exec_ROLW :: reg_handler where
  "exec_ROLW i h =
     (let x = ucast (w1 i h); shamt = r2 i h AND 0x1F in
      wr_rd i (sext32 (push_bit (unat shamt) x OR drop_bit (unat (32 - shamt)) x)) h)"

definition exec_ROR :: reg_handler where
  "exec_ROR i h =
     (let x = r1 i h; shamt = r2 i h AND 0x3F in
      wr_rd i (drop_bit (unat shamt) x OR push_bit (unat (64 - shamt)) x) h)"

definition exec_RORI :: reg_handler where
  "exec_RORI i h =
     (let x = r1 i h in wr_rd i (drop_bit (unat (imm i)) x OR push_bit (unat (64 - imm i)) x) h)"

definition exec_RORIW :: reg_handler where
  "exec_RORIW i h =
     (let x = ucast (w1 i h) in wr_rd i (drop_bit (unat (imm i)) x OR push_bit (unat (32 - imm i)) x) h)"

definition exec_RORW :: reg_handler where
  "exec_RORW i h =
     (let x = ucast (w1 i h); shamt = r2 i h AND 0x1F in
      wr_rd i (sext32 (drop_bit (unat shamt) x OR push_bit (unat (32 - shamt)) x)) h)"

definition exec_ORC_B :: reg_handler where
  "exec_ORC_B i h =
     (let x = r1 i h;
          out = fold (\<lambda>j out. let b = ucast (drop_bit (8 * j) x AND 0xFF) :: u8;
                                 val = (if b = 0 then 0x00 else 0xFF)
                             in out OR push_bit (8 * j) val) [0..<8] 0
      in wr_rd i out h)"

definition exec_REV8 :: reg_handler where
  "exec_REV8 i h =
     (let x = r1 i h;
          out = fold (\<lambda>j out. out OR push_bit ((7 - j) * 8) (drop_bit (j * 8) x AND 0xFF)) [0..<8] 0
      in wr_rd i out h)"

section \<open>Carry-less multiplication (Zbc)\<close>

definition exec_CLMUL :: reg_handler where
  "exec_CLMUL i h =
     wr_rd i (fold (\<lambda>j out. if drop_bit j (r2 i h) AND 1 \<noteq> 0 then out XOR push_bit j (r1 i h) else out) [0..<64] 0) h"

definition exec_CLMULH :: reg_handler where
  "exec_CLMULH i h =
     wr_rd i (fold (\<lambda>j out. if drop_bit j (r2 i h) AND 1 \<noteq> 0 then out XOR drop_bit (64 - j) (r1 i h) else out) [1..<64] 0) h"

definition exec_CLMULR :: reg_handler where
  "exec_CLMULR i h =
     wr_rd i (fold (\<lambda>j out. if drop_bit j (r2 i h) AND 1 \<noteq> 0 then out XOR drop_bit (63 - j) (r1 i h) else out) [0..<64] 0) h"

section \<open>Single bits (Zbs)\<close>

definition exec_BCLR :: reg_handler where
  "exec_BCLR i h = (let index = r2 i h AND 0x3f in wr_rd i (r1 i h AND NOT (push_bit (unat index) 1)) h)"

definition exec_BCLRI :: reg_handler where
  "exec_BCLRI i h = (let index = imm i AND 0x3f in wr_rd i (r1 i h AND NOT (push_bit (unat index) 1)) h)"

definition exec_BEXT :: reg_handler where
  "exec_BEXT i h = (let index = r2 i h AND 0x3f in wr_rd i (drop_bit (unat index) (r1 i h) AND 1) h)"

definition exec_BEXTI :: reg_handler where
  "exec_BEXTI i h = (let index = imm i AND 0x3f in wr_rd i (drop_bit (unat index) (r1 i h) AND 1) h)"

definition exec_BINV :: reg_handler where
  "exec_BINV i h = (let index = r2 i h AND 0x3f in wr_rd i (r1 i h XOR push_bit (unat index) 1) h)"

definition exec_BINVI :: reg_handler where
  "exec_BINVI i h = (let index = imm i AND 0x3f in wr_rd i (r1 i h XOR push_bit (unat index) 1) h)"

definition exec_BSET :: reg_handler where
  "exec_BSET i h = (let index = r2 i h AND 0x3f in wr_rd i (r1 i h OR push_bit (unat index) 1) h)"

definition exec_BSETI :: reg_handler where
  "exec_BSETI i h = (let index = imm i AND 0x3f in wr_rd i (r1 i h OR push_bit (unat index) 1) h)"

section \<open>Dispatch\<close>

fun exec_zba :: "op_zba \<Rightarrow> vm_handler" where
  "exec_zba H_ADD_UW = on_hart exec_ADD_UW"
| "exec_zba H_SH1ADD = on_hart exec_SH1ADD"
| "exec_zba H_SH1ADD_UW = on_hart exec_SH1ADD_UW"
| "exec_zba H_SH2ADD = on_hart exec_SH2ADD"
| "exec_zba H_SH2ADD_UW = on_hart exec_SH2ADD_UW"
| "exec_zba H_SH3ADD = on_hart exec_SH3ADD"
| "exec_zba H_SH3ADD_UW = on_hart exec_SH3ADD_UW"
| "exec_zba H_SLLI_UW = on_hart exec_SLLI_UW"

fun exec_zbb :: "op_zbb \<Rightarrow> vm_handler" where
  "exec_zbb H_ANDN = on_hart exec_ANDN"
| "exec_zbb H_ORN = on_hart exec_ORN"
| "exec_zbb H_XNOR = on_hart exec_XNOR"
| "exec_zbb H_CLZ = on_hart exec_CLZ"
| "exec_zbb H_CLZW = on_hart exec_CLZW"
| "exec_zbb H_CTZ = on_hart exec_CTZ"
| "exec_zbb H_CTZW = on_hart exec_CTZW"
| "exec_zbb H_CPOP = on_hart exec_CPOP"
| "exec_zbb H_CPOPW = on_hart exec_CPOPW"
| "exec_zbb H_MAX = on_hart exec_MAX"
| "exec_zbb H_MAXU = on_hart exec_MAXU"
| "exec_zbb H_MIN = on_hart exec_MIN"
| "exec_zbb H_MINU = on_hart exec_MINU"
| "exec_zbb H_SEXT_B = on_hart exec_SEXT_B"
| "exec_zbb H_SEXT_H = on_hart exec_SEXT_H"
| "exec_zbb H_ZEXT_H = on_hart exec_ZEXT_H"
| "exec_zbb H_ROL = on_hart exec_ROL"
| "exec_zbb H_ROLW = on_hart exec_ROLW"
| "exec_zbb H_ROR = on_hart exec_ROR"
| "exec_zbb H_RORI = on_hart exec_RORI"
| "exec_zbb H_RORIW = on_hart exec_RORIW"
| "exec_zbb H_RORW = on_hart exec_RORW"
| "exec_zbb H_ORC_B = on_hart exec_ORC_B"
| "exec_zbb H_REV8 = on_hart exec_REV8"

fun exec_zbc :: "op_zbc \<Rightarrow> vm_handler" where
  "exec_zbc H_CLMUL = on_hart exec_CLMUL"
| "exec_zbc H_CLMULH = on_hart exec_CLMULH"
| "exec_zbc H_CLMULR = on_hart exec_CLMULR"

fun exec_zbs :: "op_zbs \<Rightarrow> vm_handler" where
  "exec_zbs H_BCLR = on_hart exec_BCLR"
| "exec_zbs H_BCLRI = on_hart exec_BCLRI"
| "exec_zbs H_BEXT = on_hart exec_BEXT"
| "exec_zbs H_BEXTI = on_hart exec_BEXTI"
| "exec_zbs H_BINV = on_hart exec_BINV"
| "exec_zbs H_BINVI = on_hart exec_BINVI"
| "exec_zbs H_BSET = on_hart exec_BSET"
| "exec_zbs H_BSETI = on_hart exec_BSETI"

section \<open>Counting bits\<close>

lemma find_rev_upt:
  "find P (rev [0..<n]) = (if \<exists>j<n. P j then Some (Max {j. j < n \<and> P j}) else None)"
proof (induction n)
  case (Suc n)
  show ?case
  proof (cases "P n")
    case True
    then have "Max {j. j < Suc n \<and> P j} = n" by (intro Max_eqI) auto
    with True show ?thesis by auto
  next
    case False
    then have "{j. j < Suc n \<and> P j} = {j. j < n \<and> P j}" "(\<exists>j<Suc n. P j) \<longleftrightarrow> (\<exists>j<n. P j)"
      by (auto simp: less_Suc_eq)
    with False Suc show ?thesis by simp
  qed
qed simp

lemma find_upt:
  "find P [0..<n] = (if \<exists>j<n. P j then Some (Min {j. j < n \<and> P j}) else None)"
proof (cases "\<exists>j<n. P j")
  case True
  let ?S = "{j. j < n \<and> P j}"
  have m: "Min ?S \<in> ?S" using True by (intro Min_in) auto
  moreover have "\<not> P j" if "j < Min ?S" for j
  proof
    assume "P j"
    with that m have "Min ?S \<le> j" by (intro Min_le) auto
    with that show False by simp
  qed
  moreover have "find P [0..<n] = Some k" if "k < n" "P k" "\<And>j. j < k \<Longrightarrow> \<not> P j" for k
    unfolding find_Some_iff using that by (intro exI [of _ k]) simp
  ultimately have "find P [0..<n] = Some (Min ?S)" by blast
  with True show ?thesis by (simp only: if_True)
qed (auto simp: find_None_iff)

lemma first_bit_down:
  "first_bit (rev [0..<LENGTH('a)]) c x = (if x = 0 then c else of_nat (Max {j. bit x j}))"
  and first_bit_up:
  "first_bit [0..<LENGTH('a)] c x = (if x = 0 then c else of_nat (Min {j. bit x j}))"
  for x :: "'a::len word"
proof -
  have "{j. j < LENGTH('a) \<and> bit x j} = {j. bit x j}" by (auto dest: bit_imp_le_length)
  moreover have "(\<exists>j < LENGTH('a). bit x j) \<longleftrightarrow> x \<noteq> 0"
    by (auto simp: bit_eq_iff dest: bit_imp_le_length)
  ultimately show "first_bit (rev [0..<LENGTH('a)]) c x = (if x = 0 then c else of_nat (Max {j. bit x j}))"
    "first_bit [0..<LENGTH('a)] c x = (if x = 0 then c else of_nat (Min {j. bit x j}))"
    by (simp_all add: first_bit_def drop_bit_and_1 find_rev_upt find_upt)
qed

lemma bitcount_card: "n \<le> 64 \<Longrightarrow> unat (bitcount n x) = card {j. j < n \<and> bit x j}"
proof (induction n)
  case 0
  then show ?case by (simp add: bitcount_def)
next
  case (Suc n)
  have step: "bitcount (Suc n) x = bitcount n x + ucast (drop_bit n x AND 1)" by (simp add: bitcount_def)
  have "{j. j < Suc n \<and> bit x j} = (if bit x n then insert n {j. j < n \<and> bit x j} else {j. j < n \<and> bit x j})"
    by (auto simp: less_Suc_eq)
  then have c: "card {j. j < Suc n \<and> bit x j} = card {j. j < n \<and> bit x j} + (if bit x n then 1 else 0)"
    by simp
  have "card {j. j < n \<and> bit x j} \<le> card {..<n}" by (intro card_mono) auto
  then have b: "unat (bitcount n x) < 64" using Suc by simp
  have "ucast (drop_bit n x AND 1) = (if bit x n then 1 else 0 :: u8)"
    by (simp add: and_one_eq mod_2_eq_odd bit_iff_odd_drop_bit)
  then show ?case using Suc c b by (auto simp: step unat_word_ariths)
qed

lemma bits_of_word: "{j. j < LENGTH('a) \<and> bit x j} = {j. bit x j}" "x \<noteq> 0 \<Longrightarrow> {j. bit x j} \<noteq> {}" "finite {j. bit x j}"
  for x :: "'a::len word"
proof -
  show e: "{j. j < LENGTH('a) \<and> bit x j} = {j. bit x j}" by (auto dest: bit_imp_le_length)
  have "finite {j. j < LENGTH('a) \<and> bit x j}" by simp
  then show "finite {j. bit x j}" unfolding e .
  show "{j. bit x j} \<noteq> {}" if "x \<noteq> 0" using that by (auto simp: bit_eq_iff)
qed

lemma bit_extremes: "x \<noteq> 0 \<Longrightarrow> Max {j. bit x j} < LENGTH('a)" "x \<noteq> 0 \<Longrightarrow> Min {j. bit x j} < LENGTH('a)"
  for x :: "'a::len word"
  using bits_of_word [of x] Max_in [of "{j. bit x j}"] Min_in [of "{j. bit x j}"] by (auto dest: bit_imp_le_length)

lemma count_down:
  fixes x :: "'a::len word"
  assumes "LENGTH('a) = Suc w" "w < 64"
  shows "unat (of_nat w - first_bit (rev [0..<Suc w]) (- 1) x :: u64) = (if x = 0 then Suc w else w - Max {j. bit x j})"
proof (cases "x = 0")
  case True
  then have "of_nat w - first_bit (rev [0..<Suc w]) (- 1) x = (of_nat (Suc w) :: u64)"
    using first_bit_down [of "- 1" x] assms(1) by (simp del: upt_Suc)
  moreover have "unat (of_nat (Suc w) :: u64) = Suc w" using assms by (intro unat_of_nat_64) simp
  ultimately show ?thesis using True by (simp del: of_nat_Suc upt_Suc)
next
  case False
  then have m: "Max {j. bit x j} \<le> w" using bit_extremes(1) [of x] assms by simp
  then have "unat (of_nat w - of_nat (Max {j. bit x j}) :: u64) = w - Max {j. bit x j}"
    using assms by (simp add: unat_sub unat_of_nat_64 word_le_nat_alt)
  with False show ?thesis using first_bit_down [of "- 1" x] assms(1) by (simp del: upt_Suc)
qed

lemma count_up:
  fixes x :: "'a::len word"
  assumes "LENGTH('a) \<le> 64"
  shows "unat (first_bit [0..<LENGTH('a)] (of_nat LENGTH('a)) x) = (if x = 0 then LENGTH('a) else Min {j. bit x j})"
proof (cases "x = 0")
  case True
  then show ?thesis using first_bit_up [of "of_nat LENGTH('a)" x] assms by (simp add: unat_of_nat_64)
next
  case False
  then have "Min {j. bit x j} < 64" using bit_extremes(2) [of x] assms by simp
  then have "unat (of_nat (Min {j. bit x j}) :: u64) = Min {j. bit x j}" by (simp add: unat_of_nat_64)
  with False show ?thesis using first_bit_up [of "of_nat LENGTH('a)" x] by simp
qed

text \<open>
  The counting instructions: CLZ is the distance of the highest set bit from the top, CTZ the
  position of the lowest, both the register width for zero, and CPOP the number of set bits; the word
  forms count in the low 32 bits.
\<close>

theorem bit_counts:
  "unat (rd_value exec_CLZ i h) = (if r1 i h = 0 then 64 else 63 - Max {j. bit (r1 i h) j}) \<and>
   unat (rd_value exec_CTZ i h) = (if r1 i h = 0 then 64 else Min {j. bit (r1 i h) j}) \<and>
   unat (rd_value exec_CPOP i h) = card {j. bit (r1 i h) j} \<and>
   unat (rd_value exec_CLZW i h) = (if w1 i h = 0 then 32 else 31 - Max {j. bit (w1 i h) j}) \<and>
   unat (rd_value exec_CTZW i h) = (if w1 i h = 0 then 32 else Min {j. bit (w1 i h) j}) \<and>
   unat (rd_value exec_CPOPW i h) = card {j. bit (w1 i h) j}"
proof -
  note val = rd_value_def wr_rd_def
  have up: "unat (ucast b :: u64) = unat b" for b :: u8
    using unsigned_less [of b, where ?'a = nat] by (simp add: unsigned_ucast_eq take_bit_nat_eq_self)
  have pop: "unat (ucast (bitcount 64 (r1 i h)) :: u64) = card {j. bit (r1 i h) j}"
      "unat (ucast (bitcount 32 (w1 i h)) :: u64) = card {j. bit (w1 i h) j}"
    using bitcount_card [of 64 "r1 i h"] bitcount_card [of 32 "w1 i h"] bits_of_word(1) [of "r1 i h"]
      bits_of_word(1) [of "w1 i h"] by (simp_all add: up)
  have "rd_value exec_CLZ i h = of_nat 63 - first_bit (rev [0..<64]) (- 1) (r1 i h)"
      "rd_value exec_CLZW i h = of_nat 31 - first_bit (rev [0..<32]) (- 1) (w1 i h)"
      "rd_value exec_CTZ i h = first_bit [0..<64] (of_nat 64) (r1 i h)"
      "rd_value exec_CTZW i h = first_bit [0..<32] (of_nat 32) (w1 i h)"
    by (simp_all add: val exec_CLZ_def exec_CTZ_def exec_CLZW_def exec_CTZW_def)
  then show ?thesis
    using pop count_down [of 63 "r1 i h"] count_down [of 31 "w1 i h"] count_up [of "r1 i h"] count_up [of "w1 i h"]
    by (simp add: val exec_CPOP_def exec_CPOPW_def)
qed

section \<open>Moving bits\<close>

lemma bit_fold_or:
  "bit (fold (\<lambda>j out. out OR f j) js z) k \<longleftrightarrow> bit z k \<or> (\<exists>j \<in> set js. bit (f j) k)" for z :: u64
  by (induction js arbitrary: z) (auto simp: bit_or_iff)

lemma bit_fold_xor:
  "bit (fold (\<lambda>j out. if P j then out XOR f j else out) js z) k \<longleftrightarrow>
     (bit z k \<noteq> odd (length (filter (\<lambda>j. P j \<and> bit (f j) k) js)))" for z :: u64
  by (induction js arbitrary: z) (auto simp: bit_xor_iff)

lemma byte_bit: "bit (drop_bit (8 * j) x AND 0xFF) n \<longleftrightarrow> n < 8 \<and> bit x (8 * j + n)" for x :: u64
proof -
  have m: "(0xFF :: u64) = mask 8" by (simp add: mask_eq_exp_minus_1)
  show ?thesis unfolding m by (auto simp: bit_simps dest: bit_imp_le_length)
qed

lemma shamt_and: "unat (x AND 0x3F) = unat x mod 64" "unat (x AND 0x1F) = unat x mod 32" for x :: u64
proof -
  have "x AND 0x3F = take_bit 6 x" "x AND 0x1F = take_bit 5 x"
    by (simp_all add: take_bit_eq_mask mask_eq_exp_minus_1)
  then show "unat (x AND 0x3F) = unat x mod 64" "unat (x AND 0x1F) = unat x mod 32"
    by (simp_all only: unsigned_take_bit_eq) (simp_all add: take_bit_eq_mod)
qed

lemma shamt_sub:
  "unat (64 - (x AND 0x3F)) = 64 - unat x mod 64" "unat (32 - (x AND 0x1F)) = 32 - unat x mod 32" for x :: u64
proof -
  have "unat x mod 64 < 64" "unat x mod 32 < 32" by simp_all
  then have "x AND 0x3F \<le> 64" "x AND 0x1F \<le> 32" by (simp_all add: word_le_nat_alt shamt_and)
  then show "unat (64 - (x AND 0x3F)) = 64 - unat x mod 64" "unat (32 - (x AND 0x1F)) = 32 - unat x mod 32"
    by (simp_all add: unat_sub shamt_and)
qed

lemma push64: "bit (push_bit m w) k \<longleftrightarrow> m \<le> k \<and> k < 64 \<and> bit w (k - m)"
  and drop64: "bit (drop_bit m w) k \<longleftrightarrow> bit w (m + k)"
  and high64: "64 \<le> k \<Longrightarrow> \<not> bit w k" for w :: u64
  by (auto simp: bit_simps dest: bit_imp_le_length)

lemma rotate_bits:
  fixes x :: u64
  assumes s: "s < 64"
  shows "bit (push_bit s x OR drop_bit (64 - s) x) k \<longleftrightarrow> k < 64 \<and> bit x ((k + 64 - s) mod 64)"
    and "bit (drop_bit s x OR push_bit (64 - s) x) k \<longleftrightarrow> k < 64 \<and> bit x ((k + s) mod 64)"
proof -
  have l: "(k + 64 - s) mod 64 = (if s \<le> k then k - s else k + 64 - s)" if "k < 64"
  proof (cases "s \<le> k")
    case True
    then have "k + 64 - s = 64 + (k - s)" by simp
    then have "(k + 64 - s) mod 64 = (k - s) mod 64" by (simp only: mod_add_self1)
    with that True show ?thesis by simp
  next
    case False
    with that show ?thesis by simp
  qed
  have r: "(k + s) mod 64 = (if k + s < 64 then k + s else k + s - 64)" if "k < 64"
    using that s by (simp add: mod_if)
  have "bit x (64 - s + k) \<longleftrightarrow> k < s \<and> bit x (k + 64 - s)" if "k < 64"
    using s high64 [of "64 - s + k" x] by (cases "k < s") (auto simp: algebra_simps)
  then show "bit (push_bit s x OR drop_bit (64 - s) x) k \<longleftrightarrow> k < 64 \<and> bit x ((k + 64 - s) mod 64)"
    using l s high64 [of "64 - s + k" x] by (cases "k < 64") (auto simp: bit_or_iff push64 drop64)
  have "64 - s \<le> k \<longleftrightarrow> \<not> k + s < 64" "k - (64 - s) = k + s - 64" using s by auto
  then show "bit (drop_bit s x OR push_bit (64 - s) x) k \<longleftrightarrow> k < 64 \<and> bit x ((k + s) mod 64)"
    using r high64 [of "s + k" x]
    by (cases "k < 64"; cases "k + s < 64") (auto simp: bit_or_iff push64 drop64 add.commute)
qed

lemma byte_pos: "8 * m \<le> k \<and> k - 8 * m < 8 \<longleftrightarrow> k div 8 = m" "k div 8 = m \<Longrightarrow> k - 8 * m = k mod 8" for k m :: nat
  by (auto simp: div_nat_eqI modulo_nat_def intro!: div_nat_eqI)

lemma placed_byte:
  "bit (push_bit (8 * m) (drop_bit (8 * j) x AND 0xFF)) k \<longleftrightarrow> k < 64 \<and> k div 8 = m \<and> bit x (8 * j + k mod 8)" for x :: u64
  unfolding push64 byte_bit using byte_pos(1) [of m k] byte_pos(2) [of k m] by auto

lemma filled_byte:
  "bit (push_bit (8 * m) (if ucast (drop_bit (8 * m) x AND 0xFF) = (0 :: u8) then 0 else 0xFF) :: u64) k \<longleftrightarrow>
     k < 64 \<and> k div 8 = m \<and> (\<exists>j. j div 8 = m \<and> bit x j)" for x :: u64
proof -
  have ff: "bit (0xFF :: u64) n \<longleftrightarrow> n < 8" for n
    using byte_bit [of 0 "- 1 :: u64" n] by auto
  have "ucast (drop_bit (8 * m) x AND 0xFF) = (0 :: u8) \<longleftrightarrow> (\<forall>n < 8. \<not> bit x (8 * m + n))"
    by (auto simp: bit_eq_iff bit_unsigned_iff byte_bit simp del: drop_bit_and)
  also have "\<dots> \<longleftrightarrow> (\<nexists>j. j div 8 = m \<and> bit x j)"
    by (metis byte_pos add_diff_cancel_left' le_add1 le_add_diff_inverse)
  finally have e: "ucast (drop_bit (8 * m) x AND 0xFF) = (0 :: u8) \<longleftrightarrow> (\<nexists>j. j div 8 = m \<and> bit x j)" .
  have "bit (push_bit (8 * m) (0xFF :: u64)) k \<longleftrightarrow> k < 64 \<and> k div 8 = m"
    unfolding push64 ff using byte_pos(1) [of m k] by blast
  then show ?thesis unfolding e by (cases "\<exists>j. j div 8 = m \<and> bit x j") (simp_all del: push_bit_numeral)
qed

text \<open>
  The rearranging instructions move every bit where the manual puts it: ROL and ROR rotate by the
  low six bits of the second operand, REV8 mirrors the bytes, and ORC.B fills every byte that has a set
  bit.
\<close>

theorem bit_moves:
  "bit (rd_value exec_ROL i h) k = (k < 64 \<and> bit (r1 i h) ((k + 64 - unat (r2 i h) mod 64) mod 64)) \<and>
   bit (rd_value exec_ROR i h) k = (k < 64 \<and> bit (r1 i h) ((k + unat (r2 i h) mod 64) mod 64)) \<and>
   bit (rd_value exec_REV8 i h) k = (k < 64 \<and> bit (r1 i h) (8 * (7 - k div 8) + k mod 8)) \<and>
   bit (rd_value exec_ORC_B i h) k = (k < 64 \<and> (\<exists>j. j div 8 = k div 8 \<and> bit (r1 i h) j))"
proof (intro conjI)
  note val = rd_value_def wr_rd_def
  have s: "unat (r2 i h) mod 64 < 64" by simp
  show "bit (rd_value exec_ROL i h) k = (k < 64 \<and> bit (r1 i h) ((k + 64 - unat (r2 i h) mod 64) mod 64))"
    "bit (rd_value exec_ROR i h) k = (k < 64 \<and> bit (r1 i h) ((k + unat (r2 i h) mod 64) mod 64))"
    using rotate_bits [OF s, of "r1 i h" k]
    by (simp_all add: val exec_ROL_def exec_ROR_def Let_def shamt_and shamt_sub)
  have "bit (rd_value exec_REV8 i h) k \<longleftrightarrow>
      (\<exists>j \<in> {0..<8}. bit (push_bit (8 * (7 - j)) (drop_bit (8 * j) (r1 i h) AND 0xFF)) k)"
    by (simp only: val exec_REV8_def Let_def bit_fold_or mult.commute [of _ 8] snd_conv set_reg_simps fun_upd_same
        set_upt bit_0_eq bot_apply bot_bool_def simp_thms)
  also have "\<dots> \<longleftrightarrow> (\<exists>j \<in> {0..<8}. k < 64 \<and> k div 8 = 7 - j \<and> bit (r1 i h) (8 * j + k mod 8))"
    by (simp only: placed_byte)
  also have "\<dots> \<longleftrightarrow> k < 64 \<and> bit (r1 i h) (8 * (7 - k div 8) + k mod 8)"
    by (auto intro!: bexI [of _ "7 - k div 8"])
  finally show "bit (rd_value exec_REV8 i h) k = (k < 64 \<and> bit (r1 i h) (8 * (7 - k div 8) + k mod 8))" .
  have "bit (rd_value exec_ORC_B i h) k \<longleftrightarrow>
      (\<exists>j \<in> {0..<8}. k < 64 \<and> k div 8 = j \<and> (\<exists>l. l div 8 = j \<and> bit (r1 i h) l))"
    by (simp only: val exec_ORC_B_def Let_def bit_fold_or snd_conv set_reg_simps fun_upd_same
        set_upt bit_0_eq bot_apply bot_bool_def simp_thms filled_byte)
  then show "bit (rd_value exec_ORC_B i h) k = (k < 64 \<and> (\<exists>j. j div 8 = k div 8 \<and> bit (r1 i h) j))"
    by auto
qed

section \<open>Carry-less products\<close>

text \<open>The coefficient of \<open>X ^ k\<close> in the product of two polynomials over the two-element field.\<close>

definition clmul_coeff :: "u64 \<Rightarrow> u64 \<Rightarrow> nat \<Rightarrow> bool" where
  "clmul_coeff a b k \<longleftrightarrow> odd (card {j. j \<le> k \<and> bit b j \<and> bit a (k - j)})"

lemma odd_filter: "distinct js \<Longrightarrow> odd (length (filter P js)) \<longleftrightarrow> odd (card {j. j \<in> set js \<and> P j})"
  by (simp add: distinct_length_filter Int_def conj_commute)

lemma clmul_fold:
  fixes a b :: u64 and f :: "nat \<Rightarrow> u64"
  assumes "distinct js" "\<And>j. j \<in> set js \<and> bit b j \<and> bit (f j) k \<longleftrightarrow> j \<le> n \<and> bit b j \<and> bit a (n - j)"
  shows "bit (fold (\<lambda>j out. if drop_bit j b AND 1 \<noteq> 0 then out XOR f j else out) js 0) k \<longleftrightarrow> clmul_coeff a b n"
proof -
  have "bit (fold (\<lambda>j out. if drop_bit j b AND 1 \<noteq> 0 then out XOR f j else out) js 0) k \<longleftrightarrow>
      odd (length (filter (\<lambda>j. bit b j \<and> bit (f j) k) js))"
    by (subst bit_fold_xor) (simp add: drop_bit_and_1)
  also have "\<dots> \<longleftrightarrow> clmul_coeff a b n" by (simp only: odd_filter [OF assms(1)] clmul_coeff_def assms(2))
  finally show ?thesis .
qed

text \<open>
  CLMUL, CLMULH and CLMULR return bits 0 to 63, 64 to 127 and 63 to 126 of the carry-less product
  of their operands.
\<close>

theorem clmul_product:
  "bit (rd_value exec_CLMUL i h) k = (k < 64 \<and> clmul_coeff (r1 i h) (r2 i h) k) \<and>
   bit (rd_value exec_CLMULH i h) k = (k < 64 \<and> clmul_coeff (r1 i h) (r2 i h) (64 + k)) \<and>
   bit (rd_value exec_CLMULR i h) k = (k < 64 \<and> clmul_coeff (r1 i h) (r2 i h) (63 + k))"
proof (cases "k < 64")
  case False
  then show ?thesis using high64 [of k] by simp
next
  case k: True
  note val = rd_value_def wr_rd_def snd_conv set_reg_simps fun_upd_same
  have lt: "bit (r2 i h) j \<Longrightarrow> j < 64" for j using high64 [of j "r2 i h"] by (cases "j < 64") auto
  have "bit (rd_value exec_CLMUL i h) k = clmul_coeff (r1 i h) (r2 i h) k"
    unfolding val exec_CLMUL_def by (rule clmul_fold) (use k in \<open>auto simp: push64 dest: lt\<close>)
  moreover have "(64 - j) + k = 64 + k - j" if "j < 64" for j using that by simp
  then have "bit (rd_value exec_CLMULH i h) k = clmul_coeff (r1 i h) (r2 i h) (64 + k)"
    unfolding val exec_CLMULH_def using high64 [of "64 + k" "r1 i h"]
    by (intro clmul_fold) (auto simp: drop64 Suc_le_eq intro!: gr0I dest: lt)
  moreover have "(63 - j) + k = 63 + k - j" if "j < 64" for j using that by simp
  then have "bit (rd_value exec_CLMULR i h) k = clmul_coeff (r1 i h) (r2 i h) (63 + k)"
    unfolding val exec_CLMULR_def by (intro clmul_fold) (auto simp: drop64 dest: lt)
  ultimately show ?thesis using k by simp
qed

end
