(* ===== verification/Exec.thy ===== *)
theory Exec
  imports Bus Instr_Table Rv64m Rv64a Rv64d System_Instr Bitmanip
begin

unbundle bit_operations_syntax

text \<open>
  Execution of one instruction by a hart, src/hart.cpp: fetch through the MMU and the decode cache,
  dispatch to the registered handler, and \<open>tick\<close> with its interrupt check, WFI and traps. The theorems
  put the components together: what a tick does is stated over memory and the table of masks, with
  no TLB, lookup table or decode cache in sight.
\<close>

section \<open>Dispatch\<close>

fun exec_op :: "handler \<Rightarrow> vm_handler" where
  "exec_op (RV_I x) = exec_i x"
| "exec_op (RV_M x) = exec_m x"
| "exec_op (RV_A x) = exec_a x"
| "exec_op (RV_F x) = exec_f x"
| "exec_op (RV_D x) = exec_d x"
| "exec_op (RV_C x) = exec_c x"
| "exec_op (RV_priv x) = exec_priv x"
| "exec_op (RV_zicsr x) = exec_zicsr x"
| "exec_op (RV_zifencei x) = exec_zifencei x"
| "exec_op (RV_zba x) = exec_zba x"
| "exec_op (RV_zbb x) = exec_zbb x"
| "exec_op (RV_zbc x) = exec_zbc x"
| "exec_op (RV_zbs x) = exec_zbs x"
| "exec_op (RV_zicboz x) = exec_zicboz x"

definition single_inst :: "nat \<Rightarrow> instruction_cache \<Rightarrow> vm \<Rightarrow> (exec_return \<times> vm) result" where
  "single_inst n c v =
     (case ic_inst c of
        None \<Rightarrow> Inl Null_pointer
      | Some k \<Rightarrow> exec_op (func (instructions (idec v) ! k)) n (ic_data c) v)"

section \<open>Fetch\<close>

text \<open>
  The halfword and the word at \<open>direct_ram + (phys_pc - 0x80000000)\<close> are read as the fast path of the
  bus reads them. \<open>None\<close> for the cache entry goes with a failure.
\<close>

definition fetch_outside :: "u64 \<Rightarrow> hart \<Rightarrow> bool" where
  "fetch_outside phys h \<longleftrightarrow> phys < 0x80000000 \<or> phys > 0x80000000 + memsize h - 2"

definition fetch_decode :: "u64 \<Rightarrow> u32 \<Rightarrow> vm \<Rightarrow> (memory_return \<times> u64 \<times> instruction_cache option \<times> vm) result" where
  "fetch_decode phys_pc w v =
     (case decode_inst (g_smc_epoch (smcs v)) phys_pc w (idec v) of (c, d) \<Rightarrow>
        let v = v\<lparr>idec := d\<rparr> in
        if ic_pc c = 0 then Inr (MR False EXC_ILLEGAL_INSTRUCTION (ucast w), phys_pc, None, v)
        else Inr (MR True 0 0, phys_pc, Some c, v))"

definition fetchInstruction ::
  "nat \<Rightarrow> u64 \<Rightarrow> vm \<Rightarrow> (memory_return \<times> u64 \<times> instruction_cache option \<times> vm) result" where
  "fetchInstruction n va v =
     and_then (mmu_translate n EXEC va v) (\<lambda>(ret, phys_pc, v).
     if \<not> mem_success ret then Inr (ret, phys_pc, None, v)
     else if ram_direct (mmap v) = None then Inl Null_pointer
     else if fetch_outside phys_pc (hart_of n v) then Inr (MR False EXC_INST_ACCESS_FAULT va, phys_pc, None, v)
     else and_then (read_dram_fast phys_pc MS_Short (mmap v)) (\<lambda>lo.
     if lo AND 3 \<noteq> 3 then fetch_decode phys_pc (ucast lo) v
     else if va AND 0xFFF \<le> 0xFFC then
       and_then (read_dram_fast phys_pc MS_Int (mmap v)) (\<lambda>w. fetch_decode phys_pc (ucast w) v)
     else
       and_then (mmu_translate n EXEC (va + 2) v) (\<lambda>(ret2, phys_pc2, v).
       if \<not> mem_success ret2 then Inr (ret2, phys_pc, None, v)
       else if fetch_outside phys_pc2 (hart_of n v)
         then Inr (MR False EXC_INST_ACCESS_FAULT (va + 2), phys_pc, None, v)
       else and_then (read_dram_fast phys_pc2 MS_Short (mmap v)) (\<lambda>hi.
         fetch_decode phys_pc (ucast lo OR push_bit 16 (ucast hi)) v))))"

section \<open>Tick\<close>

definition begin_tick :: "hart \<Rightarrow> hart" where
  "begin_tick h =
     (let h = set_reg 0 0 h;
          h = h\<lparr>cycle := cycle h + 1\<rparr>
      in if instret h AND 0x2FFF = 0 \<and> ip h AND ie h \<noteq> 0 then snd (check_ints h) else h)"

definition finish_inst :: "nat \<Rightarrow> exec_return \<Rightarrow> vm \<Rightarrow> vm" where
  "finish_inst n out v =
     (if \<not> is_success out then upd_hart n (trap (ucast (cause out)) (tval out) False) v
      else upd_hart n (\<lambda>h. h\<lparr>instret := instret h + 1, pc := pc h + ucast (increase_pc out)\<rparr>) v)"

definition tick :: "nat \<Rightarrow> vm \<Rightarrow> vm result" where
  "tick n v =
     (let v = upd_hart n begin_tick v in
      if WFI (hart_of n v) then
        Inr (upd_hart n (\<lambda>h. if int_local_pending h then h\<lparr>WFI := False\<rparr> else h) v)
      else
        and_then (fetchInstruction n (pc (hart_of n v)) v) (\<lambda>(outd, phys_pc, c, v).
        case c of
          None \<Rightarrow> Inr (upd_hart n (trap (ucast (exc_code outd)) (mem_tval outd) False) v)
        | Some ce \<Rightarrow> and_then (single_inst n ce v) (\<lambda>(out, v). Inr (finish_inst n out v))))"

section \<open>What a tick does\<close>

text \<open>
  The instruction at an address of RAM, read without translation, and the operands of an entry of
  the instruction table.
\<close>

definition ram_at :: "vm \<Rightarrow> u64 \<Rightarrow> nat \<Rightarrow> u64" where
  "ram_at v a k =
     (case ram_direct (mmap v) of
        None \<Rightarrow> 0
      | Some i \<Rightarrow> load_bytes (rdata (regions (mmap v) ! i)) (a - 0x80000000) k)"

definition inst_word :: "vm \<Rightarrow> u64 \<Rightarrow> u32" where
  "inst_word v a = (if ram_at v a 2 AND 3 \<noteq> 3 then ucast (ram_at v a 2) else ucast (ram_at v a 4))"

definition operands :: "handler instruction \<Rightarrow> u32 \<Rightarrow> instruction_data" where
  "operands ins w =
     \<lparr>d_rs3_f = ucast (d_rs3 w), d_rm_f = ucast (d_rm w), rs1 = ucast (d_rs1 w), rs2 = ucast (d_rs2 w),
      rd = ucast (d_rd w), inst = w,
      imm = (case imm_decode_func ins of Some f \<Rightarrow> f w | None \<Rightarrow> 0),
      isize = (if w AND 3 \<noteq> 3 then 2 else 4)\<rparr>"

definition inst_inside :: "vm \<Rightarrow> u64 \<Rightarrow> bool" where
  "inst_inside v a \<longleftrightarrow> 0x80000000 \<le> a \<and> unat a + 4 \<le> 0x80000000 + unat (mmio_memsize v)"

text \<open>The decoder that \<open>init_all_instrs\<close> builds, whatever its cache has seen since.\<close>

definition decoder_ready :: "handler decoder \<Rightarrow> bool" where
  "decoder_ready d \<longleftrightarrow> (\<exists>d0. init_all_instrs new_decoder = Some d0 \<and> decode_cache_inv d0 d)"

lemma decoder_readyE:
  assumes "decoder_ready d"
  obtains d0 where "decode_cache_inv d0 d" "instructions d0 = instructions registered"
    "\<And>w. find_inst d0 w = decode_ref (instructions registered) w"
  using assms build_lut_correct [OF registered_table registered_fresh]
  by (auto simp: decoder_ready_def init_all_registered)

lemma decode_ready:
  fixes epoch a :: u64 and w :: u32
  assumes "decoder_ready d" and "a \<noteq> 0"
  defines "r \<equiv> decode_inst epoch a w d"
  shows "decoder_ready (snd r)" and "instructions (snd r) = instructions registered"
    and "decode_ref (instructions registered) w = None \<Longrightarrow> ic_pc (fst r) = 0"
    and "decode_ref (instructions registered) w = Some k \<Longrightarrow>
      ic_pc (fst r) = a \<and> ic_inst (fst r) = Some k \<and> ic_data (fst r) = operands (instructions registered ! k) w"
proof -
  obtain d0 where d0: "decode_cache_inv d0 d" "instructions d0 = instructions registered"
      and f: "\<And>w. find_inst d0 w = decode_ref (instructions registered) w"
    using decoder_readyE [OF assms(1)] by blast
  have keep: "decode_cache_inv d0 (snd r)" unfolding r_def by (rule decode_inst_keep [OF d0(1)])
  then show "instructions (snd r) = instructions registered" using d0(2) by (simp add: decode_cache_inv_def)
  obtain d1 where "init_all_instrs new_decoder = Some d1" "decode_cache_inv d1 d"
    using assms(1) by (auto simp: decoder_ready_def)
  then show "decoder_ready (snd r)" unfolding decoder_ready_def r_def using decode_inst_keep by blast
  note pc = decode_inst_pc [OF d0(1) assms(2), of epoch w, folded r_def]
    and ans = decode_inst_answer [OF d0(1) assms(2), of epoch w, folded r_def]
  show "decode_ref (instructions registered) w = None \<Longrightarrow> ic_pc (fst r) = 0" using pc f by simp
  show "ic_pc (fst r) = a \<and> ic_inst (fst r) = Some k \<and> ic_data (fst r) = operands (instructions registered ! k) w"
    if "decode_ref (instructions registered) w = Some k"
    using pc ans f [of w] that d0(2) by (simp add: data_of_def operands_def)
qed

lemma fold_bind_cache:
  assumes "fold (\<lambda>k r. Option.bind r (build_step k)) ks r = Some d'"
  shows "\<exists>d. r = Some d \<and> cache d' = cache d"
  using assms
proof (induction ks arbitrary: r)
  case (Cons k ks)
  then obtain d where d: "Option.bind r (build_step k) = Some d" "cache d' = cache d" by fastforce
  then obtain e where "r = Some e" "build_step k e = Some d" by (cases r) auto
  then show ?case using d(2) by (auto simp: build_step_def split: if_splits)
qed simp

lemma decoder_ready_init:
  assumes "init_all_instrs new_decoder = Some d"
  shows "decoder_ready d"
proof -
  have "cache (register_all tbl e) = cache e" for tbl and e :: "handler decoder"
    by (induction tbl arbitrary: e) (auto simp: register_all_def register_instr_def Let_def)
  then have "cache registered = cache (new_decoder :: handler decoder)" by (simp only: registered_def init_defs)
  moreover have "cache d = cache registered"
    using fold_bind_cache assms unfolding init_all_registered build_lut_def by fastforce
  ultimately have "cache d = (\<lambda>_. \<lparr>ways0 = empty_entry, ways1 = empty_entry, victim = False\<rparr>)"
    by (simp add: new_decoder_def)
  then have "decode_cache_inv d d" by (simp add: decode_cache_inv_def entry_ok_def empty_entry_def)
  with assms show ?thesis by (auto simp: decoder_ready_def)
qed

lemma decode_ref_unique:
  assumes ok: "table_ok tbl" and k: "k < length tbl" "size_i (tbl ! k) = 4" "matches (tbl ! k) w" and w: "w AND 3 = 3"
  shows "decode_ref tbl w = Some k"
proof -
  let ?P = "\<lambda>k. size_i (tbl ! k) = (if w AND 3 = 3 then 4 else 2) \<and> matches (tbl ! k) w"
  have "?P k" using k w by simp
  then have "scan tbl ?P [0..<length tbl] None \<noteq> None" using k(1) by (auto simp: scan_None_iff)
  then obtain j where j: "scan tbl ?P [0..<length tbl] None = Some j" by blast
  then have jk: "j < length tbl" "size_i (tbl ! j) = 4" "matches (tbl ! j) w" using w by (auto dest: scan_SomeD)
  have "hash_compat HASH_MASK (tbl ! i) w" if "i < length tbl" "matches (tbl ! i) w" for i
    using hash_compat_matches(1) [of "tbl ! i" w] ok that by (simp add: table_ok_def)
  with jk k have "j = k" by (intro table_compat_unique [OF ok]) auto
  with j show ?thesis by (simp add: decode_ref_def)
qed

text \<open>Instruction fetch without translation.\<close>

definition fetch_direct :: "nat \<Rightarrow> vm \<Rightarrow> bool" where
  "fetch_direct n v \<longleftrightarrow> n < length (harts v) \<and>
     (mode (hart_of n v) = Machine \<or> satp_mode (satp (hart_of n v)) = 0)"

lemma mmu_translate_direct:
  assumes "fetch_direct n v"
  shows "\<exists>t. mmu_translate n EXEC a v =
    Inr (MR True 0 0, a, v\<lparr>harts := (harts v)[n := (hart_of n v)\<lparr>htlb := t\<rparr>]\<rparr>)"
proof -
  have "get_effective_mode EXEC (hart_of n v) = mode (hart_of n v)" by (simp add: get_effective_mode_def)
  then have "\<exists>t. translate EXEC a (smcs v) (hart_of n v) (mmap v) =
      Inr (MR True 0 0, a, (hart_of n v)\<lparr>htlb := t\<rparr>, mmap v)"
    using assms unfolding translate_def Let_def fetch_direct_def by (auto split del: if_split)
  then show ?thesis by (auto simp: mmu_translate_def)
qed

lemma read_dram_ram:
  assumes "ram_ok v" "0x80000000 \<le> a" "unat a + k \<le> 0x80000000 + unat (mmio_memsize v)" "k = 2 \<or> k = 4"
  shows "read_dram_fast a k (mmap v) = Inr (ram_at v a k)"
proof -
  obtain i where i: "ram_direct (mmap v) = Some i" "rsize (regions (mmap v) ! i) = mmio_memsize v"
    using assms(1) by (auto elim: ram_okE)
  have "unat (a - 0x80000000) + k \<le> unat (mmio_memsize v)"
    using assms(2,3) by (subst unat_sub) (auto simp: word_le_nat_alt)
  then show ?thesis
    using i assms(4) by (auto simp: read_dram_fast_def ram_at_def plain_size_def array_ok_def)
qed

lemma fetch_inside:
  assumes "ram_ok v" "inst_inside v a" "memsize h = mmio_memsize v"
  shows "\<not> fetch_outside a h" "\<not> fetch_outside (a + 2) h" "0x80000000 \<le> a + 2" "unat (a + 2) = unat a + 2"
proof -
  have ms: "unat (mmio_memsize v) \<le> 0x7FFFFFFF00000000"
    using assms(1) by (auto simp: word_le_nat_alt elim: ram_okE)
  have a: "0x80000000 \<le> unat a" "unat a + 4 \<le> 0x80000000 + unat (mmio_memsize v)"
    using assms(2) by (auto simp: inst_inside_def word_le_nat_alt)
  show a2: "unat (a + 2) = unat a + 2" using a ms by (subst unat_add_lem [THEN iffD1]) auto
  then show "0x80000000 \<le> a + 2" using a by (simp add: word_le_nat_alt)
  have e: "unat (0x80000000 + mmio_memsize v) = 0x80000000 + unat (mmio_memsize v)"
    using ms by (subst unat_add_lem [THEN iffD1]) auto
  have "unat (0x80000000 + mmio_memsize v - 2) = 0x80000000 + unat (mmio_memsize v) - 2"
    using a e by (subst unat_sub) (auto simp: word_le_nat_alt)
  then show "\<not> fetch_outside a h" "\<not> fetch_outside (a + 2) h"
    using a a2 assms(3) by (auto simp: fetch_outside_def word_le_nat_alt word_less_nat_alt)
qed

lemma ram_at_split:
  "ucast (ram_at v a 2) OR push_bit 16 (ucast (ram_at v (a + 2) 2)) = (ucast (ram_at v a 4) :: u32)"
proof (cases "ram_direct (mmap v)")
  case (Some i)
  show ?thesis
  proof (rule bit_word_eqI)
    fix n :: nat assume n: "n < LENGTH(32)"
    show "bit (ucast (ram_at v a 2) OR push_bit 16 (ucast (ram_at v (a + 2) 2)) :: u32) n =
      bit (ucast (ram_at v a 4) :: u32) n"
    proof (cases "n < 16")
      case True
      then show ?thesis by (simp add: ram_at_def Some bit_simps bit_load_bytes)
    next
      case False
      then obtain k where k: "n = 16 + k" using le_iff_add [of 16 n] by auto
      have "(16 + k) div 8 = 2 + k div 8" "(16 + k) mod 8 = k mod 8" by presburger+
      then show ?thesis using n k by (simp add: ram_at_def Some bit_simps bit_load_bytes algebra_simps)
    qed
  qed
qed (simp add: ram_at_def)

lemma fetch_decode_ready:
  assumes "decoder_ready (idec v)" "a \<noteq> 0"
  shows "\<exists>d. decoder_ready d \<and> instructions d = instructions registered \<and>
    (case decode_ref (instructions registered) w of
       None \<Rightarrow> fetch_decode a w v = Inr (MR False EXC_ILLEGAL_INSTRUCTION (ucast w), a, None, v\<lparr>idec := d\<rparr>)
     | Some k \<Rightarrow> \<exists>c. ic_inst c = Some k \<and> ic_data c = operands (instructions registered ! k) w \<and>
         fetch_decode a w v = Inr (MR True 0 0, a, Some c, v\<lparr>idec := d\<rparr>))"
proof -
  define r where "r = decode_inst (g_smc_epoch (smcs v)) a w (idec v)"
  have fd: "fetch_decode a w v = (if ic_pc (fst r) = 0
      then Inr (MR False EXC_ILLEGAL_INSTRUCTION (ucast w), a, None, v\<lparr>idec := snd r\<rparr>)
      else Inr (MR True 0 0, a, Some (fst r), v\<lparr>idec := snd r\<rparr>))"
    by (simp add: fetch_decode_def r_def case_prod_beta Let_def)
  note ready = decode_ready [OF assms, where epoch = "g_smc_epoch (smcs v)" and w = w, folded r_def]
  show ?thesis
    using ready assms(2) by (intro exI [of _ "snd r"]) (auto simp: fd split: option.split)
qed

lemma fetch_runs:
  assumes fd: "fetch_direct n v" and ram: "ram_ok v" and ins: "inst_inside v a"
    and ms: "memsize (hart_of n v) = mmio_memsize v"
  shows "\<exists>t. fetchInstruction n a v =
    fetch_decode a (inst_word v a) (v\<lparr>harts := (harts v)[n := (hart_of n v)\<lparr>htlb := t\<rparr>]\<rparr>)"
proof -
  obtain t where t: "mmu_translate n EXEC a v = Inr (MR True 0 0, a, v\<lparr>harts := (harts v)[n := (hart_of n v)\<lparr>htlb := t\<rparr>]\<rparr>)"
    using mmu_translate_direct [OF fd] by blast
  let ?v = "v\<lparr>harts := (harts v)[n := (hart_of n v)\<lparr>htlb := t\<rparr>]\<rparr>"
  have n: "n < length (harts v)" using fd by (simp add: fetch_direct_def)
  have "fetch_direct n ?v" using fd by (simp add: fetch_direct_def)
  then obtain t2 where t2: "mmu_translate n EXEC (a + 2) ?v =
      Inr (MR True 0 0, a + 2, v\<lparr>harts := (harts v)[n := (hart_of n v)\<lparr>htlb := t2\<rparr>]\<rparr>)"
    using mmu_translate_direct [of n ?v "a + 2"] n by auto
  have inside: "0x80000000 \<le> a" "unat a + 4 \<le> 0x80000000 + unat (mmio_memsize v)"
    using ins by (simp_all add: inst_inside_def)
  note out = fetch_inside [OF ram ins ms]
  have rd: "read_dram_fast a 2 (mmap v) = Inr (ram_at v a 2)" "read_dram_fast a 4 (mmap v) = Inr (ram_at v a 4)"
    "read_dram_fast (a + 2) 2 (mmap v) = Inr (ram_at v (a + 2) 2)"
    using inside out by (auto intro!: read_dram_ram [OF ram])
  have "ram_direct (mmap v) \<noteq> None" using ram by (auto elim: ram_okE)
  then show ?thesis
    using t t2 n out rd ms
    by (auto simp: fetchInstruction_def inst_word_def ram_at_split fetch_outside_def)
qed

lemma begin_tick_keeps [simp]:
  "satp (begin_tick h) = satp h" "memsize (begin_tick h) = memsize h"
  by (simp_all add: begin_tick_def set_reg_def check_ints_def trap_def set_csr_def Let_def)

lemma ram_ok_harts [simp]: "ram_ok (v\<lparr>harts := hs\<rparr>) = ram_ok v"
  by (cases "ram_direct (mmap v)") (simp_all add: ram_ok_def)

lemma inst_word_harts [simp]: "inst_word (v\<lparr>harts := hs\<rparr>) = inst_word v"
proof -
  have "ram_at (v\<lparr>harts := hs\<rparr>) = ram_at v"
    by (intro ext, cases "ram_direct (mmap v)") (simp_all add: ram_at_def)
  then show ?thesis by (intro ext) (simp only: inst_word_def)
qed

lemma check_ints_outcome: "snd (check_ints h) = h \<or> (\<exists>c. snd (check_ints h) = trap c 0 True h)"
proof -
  have "\<exists>A B C X Y. check_ints h = (if A then (False, h) else if B then (True, trap X 0 True h)
      else if C then (True, trap Y 0 True h) else (False, h))"
    unfolding check_ints_def Let_def by (intro exI) (rule refl)
  then obtain A B C X Y where "check_ints h = (if A then (False, h) else if B then (True, trap X 0 True h)
      else if C then (True, trap Y 0 True h) else (False, h))" by blast
  then show ?thesis by (cases A; cases B; cases C) auto
qed

lemma trap_epc:
  "\<not> WFI (trap c tv irq h)"
  "csrs (trap c tv irq h) (if mode (trap c tv irq h) = Machine then 0x341 else 0x141) = pc h"
  by (simp_all add: trap_def set_csr_def Let_def)

text \<open>A machine about to run \<open>addi x1, x0, 5\<close> from the start of RAM.\<close>

definition boot_vm :: "u64 \<Rightarrow> handler decoder \<Rightarrow> vm" where
  "boot_vm start d = (sample_vm Machine 0)\<lparr>mmap := region_store 0 0 4 0x00500093 sample_ram, idec := d,
     harts := [(new_hart 0 0x4000)\<lparr>mode := Machine, pc := start\<rparr>]\<rparr>"

lemma boot_vm_simps [simp]:
  "harts (boot_vm start d) = [(new_hart 0 0x4000)\<lparr>mode := Machine, pc := start\<rparr>]"
  "mmio_memsize (boot_vm start d) = 0x4000" "idec (boot_vm start d) = d" "ram_ok (boot_vm start d)"
  by (simp_all add: boot_vm_def ram_ok_def sample_ram_def region_store_def)

lemma new_hart_regs:
  "GPR (new_hart i ms) = (\<lambda>_. 0)" "instret (new_hart i ms) = 0" "pc (new_hart i ms) = 0" "WFI (new_hart i ms) = False"
  by (simp_all add: new_hart_def)

lemma boot_tick:
  "begin_tick ((new_hart 0 0x4000)\<lparr>mode := Machine, pc := start\<rparr>) =
     (new_hart 0 0x4000)\<lparr>mode := Machine, pc := start, cycle := 1\<rparr>"
  by (simp add: begin_tick_def new_hart_def set_reg_def Let_def fun_upd_idem)

lemma boot_word: "inst_word (boot_vm start d) 0x80000000 = 0x00500093"
proof -
  have "ram_at (boot_vm start d) 0x80000000 4 = 0x00500093"
    by (simp add: ram_at_def boot_vm_def region_store_def sample_ram_def load_store_same mask_eq_exp_minus_1
        del: load_bytes.simps store_bytes.simps)
  moreover have "load_bytes p off 2 = take_bit 16 (load_bytes p off 4)" for p off
    by (rule bit_word_eqI) (auto simp: bit_load_bytes bit_take_bit_iff)
  then have "ram_at v a 2 = take_bit 16 (ram_at v a 4)" for v a
    by (simp add: ram_at_def split: option.split)
  ultimately show ?thesis by (simp add: inst_word_def take_bit_eq_mask mask_eq_exp_minus_1)
qed

lemma registered_addi:
  "15 < length (instructions registered)"
  "instructions registered ! 15 = make_instr ''*****************000*****0010011'' (RV_I H_ADDI) (Some imm_I)"
  by (simp_all add: registered_def init_defs new_decoder_def)

section \<open>Properties\<close>

text \<open>
  C1. A tick executes the instruction at the program counter: for a hart that fetches without
  translation from RAM, after the interrupt check, the tick runs the handler that a scan of the
  registered masks finds for the word at \<open>pc\<close>, with the operands of that word, and then advances or
  traps; a word that no mask matches traps as illegal. Only the TLB and the decode cache differ from
  what that description says, and the decoder stays ready for the next tick.
\<close>

theorem tick_executes:
  assumes "n < length (harts v)" and "ram_ok v" and "decoder_ready (idec v)"
    and "memsize (hart_of n v) = mmio_memsize v"
  defines "h \<equiv> begin_tick (hart_of n v)"
  assumes "\<not> WFI h" and "mode h = Machine \<or> satp_mode (satp h) = 0" and "inst_inside v (pc h)"
  shows "\<exists>t d. decoder_ready d \<and>
    (let v1 = v\<lparr>harts := (harts v)[n := h\<lparr>htlb := t\<rparr>], idec := d\<rparr>; w = inst_word v (pc h) in
     tick n v =
       (case decode_ref (instructions registered) w of
          None \<Rightarrow> Inr (upd_hart n (trap 2 (ucast w) False) v1)
        | Some k \<Rightarrow> and_then (exec_op (func (instructions registered ! k)) n (operands (instructions registered ! k) w) v1)
                     (\<lambda>(out, v'). Inr (finish_inst n out v'))))"
proof -
  let ?v = "v\<lparr>harts := (harts v)[n := h]\<rparr>"
  have v: "upd_hart n begin_tick v = ?v" by (simp add: upd_hart_def h_def)
  have hn: "hart_of n ?v = h" using assms(1) by simp
  have "fetch_direct n ?v" "ram_ok ?v" "inst_inside ?v (pc h)" "memsize (hart_of n ?v) = mmio_memsize ?v"
    using assms by (auto simp: fetch_direct_def inst_inside_def)
  from fetch_runs [OF this] obtain t where
    t: "fetchInstruction n (pc h) ?v = fetch_decode (pc h) (inst_word ?v (pc h)) (v\<lparr>harts := (harts v)[n := h\<lparr>htlb := t\<rparr>]\<rparr>)"
    using hn by auto
  let ?v1 = "v\<lparr>harts := (harts v)[n := h\<lparr>htlb := t\<rparr>]\<rparr>"
  have "pc h \<noteq> 0" using assms(8) by (auto simp: inst_inside_def word_le_nat_alt)
  then obtain d where d: "decoder_ready d" "instructions d = instructions registered"
    and c: "case decode_ref (instructions registered) (inst_word v (pc h)) of
       None \<Rightarrow> fetch_decode (pc h) (inst_word v (pc h)) ?v1 =
         Inr (MR False 2 (ucast (inst_word v (pc h))), pc h, None, ?v1\<lparr>idec := d\<rparr>)
     | Some k \<Rightarrow> \<exists>c. ic_inst c = Some k \<and> ic_data c = operands (instructions registered ! k) (inst_word v (pc h)) \<and>
         fetch_decode (pc h) (inst_word v (pc h)) ?v1 = Inr (MR True 0 0, pc h, Some c, ?v1\<lparr>idec := d\<rparr>)"
    using fetch_decode_ready [of ?v1 "pc h" "inst_word v (pc h)"] assms(3) by auto
  have "tick n v = and_then (fetchInstruction n (pc h) ?v) (\<lambda>(outd, phys_pc, c, v).
        case c of
          None \<Rightarrow> Inr (upd_hart n (trap (ucast (exc_code outd)) (mem_tval outd) False) v)
        | Some ce \<Rightarrow> and_then (single_inst n ce v) (\<lambda>(out, v). Inr (finish_inst n out v)))"
    using assms(6) hn by (simp add: tick_def v Let_def)
  then have "tick n v = and_then (fetch_decode (pc h) (inst_word v (pc h)) ?v1) (\<lambda>(outd, phys_pc, c, v).
        case c of
          None \<Rightarrow> Inr (upd_hart n (trap (ucast (exc_code outd)) (mem_tval outd) False) v)
        | Some ce \<Rightarrow> and_then (single_inst n ce v) (\<lambda>(out, v). Inr (finish_inst n out v)))"
    by (simp only: t inst_word_harts)
  with c d show ?thesis
    by (intro exI [of _ t] exI [of _ d]) (auto simp: Let_def single_inst_def split: option.splits)
qed

theorem tick_executes_witness:
  "\<exists>d v'. init_all_instrs new_decoder = Some d \<and> tick 0 (boot_vm 0x80000000 d) = Inr v' \<and>
     GPR (hart_of 0 v') 1 = 5 \<and> pc (hart_of 0 v') = 0x80000004 \<and> instret (hart_of 0 v') = 1"
proof -
  obtain d where d: "init_all_instrs new_decoder = Some d"
    using build_lut_correct [OF registered_table registered_fresh] by (auto simp: init_all_registered)
  let ?v = "boot_vm 0x80000000 d" let ?ins = "instructions registered ! 15"
  have "decode_ref (instructions registered) 0x00500093 = Some 15"
    by (rule decode_ref_unique [OF registered_table])
       (simp_all add: registered_addi matches_def make_instr_def)
  moreover have "func ?ins = RV_I H_ADDI"
    by (simp add: registered_addi make_instr_def)
  moreover have "operands ?ins 0x00500093 = \<lparr>d_rs3_f = 0, d_rm_f = 0, rs1 = 0, rs2 = 5, rd = 1, inst = 0x00500093,
      imm = 5, isize = 4\<rparr>"
    by (simp add: registered_addi make_instr_def operands_def d_rs3_def d_rm_def d_rs1_def d_rs2_def d_rd_def imm_I_def
        sext_def get_bits_def)
  moreover have "\<exists>t d. decoder_ready d \<and>
    (let v1 = ?v\<lparr>harts := (harts ?v)[0 := (begin_tick (hart_of 0 ?v))\<lparr>htlb := t\<rparr>], idec := d\<rparr>;
         w = inst_word ?v (pc (begin_tick (hart_of 0 ?v))) in
     tick 0 ?v =
       (case decode_ref (instructions registered) w of
          None \<Rightarrow> Inr (upd_hart 0 (trap 2 (ucast w) False) v1)
        | Some k \<Rightarrow> and_then (exec_op (func (instructions registered ! k)) 0 (operands (instructions registered ! k) w) v1)
                     (\<lambda>(out, v'). Inr (finish_inst 0 out v'))))"
    using decoder_ready_init [OF d]
    by (intro tick_executes) (simp_all add: boot_tick inst_inside_def, simp_all add: new_hart_def)
  ultimately show ?thesis using d
    by (auto simp: boot_tick boot_word Let_def new_hart_regs on_hart_def exec_ADDI_def wr_rd_def set_reg_def
        finish_inst_def upd_hart_def)
qed

text \<open>
  A fetch that RAM does not answer traps: without translation, when the halfword at \<open>pc\<close> lies
  outside RAM, the tick enters the trap of an instruction access fault with \<open>pc\<close> as trap value and
  changes nothing else but the hart's TLB.
\<close>

theorem tick_fetch_fault:
  assumes "n < length (harts v)" and "ram_ok v"
  defines "h \<equiv> begin_tick (hart_of n v)"
  assumes "\<not> WFI h" and "mode h = Machine \<or> satp_mode (satp h) = 0" and "fetch_outside (pc h) h"
  shows "\<exists>t. tick n v = Inr (v\<lparr>harts := (harts v)[n := trap 1 (pc h) False (h\<lparr>htlb := t\<rparr>)]\<rparr>)"
proof -
  let ?v = "v\<lparr>harts := (harts v)[n := h]\<rparr>"
  have "fetch_direct n ?v" using assms by (auto simp: fetch_direct_def)
  from mmu_translate_direct [OF this, of "pc h"] obtain t where
    t: "mmu_translate n EXEC (pc h) ?v = Inr (MR True 0 0, pc h, v\<lparr>harts := (harts v)[n := h\<lparr>htlb := t\<rparr>]\<rparr>)"
    using assms(1) by auto
  moreover have "ram_direct (mmap v) \<noteq> None" using assms(2) by (auto elim: ram_okE)
  moreover have "upd_hart n begin_tick v = ?v" by (simp add: upd_hart_def h_def)
  ultimately show ?thesis
    using assms by (intro exI [of _ t]) (simp add: tick_def Let_def fetchInstruction_def upd_hart_def fetch_outside_def)
qed

theorem tick_fetch_fault_witness:
  "\<exists>v'. tick 0 (boot_vm 0x1000 new_decoder) = Inr v' \<and> csrs (hart_of 0 v') 0x342 = 1 \<and> csrs (hart_of 0 v') 0x343 = 0x1000"
proof -
  let ?v = "boot_vm 0x1000 new_decoder" let ?h = "begin_tick (hart_of 0 ?v)"
  have "\<exists>t. tick 0 ?v = Inr (?v\<lparr>harts := (harts ?v)[0 := trap 1 (pc ?h) False (?h\<lparr>htlb := t\<rparr>)]\<rparr>)"
    by (rule tick_fetch_fault) (simp_all add: boot_tick fetch_outside_def, simp_all add: new_hart_def)
  then show ?thesis by (auto simp: boot_tick trap_def set_csr_def Let_def)
qed

text \<open>
  A waiting hart wakes: when an interrupt that is enabled for it is pending, the next tick either
  enters the handler at once or ends the wait and leaves \<open>pc\<close> at the instruction after WFI.
\<close>

theorem wfi_wakes:
  assumes "n < length (harts v)" and "WFI (hart_of n v)" and "int_local_pending (hart_of n v)"
  shows "(\<not> WFI (begin_tick (hart_of n v)) \<and>
           csrs (begin_tick (hart_of n v)) (if mode (begin_tick (hart_of n v)) = Machine then 0x341 else 0x141) = pc (hart_of n v)) \<or>
         (\<exists>v'. tick n v = Inr v' \<and> \<not> WFI (hart_of n v') \<and> pc (hart_of n v') = pc (hart_of n v))"
proof -
  define h where "h = (set_reg 0 0 (hart_of n v))\<lparr>cycle := cycle (hart_of n v) + 1\<rparr>"
  have "int_local_pending h = int_local_pending (hart_of n v)"
    by (simp add: h_def set_reg_def int_local_pending_def)
  then have h: "WFI h" "int_local_pending h" "pc h = pc (hart_of n v)"
    using assms(2,3) by (simp_all add: h_def set_reg_def)
  have "begin_tick (hart_of n v) = h \<or> (\<exists>c. begin_tick (hart_of n v) = trap c 0 True h)"
    using check_ints_outcome [of h] by (auto simp: begin_tick_def h_def set_reg_def Let_def)
  then show ?thesis
  proof
    assume b: "begin_tick (hart_of n v) = h"
    then have "tick n v = Inr (v\<lparr>harts := (harts v)[n := h\<lparr>WFI := False\<rparr>]\<rparr>)"
      using assms(1) h by (simp add: tick_def upd_hart_def)
    then show ?thesis using assms(1) h by simp
  next
    assume "\<exists>c. begin_tick (hart_of n v) = trap c 0 True h"
    then show ?thesis using trap_epc [of _ 0 True h] h by fastforce
  qed
qed

theorem wfi_wakes_witness:
  "\<exists>v'. tick 0 ((boot_vm 0x80000000 new_decoder)\<lparr>harts := [(new_hart 0 0x4000)\<lparr>mode := Machine, pc := 0x80000000,
     instret := 5, WFI := True, ip := 0x80, ie := 0x80\<rparr>]\<rparr>) = Inr v' \<and> \<not> WFI (hart_of 0 v')"
proof -
  let ?h = "(new_hart 0 0x4000)\<lparr>mode := Machine, pc := 0x80000000, instret := 5, WFI := True, ip := 0x80, ie := 0x80\<rparr>"
  let ?v = "(boot_vm 0x80000000 new_decoder)\<lparr>harts := [?h]\<rparr>"
  have "WFI (begin_tick ?h)" by (simp add: begin_tick_def set_reg_def new_hart_def Let_def)
  moreover have "int_local_pending ?h" by (simp add: int_local_pending_def new_hart_def)
  ultimately show ?thesis using wfi_wakes [of 0 ?v] by auto
qed

end
