(* ===== verification/Blocks.thy ===== *)
theory Blocks
  imports Exec
begin

unbundle bit_operations_syntax

text \<open>
  The block cache and the block runner, include/block_cache.hpp and src/block.cpp: straight-line runs of
  decoded instructions that are looked up by physical address, and the loop that runs them. The
  machine is modelled without the JIT (\<open>jctx\<close> is null), so the dispatch memo of the hart stays empty.
\<close>

section \<open>Blocks\<close>

abbreviation (input) BLOCK_MAX_INSTS :: nat where "BLOCK_MAX_INSTS \<equiv> 16"
abbreviation (input) BLOCK_CACHE_SIZE :: u64 where "BLOCK_CACHE_SIZE \<equiv> 2 ^ 15"

record block_instr =
  bi_inst :: "nat option"
  bi_data :: instruction_data
  bi_increase_pc :: u8

record block =
  start_phys :: u64
  b_gen :: u64
  b_smc :: u64
  b_count :: nat
  last_inst :: u32
  b_instrs :: "block_instr list"

record block_cache =
  bc_generation :: u64
  slots :: "u64 \<Rightarrow> block"

text \<open>\<open>new BlockCache()\<close> zeroes the blocks; the generation starts at 1.\<close>

definition empty_block :: block where
  "empty_block = \<lparr>start_phys = 0, b_gen = 0, b_smc = 0, b_count = 0, last_inst = 0,
     b_instrs = replicate BLOCK_MAX_INSTS \<lparr>bi_inst = None, bi_data = ic_data empty_entry, bi_increase_pc = 0\<rparr>\<rparr>"

definition new_block_cache :: block_cache where
  "new_block_cache = \<lparr>bc_generation = 1, slots = (\<lambda>_. empty_block)\<rparr>"

definition bc_clear :: "block_cache \<Rightarrow> block_cache" where
  "bc_clear bc = bc\<lparr>bc_generation := bc_generation bc + 1\<rparr>"

definition bc_lookup :: "u64 \<Rightarrow> u64 \<Rightarrow> block_cache \<Rightarrow> block option" where
  "bc_lookup epoch phys_pc bc =
     (let b = slots bc (drop_bit 1 phys_pc AND (BLOCK_CACHE_SIZE - 1)) in
      if start_phys b = phys_pc \<and> b_gen b = bc_generation bc \<and> b_smc b = epoch then Some b else None)"

section \<open>Block boundaries\<close>

definition writes_reg :: "u32 \<Rightarrow> bool" where
  "writes_reg w \<longleftrightarrow> w AND 0x7F \<in> {0x13, 0x33, 0x37, 0x17, 0x6F, 0x67, 0x03}"

definition is_block_end :: "u32 \<Rightarrow> bool" where
  "is_block_end w =
     (if w AND 0x7F \<in> {0x63, 0x6F, 0x67, 0x73, 0x0F} then True
      else if w AND 0x3 \<noteq> 0x3 then
        if w AND 0x3 = 0x1 then drop_bit 13 w AND 0x7 \<in> {0x5, 0x1, 0x6, 0x7}
        else w AND 0x7F = 0x02 \<and> w AND 0xE003 = 0x8002
      else False)"

section \<open>Compiling a block\<close>

text \<open>
  The while loop of \<open>compile_block\<close>: \<open>r\<close> counts the free entries of the block, \<open>cnt\<close> is the local
  \<open>n\<close>. The loop ends at a fetch that fails, before an instruction that writes x0, and after a control
  transfer.
\<close>

primrec compile_loop :: "nat \<Rightarrow> nat \<Rightarrow> u64 \<Rightarrow> nat \<Rightarrow> block \<Rightarrow> vm \<Rightarrow> (nat \<times> block \<times> vm) result" where
  "compile_loop 0 n pc_va cnt b v = Inr (cnt, b, v)"
| "compile_loop (Suc r) n pc_va cnt b v =
     and_then (fetchInstruction n pc_va v) (\<lambda>(mr, phys, c, v).
     case c of
       None \<Rightarrow> Inr (cnt, b, v)
     | Some ce \<Rightarrow>
         let w = inst (ic_data ce) in
         if ic_pc ce = 0 then Inr (cnt, b, v)
         else if w AND 0x3 = 0x3 \<and> writes_reg w \<and> drop_bit 7 w AND 0x1F = 0 then Inr (cnt, b, v)
         else
           let inc = (if w AND 0x3 = 0x3 then 4 else 2);
               b = b\<lparr>b_instrs := (b_instrs b)[cnt := \<lparr>bi_inst = ic_inst ce, bi_data = ic_data ce, bi_increase_pc = inc\<rparr>],
                      last_inst := w\<rparr>
           in if is_block_end w then Inr (cnt + 1, b, v)
              else compile_loop r n (pc_va + ucast inc) (cnt + 1) b v)"

text \<open>
  The loop over the pages of the block. A block spans at most 64 bytes, so it has at most two
  iterations, and the fuel 2 never runs out.
\<close>

primrec mark_pages :: "nat \<Rightarrow> nat \<Rightarrow> u64 \<Rightarrow> u64 \<Rightarrow> vm \<Rightarrow> vm" where
  "mark_pages 0 n p p1 v = v"
| "mark_pages (Suc f) n p p1 v =
     (if p \<le> p1 then
        let v = v\<lparr>smcs := mark_page_executed p (smcs v)\<rparr>;
            v = upd_hart n (\<lambda>h. h\<lparr>htlb := note_exec p (htlb h)\<rparr>) v
        in mark_pages f n (p + 0x1000) p1 v
      else v)"

definition compile_slot :: "u64 \<Rightarrow> u64" where
  "compile_slot phys = drop_bit 2 phys AND (BLOCK_CACHE_SIZE - 1)"

text \<open>The result \<open>None\<close> is the null pointer; the slot keeps what the loop left in it.\<close>

definition compile_block :: "nat \<Rightarrow> u64 \<Rightarrow> block_cache \<Rightarrow> vm \<Rightarrow> (block option \<times> block_cache \<times> vm) result" where
  "compile_block n phys bc v =
     (let b = (slots bc (compile_slot phys))\<lparr>b_gen := 0, start_phys := phys\<rparr> in
      and_then (compile_loop BLOCK_MAX_INSTS n (pc (hart_of n v)) 0 b v) (\<lambda>(cnt, b, v).
      if cnt = 0 then Inr (None, bc\<lparr>slots := (slots bc)(compile_slot phys := b)\<rparr>, v)
      else
        let b = b\<lparr>b_count := cnt, b_gen := bc_generation bc, b_smc := g_smc_epoch (smcs v)\<rparr>;
            v = mark_pages 2 n (phys AND NOT 0xFFF) ((phys + of_nat cnt * 4) AND NOT 0xFFF) v
        in Inr (Some b, bc\<lparr>slots := (slots bc)(compile_slot phys := b)\<rparr>, v)))"

section \<open>Running a block\<close>

text \<open>
  The outcome of \<open>run_block\<close>: the number of finished instructions and, on a fault, its cause and
  value.
\<close>

definition call_block_instr :: "nat \<Rightarrow> block_instr \<Rightarrow> vm \<Rightarrow> (exec_return \<times> vm) result" where
  "call_block_instr n ci v =
     (case bi_inst ci of
        None \<Rightarrow> Inl Null_pointer
      | Some k \<Rightarrow> exec_op (func (instructions (idec v) ! k)) n (bi_data ci) v)"

definition advance_pc :: "exec_return \<Rightarrow> hart \<Rightarrow> hart" where
  "advance_pc r h = h\<lparr>pc := pc h + ucast (increase_pc r)\<rparr>"

fun run_instrs :: "nat \<Rightarrow> block_instr list \<Rightarrow> nat \<Rightarrow> vm \<Rightarrow> (nat \<times> (u8 \<times> u64) option \<times> vm) result" where
  "run_instrs n [] k v = Inl Vector_index"
| "run_instrs n [ci] k v =
     and_then (call_block_instr n ci v) (\<lambda>(r, v).
     if \<not> is_success r then Inr (k, Some (cause r, tval r), v)
     else Inr (k + 1, None, upd_hart n (advance_pc r) v))"
| "run_instrs n (ci # cj # cs) k v =
     and_then (call_block_instr n ci v) (\<lambda>(r, v).
     if \<not> is_success r then Inr (k, Some (cause r, tval r), v)
     else run_instrs n (cj # cs) (k + 1) (upd_hart n (set_reg 0 0) (upd_hart n (advance_pc r) v)))"

definition run_block :: "nat \<Rightarrow> block \<Rightarrow> vm \<Rightarrow> (nat \<times> (u8 \<times> u64) option \<times> vm) result" where
  "run_block n b v = run_instrs n (take (b_count b) (b_instrs b)) 0 (upd_hart n (set_reg 0 0) v)"

section \<open>The loop over blocks\<close>

definition try_ints :: "nat \<Rightarrow> vm \<Rightarrow> bool \<times> vm" where
  "try_ints n v =
     (let h = hart_of n v in
      if ip h AND ie h \<noteq> 0 then (fst (check_ints h), upd_hart n (snd \<circ> check_ints) v) else (False, v))"

definition wake :: "hart \<Rightarrow> hart" where
  "wake h = (if int_local_pending h then h\<lparr>WFI := False\<rparr> else h)"

text \<open>
  One iteration of the loop of \<open>run_blocks\<close> in three parts: the end of an iteration that ran a block,
  the block or the single step that is run, and the checks before it. The flag of the result says
  that the loop goes on, the number is the new \<open>total\<close>.
\<close>

definition after_block ::
  "nat \<Rightarrow> u64 \<Rightarrow> block_cache \<Rightarrow> block \<Rightarrow> nat \<Rightarrow> (u8 \<times> u64) option \<Rightarrow> vm \<Rightarrow> bool \<times> u64 \<times> block_cache \<times> vm" where
  "after_block n tot bc b executed fault v =
     (let prev_instret = instret (hart_of n v);
          v = upd_hart n (\<lambda>h. h\<lparr>instret := instret h + of_nat executed, cycle := cycle h + of_nat executed\<rparr>) v;
          tot = tot + of_nat executed
      in case fault of
           Some (c, t) \<Rightarrow> (False, tot, bc, upd_hart n (trap (ucast c) t False) v)
         | None \<Rightarrow>
             let (brk, v) = (if 0x3000 \<le> (prev_instret AND 0x2FFF) + of_nat executed then try_ints n v
                             else (False, v)) in
             if brk then (False, tot, bc, v)
             else (True, tot, if last_inst b AND 0x7F = 0x0F then bc_clear bc else bc, v))"

definition run_dispatched ::
  "nat \<Rightarrow> u64 \<Rightarrow> block option \<Rightarrow> block_cache \<Rightarrow> vm \<Rightarrow> (bool \<times> u64 \<times> block_cache \<times> vm) result" where
  "run_dispatched n tot ob bc v =
     (case ob of
        None \<Rightarrow> and_then (tick n v) (\<lambda>v.
          if WFI (hart_of n v) then Inr (False, tot, bc, v) else Inr (True, tot + 1, bc, v))
      | Some b \<Rightarrow> and_then (run_block n b v) (\<lambda>(executed, fault, v). Inr (after_block n tot bc b executed fault v)))"

definition find_block :: "nat \<Rightarrow> u64 \<Rightarrow> block_cache \<Rightarrow> vm \<Rightarrow> (block option \<times> block_cache \<times> vm) result" where
  "find_block n phys bc v =
     (case bc_lookup (g_smc_epoch (smcs v)) phys bc of
        Some b \<Rightarrow> Inr (Some b, bc, v)
      | None \<Rightarrow> compile_block n phys bc v)"

definition block_iter ::
  "nat \<Rightarrow> u64 \<Rightarrow> u64 \<Rightarrow> block_cache \<Rightarrow> vm \<Rightarrow> (bool \<times> u64 \<times> block_cache \<times> vm) result" where
  "block_iter n max_insts tot bc v =
     (if WFI (hart_of n v) then Inr (False, tot, bc, upd_hart n wake v)
      else if max_insts \<le> tot then Inr (False, tot, bc, v)
      else
        let (brk, v) = (if instret (hart_of n v) AND 0x2FFF = 0 then try_ints n v else (False, v)) in
        if brk then Inr (False, tot, bc, v)
        else and_then (mmu_translate n EXEC (pc (hart_of n v)) v) (\<lambda>(mr, phys, v).
        if \<not> mem_success mr
          then Inr (False, tot, bc, upd_hart n (trap (ucast (exc_code mr)) (mem_tval mr) False) v)
        else and_then (find_block n phys bc v) (\<lambda>(ob, bc, v). run_dispatched n tot ob bc v)))"

text \<open>\<open>None\<close> is a loop that has not ended within the fuel.\<close>

fun blocks_loop ::
  "nat \<Rightarrow> nat \<Rightarrow> u64 \<Rightarrow> u64 \<Rightarrow> block_cache \<Rightarrow> vm \<Rightarrow> (u64 \<times> block_cache \<times> vm) result option" where
  "blocks_loop 0 n max_insts tot bc v = None"
| "blocks_loop (Suc f) n max_insts tot bc v =
     (case block_iter n max_insts tot bc v of
        Inl e \<Rightarrow> Some (Inl e)
      | Inr (go, tot, bc, v) \<Rightarrow>
          if go then blocks_loop f n max_insts tot bc v else Some (Inr (tot, bc, v)))"

definition run_blocks ::
  "nat \<Rightarrow> nat \<Rightarrow> u64 \<Rightarrow> block_cache \<Rightarrow> vm \<Rightarrow> (u64 \<times> block_cache \<times> vm) result option" where
  "run_blocks f n max_insts bc v =
     (if WFI (hart_of n v) then Some (Inr (0, bc, upd_hart n wake v))
      else blocks_loop f n max_insts 0 bc v)"

section \<open>Well-formed block caches\<close>

text \<open>
  Every block has room for sixteen instructions, and one that carries a generation stands in the
  slot that \<open>compile_block\<close> chooses for its address.
\<close>

definition bc_wf :: "block_cache \<Rightarrow> bool" where
  "bc_wf bc \<longleftrightarrow> (\<forall>s. length (b_instrs (slots bc s)) = BLOCK_MAX_INSTS \<and>
     (b_gen (slots bc s) = 0 \<or> compile_slot (start_phys (slots bc s)) = s))"

lemma bc_wf_new: "bc_wf new_block_cache"
  by (simp add: bc_wf_def new_block_cache_def empty_block_def)

lemma bc_wf_clear: "bc_wf bc \<Longrightarrow> bc_wf (bc_clear bc)"
  by (simp add: bc_wf_def bc_clear_def)

lemma compile_loop_frame:
  assumes "compile_loop r n a cnt b v = Inr (cnt', b', v')"
  shows "cnt \<le> cnt' \<and> cnt' \<le> cnt + r \<and> length (b_instrs b') = length (b_instrs b) \<and>
    start_phys b' = start_phys b \<and> b_gen b' = b_gen b"
  using assms
proof (induction r arbitrary: a cnt b v)
  case (Suc r)
  from Suc.prems obtain mr phys c v1 where f: "fetchInstruction n a v = Inr (mr, phys, c, v1)"
    by (auto simp: and_then_Inr_iff)
  show ?case
  proof (cases c)
    case None
    then show ?thesis using Suc.prems f by simp
  next
    case (Some ce)
    let ?b = "b\<lparr>b_instrs := (b_instrs b)[cnt := \<lparr>bi_inst = ic_inst ce, bi_data = ic_data ce,
        bi_increase_pc = (if inst (ic_data ce) AND 0x3 = 0x3 then 4 else 2)\<rparr>], last_inst := inst (ic_data ce)\<rparr>"
    consider "cnt' = cnt \<and> b' = b" | "cnt' = cnt + 1 \<and> b' = ?b"
      | a' where "compile_loop r n a' (cnt + 1) ?b v1 = Inr (cnt', b', v')"
      using Suc.prems f Some by (auto simp: Let_def split: if_splits)
    then show ?thesis
    proof cases
      case 3
      from Suc.IH [OF this] show ?thesis by simp
    qed auto
  qed
qed simp

lemma compile_block_result:
  assumes "bc_wf bc" and "compile_block n phys bc v = Inr (ob, bc', v')"
  shows "bc_wf bc' \<and> bc_generation bc' = bc_generation bc \<and>
    (case ob of
       None \<Rightarrow> True
     | Some b \<Rightarrow> 1 \<le> b_count b \<and> b_count b \<le> 16 \<and> length (b_instrs b) = 16 \<and> start_phys b = phys \<and>
         b_gen b = bc_generation bc \<and> slots bc' = (slots bc)(compile_slot phys := b))"
proof -
  let ?b = "(slots bc (compile_slot phys))\<lparr>b_gen := 0, start_phys := phys\<rparr>"
  obtain cnt b v1 where l: "compile_loop 16 n (pc (hart_of n v)) 0 ?b v = Inr (cnt, b, v1)"
    using assms(2) by (auto simp: compile_block_def Let_def and_then_Inr_iff)
  have "length (b_instrs ?b) = 16" using assms(1) by (simp add: bc_wf_def)
  with compile_loop_frame [OF l] have b: "cnt \<le> 16" "length (b_instrs b) = 16" "start_phys b = phys" "b_gen b = 0"
    by simp_all
  have upd: "bc_wf (bc\<lparr>slots := (slots bc)(compile_slot phys := c)\<rparr>)"
    if "length (b_instrs c) = 16" "start_phys c = phys" for c
    using assms(1) that unfolding bc_wf_def by simp
  show ?thesis
  proof (cases "cnt = 0")
    case True
    with assms(2) l upd [OF b(2,3)] show ?thesis by (auto simp: compile_block_def Let_def)
  next
    case False
    let ?c = "b\<lparr>b_count := cnt, b_gen := bc_generation bc, b_smc := g_smc_epoch (smcs v1)\<rparr>"
    have "ob = Some ?c" "bc' = bc\<lparr>slots := (slots bc)(compile_slot phys := ?c)\<rparr>"
      using assms(2) l False by (auto simp: compile_block_def Let_def)
    with b upd [of ?c] False show ?thesis by simp
  qed
qed

section \<open>Progress\<close>

lemma run_instrs_count:
  "run_instrs n xs k v = Inr (e, fault, v') \<Longrightarrow>
     k \<le> e \<and> e \<le> k + length xs \<and> (fault = None \<longrightarrow> e = k + length xs \<and> xs \<noteq> [])"
proof (induction n xs k v arbitrary: e fault v' rule: run_instrs.induct)
  case (2 n ci k v)
  then show ?case by (auto elim!: and_then_InrE split: if_splits)
next
  case (3 n ci cj cs k v)
  then obtain r v1 where r: "call_block_instr n ci v = Inr (r, v1)" by (auto elim!: and_then_InrE)
  show ?case
  proof (cases "is_success r")
    case True
    with "3.prems" r have "run_instrs n (cj # cs) (k + 1)
        (upd_hart n (set_reg 0 0) (upd_hart n (advance_pc r) v1)) = Inr (e, fault, v')" by simp
    from "3.IH" [OF _ this] True show ?thesis by fastforce
  next
    case False
    with "3.prems" r show ?thesis by auto
  qed
qed simp

lemma bc_lookup_slot: "bc_lookup ep phys bc = Some b \<Longrightarrow> \<exists>s. b = slots bc s"
  by (intro exI [of _ "drop_bit 1 phys AND 32767"]) (simp add: bc_lookup_def Let_def split: if_splits)

text \<open>A block of the loop, looked up or compiled, has room for sixteen instructions.\<close>

lemma find_block_wf:
  assumes "bc_wf bc" and "find_block n phys bc v = Inr (ob, bc', v')"
  shows "bc_wf bc'" and "ob = Some b \<Longrightarrow> length (b_instrs b) = 16"
proof -
  have "bc_wf bc' \<and> (\<forall>b. ob = Some b \<longrightarrow> length (b_instrs b) = 16)"
  proof (cases "bc_lookup (g_smc_epoch (smcs v)) phys bc")
    case None
    with assms(2) have "compile_block n phys bc v = Inr (ob, bc', v')" by (simp add: find_block_def)
    from compile_block_result [OF assms(1) this] show ?thesis by auto
  next
    case (Some b0)
    then obtain s where "b0 = slots bc s" using bc_lookup_slot by blast
    with assms Some show ?thesis by (auto simp: find_block_def bc_wf_def)
  qed
  then show "bc_wf bc'" "ob = Some b \<Longrightarrow> length (b_instrs b) = 16" by blast+
qed

text \<open>
  An iteration that does not end the loop finishes between one and sixteen instructions, and one
  that ends it at most sixteen.
\<close>

definition iter_ok :: "u64 \<Rightarrow> bool \<times> u64 \<times> block_cache \<times> vm \<Rightarrow> bool" where
  "iter_ok tot r \<longleftrightarrow> (case r of (go, tot', bc, v) \<Rightarrow>
     bc_wf bc \<and> (\<exists>e \<le> 16. tot' = tot + of_nat e \<and> (go \<longrightarrow> 1 \<le> e)))"

lemma iter_ok_intros:
  "bc_wf bc \<Longrightarrow> iter_ok tot (False, tot, bc, v)"
  "bc_wf bc \<Longrightarrow> iter_ok tot (True, tot + 1, bc, v)"
  "bc_wf bc \<Longrightarrow> e \<le> 16 \<Longrightarrow> (go \<longrightarrow> 1 \<le> e) \<Longrightarrow> iter_ok tot (go, tot + of_nat e, bc, v)"
  unfolding iter_ok_def by (auto intro: exI [of _ 0] exI [of _ 1])

lemma after_block_ok:
  assumes "bc_wf bc" and "e \<le> 16" and "fault = None \<Longrightarrow> 1 \<le> e"
  shows "iter_ok tot (after_block n tot bc b e fault v)"
  using assms
  by (auto simp: after_block_def Let_def bc_wf_clear intro!: iter_ok_intros(3) split: option.split prod.split)

lemma run_dispatched_ok:
  assumes "bc_wf bc" and "\<And>b. ob = Some b \<Longrightarrow> length (b_instrs b) = 16"
    and "run_dispatched n tot ob bc v = Inr r"
  shows "iter_ok tot r"
proof (cases ob)
  case None
  with assms show ?thesis
    by (auto simp: run_dispatched_def and_then_Inr_iff intro: iter_ok_intros split: if_splits)
next
  case (Some b)
  with assms(3) obtain e fault v1 where rb: "run_block n b v = Inr (e, fault, v1)"
    and r: "r = after_block n tot bc b e fault v1"
    by (auto simp: run_dispatched_def and_then_Inr_iff)
  have "e \<le> 16" "fault = None \<longrightarrow> 1 \<le> e"
    using run_instrs_count [OF rb [unfolded run_block_def]] assms(2) [OF Some] by (auto simp: Suc_le_eq)
  then show ?thesis unfolding r by (intro after_block_ok assms(1)) auto
qed

lemma block_iter_ok:
  assumes "bc_wf bc" and "block_iter n mx tot bc v = Inr r"
  shows "iter_ok tot r \<and> (mx \<le> tot \<longrightarrow> \<not> fst r \<and> fst (snd r) = tot)"
proof (cases "WFI (hart_of n v) \<or> mx \<le> tot")
  case True
  with assms show ?thesis by (auto simp: block_iter_def intro: iter_ok_intros split: if_splits)
next
  case False
  obtain brk v1 where b: "(if instret (hart_of n v) AND 0x2FFF = 0 then try_ints n v else (False, v)) = (brk, v1)"
    by fastforce
  show ?thesis
  proof (cases brk)
    case True
    with assms False b show ?thesis by (auto simp: block_iter_def intro: iter_ok_intros)
  next
    case nb: False
    with assms(2) False b obtain mr phys v2
      where t: "mmu_translate n EXEC (pc (hart_of n v1)) v1 = Inr (mr, phys, v2)"
      by (auto simp: block_iter_def and_then_Inr_iff)
    show ?thesis
    proof (cases "mem_success mr")
      case True
      with assms(2) False b nb t obtain ob bc1 v3 where fb: "find_block n phys bc v2 = Inr (ob, bc1, v3)"
        and rd: "run_dispatched n tot ob bc1 v3 = Inr r"
        by (auto simp: block_iter_def and_then_Inr_iff)
      from run_dispatched_ok [OF find_block_wf [OF assms(1) fb] rd] False show ?thesis by simp
    next
      case ns: False
      with assms False b nb t show ?thesis by (auto simp: block_iter_def intro: iter_ok_intros)
    qed
  qed
qed

text \<open>The budget left bounds the iterations, as every one that goes on uses some of it.\<close>

lemma blocks_loop_terminates:
  assumes "bc_wf bc" and "mx \<le> 2 ^ 63" and "unat tot < unat mx + 16" and "unat mx - unat tot < f"
  shows "\<exists>r. blocks_loop f n mx tot bc v = Some r \<and>
    (\<forall>tot' bc' v'. r = Inr (tot', bc', v') \<longrightarrow> bc_wf bc' \<and> unat tot' < unat mx + 16)"
  using assms
proof (induction f arbitrary: tot bc v)
  case (Suc f)
  show ?case
  proof (cases "block_iter n mx tot bc v")
    case (Inr r)
    obtain go tot' bc' v' where r: "r = (go, tot', bc', v')" by (cases r)
    from block_iter_ok [OF Suc.prems(1) Inr] obtain e where
      wf: "bc_wf bc'" and e: "e \<le> 16" "tot' = tot + of_nat e" "go \<longrightarrow> 1 \<le> e"
      and stop: "mx \<le> tot \<longrightarrow> \<not> go \<and> tot' = tot"
      unfolding r iter_ok_def by auto
    have small: "unat mx \<le> 2 ^ 63" using Suc.prems(2) by (simp add: word_le_nat_alt)
    have add: "unat tot' = unat tot + e"
      using e(1,2) small Suc.prems(3) by (simp add: unat_word_ariths unat_of_nat)
    have bound: "unat tot' < unat mx + 16"
      using stop add e(1) Suc.prems(3) by (cases "mx \<le> tot") (auto simp: word_le_nat_alt)
    show ?thesis
    proof (cases go)
      case True
      with stop have "unat tot < unat mx" by (auto simp: word_le_nat_alt)
      then have "unat mx - unat tot' < f" using Suc.prems(4) add e(3) True by simp
      from Suc.IH [OF wf Suc.prems(2) bound this] show ?thesis using Inr r True by simp
    next
      case False
      with Inr r wf bound show ?thesis by simp
    qed
  qed simp
qed simp

lemma run_blocks_ends:
  assumes "bc_wf bc" and "max_insts \<le> 2 ^ 63"
  shows "\<exists>r. run_blocks (Suc (unat max_insts)) n max_insts bc v = Some r \<and>
    (\<forall>tot bc' v'. r = Inr (tot, bc', v') \<longrightarrow> bc_wf bc' \<and> unat tot < unat max_insts + 16)"
proof (cases "WFI (hart_of n v)")
  case True
  with assms(1) show ?thesis by (simp add: run_blocks_def)
next
  case False
  with blocks_loop_terminates [OF assms, of 0 "Suc (unat max_insts)" n v] show ?thesis
    by (simp add: run_blocks_def)
qed

text \<open>
  C5. The loop of \<open>run_blocks\<close> ends for every machine state, every well-formed block cache and every
  budget up to 2^63, also when the code it runs loops: an iteration that does not leave the loop
  finishes at least one instruction. With the fuel max_insts + 1 the model returns (or reports the
  undefined operation the code ran into), at most 15 instructions run past the budget, and the
  cache stays well formed.
\<close>

theorem run_blocks_terminates:
  assumes "bc_wf bc" and "max_insts \<le> 2 ^ 63"
  shows "\<exists>r. run_blocks (Suc (unat max_insts)) n max_insts bc v = Some r \<and>
    (\<forall>tot bc' v'. r = Inr (tot, bc', v') \<longrightarrow> bc_wf bc' \<and> unat tot < unat max_insts + 16)"
  by (rule run_blocks_ends [OF assms])

theorem run_blocks_terminates_witness:
  "\<exists>r. run_blocks 1001 0 1000 new_block_cache (boot_vm 0x80000000 new_decoder) = Some r"
  using run_blocks_terminates [OF bc_wf_new, of 1000 0 "boot_vm 0x80000000 new_decoder"] by auto

section \<open>What a block holds\<close>

text \<open>
  The reference for a compiled block: the decoded instructions of the consecutive words from an
  address on, read off RAM and the registered table without cache, TLB or slot. It ends before a word that no
  mask matches or that writes x0, after a control transfer, and at the block size.
\<close>

primrec block_code :: "nat \<Rightarrow> vm \<Rightarrow> u64 \<Rightarrow> block_instr list" where
  "block_code 0 v a = []"
| "block_code (Suc r) v a =
     (let w = inst_word v a; len = (if w AND 3 = 3 then 4 else 2) in
      case decode_ref (instructions registered) w of
        None \<Rightarrow> []
      | Some k \<Rightarrow>
          if w AND 3 = 3 \<and> writes_reg w \<and> drop_bit 7 w AND 0x1F = 0 then []
          else \<lparr>bi_inst = Some k, bi_data = operands (instructions registered ! k) w, bi_increase_pc = len\<rparr>
            # (if is_block_end w then [] else block_code r v (a + ucast len)))"

definition fetch_ready :: "nat \<Rightarrow> vm \<Rightarrow> bool" where
  "fetch_ready n v \<longleftrightarrow> fetch_direct n v \<and> ram_ok v \<and> decoder_ready (idec v) \<and>
     memsize (hart_of n v) = mmio_memsize v"

lemma inst_word_idec [simp]: "inst_word (v\<lparr>idec := d\<rparr>) = inst_word v"
proof -
  have "ram_at (v\<lparr>idec := d\<rparr>) = ram_at v"
    by (intro ext, cases "ram_direct (mmap v)") (simp_all add: ram_at_def)
  then show ?thesis by (intro ext) (simp only: inst_word_def)
qed

lemma ram_ok_idec [simp]: "ram_ok (v\<lparr>idec := d\<rparr>) = ram_ok v"
  by (cases "ram_direct (mmap v)") (simp_all add: ram_ok_def)

lemma block_code_frame: "inst_word v' = inst_word v \<Longrightarrow> block_code r v' a = block_code r v a"
  by (induction r arbitrary: a) (simp_all only: block_code.simps)

text \<open>One fetch of the loop: the word at the address, decoded; only the TLB and the decode cache change.\<close>

lemma fetch_ready_step:
  assumes rdy: "fetch_ready n v" and ins: "inst_inside v a"
  shows "\<exists>mr c v'. fetchInstruction n a v = Inr (mr, a, c, v') \<and> fetch_ready n v' \<and>
    inst_word v' = inst_word v \<and> mmio_memsize v' = mmio_memsize v \<and>
    (case decode_ref (instructions registered) (inst_word v a) of
       None \<Rightarrow> c = None
     | Some k \<Rightarrow> \<exists>ce. c = Some ce \<and> ic_pc ce \<noteq> 0 \<and> ic_inst ce = Some k \<and>
         ic_data ce = operands (instructions registered ! k) (inst_word v a))"
proof -
  have fd: "fetch_direct n v" "ram_ok v" "decoder_ready (idec v)" "memsize (hart_of n v) = mmio_memsize v"
    using rdy by (simp_all add: fetch_ready_def)
  obtain t where t: "fetchInstruction n a v =
      fetch_decode a (inst_word v a) (v\<lparr>harts := (harts v)[n := (hart_of n v)\<lparr>htlb := t\<rparr>]\<rparr>)"
    using fetch_runs [OF fd(1,2) ins fd(4)] by blast
  let ?v = "v\<lparr>harts := (harts v)[n := (hart_of n v)\<lparr>htlb := t\<rparr>]\<rparr>"
  have a: "a \<noteq> 0" using ins by (auto simp: inst_inside_def word_le_nat_alt)
  have "decoder_ready (idec ?v)" using fd(3) by simp
  from fetch_decode_ready [OF this a, of "inst_word v a"] obtain d where d: "decoder_ready d"
    and c: "case decode_ref (instructions registered) (inst_word v a) of
       None \<Rightarrow> fetch_decode a (inst_word v a) ?v =
         Inr (MR False EXC_ILLEGAL_INSTRUCTION (ucast (inst_word v a)), a, None, ?v\<lparr>idec := d\<rparr>)
     | Some k \<Rightarrow> \<exists>c. ic_inst c = Some k \<and> ic_data c = operands (instructions registered ! k) (inst_word v a) \<and>
         fetch_decode a (inst_word v a) ?v = Inr (MR True 0 0, a, Some c, ?v\<lparr>idec := d\<rparr>)"
    by blast
  have rdy': "fetch_ready n (?v\<lparr>idec := d\<rparr>)" "inst_word (?v\<lparr>idec := d\<rparr>) = inst_word v"
    "mmio_memsize (?v\<lparr>idec := d\<rparr>) = mmio_memsize v"
    using fd d by (auto simp: fetch_ready_def fetch_direct_def)
  have nz: "ic_pc ce \<noteq> 0" if "fetch_decode a w u = Inr (mr, b, Some ce, u')" for w u mr b ce u'
    using that by (auto simp: fetch_decode_def Let_def split: prod.splits if_splits)
  show ?thesis
  proof (cases "decode_ref (instructions registered) (inst_word v a)")
    case None
    with c t rdy' show ?thesis by auto
  next
    case (Some k)
    with c t rdy' nz show ?thesis by auto
  qed
qed

lemma compile_loop_code:
  assumes "fetch_ready n v" and "0x80000000 \<le> a" and "unat a + 4 * r \<le> 0x80000000 + unat (mmio_memsize v)"
    and "cnt + r \<le> length (b_instrs b)"
  shows "\<exists>b' v'. compile_loop r n a cnt b v = Inr (cnt + length (block_code r v a), b', v') \<and>
    take (cnt + length (block_code r v a)) (b_instrs b') = take cnt (b_instrs b) @ block_code r v a"
  using assms
proof (induction r arbitrary: a cnt b v)
  case (Suc r)
  let ?w = "inst_word v a" let ?tbl = "instructions registered"
  have ins: "inst_inside v a" using Suc.prems(2,3) by (simp add: inst_inside_def)
  from fetch_ready_step [OF Suc.prems(1) ins] obtain mr c v1
    where f: "fetchInstruction n a v = Inr (mr, a, c, v1)" and rdy: "fetch_ready n v1"
      and frame: "inst_word v1 = inst_word v" "mmio_memsize v1 = mmio_memsize v"
      and c: "case decode_ref ?tbl ?w of None \<Rightarrow> c = None
        | Some k \<Rightarrow> \<exists>ce. c = Some ce \<and> ic_pc ce \<noteq> 0 \<and> ic_inst ce = Some k \<and> ic_data ce = operands (?tbl ! k) ?w"
    by blast
  show ?case
  proof (cases "decode_ref ?tbl ?w")
    case None
    with f c show ?thesis by simp
  next
    case (Some k)
    with c obtain ce where ce: "c = Some ce" "ic_pc ce \<noteq> 0" "ic_inst ce = Some k" "ic_data ce = operands (?tbl ! k) ?w"
      by auto
    have w: "inst (ic_data ce) = ?w" by (simp add: ce operands_def)
    define len :: u8 where "len = (if ?w AND 3 = 3 then 4 else 2)"
    define e where "e = \<lparr>bi_inst = Some k, bi_data = operands (?tbl ! k) ?w, bi_increase_pc = len\<rparr>"
    let ?b = "b\<lparr>b_instrs := (b_instrs b)[cnt := e], last_inst := ?w\<rparr>"
    have cnt: "cnt < length (b_instrs b)" using Suc.prems(4) by simp
    then have tk: "take (cnt + 1) (b_instrs ?b) = take cnt (b_instrs b) @ [e]"
      by (simp add: take_Suc_conv_app_nth)
    consider (x0) "?w AND 3 = 3 \<and> writes_reg ?w \<and> drop_bit 7 ?w AND 0x1F = 0"
      | (fin) "\<not> (?w AND 3 = 3 \<and> writes_reg ?w \<and> drop_bit 7 ?w AND 0x1F = 0)" "is_block_end ?w"
      | (go) "\<not> (?w AND 3 = 3 \<and> writes_reg ?w \<and> drop_bit 7 ?w AND 0x1F = 0)" "\<not> is_block_end ?w" by blast
    then show ?thesis
    proof cases
      case x0
      with f ce w Some show ?thesis by simp
    next
      case fin
      with f ce w Some tk show ?thesis
        by (simp add: Let_def e_def len_def del: take_Suc)
    next
      case go
      have len: "unat (a + ucast len) = unat a + unat len" "unat len \<le> 4"
      proof -
        have l4: "unat len \<le> 4" by (simp add: len_def)
        have "unat (mmio_memsize v) \<le> 0x7FFFFFFF00000000"
          using Suc.prems(1) by (auto simp: fetch_ready_def word_le_nat_alt elim: ram_okE)
        moreover have "unat (ucast len :: u64) = unat len" by (simp add: len_def)
        ultimately show "unat (a + ucast len) = unat a + unat len"
          using Suc.prems(3) l4 by (subst unat_add_lem [THEN iffD1]) auto
        show "unat len \<le> 4" by (rule l4)
      qed
      have ihp: "0x80000000 \<le> a + ucast len" "unat (a + ucast len) + 4 * r \<le> 0x80000000 + unat (mmio_memsize v1)"
        "cnt + 1 + r \<le> length (b_instrs ?b)"
        using Suc.prems(2,3,4) len frame by (simp_all add: word_le_nat_alt)
      from Suc.IH [OF rdy ihp] block_code_frame [OF frame(1)] obtain b' v' where
        "compile_loop r n (a + ucast len) (cnt + 1) ?b v1 = Inr (cnt + 1 + length (block_code r v (a + ucast len)), b', v')"
        "take (cnt + 1 + length (block_code r v (a + ucast len))) (b_instrs b') =
           take cnt (b_instrs b) @ e # block_code r v (a + ucast len)"
        unfolding tk by auto
      moreover have "block_code (Suc r) v a = e # block_code r v (a + ucast len)"
        using go Some by (simp add: Let_def e_def len_def)
      moreover have "compile_loop (Suc r) n a cnt b v = compile_loop r n (a + ucast len) (cnt + 1) ?b v1"
        using go f ce w by (auto simp: Let_def e_def len_def)
      ultimately show ?thesis by simp
    qed
  qed
qed simp

lemma compile_block_filled:
  assumes "fetch_ready n v" and "bc_wf bc"
    and "0x80000000 \<le> pc (hart_of n v)" and "unat (pc (hart_of n v)) + 64 \<le> 0x80000000 + unat (mmio_memsize v)"
  shows "\<exists>ob bc' v'. compile_block n phys bc v = Inr (ob, bc', v') \<and>
    (case ob of
       None \<Rightarrow> block_code 16 v (pc (hart_of n v)) = []
     | Some b \<Rightarrow> take (b_count b) (b_instrs b) = block_code 16 v (pc (hart_of n v)))"
proof -
  let ?b = "(slots bc (compile_slot phys))\<lparr>b_gen := 0, start_phys := phys\<rparr>"
  let ?code = "block_code 16 v (pc (hart_of n v))"
  have "0 + 16 \<le> length (b_instrs ?b)" using assms(2) by (simp add: bc_wf_def)
  with compile_loop_code [OF assms(1,3), of 16 0 ?b] assms(4) obtain b' v' where
    l: "compile_loop 16 n (pc (hart_of n v)) 0 ?b v = Inr (length ?code, b', v')"
    and tk: "take (length ?code) (b_instrs b') = ?code"
    by auto
  have "length ?code \<le> 16" using compile_loop_frame [OF l] by simp
  with l tk show ?thesis
    by (cases "?code = []") (auto simp: compile_block_def Let_def Suc_le_eq simp del: block_code.simps)
qed

text \<open>
  C4. A compiled block holds the program: for a hart that fetches without translation from RAM,
  \<open>compile_block\<close> at the program counter fills the block with exactly the instructions that a scan of
  the registered masks finds in the consecutive words of RAM, up to the end the reference
  \<open>block_code\<close> describes, and returns null exactly when the first word cannot start a block. What the
  slot, the decode cache and the TLB held before does not matter.
\<close>

theorem compile_block_code:
  assumes "fetch_ready n v" and "bc_wf bc"
    and "0x80000000 \<le> pc (hart_of n v)" and "unat (pc (hart_of n v)) + 64 \<le> 0x80000000 + unat (mmio_memsize v)"
  shows "\<exists>ob bc' v'. compile_block n phys bc v = Inr (ob, bc', v') \<and>
    (case ob of
       None \<Rightarrow> block_code 16 v (pc (hart_of n v)) = []
     | Some b \<Rightarrow> 1 \<le> b_count b \<and> b_count b \<le> 16 \<and>
         take (b_count b) (b_instrs b) = block_code 16 v (pc (hart_of n v)))"
proof -
  obtain ob bc' v' where c: "compile_block n phys bc v = Inr (ob, bc', v')"
    "case ob of None \<Rightarrow> block_code 16 v (pc (hart_of n v)) = []
     | Some b \<Rightarrow> take (b_count b) (b_instrs b) = block_code 16 v (pc (hart_of n v))"
    using compile_block_filled [OF assms] by blast
  with compile_block_result [OF assms(2) c(1)] show ?thesis by (cases ob) auto
qed

text \<open>The witnesses compile a block that starts with \<open>addi x1, x0, 5\<close>, at the start of RAM and four bytes after it.\<close>

definition block_vm :: "handler decoder \<Rightarrow> vm" where
  "block_vm d = (boot_vm 0x80000004 d)\<lparr>mmap := region_store 0 4 4 0x00500093 sample_ram\<rparr>"

lemma block_vm_simps:
  "harts (block_vm d) = [(new_hart 0 0x4000)\<lparr>mode := Machine, pc := 0x80000004\<rparr>]" "mmio_memsize (block_vm d) = 0x4000"
  "idec (block_vm d) = d" "ram_ok (block_vm d)"
  by (simp_all add: block_vm_def boot_vm_def ram_ok_def sample_ram_def region_store_def)

lemma block_word: "inst_word (block_vm d) 0x80000004 = 0x00500093"
proof -
  have "ram_at (block_vm d) 0x80000004 4 = 0x00500093"
    by (simp add: ram_at_def block_vm_def region_store_def sample_ram_def load_store_same mask_eq_exp_minus_1
        del: load_bytes.simps store_bytes.simps)
  moreover have "load_bytes p off 2 = take_bit 16 (load_bytes p off 4)" for p off
    by (rule bit_word_eqI) (auto simp: bit_load_bytes bit_take_bit_iff)
  then have "ram_at v a 2 = take_bit 16 (ram_at v a 4)" for v a
    by (simp add: ram_at_def split: option.split)
  ultimately show ?thesis by (simp add: inst_word_def take_bit_eq_mask mask_eq_exp_minus_1)
qed

lemma addi_block:
  assumes "inst_word v a = 0x00500093"
  shows "\<exists>xs. block_code 16 v a =
    \<lparr>bi_inst = Some 15, bi_data = operands (instructions registered ! 15) 0x00500093, bi_increase_pc = 4\<rparr> # xs"
proof -
  have "decode_ref (instructions registered) 0x00500093 = Some 15"
    by (rule decode_ref_unique [OF registered_table])
       (simp_all add: registered_addi matches_def make_instr_def)
  moreover have "block_code 16 v a = block_code (Suc 15) v a"
    by (rule arg_cong [of _ _ "\<lambda>r. block_code r v a"]) simp
  ultimately show ?thesis
    unfolding block_code.simps(2) assms by (simp add: writes_reg_def Let_def block_code.simps(2) del: block_code.simps)
qed

theorem compile_block_code_witness:
  "\<exists>d b bc' v'. init_all_instrs new_decoder = Some d \<and>
     compile_block 0 0x80000000 new_block_cache (boot_vm 0x80000000 d) = Inr (Some b, bc', v') \<and>
     bi_inst (b_instrs b ! 0) = Some 15"
proof -
  obtain d where d: "init_all_instrs new_decoder = Some d"
    using build_lut_correct [OF registered_table registered_fresh] by (auto simp: init_all_registered)
  let ?v = "boot_vm 0x80000000 d"
  have "fetch_ready 0 ?v"
    using decoder_ready_init [OF d] by (simp add: fetch_ready_def fetch_direct_def new_hart_def)
  moreover have pc: "pc (hart_of 0 ?v) = 0x80000000" by simp
  ultimately obtain ob bc' v' where
    c: "compile_block 0 0x80000000 new_block_cache ?v = Inr (ob, bc', v')"
      "case ob of None \<Rightarrow> block_code 16 ?v 0x80000000 = []
       | Some b \<Rightarrow> 1 \<le> b_count b \<and> b_count b \<le> 16 \<and> take (b_count b) (b_instrs b) = block_code 16 ?v 0x80000000"
    using compile_block_code [OF _ bc_wf_new, of 0 ?v "0x80000000", unfolded pc] by auto
  obtain xs where xs: "block_code 16 ?v 0x80000000 =
      \<lparr>bi_inst = Some 15, bi_data = operands (instructions registered ! 15) 0x00500093, bi_increase_pc = 4\<rparr> # xs"
    using addi_block [OF boot_word] by blast
  with c(2) obtain b where b: "ob = Some b" "1 \<le> b_count b" "take (b_count b) (b_instrs b) = block_code 16 ?v 0x80000000"
    by (auto split: option.splits)
  then have "b_instrs b ! 0 = block_code 16 ?v 0x80000000 ! 0" by (metis One_nat_def Suc_le_eq nth_take)
  with xs b(1) c(1) d show ?thesis by auto
qed

text \<open>
  When a compiled block is found again: \<open>compile_block\<close> files a block under bits 2 to 16 of its
  address, \<open>lookup\<close> reads the slot that bits 1 to 15 name. A block that has just been compiled is found by
  its own address exactly when the two slots agree, so a block at 0x80000004 is compiled again at every visit.
\<close>

theorem block_reuse:
  assumes "bc_wf bc" and "bc_generation bc \<noteq> 0" and "compile_block n phys bc v = Inr (Some b, bc', v')"
  shows "(bc_lookup (b_smc b) phys bc' = Some b \<longleftrightarrow> drop_bit 1 phys AND 0x7FFF = drop_bit 2 phys AND 0x7FFF) \<and>
    (drop_bit 1 phys AND 0x7FFF \<noteq> drop_bit 2 phys AND 0x7FFF \<longrightarrow> (\<forall>ep. bc_lookup ep phys bc' = None))"
proof -
  let ?s = "drop_bit 1 phys AND 0x7FFF"
  note r = compile_block_result [OF assms(1,3), simplified]
  have "bc_wf bc'" using r by blast
  then have s: "b_gen (slots bc' ?s) = 0 \<or> compile_slot (start_phys (slots bc' ?s)) = ?s"
    by (auto simp: bc_wf_def)
  show ?thesis
  proof (cases "?s = drop_bit 2 phys AND 0x7FFF")
    case True
    with r show ?thesis by (simp add: bc_lookup_def Let_def compile_slot_def)
  next
    case False
    with s r assms(2) have "bc_lookup ep phys bc' = None" for ep
      by (auto simp: bc_lookup_def Let_def compile_slot_def)
    with False show ?thesis by simp
  qed
qed

theorem block_reuse_witness:
  "\<exists>d b bc' v'. init_all_instrs new_decoder = Some d \<and>
     compile_block 0 0x80000004 new_block_cache (block_vm d) = Inr (Some b, bc', v') \<and>
     bc_lookup (b_smc b) 0x80000004 bc' = None"
proof -
  obtain d where d: "init_all_instrs new_decoder = Some d"
    using build_lut_correct [OF registered_table registered_fresh] by (auto simp: init_all_registered)
  have "fetch_ready 0 (block_vm d)"
    using decoder_ready_init [OF d] by (simp add: fetch_ready_def fetch_direct_def block_vm_simps new_hart_def)
  from compile_block_filled [OF this bc_wf_new, where phys = "0x80000004"] obtain ob bc' v' where
    c: "compile_block 0 0x80000004 new_block_cache (block_vm d) = Inr (ob, bc', v')"
      "ob = None \<longrightarrow> block_code 16 (block_vm d) 0x80000004 = []"
    by (auto simp: block_vm_simps split: option.splits)
  moreover have "block_code 16 (block_vm d) 0x80000004 \<noteq> []" using addi_block [OF block_word [of d]] by force
  ultimately obtain b where b: "compile_block 0 0x80000004 new_block_cache (block_vm d) = Inr (Some b, bc', v')" by auto
  from block_reuse [OF bc_wf_new _ b] have "bc_lookup (b_smc b) 0x80000004 bc' = None"
    by (simp add: new_block_cache_def)
  with b d show ?thesis by blast
qed

end
