(* ===== verification/Elf.thy ===== *)
theory Elf
  imports Memory_Map
begin

unbundle bit_operations_syntax

text \<open>
  The ELF loader, src/elfparser.cpp and the load functions of include/memory_map.hpp. A file is the list of
  its bytes; a read or a copy that leaves the file or a region is undefined (\<open>Inl Vector_index\<close>). Two
  local variables of \<open>parse\<close> are read before they are written: \<open>offset\<close>, from which the header is read, and
  the upper bytes of \<open>v8\<close>. Their indeterminate values are arguments of the model.
\<close>

section \<open>Headers\<close>

abbreviation (input) ELF_MAGIC :: u32 where "ELF_MAGIC \<equiv> 0x464C457F"
abbreviation (input) ELF_RISCV :: u16 where "ELF_RISCV \<equiv> 0xF3"
abbreviation (input) ELF_PT_LOAD :: u32 where "ELF_PT_LOAD \<equiv> 1"

record elf_header =
  e_ident :: "u8 list"
  e_type :: u16
  e_machine :: u16
  e_version :: u32
  e_entry :: u64
  e_phoff :: u64
  e_shoff :: u64
  e_flags :: u32
  e_ehsize :: u16
  e_phentsize :: u16
  e_phnum :: u16
  e_shentsize :: u16
  e_shnum :: u16
  e_shstrndx :: u16

record elf_program_header =
  p_type :: u32
  p_flags :: u32
  p_offset :: u64
  p_vaddr :: u64
  p_paddr :: u64
  p_filesz :: u64
  p_memsz :: u64
  p_align :: u64

record elf_section_header =
  sh_name :: u32
  sh_type :: u32
  sh_flags :: u64
  sh_addr :: u64
  sh_offset :: u64
  sh_size :: u64
  sh_link :: u32
  sh_info :: u32
  sh_addralign :: u64
  sh_entsize :: u64

text \<open>\<open>read_from_buffer\<close>: the bytes of the structure, and the advanced offset.\<close>

definition take_struct :: "nat \<Rightarrow> u8 list \<Rightarrow> u64 \<Rightarrow> (u8 list \<times> u64) result" where
  "take_struct n file off =
     (if unat off + n \<le> length file then Inr (take n (drop (unat off) file), off + of_nat n) else Inl Vector_index)"

definition field :: "u8 list \<Rightarrow> nat \<Rightarrow> nat \<Rightarrow> 'a::len word" where
  "field bs at n = ucast (load_bytes (\<lambda>i. bs ! unat i) (of_nat at) n)"

definition header_of :: "u8 list \<Rightarrow> elf_header" where
  "header_of bs = \<lparr>e_ident = take 16 bs, e_type = field bs 16 2, e_machine = field bs 18 2, e_version = field bs 20 4,
     e_entry = field bs 24 8, e_phoff = field bs 32 8, e_shoff = field bs 40 8, e_flags = field bs 48 4,
     e_ehsize = field bs 52 2, e_phentsize = field bs 54 2, e_phnum = field bs 56 2, e_shentsize = field bs 58 2,
     e_shnum = field bs 60 2, e_shstrndx = field bs 62 2\<rparr>"

definition pheader_of :: "u8 list \<Rightarrow> elf_program_header" where
  "pheader_of bs = \<lparr>p_type = field bs 0 4, p_flags = field bs 4 4, p_offset = field bs 8 8, p_vaddr = field bs 16 8,
     p_paddr = field bs 24 8, p_filesz = field bs 32 8, p_memsz = field bs 40 8, p_align = field bs 48 8\<rparr>"

definition sheader_of :: "u8 list \<Rightarrow> elf_section_header" where
  "sheader_of bs = \<lparr>sh_name = field bs 0 4, sh_type = field bs 4 4, sh_flags = field bs 8 8, sh_addr = field bs 16 8,
     sh_offset = field bs 24 8, sh_size = field bs 32 8, sh_link = field bs 40 4, sh_info = field bs 44 4,
     sh_addralign = field bs 48 8, sh_entsize = field bs 56 8\<rparr>"

primrec read_headers :: "nat \<Rightarrow> (u8 list \<Rightarrow> 'a) \<Rightarrow> nat \<Rightarrow> u8 list \<Rightarrow> u64 \<Rightarrow> 'a list result" where
  "read_headers 0 conv n file off = Inr []"
| "read_headers (Suc k) conv n file off =
     and_then (take_struct n file off) (\<lambda>(bs, off).
     and_then (read_headers k conv n file off) (\<lambda>hs. Inr (conv bs # hs)))"

section \<open>Segments\<close>

text \<open>
  The body of the loop over the regions for one segment: the part of the segment that lies in the
  region is copied, and what the file does not provide is zeroed. The flag is \<open>covered\<close>.
\<close>

definition fill_zero :: "u64 \<Rightarrow> nat \<Rightarrow> (u64 \<Rightarrow> u8) \<Rightarrow> u64 \<Rightarrow> u8" where
  "fill_zero off n p = copy_bytes (replicate n 0) off p"

definition load_in_region :: "u8 list \<Rightarrow> elf_program_header \<Rightarrow> memory_region \<Rightarrow> (bool \<times> memory_region) result" where
  "load_in_region file ph reg =
     (let seg_start = p_vaddr ph;
          seg_end = seg_start + p_memsz ph;
          reg_start = base_addr reg;
          reg_end = base_addr reg + rsize reg;
          ov_start = max seg_start reg_start;
          ov_end = min seg_end reg_end
      in if ov_end \<le> ov_start then Inr (False, reg)
         else
           let file_off = p_offset ph + (ov_start - seg_start);
               avail = p_offset ph + p_filesz ph - file_off;
               copy_len = min (ov_end - ov_start) avail;
               dst = ov_start - reg_start
           in if unat file_off + unat copy_len \<le> length file \<and> array_ok reg dst (unat (ov_end - ov_start)) then
                let reg = reg\<lparr>rdata := copy_bytes (take (unat copy_len) (drop (unat file_off) file)) dst (rdata reg)\<rparr> in
                if copy_len < ov_end - ov_start
                then Inr (True, reg\<lparr>rdata := fill_zero (dst + copy_len) (unat (ov_end - ov_start - copy_len)) (rdata reg)\<rparr>)
                else Inr (True, reg)
              else Inl Vector_index)"

fun load_in_regions :: "u8 list \<Rightarrow> elf_program_header \<Rightarrow> memory_region list \<Rightarrow> (bool \<times> memory_region list) result" where
  "load_in_regions file ph [] = Inr (False, [])"
| "load_in_regions file ph (r # rs) =
     and_then (load_in_region file ph r) (\<lambda>(c, r).
     and_then (load_in_regions file ph rs) (\<lambda>(c', rs). Inr (c \<or> c', r # rs)))"

definition load_segment :: "u8 list \<Rightarrow> elf_program_header \<Rightarrow> memory_map \<Rightarrow> memory_map result" where
  "load_segment file ph m =
     (if p_type ph \<noteq> ELF_PT_LOAD then Inr m
      else and_then (load_in_regions file ph (regions m)) (\<lambda>(covered, rs).
        let m = m\<lparr>regions := rs\<rparr> in
        if covered then Inr m else Inr (add_region (p_vaddr ph) (p_memsz ph) m)))"

fun load_segments :: "u8 list \<Rightarrow> elf_program_header list \<Rightarrow> memory_map \<Rightarrow> memory_map result" where
  "load_segments file [] m = Inr m"
| "load_segments file (ph # phs) m = and_then (load_segment file ph m) (load_segments file phs)"

section \<open>Parsing\<close>

text \<open>The result: success, the entry point that was stored (\<open>None\<close> if the header was refused), the memory.\<close>

definition elf_parse :: "u64 \<Rightarrow> u32 \<Rightarrow> u8 list \<Rightarrow> memory_map \<Rightarrow> (bool \<times> u64 option \<times> memory_map) result" where
  "elf_parse offset0 v8_0 file m =
     and_then (take_struct 64 file offset0) (\<lambda>(hb, _).
     let header = header_of hb;
         v32 = field (e_ident header) 0 4 :: u32;
         v8 = (v8_0 AND NOT 0xFF) OR field (e_ident header) 4 1
     in if v32 \<noteq> ELF_MAGIC then Inr (False, None, m)
        else if v8 = 1 then Inr (False, None, m)
        else if e_machine header \<noteq> ELF_RISCV then Inr (False, None, m)
        else
          and_then (read_headers (unat (e_phnum header)) pheader_of 56 file (e_phoff header)) (\<lambda>phs.
          and_then (read_headers (unat (e_shnum header)) sheader_of 64 file (e_shoff header)) (\<lambda>shs.
          and_then (load_segments file phs m) (\<lambda>m.
          Inr (True, Some (e_entry header), m)))))"

text \<open>\<open>load_buffer\<close>: the bytes behind the pointer, of which the caller passes \<open>sz\<close>.\<close>

definition load_buffer :: "u64 \<Rightarrow> u32 \<Rightarrow> u64 \<Rightarrow> u8 list \<Rightarrow> nat \<Rightarrow> memory_map \<Rightarrow> (bool \<times> u64 option \<times> memory_map) result" where
  "load_buffer offset0 v8_0 memory_path buf sz m =
     (if length buf < 4 then Inl Vector_index
      else if (field buf 0 4 :: u32) = ELF_MAGIC then elf_parse offset0 v8_0 buf m
      else if length buf < sz then Inl Vector_index
      else and_then (load_binary memory_path (take sz buf) m) (\<lambda>m. Inr (True, None, m)))"

text \<open>A file of the host that cannot be opened is \<open>None\<close>; the parser opens and reads the file once more.\<close>

definition elf_parse_file :: "u64 \<Rightarrow> u32 \<Rightarrow> u8 list option \<Rightarrow> memory_map \<Rightarrow> (bool \<times> u64 option \<times> memory_map) result" where
  "elf_parse_file offset0 v8_0 file m =
     (case file of None \<Rightarrow> Inr (False, None, m) | Some buf \<Rightarrow> elf_parse offset0 v8_0 buf m)"

definition load_file :: "u64 \<Rightarrow> u32 \<Rightarrow> u64 \<Rightarrow> u8 list option \<Rightarrow> memory_map \<Rightarrow> (bool \<times> u64 option \<times> memory_map) result" where
  "load_file offset0 v8_0 memory_path file m =
     (case file of
        None \<Rightarrow> Inr (False, None, m)
      | Some buf \<Rightarrow>
          if length buf < 4 then Inl Vector_index
          else if (field buf 0 4 :: u32) = ELF_MAGIC then elf_parse_file offset0 v8_0 file m
          else and_then (load_binary memory_path buf m) (\<lambda>m. Inr (True, None, m)))"

section \<open>Properties\<close>

text \<open>Loading a file is loading the buffer of its bytes.\<close>

lemma load_file_buffer: "load_file o0 v0 a (Some buf) m = load_buffer o0 v0 a buf (length buf) m"
  by (simp add: load_file_def load_buffer_def elf_parse_file_def)

lemma copy_bytes_outside:
  "(\<And>j. j < length bs \<Longrightarrow> a \<noteq> off + of_nat j) \<Longrightarrow> copy_bytes bs off p a = p a"
proof (induction bs arbitrary: off p)
  case (Cons b bs)
  have "a \<noteq> off" using Cons.prems [of 0] by simp
  moreover have "a \<noteq> off + 1 + of_nat j" if "j < length bs" for j using Cons.prems [of "Suc j"] that by (simp add: algebra_simps)
  ultimately show ?case using Cons.IH [of "off + 1"] by simp
qed simp

lemma copy_bytes_inside:
  assumes "length bs \<le> 2 ^ 64" and "j < length bs"
  shows "copy_bytes bs off p (off + of_nat j) = bs ! j"
  using assms
proof (induction bs arbitrary: off p j)
  case (Cons b bs)
  show ?case
  proof (cases j)
    case 0
    have "off \<noteq> off + 1 + of_nat i" if "i < length bs" for i
    proof -
      have "(of_nat (Suc i) :: u64) \<noteq> of_nat 0"
        using that Cons.prems(1) by (subst of_nat_64_eq_iff) auto
      then show ?thesis by (simp add: add.assoc)
    qed
    then show ?thesis using 0 copy_bytes_outside [of bs off "off + 1"] by simp
  next
    case (Suc i)
    with Cons.IH [of i "off + 1"] Cons.prems show ?thesis by (simp add: algebra_simps)
  qed
qed simp

lemma unat_less_64: "unat (x :: u64) < 2 ^ 64"
  using unsigned_less [of x, where ?'a = nat] by simp

lemma unat_diff_less:
  fixes x f m :: u64
  assumes "f < m"
  shows "unat (x - f) < unat m - unat f \<longleftrightarrow> unat f \<le> unat x \<and> unat x < unat m"
proof (cases "unat f \<le> unat x")
  case True
  then show ?thesis using assms by (simp add: unat_sub_if' word_less_nat_alt) linarith
next
  case False
  then show ?thesis using assms unat_less_64 [of m] by (simp add: unat_sub_if' word_less_nat_alt)
qed

text \<open>A copy of \<open>bs\<close> at \<open>dst\<close> seen from the distance of an address to \<open>dst\<close>.\<close>

lemma copy_bytes_at:
  assumes "length bs < 2 ^ 64"
  shows "copy_bytes bs dst p a = (if unat (a - dst) < length bs then bs ! unat (a - dst) else p a)"
proof (cases "unat (a - dst) < length bs")
  case True
  have "a = dst + of_nat (unat (a - dst))" by simp
  with copy_bytes_inside [of bs "unat (a - dst)" dst p] True assms show ?thesis by simp
next
  case False
  have "a \<noteq> dst + of_nat j" if "j < length bs" for j
    using False that assms by (auto simp: unat_of_nat_64)
  with False show ?thesis by (simp add: copy_bytes_outside)
qed

text \<open>
  Loading a segment: when the file provides the segment, the segment has at least the size of its
  data, and it lies inside one region, the region afterwards holds the bytes of the file from the
  segment's first address on, zeros from the end of the data to the end of the segment, and
  everywhere else what it held before.
\<close>

theorem elf_segment_loaded:
  assumes "p_filesz ph \<le> p_memsz ph" and "0 < p_memsz ph" and "unat (p_offset ph) + unat (p_filesz ph) \<le> length file"
    and "length file < 2 ^ 64" and "base_addr reg \<le> p_vaddr ph"
    and "unat (p_vaddr ph) + unat (p_memsz ph) \<le> unat (base_addr reg) + unat (rsize reg)"
    and "unat (base_addr reg) + unat (rsize reg) < 2 ^ 64"
  shows "\<exists>reg'. load_in_region file ph reg = Inr (True, reg') \<and> base_addr reg' = base_addr reg \<and> rsize reg' = rsize reg \<and>
    (\<forall>a. rdata reg' a =
       (let j = unat (a - (p_vaddr ph - base_addr reg)) in
        if j < unat (p_filesz ph) then file ! (unat (p_offset ph) + j)
        else if j < unat (p_memsz ph) then 0 else rdata reg a))"
proof -
  let ?v = "p_vaddr ph" and ?m = "p_memsz ph" and ?f = "p_filesz ph" and ?dst = "p_vaddr ph - base_addr reg"
  have um: "unat (?v + ?m) = unat ?v + unat ?m" using assms(6,7) by (subst unat_add_lem [THEN iffD1]) auto
  have ur: "unat (base_addr reg + rsize reg) = unat (base_addr reg) + unat (rsize reg)"
    using assms(7) by (subst unat_add_lem [THEN iffD1]) auto
  have ov: "max ?v (base_addr reg) = ?v" "min (?v + ?m) (base_addr reg + rsize reg) = ?v + ?m" "\<not> ?v + ?m \<le> ?v" "min ?m ?f = ?f"
    using assms um ur min.absorb1 [of "?v + ?m" "base_addr reg + rsize reg"]
    by (simp_all add: max.absorb1 min.absorb2, simp_all add: word_le_nat_alt word_less_nat_alt)
  have ud: "unat ?dst = unat ?v - unat (base_addr reg)" using assms(5) by (simp add: unat_sub)
  have ar: "array_ok reg ?dst (unat ?m)" using assms(5,6) ud by (simp add: array_ok_def word_le_nat_alt)
  define bs where "bs = take (unat ?f) (drop (unat (p_offset ph)) file)"
  have bs: "length bs = unat ?f" "length bs < 2 ^ 64" "j < unat ?f \<Longrightarrow> bs ! j = file ! (unat (p_offset ph) + j)" for j
    using assms(3,4) by (simp_all add: bs_def)
  have z: "fill_zero (?dst + ?f) (unat (?m - ?f)) p a =
      (if unat ?f \<le> unat (a - ?dst) \<and> unat (a - ?dst) < unat ?m then 0 else p a)" if "?f < ?m" for p a
  proof -
    have "unat (?m - ?f) = unat ?m - unat ?f" using that by (simp add: unat_sub)
    moreover have "unat (a - (?dst + ?f)) < unat ?m - unat ?f \<longleftrightarrow> unat ?f \<le> unat (a - ?dst) \<and> unat (a - ?dst) < unat ?m"
    proof -
      have "a - (?dst + ?f) = (a - ?dst) - ?f" by (simp add: diff_diff_add)
      then show ?thesis using that by (simp only: unat_diff_less)
    qed
    moreover have "unat (?m - ?f) < 2 ^ 64" by (rule unat_less_64)
    ultimately show ?thesis unfolding fill_zero_def by (subst copy_bytes_at) auto
  qed
  define r1 where "r1 = reg\<lparr>rdata := copy_bytes bs ?dst (rdata reg)\<rparr>"
  have c: "rdata r1 a = (if unat (a - ?dst) < unat ?f then file ! (unat (p_offset ph) + unat (a - ?dst)) else rdata reg a)" for a
    by (simp add: r1_def copy_bytes_at [OF bs(2)] bs)
  have "load_in_region file ph reg =
      (if ?f < ?m then Inr (True, r1\<lparr>rdata := fill_zero (?dst + ?f) (unat (?m - ?f)) (rdata r1)\<rparr>) else Inr (True, r1))"
    using ar ov assms(3) by (simp add: load_in_region_def Let_def bs_def r1_def)
  then show ?thesis
    using assms(1) c by (auto simp: z Let_def r1_def word_less_nat_alt word_le_nat_alt)
qed

definition sample_ph :: elf_program_header where
  "sample_ph = \<lparr>p_type = 1, p_flags = 5, p_offset = 2, p_vaddr = 0x80000010, p_paddr = 0x80000010, p_filesz = 3,
     p_memsz = 5, p_align = 4\<rparr>"

theorem elf_segment_loaded_witness:
  "\<exists>reg'. load_in_region [0, 0, 7, 8, 9] sample_ph (new_region 0x80000000 0x4000) = Inr (True, reg') \<and>
     rdata reg' 0x10 = 7 \<and> rdata reg' 0x13 = 0"
proof -
  have "\<exists>reg'. load_in_region [0, 0, 7, 8, 9] sample_ph (new_region 0x80000000 0x4000) = Inr (True, reg') \<and>
      base_addr reg' = base_addr (new_region 0x80000000 0x4000) \<and> rsize reg' = rsize (new_region 0x80000000 0x4000) \<and>
      (\<forall>a. rdata reg' a =
         (let j = unat (a - (p_vaddr sample_ph - base_addr (new_region 0x80000000 0x4000))) in
          if j < unat (p_filesz sample_ph) then [0, 0, 7, 8, 9] ! (unat (p_offset sample_ph) + j)
          else if j < unat (p_memsz sample_ph) then 0 else rdata (new_region 0x80000000 0x4000) a))"
    by (rule elf_segment_loaded) (simp_all add: sample_ph_def new_region_def)
  then show ?thesis by (auto simp: sample_ph_def new_region_def Let_def)
qed

end
