(* ===== verification/Lifecycle.thy ===== *)
theory Lifecycle
  imports Blocks Elf
begin

unbundle bit_operations_syntax

text \<open>
  The machine, src/machine.cpp and include/machine.hpp: construction, the devices of the board with
  their device tree, boot, the work loop and reset. Files of the host are the lists of their bytes. The
  model is of a build without the JIT and without the GDB stub. Host threads are steps: the work thread
  takes one turn of its loop at a time, the thread of the CLINT one update.
\<close>

section \<open>State\<close>

record machine_config =
  memory_size :: u64
  hart_count :: u8
  entry_pc :: u64
  cfg_timebase :: u64
  mmu_mode :: nat
  append_args :: string
  cfg_init_fdt :: bool

record machine =
  config :: machine_config
  mvm :: vm
  block_cache_d :: block_cache
  fdt_root :: "node option"
  bios_file :: "u8 list option"
  kernel_file :: "u8 list option"
  dtb_file :: "u8 list option"
  vd_images :: "u8 list list"
  virtio_count :: nat
  dev_tick_time :: u16

text \<open>
  The two indeterminate values of the ELF parser, see \<open>elf_parse\<close>, belong to the host of a run.
\<close>

type_synonym host_indet = "u64 \<times> u32"

definition new_harts :: "machine_config \<Rightarrow> hart list" where
  "new_harts c = map (\<lambda>i. new_hart (of_nat i) (memory_size c)) [0..<unat (hart_count c)]"

text \<open>
  The constructor with \<open>init_mmap\<close>. Devices that are not in \<open>devs\<close> cannot be reached; their fields
  hold the values of a device that was just constructed.
\<close>

definition new_machine :: "machine_config \<Rightarrow> u64 \<Rightarrow> machine result" where
  "new_machine c ns =
     (case init_all_instrs new_decoder of
        None \<Rightarrow> Inl Endless_loop
      | Some d \<Rightarrow>
          let p = plic_init_auto (unat (hart_count c)); hs = new_harts c in
          Inr \<lparr>config = c,
               mvm = \<lparr>harts = hs, mmap = add_region 0x80000000 (memory_size c) empty_map, smcs = smc_init, idec = d, devs = [],
                 plic_d = p, uart_d = fst (uart_init_auto p), clint_d = fst (clint_init_auto ns (cfg_timebase c) hs),
                 syscon_d = syscon_init_auto, i2c_d = fst (new_i2c 0x10030000 p), blk_ds = [], rng_ds = [], mstate = Off, clock_ns = ns,
                 mmio_memsize = memory_size c, host_rm = FE_TONEAREST\<rparr>,
               block_cache_d = new_block_cache, fdt_root = None, bios_file = None, kernel_file = None, dtb_file = None,
               vd_images = [], virtio_count = 0, dev_tick_time = 0\<rparr>)"

section \<open>The devices of the board\<close>

definition upd_vm :: "(vm \<Rightarrow> vm) \<Rightarrow> machine \<Rightarrow> machine" where
  "upd_vm f m = m\<lparr>mvm := f (mvm m)\<rparr>"

definition map_device :: "device_kind \<Rightarrow> u64 \<Rightarrow> u64 \<Rightarrow> machine \<Rightarrow> machine" where
  "map_device k base sz = upd_vm (\<lambda>v. v\<lparr>mmap := add_region base sz (mmap v),
     devs := devs v @ [\<lparr>dev_start = base, dev_size = sz, dev_kind = k\<rparr>]\<rparr>)"

definition upd_fdt :: "(node \<Rightarrow> node result) \<Rightarrow> machine \<Rightarrow> machine result" where
  "upd_fdt f m = (case fdt_root m of None \<Rightarrow> Inr m | Some t \<Rightarrow> and_then (f t) (\<lambda>t. Inr (m\<lparr>fdt_root := Some t\<rparr>)))"

definition add_plic :: "machine \<Rightarrow> machine result" where
  "add_plic m =
     (let n = unat (hart_count (config m));
          m = map_device Dev_plic 0x0C000000 0x400000 (upd_vm (\<lambda>v. v\<lparr>plic_d := plic_init_auto n\<rparr>) m)
      in upd_fdt (plic_fdt 0x0C000000 0x400000 64 n) m)"

definition add_uart :: "machine \<Rightarrow> machine result" where
  "add_uart m =
     (case uart_init_auto (plic_d (mvm m)) of (u, p) \<Rightarrow>
        let m = map_device Dev_uart 0x10000000 0x100 (upd_vm (\<lambda>v. v\<lparr>uart_d := u, plic_d := p\<rparr>) m)
        in upd_fdt (uart_fdt 0x10000000 (irq_num u)) m)"

definition add_clint :: "machine \<Rightarrow> machine result" where
  "add_clint m =
     (case clint_init_auto (clock_ns (mvm m)) (cfg_timebase (config m)) (harts (mvm m)) of (c, hs) \<Rightarrow>
        let m = map_device Dev_clint 0x02000000 0x10000 (upd_vm (\<lambda>v. v\<lparr>clint_d := c, harts := hs\<rparr>) m)
        in upd_fdt (clint_fdt 0x02000000 0x10000 (unat (hart_count (config m)))) m)"

definition add_syscon :: "machine \<Rightarrow> machine result" where
  "add_syscon m =
     (let m = map_device Dev_syscon 0x1000000 0x1000 (upd_vm (\<lambda>v. v\<lparr>syscon_d := syscon_init_auto\<rparr>) m)
      in upd_fdt (syscon_fdt 0x1000000 0x1000) m)"

definition add_i2c :: "machine \<Rightarrow> machine result" where
  "add_i2c m =
     (case new_i2c 0x10030000 (plic_d (mvm m)) of (s, p) \<Rightarrow>
        let m = map_device Dev_i2c 0x10030000 0x20 (upd_vm (\<lambda>v. v\<lparr>i2c_d := s, plic_d := p\<rparr>) m)
        in upd_fdt (i2c_fdt 0x10030000 (i2c_irq s)) m)"

text \<open>\<open>VirtIO_BLK::init_auto\<close>, with its assertion on the number of devices.\<close>

definition add_blk :: "machine \<Rightarrow> machine result" where
  "add_blk m =
     (let m = m\<lparr>virtio_count := virtio_count m + 1\<rparr> in
      if 8 < virtio_count m then Inl Logic_error
      else and_then (vec_at (vd_images m) (virtio_count m - 1)) (\<lambda>img.
        let base = 0x10000000 + 0x1000 * of_nat (virtio_count m) in
        case new_virtio_blk base (Some img) (plic_d (mvm m)) (mmap (mvm m)) of (d, p, mm) \<Rightarrow>
          let k = length (blk_ds (mvm m));
              m = upd_vm (\<lambda>v. v\<lparr>blk_ds := blk_ds v @ [d], plic_d := p, mmap := mm,
                                devs := devs v @ [\<lparr>dev_start = base, dev_size = 0x1000, dev_kind = Dev_blk k\<rparr>]\<rparr>) m
          in upd_fdt (virtio_fdt base 0x1000 (v_irq (blk_regs d))) m))"

primrec add_blks :: "nat \<Rightarrow> machine \<Rightarrow> machine result" where
  "add_blks 0 m = Inr m"
| "add_blks (Suc n) m = and_then (add_blk m) (add_blks n)"

definition init_auto_devices :: "machine \<Rightarrow> machine result" where
  "init_auto_devices m =
     and_then (add_plic m) (\<lambda>m.
     and_then (add_uart m) (\<lambda>m.
     and_then (add_clint m) (\<lambda>m.
     and_then (add_syscon m) (\<lambda>m.
     and_then (add_i2c m) (\<lambda>m.
     add_blks (length (vd_images m)) m)))))"

definition start_init :: "u32 list \<Rightarrow> machine \<Rightarrow> machine result" where
  "start_init rands m =
     (let c = config m in
      and_then (if cfg_init_fdt c then
                  and_then (init_fdt rands (append_args c) (memory_size c) (cfg_timebase c) (mmu_mode c) (map hid (harts (mvm m))))
                    (\<lambda>t. Inr (m\<lparr>fdt_root := Some t\<rparr>))
                else Inr m) init_auto_devices)"

section \<open>Boot\<close>

definition dtb_address :: "machine_config \<Rightarrow> u64" where
  "dtb_address c = 0x80000000 + memory_size c - 0x20000"

text \<open>\<open>read_file\<close> appends a NUL to the bytes of the file.\<close>

definition read_file :: "u8 list \<Rightarrow> u8 list" where
  "read_file bs = bs @ [0]"

definition load_into :: "host_indet \<Rightarrow> u64 \<Rightarrow> u8 list \<Rightarrow> nat \<Rightarrow> machine \<Rightarrow> (bool \<times> u64 option \<times> machine) result" where
  "load_into u addr buf sz m =
     and_then (load_buffer (fst u) (snd u) addr buf sz (mmap (mvm m))) (\<lambda>(ok, entry, mm).
     Inr (ok, entry, upd_vm (\<lambda>v. v\<lparr>mmap := mm\<rparr>) m))"

definition load_fdt :: "host_indet \<Rightarrow> machine \<Rightarrow> machine result" where
  "load_fdt u m =
     (case dtb_file m of
        None \<Rightarrow> Inr m
      | Some bs \<Rightarrow> and_then (load_into u (dtb_address (config m)) (read_file bs) (length bs) m) (\<lambda>(_, _, m). Inr m))"

text \<open>
  \<open>indet\<close> is the content of the memory that \<open>malloc\<close> returns. The tree is absent only when the
  configuration asks for none.
\<close>

definition write_fdt :: "host_indet \<Rightarrow> u8 list \<Rightarrow> machine \<Rightarrow> machine result" where
  "write_fdt u indet m =
     (if dtb_file m \<noteq> None then load_fdt u m
      else if \<not> cfg_init_fdt (config m) then Inr m
      else case fdt_root m of
             None \<Rightarrow> Inl Null_pointer
           | Some t \<Rightarrow>
               let dtb_size = size_of_tree t in
               and_then (serialize t (Some (take (unat dtb_size) indet)) dtb_size 0) (\<lambda>(sz, buf).
               and_then (load_into u (dtb_address (config m)) (the buf) (unat sz) m) (\<lambda>(_, _, m). Inr m)))"

definition machine_run :: "host_indet \<Rightarrow> machine \<Rightarrow> machine result" where
  "machine_run u m =
     (case bios_file m of
        None \<Rightarrow> Inr m
      | Some bs \<Rightarrow>
          and_then (load_into u 0x80000000 (read_file bs) (length bs) m) (\<lambda>(ok, entry, m).
          if \<not> ok then Inr m
          else
            let local_entry_pc = (case entry of None \<Rightarrow> entry_pc (config m) | Some e \<Rightarrow> e) in
            and_then (case kernel_file m of
                        None \<Rightarrow> Inr (True, m)
                      | Some ks \<Rightarrow> and_then (load_into u 0x80200000 (read_file ks) (length ks) m) (\<lambda>(ok, _, m). Inr (ok, m))) (\<lambda>(ok, m).
            if \<not> ok then Inr m
            else Inr (upd_vm (\<lambda>v. v\<lparr>harts := map (hart_init (dtb_address (config m)) local_entry_pc) (harts v), mstate := Running\<rparr>) m))))"

section \<open>Reset\<close>

definition reset_memory :: "memory_map \<Rightarrow> memory_map" where
  "reset_memory mm = mm\<lparr>regions := map (\<lambda>r. r\<lparr>rdata := fill_zero 0 (unat (rsize r)) (rdata r)\<rparr>) (regions mm)\<rparr>"

definition fresh_harts :: "machine_config \<Rightarrow> hart list" where
  "fresh_harts c = map (hart_init (dtb_address c) (entry_pc c)) (new_harts c)"

text \<open>The reset of the work loop, and \<open>Machine::reset\<close> as the host calls it.\<close>

definition work_reset :: "host_indet \<Rightarrow> u8 list \<Rightarrow> machine \<Rightarrow> machine result" where
  "work_reset u indet m =
     (let m = (upd_vm (\<lambda>v. v\<lparr>harts := [], mmap := reset_memory (mmap v)\<rparr>) m)\<lparr>block_cache_d := bc_clear (block_cache_d m)\<rparr> in
      and_then (case bios_file m of None \<Rightarrow> Inr m
                | Some bs \<Rightarrow> and_then (load_into u 0x80000000 (read_file bs) (length bs) m) (\<lambda>(_, _, m). Inr m)) (\<lambda>m.
      and_then (case kernel_file m of None \<Rightarrow> Inr m
                | Some ks \<Rightarrow> and_then (load_into u 0x80200000 (read_file ks) (length ks) m) (\<lambda>(_, _, m). Inr m)) (\<lambda>m.
      and_then (write_fdt u indet m) (\<lambda>m.
      Inr (upd_vm (\<lambda>v. v\<lparr>harts := fresh_harts (config m), mstate := Running\<rparr>) m)))))"

definition host_reset :: "host_indet \<Rightarrow> u8 list \<Rightarrow> machine \<Rightarrow> machine result" where
  "host_reset u indet m =
     (if mstate (mvm m) = Off then
        let m = upd_vm (\<lambda>v. v\<lparr>harts := [], mmap := reset_memory (mmap v)\<rparr>) m in
        case bios_file m of
          None \<Rightarrow> Inl Null_pointer
        | Some bs \<Rightarrow>
            and_then (load_into u 0x80000000 (read_file bs) (length bs) m) (\<lambda>(_, _, m).
            and_then (case kernel_file m of None \<Rightarrow> Inr m
                      | Some ks \<Rightarrow> and_then (load_into u 0x80200000 (read_file ks) (length ks + 1) m) (\<lambda>(_, _, m). Inr m)) (\<lambda>m.
            and_then (write_fdt u indet m) (\<lambda>m.
            Inr (upd_vm (\<lambda>v. v\<lparr>harts := fresh_harts (config m), mstate := Running\<rparr>) m))))
      else Inr (upd_vm (\<lambda>v. v\<lparr>mstate := Resetting\<rparr>) m))"

section \<open>The work loop\<close>

text \<open>\<open>tick_all\<close>: of the devices of the board only the I2C controller does something in \<open>tick\<close>.\<close>

definition device_tick :: "device \<Rightarrow> vm \<Rightarrow> vm result" where
  "device_tick d v =
     (case dev_kind d of
        Dev_i2c \<Rightarrow> and_then (i2c_tick (i2c_d v) (plic_d v, harts v)) (\<lambda>(s, p, hs). Inr (v\<lparr>i2c_d := s, plic_d := p, harts := hs\<rparr>))
      | _ \<Rightarrow> Inr v)"

definition tick_all :: "vm \<Rightarrow> vm result" where
  "tick_all v = fold (\<lambda>d acc. and_then acc (device_tick d)) (devs v) (Inr v)"

definition subtract_tick :: "machine \<Rightarrow> machine result" where
  "subtract_tick m =
     and_then (tick_all (mvm m)) (\<lambda>v. Inr (m\<lparr>mvm := v, dev_tick_time := dev_tick_time m - 0x1000\<rparr>))"

primrec settle :: "nat \<Rightarrow> machine \<Rightarrow> machine result" where
  "settle 0 m = Inl Endless_loop"
| "settle (Suc f) m = (if 0x1000 \<le> dev_tick_time m then and_then (subtract_tick m) (settle f) else Inr m)"

text \<open>The turn of one hart: the block runner, or 256 single ticks. Sixteen subtractions of 0x1000 exhaust 16 bits.\<close>

definition run_hart_blocks :: "nat \<Rightarrow> machine \<Rightarrow> machine result" where
  "run_hart_blocks i m =
     and_then (ended (run_blocks (Suc 0x4000) i 0x4000 (block_cache_d m) (mvm m))) (\<lambda>(count, bc, v).
     let count = (if count = 0 then 256 else count);
         m = m\<lparr>mvm := v, block_cache_d := bc, dev_tick_time := ucast (ucast (dev_tick_time m) + count)\<rparr>
     in settle 17 m)"

primrec run_ticks :: "nat \<Rightarrow> nat \<Rightarrow> vm \<Rightarrow> vm result" where
  "run_ticks 0 i v = Inr v"
| "run_ticks (Suc t) i v = and_then (tick i v) (run_ticks t i)"

definition run_hart :: "bool \<Rightarrow> nat \<Rightarrow> machine \<Rightarrow> machine result" where
  "run_hart block_jit i m =
     (if block_jit then run_hart_blocks i m else and_then (run_ticks 256 i (mvm m)) (\<lambda>v. Inr (m\<lparr>mvm := v\<rparr>)))"

definition run_harts :: "bool \<Rightarrow> machine \<Rightarrow> machine result" where
  "run_harts block_jit m =
     fold (\<lambda>i acc. and_then acc (run_hart block_jit i)) [0..<unat (hart_count (config m))] (Inr m)"

definition work_turn :: "bool \<Rightarrow> host_indet \<Rightarrow> u8 list \<Rightarrow> machine \<Rightarrow> machine result" where
  "work_turn block_jit u indet m =
     (case mstate (mvm m) of
        Off \<Rightarrow> Inr m
      | Resetting \<Rightarrow> work_reset u indet m
      | Halted \<Rightarrow> Inr m
      | Running \<Rightarrow>
          let m = m\<lparr>dev_tick_time := dev_tick_time m + 256\<rparr> in
          and_then (if 0x1000 \<le> dev_tick_time m then subtract_tick m else Inr m) (run_harts block_jit))"

section \<open>Device ticks\<close>

text \<open>The devices ticked \<open>n\<close> times in a row.\<close>

primrec tick_times :: "nat \<Rightarrow> vm \<Rightarrow> vm result" where
  "tick_times 0 v = Inr v"
| "tick_times (Suc n) v = and_then (tick_all v) (tick_times n)"

lemma settle_ticks:
  "unat (dev_tick_time m) div 0x1000 < f \<Longrightarrow>
   settle f m = and_then (tick_times (unat (dev_tick_time m) div 0x1000) (mvm m))
     (\<lambda>v. Inr (m\<lparr>mvm := v, dev_tick_time := of_nat (unat (dev_tick_time m) mod 0x1000)\<rparr>))"
proof (induction f arbitrary: m)
  case (Suc f)
  show ?case
  proof (cases "0x1000 \<le> dev_tick_time m")
    case True
    let ?d = "unat (dev_tick_time m)"
    have ge: "0x1000 \<le> ?d" using True by (simp add: word_le_nat_alt)
    have d: "unat (dev_tick_time m - 0x1000) = ?d - 0x1000" using True by (simp add: unat_sub)
    have q: "?d div 0x1000 = Suc ((?d - 0x1000) div 0x1000)" "(?d - 0x1000) mod 0x1000 = ?d mod 0x1000"
      using ge by (simp_all add: le_div_geq le_mod_geq)
    have f: "(?d - 0x1000) div 0x1000 < f" using Suc.prems q(1) by simp
    have "settle f (m\<lparr>mvm := w, dev_tick_time := dev_tick_time m - 0x1000\<rparr>) =
        and_then (tick_times ((?d - 0x1000) div 0x1000) w) (\<lambda>v. Inr (m\<lparr>mvm := v, dev_tick_time := of_nat (?d mod 0x1000)\<rparr>))" for w
      using Suc.IH [of "m\<lparr>mvm := w, dev_tick_time := dev_tick_time m - 0x1000\<rparr>"] d f q(2) by simp
    then show ?thesis using True by (simp add: q(1) subtract_tick_def and_then_assoc)
  next
    case False
    then have "unat (dev_tick_time m) < 0x1000" by (simp add: word_le_nat_alt)
    then show ?thesis using False by simp
  qed
qed simp


definition sample_config :: machine_config where
  "sample_config = \<lparr>memory_size = 0x40000, hart_count = 1, entry_pc = 0x80000000, cfg_timebase = 5000000, mmu_mode = 8,
     append_args = '''', cfg_init_fdt = True\<rparr>"

definition sample_machine :: machine where
  "sample_machine = \<lparr>config = sample_config,
     mvm = (sample_vm Machine 0)\<lparr>harts := map (\<lambda>h. h\<lparr>WFI := True\<rparr>) (new_harts sample_config),
        mmap := add_region 0x80000000 0x40000 empty_map\<rparr>,
     block_cache_d = new_block_cache, fdt_root = Some sample_tree, bios_file = Some [0x13, 0, 0, 0], kernel_file = None, dtb_file = None,
     vd_images = [], virtio_count = 0, dev_tick_time = 0xF80\<rparr>"

lemma sample_machine_harts: "hart_of 0 (mvm sample_machine) = (new_hart 0 0x40000)\<lparr>WFI := True\<rparr>"
  by (simp add: sample_machine_def new_harts_def sample_config_def)


section \<open>Turns of the work loop\<close>

text \<open>What the work loop needs and keeps: a well-formed block cache and a tick budget below one tick.\<close>

definition turn_ok :: "machine \<Rightarrow> bool" where
  "turn_ok m \<longleftrightarrow> bc_wf (block_cache_d m) \<and> dev_tick_time m < 0x1000"

lemma load_into_frame:
  assumes "load_into u a buf sz m = Inr (ok, e, m')"
  shows "\<exists>v. m' = m\<lparr>mvm := v\<rparr> \<and> harts v = harts (mvm m) \<and> mstate v = mstate (mvm m)"
  using assms by (auto simp: load_into_def and_then_Inr_iff upd_vm_def)

lemma write_fdt_frame:
  assumes "write_fdt u indet m = Inr m'"
  shows "\<exists>v. m' = m\<lparr>mvm := v\<rparr> \<and> harts v = harts (mvm m) \<and> mstate v = mstate (mvm m)"
proof -
  have self: "\<exists>v. m = m\<lparr>mvm := v\<rparr> \<and> harts v = harts (mvm m) \<and> mstate v = mstate (mvm m)" for m :: machine
    by (rule exI [of _ "mvm m"]) simp
  show ?thesis
    using assms
    by (auto simp: write_fdt_def load_fdt_def and_then_Inr_iff Let_def split: if_splits option.splits intro: load_into_frame self)
qed

lemma load_file_frame:
  assumes "(case f of None \<Rightarrow> Inr m | Some bs \<Rightarrow> and_then (load_into u a (read_file bs) (g bs) m) (\<lambda>(_, _, m). Inr m)) = Inr m'"
  shows "\<exists>v. m' = m\<lparr>mvm := v\<rparr> \<and> harts v = harts (mvm m) \<and> mstate v = mstate (mvm m)"
proof (cases f)
  case None
  then show ?thesis using assms by (auto intro!: exI [of _ "mvm m"])
next
  case (Some bs)
  then show ?thesis using assms load_into_frame by (fastforce simp: and_then_Inr_iff)
qed

text \<open>After a reset the machine runs, its harts are those of \<open>Hart::init\<close>, and the block cache is empty.\<close>

lemma work_reset_result:
  assumes "work_reset u indet m = Inr m'"
  shows "\<exists>v. m' = m\<lparr>block_cache_d := bc_clear (block_cache_d m), mvm := v\<rparr> \<and> mstate v = Running \<and> harts v = fresh_harts (config m)"
proof -
  define m0 where "m0 = (upd_vm (\<lambda>v. v\<lparr>harts := [], mmap := reset_memory (mmap v)\<rparr>) m)\<lparr>block_cache_d := bc_clear (block_cache_d m)\<rparr>"
  have m0: "m0 = m\<lparr>mvm := mvm m0, block_cache_d := bc_clear (block_cache_d m)\<rparr>" by (simp add: m0_def upd_vm_def)
  obtain m1 m2 m3 where
    1: "(case bios_file m0 of None \<Rightarrow> Inr m0 | Some bs \<Rightarrow> and_then (load_into u 0x80000000 (read_file bs) (length bs) m0) (\<lambda>(_, _, m). Inr m)) = Inr m1"
    and 2: "(case kernel_file m1 of None \<Rightarrow> Inr m1 | Some bs \<Rightarrow> and_then (load_into u 0x80200000 (read_file bs) (length bs) m1) (\<lambda>(_, _, m). Inr m)) = Inr m2"
    and 3: "write_fdt u indet m2 = Inr m3"
    and 4: "m' = upd_vm (\<lambda>v. v\<lparr>harts := fresh_harts (config m3), mstate := Running\<rparr>) m3"
    using assms by (auto simp: work_reset_def Let_def m0_def [symmetric] and_then_Inr_iff)
  obtain v1 where v1: "m1 = m0\<lparr>mvm := v1\<rparr>" using load_file_frame [OF 1] by blast
  obtain v2 where v2: "m2 = m1\<lparr>mvm := v2\<rparr>" using load_file_frame [OF 2] by blast
  obtain v3 where v3: "m3 = m2\<lparr>mvm := v3\<rparr>" using write_fdt_frame [OF 3] by blast
  have "config m3 = config m" by (simp add: v1 v2 v3) (simp add: m0_def upd_vm_def)
  moreover have "m' = m0\<lparr>mvm := v3\<lparr>harts := fresh_harts (config m3), mstate := Running\<rparr>\<rparr>"
    by (simp add: 4 v1 v2 v3 upd_vm_def)
  ultimately show ?thesis by (auto simp: m0_def upd_vm_def)
qed

lemma subtract_tick_frame:
  assumes "subtract_tick m = Inr m'"
  shows "block_cache_d m' = block_cache_d m" "dev_tick_time m' = dev_tick_time m - 0x1000" "config m' = config m"
  using assms by (auto simp: subtract_tick_def and_then_Inr_iff)

lemma run_hart_blocks_ok:
  assumes "turn_ok m" and "run_hart_blocks i m = Inr m'"
  shows "turn_ok m' \<and> config m' = config m"
proof -
  obtain r where r: "run_blocks (Suc 0x4000) i 0x4000 (block_cache_d m) (mvm m) = Some r"
    and wf: "\<And>tot bc' v'. r = Inr (tot, bc', v') \<Longrightarrow> bc_wf bc'"
    using run_blocks_ends [of "block_cache_d m" "0x4000" i "mvm m"] assms(1) by (auto simp: turn_ok_def)
  obtain count bc v c where x: "r = Inr (count, bc, v)"
    and s: "settle 17 (m\<lparr>mvm := v, block_cache_d := bc, dev_tick_time := c\<rparr>) = Inr m'"
    using assms(2) r by (auto simp: run_hart_blocks_def ended_def and_then_Inr_iff Let_def)
  have "unat c div 0x1000 < 17" using unsigned_less [of c, where ?'a = nat] by simp
  then have "and_then (tick_times (unat c div 0x1000) v)
      (\<lambda>v. Inr (m\<lparr>block_cache_d := bc, mvm := v, dev_tick_time := of_nat (unat c mod 0x1000)\<rparr>)) = Inr m'"
    using settle_ticks [of "m\<lparr>mvm := v, block_cache_d := bc, dev_tick_time := c\<rparr>" 17] s by simp
  then obtain v' where m': "m' = m\<lparr>block_cache_d := bc, mvm := v', dev_tick_time := of_nat (unat c mod 0x1000)\<rparr>"
    by (auto simp: and_then_Inr_iff)
  have "unat (of_nat (unat c mod 0x1000) :: u16) = unat c mod 0x1000"
    unfolding unat_of_nat by (rule mod_less) (simp add: less_trans [of _ "0x1000"])
  then have "(of_nat (unat c mod 0x1000) :: u16) < 0x1000" by (simp add: word_less_nat_alt)
  with m' wf [OF x] show ?thesis by (simp add: turn_ok_def)
qed

lemma fold_and_then_invariant:
  assumes step: "\<And>i m m'. P m \<Longrightarrow> f i m = Inr m' \<Longrightarrow> P m'"
  shows "fold (\<lambda>i acc. and_then acc (f i)) xs r = Inr m' \<Longrightarrow> (\<And>m. r = Inr m \<Longrightarrow> P m) \<Longrightarrow> P m'"
proof (induction xs arbitrary: r)
  case (Cons i xs)
  show ?case
  proof (rule Cons.IH)
    show "fold (\<lambda>i acc. and_then acc (f i)) xs (and_then r (f i)) = Inr m'" using Cons.prems(1) by simp
    show "P m" if "and_then r (f i) = Inr m" for m using that Cons.prems(2) step by (auto simp: and_then_Inr_iff)
  qed
qed simp

lemma run_hart_ok: "turn_ok m \<Longrightarrow> run_hart bj i m = Inr m' \<Longrightarrow> turn_ok m'"
  using run_hart_blocks_ok [of m i m'] by (auto simp: run_hart_def and_then_Inr_iff turn_ok_def split: if_splits)

lemma work_turn_ok:
  assumes "turn_ok m" and "work_turn bj u indet m = Inr m'"
  shows "turn_ok m'"
proof (cases "mstate (mvm m)")
  case Running
  let ?m = "m\<lparr>dev_tick_time := dev_tick_time m + 256\<rparr>"
  obtain m1 where m1: "(if 0x1000 \<le> dev_tick_time ?m then subtract_tick ?m else Inr ?m) = Inr m1" and m': "run_harts bj m1 = Inr m'"
    using assms(2) Running by (auto simp: work_turn_def Let_def and_then_Inr_iff)
  have t: "dev_tick_time m < 0x1000" using assms(1) by (simp add: turn_ok_def)
  have u: "unat (dev_tick_time m + 256) = unat (dev_tick_time m) + 256"
    using t by (subst unat_add_lem [THEN iffD1]) (simp_all add: word_less_nat_alt)
  have "turn_ok m1"
  proof (cases "0x1000 \<le> dev_tick_time ?m")
    case True
    then have "unat (dev_tick_time m + 256 - 0x1000) = unat (dev_tick_time m + 256) - unat (0x1000 :: u16)" by (intro unat_sub) simp
    then have "unat (dev_tick_time m + 256 - 0x1000) = unat (dev_tick_time m) + 256 - 0x1000" unfolding u by simp
    then have "dev_tick_time m + 256 - 0x1000 < 0x1000" using t by (simp add: word_less_nat_alt)
    then show ?thesis using True m1 assms(1) subtract_tick_frame [of ?m m1] by (simp add: turn_ok_def)
  next
    case False
    then show ?thesis using m1 assms(1) by (auto simp: turn_ok_def)
  qed
  then show ?thesis using fold_and_then_invariant [of turn_ok "run_hart bj" _ "Inr m1" m'] m' run_hart_ok
    by (auto simp: run_harts_def)
next
  case Resetting
  then show ?thesis
    using assms work_reset_result [of u indet m m'] bc_wf_clear by (auto simp: work_turn_def turn_ok_def)
qed (use assms in \<open>auto simp: work_turn_def\<close>)

lemma host_reset_frame:
  assumes "host_reset u indet m = Inr m'"
  shows "\<exists>v. m' = m\<lparr>mvm := v\<rparr> \<and> (if mstate (mvm m) = Off then mstate v = Running \<and> harts v = fresh_harts (config m) else mstate v = Resetting)"
proof (cases "mstate (mvm m) = Off")
  case True
  define m0 where "m0 = upd_vm (\<lambda>v. v\<lparr>harts := [], mmap := reset_memory (mmap v)\<rparr>) m"
  obtain bs where bs: "bios_file m0 = Some bs"
    using assms True by (cases "bios_file m0") (simp_all add: host_reset_def Let_def m0_def [symmetric])
  then obtain ok e m1 m2 m3 where 1: "load_into u 0x80000000 (read_file bs) (length bs) m0 = Inr (ok, e, m1)"
    and 2: "(case kernel_file m1 of None \<Rightarrow> Inr m1 | Some bs \<Rightarrow> and_then (load_into u 0x80200000 (read_file bs) (length bs + 1) m1) (\<lambda>(_, _, m). Inr m)) = Inr m2"
    and 3: "write_fdt u indet m2 = Inr m3"
    and 4: "m' = upd_vm (\<lambda>v. v\<lparr>harts := fresh_harts (config m3), mstate := Running\<rparr>) m3"
    using assms True by (auto simp: host_reset_def Let_def m0_def [symmetric] and_then_Inr_iff)
  obtain v1 where v1: "m1 = m0\<lparr>mvm := v1\<rparr>" using load_into_frame [OF 1] by blast
  obtain v2 where v2: "m2 = m1\<lparr>mvm := v2\<rparr>" using load_file_frame [OF 2] by blast
  obtain v3 where v3: "m3 = m2\<lparr>mvm := v3\<rparr>" using write_fdt_frame [OF 3] by blast
  show ?thesis using True by (auto simp: 4 v1 v2 v3 m0_def upd_vm_def)
next
  case False
  then show ?thesis using assms by (auto simp: host_reset_def upd_vm_def)
qed

text \<open>
  The machine as its threads and its host drive it: turns of the work loop, resets and stops that the host asks for, updates of
  the CLINT thread, bytes that arrive at the UART, and the clock.
\<close>

inductive machine_step :: "bool \<Rightarrow> machine \<Rightarrow> machine \<Rightarrow> bool" for block_jit where
  step_turn: "work_turn block_jit u indet m = Inr m' \<Longrightarrow> machine_step block_jit m m'"
| step_reset: "host_reset u indet m = Inr m' \<Longrightarrow> machine_step block_jit m m'"
| step_stop: "machine_step block_jit m (upd_vm (\<lambda>v. v\<lparr>mstate := machine_stop (mstate v)\<rparr>) m)"
| step_timer: "update_mip (clock_ns (mvm m)) (clint_d (mvm m)) (harts (mvm m)) = Inr hs \<Longrightarrow>
    machine_step block_jit m (upd_vm (\<lambda>v. v\<lparr>harts := hs\<rparr>) m)"
| step_input: "receive_byte b (uart_d (mvm m)) (plic_d (mvm m)) (harts (mvm m)) = Inr (ur, p, hs) \<Longrightarrow>
    machine_step block_jit m (upd_vm (\<lambda>v. v\<lparr>uart_d := ur, plic_d := p, harts := hs\<rparr>) m)"
| step_clock: "clock_ns (mvm m) \<le> ns \<Longrightarrow> machine_step block_jit m (upd_vm (\<lambda>v. v\<lparr>clock_ns := ns\<rparr>) m)"

inductive_cases machine_stepE: "machine_step block_jit m m'"

lemma machine_step_ok: "machine_step bj m m' \<Longrightarrow> turn_ok m \<Longrightarrow> turn_ok m'"
  by (erule machine_stepE) (auto simp: turn_ok_def upd_vm_def dest: work_turn_ok [unfolded turn_ok_def, rotated] host_reset_frame)

text \<open>
  C37. In every state that the threads and the host can bring the machine to, the block cache is well-formed and the tick
  budget is below one tick, so that the 16-bit budget cannot overflow in the next turn.
\<close>

theorem work_loop_invariant:
  assumes "(machine_step block_jit)\<^sup>*\<^sup>* m m'" and "bc_wf (block_cache_d m)" and "dev_tick_time m < 0x1000"
  shows "bc_wf (block_cache_d m') \<and> dev_tick_time m' < 0x1000"
proof -
  have "turn_ok m'" using assms(1)
  proof (induction rule: rtranclp_induct)
    case base
    then show ?case using assms(2,3) by (simp add: turn_ok_def)
  next
    case (step m1 m2)
    then show ?case by (blast intro: machine_step_ok)
  qed
  then show ?thesis by (simp add: turn_ok_def)
qed

theorem work_loop_invariant_witness:
  "(machine_step True)\<^sup>*\<^sup>* sample_machine (sample_machine\<lparr>mvm := (mvm sample_machine)\<lparr>mstate := Off\<rparr>\<rparr>) \<and> dev_tick_time sample_machine < 0x1000"
proof -
  have s: "(machine_step True)\<^sup>*\<^sup>* sample_machine (sample_machine\<lparr>mvm := (mvm sample_machine)\<lparr>mstate := Off\<rparr>\<rparr>)"
    using step_stop [of True sample_machine] by (simp add: upd_vm_def machine_stop_def)
  have "bc_wf (block_cache_d sample_machine)" "dev_tick_time sample_machine < 0x1000" using bc_wf_new by (simp_all add: sample_machine_def)
  from work_loop_invariant [OF s this] s this show ?thesis by simp
qed

section \<open>Boot\<close>

text \<open>RAM of the configured size is the region that serves the addresses from 0x80000000 on.\<close>

definition ram_of :: "machine \<Rightarrow> u64 \<Rightarrow> u8" where
  "ram_of m = rdata (regions (mmap (mvm m)) ! the (ram_direct (mmap (mvm m))))"

definition ram_ready :: "machine \<Rightarrow> bool" where
  "ram_ready m \<longleftrightarrow>
     (case ram_direct (mmap (mvm m)) of None \<Rightarrow> False
      | Some i \<Rightarrow> i < length (regions (mmap (mvm m))) \<and> base_addr (regions (mmap (mvm m)) ! i) = 0x80000000 \<and>
          rsize (regions (mmap (mvm m)) ! i) = memory_size (config m)) \<and>
     0x20000 \<le> unat (memory_size (config m)) \<and> unat (memory_size (config m)) + 0x80000000 < 2 ^ 64"

lemma field_first_byte: "ucast (field buf 0 4 :: u32) = (buf ! 0 :: u8)"
  by (rule bit_word_eqI) (auto simp: field_def bit_simps bit_load_bytes)

lemma load_into_raw:
  assumes ready: "ram_ready m" and buf: "4 \<le> length buf" "buf ! 0 \<noteq> 0x7F" "sz \<le> length buf"
    and fits: "unat off + sz \<le> unat (memory_size (config m))" "0 < sz"
  shows "\<exists>v. load_into u (0x80000000 + off) buf sz m = Inr (True, None, m\<lparr>mvm := v\<rparr>) \<and> ram_ready (m\<lparr>mvm := v\<rparr>) \<and>
    ram_of (m\<lparr>mvm := v\<rparr>) = copy_bytes (take sz buf) off (ram_of m) \<and> harts v = harts (mvm m) \<and> mstate v = mstate (mvm m)"
proof -
  let ?mm = "mmap (mvm m)" and ?a = "0x80000000 + off"
  obtain i where i: "ram_direct ?mm = Some i" "i < length (regions ?mm)" "base_addr (regions ?mm ! i) = 0x80000000"
    "rsize (regions ?mm ! i) = memory_size (config m)"
    and sz: "0x20000 \<le> unat (memory_size (config m))" "unat (memory_size (config m)) + 0x80000000 < 2 ^ 64"
    using ready by (auto simp: ram_ready_def split: option.splits)
  have a: "unat ?a = 0x80000000 + unat off" using fits sz(2) by (simp add: unat_word_ariths)
  have e: "unat (0x80000000 + memory_size (config m)) = 0x80000000 + unat (memory_size (config m))"
    using sz(2) by (simp add: unat_word_ariths)
  have "guest_ptr ?a ?mm = Inr (i, off)"
    using a e i fits by (simp add: guest_ptr_def find_region_def region_ptr_def word_le_nat_alt word_less_nat_alt not_le not_less)
  moreover have "array_ok (regions ?mm ! i) off (length (take sz buf))" using fits buf(3) i(4) by (simp add: array_ok_def)
  moreover have "(field buf 0 4 :: u32) \<noteq> ELF_MAGIC"
  proof
    assume "(field buf 0 4 :: u32) = ELF_MAGIC"
    then have "ucast (field buf 0 4 :: u32) = (0x7F :: u8)" by simp
    with buf(2) show False by (simp add: field_first_byte)
  qed
  moreover define w where "w = (mvm m)\<lparr>mmap := ?mm\<lparr>regions := (regions ?mm)[i := (regions ?mm ! i)
      \<lparr>rdata := copy_bytes (take sz buf) off (rdata (regions ?mm ! i))\<rparr>]\<rparr>\<rparr>"
  ultimately have "load_into u ?a buf sz m = Inr (True, None, m\<lparr>mvm := w\<rparr>)"
    using buf by (simp add: load_into_def load_buffer_def load_binary_def upd_vm_def)
  then show ?thesis using i sz by (intro exI [of _ w]) (simp add: ram_ready_def ram_of_def w_def)
qed

text \<open>The images of firmware and kernel: raw binaries that fit below the next image and below the device tree.\<close>

definition images_ok :: "machine \<Rightarrow> bool" where
  "images_ok m \<longleftrightarrow>
     (case bios_file m of None \<Rightarrow> False
      | Some bs \<Rightarrow> 3 \<le> length bs \<and> bs ! 0 \<noteq> 0x7F \<and> length bs \<le> 0x200000 \<and> length bs + 0x20000 \<le> unat (memory_size (config m))) \<and>
     (case kernel_file m of None \<Rightarrow> True
      | Some ks \<Rightarrow> 3 \<le> length ks \<and> ks ! 0 \<noteq> 0x7F \<and> 0x200000 + length ks + 0x20000 \<le> unat (memory_size (config m)))"

text \<open>The bytes \<open>bs\<close> stand in RAM from the offset \<open>off\<close> on.\<close>

definition ram_holds :: "machine \<Rightarrow> u64 \<Rightarrow> u8 list \<Rightarrow> bool" where
  "ram_holds m off bs \<longleftrightarrow> (\<forall>j < length bs. ram_of m (off + of_nat j) = bs ! j)"

lemma ram_holds_copy:
  assumes "ram_of m' = copy_bytes xs a (ram_of m)" and "length xs < 2 ^ 64"
  shows "ram_holds m' a xs"
    and "ram_holds m b bs \<Longrightarrow> unat a + length xs \<le> unat b \<or> unat b + length bs \<le> unat a \<Longrightarrow>
      unat a + length xs \<le> 2 ^ 64 \<Longrightarrow> unat b + length bs \<le> 2 ^ 64 \<Longrightarrow> ram_holds m' b bs"
proof -
  show "ram_holds m' a xs" using copy_bytes_inside [of xs _ a "ram_of m"] assms by (simp add: ram_holds_def)
  assume h: "ram_holds m b bs" and d: "unat a + length xs \<le> unat b \<or> unat b + length bs \<le> unat a"
    and r: "unat a + length xs \<le> 2 ^ 64" "unat b + length bs \<le> 2 ^ 64"
  have "b + of_nat j \<noteq> a + of_nat i" if "j < length bs" "i < length xs" for i j
  proof -
    have "unat (b + of_nat j) = unat b + j" "unat (a + of_nat i) = unat a + i"
      using that r by (simp_all add: unat_word_ariths unat_of_nat_64)
    then show ?thesis using d that by auto
  qed
  then show "ram_holds m' b bs" using h assms(1) by (auto simp: ram_holds_def copy_bytes_outside)
qed

lemma tree_image_head: "tree_image t c ! 0 = 0xD0" and tree_image_len: "60 \<le> length (tree_image t c)"
  by (simp_all add: tree_image_def be32_bytes_eq)

lemma write_fdt_ram:
  assumes "ram_ready m" and "dtb_file m = None" and "cfg_init_fdt (config m)" and "fdt_root m = Some t"
    and "names_ok t" and "tree_bytes t \<le> 0x20000" and "tree_bytes t \<le> length indet"
  shows "\<exists>v. write_fdt u indet m = Inr (m\<lparr>mvm := v\<rparr>) \<and> ram_ready (m\<lparr>mvm := v\<rparr>) \<and>
    ram_of (m\<lparr>mvm := v\<rparr>) = copy_bytes (tree_image t 0) (memory_size (config m) - 0x20000) (ram_of m) \<and> harts v = harts (mvm m)"
proof -
  let ?off = "memory_size (config m) - 0x20000" and ?img = "tree_image t 0"
  have small: "tree_bytes t + 3 < 2 ^ 32" using assms(6) by simp
  note n = size_of_tree_eq [OF small]
  have l: "length (take (tree_bytes t) indet) = tree_bytes t" using assms(7) by simp
  have "serialize t (Some (take (tree_bytes t) indet)) (size_of_tree t) 0 = Inr (size_of_tree t, Some ?img)"
    using serialize_image [OF assms(5) small, of "take (tree_bytes t) indet" "size_of_tree t" 0] assms(7) l n by simp
  moreover have "unat ?off + tree_bytes t \<le> unat (memory_size (config m))"
    using assms(1,6) by (simp add: ram_ready_def unat_sub word_le_nat_alt)
  then obtain v where "load_into u (0x80000000 + ?off) ?img (tree_bytes t) m = Inr (True, None, m\<lparr>mvm := v\<rparr>)"
    "ram_ready (m\<lparr>mvm := v\<rparr>)" "ram_of (m\<lparr>mvm := v\<rparr>) = copy_bytes (take (tree_bytes t) ?img) ?off (ram_of m)" "harts v = harts (mvm m)"
    using load_into_raw [OF assms(1), of ?img "tree_bytes t" ?off u] tree_image_len [of t 0] by (auto simp: tree_image_head length_tree_image)
  moreover have "0x80000000 + ?off = dtb_address (config m)" by (simp add: dtb_address_def)
  ultimately show ?thesis using assms(2-4) n by (auto simp: write_fdt_def Let_def length_tree_image)
qed

lemma load_file_ram:
  assumes "ram_ready m" and "3 \<le> length bs" and "bs ! 0 \<noteq> 0x7F" and "unat off + length bs \<le> unat (memory_size (config m))"
  shows "\<exists>v. load_into u (0x80000000 + off) (read_file bs) (length bs) m = Inr (True, None, m\<lparr>mvm := v\<rparr>) \<and> ram_ready (m\<lparr>mvm := v\<rparr>) \<and>
    ram_of (m\<lparr>mvm := v\<rparr>) = copy_bytes bs off (ram_of m) \<and> harts v = harts (mvm m)"
proof -
  have "(bs @ [0]) ! 0 \<noteq> 0x7F" "bs \<noteq> []" using assms(2,3) by (cases bs; auto)+
  then show ?thesis using load_into_raw [OF assms(1), of "bs @ [0]" "length bs" off u] assms(2,4) by (auto simp: read_file_def)
qed

lemma machine_run_ram:
  assumes ready: "ram_ready m" and "images_ok m" and tree: "ram_holds m (memory_size (config m) - 0x20000) img" "length img \<le> 0x20000"
  shows "\<exists>m'. machine_run u m = Inr m' \<and> mstate (mvm m') = Running \<and> ram_holds m' 0 (the (bios_file m)) \<and>
    (\<forall>ks. kernel_file m = Some ks \<longrightarrow> ram_holds m' 0x200000 ks) \<and> ram_holds m' (memory_size (config m) - 0x20000) img \<and>
    harts (mvm m') = map (hart_init (dtb_address (config m)) (entry_pc (config m))) (harts (mvm m))"
proof -
  let ?n = "memory_size (config m)" and ?boot = "\<lambda>v. v\<lparr>harts := map (hart_init (dtb_address (config m)) (entry_pc (config m))) (harts v), mstate := Running\<rparr>"
  obtain bs where bs: "bios_file m = Some bs" "3 \<le> length bs" "bs ! 0 \<noteq> 0x7F" "length bs \<le> 0x200000" "length bs + 0x20000 \<le> unat ?n"
    using assms(2) by (auto simp: images_ok_def split: option.splits)
  have n: "unat (?n - 0x20000) = unat ?n - 0x20000" "0x20000 \<le> unat ?n" "unat ?n + 0x80000000 < 2 ^ 64"
    using ready by (auto simp: ram_ready_def unat_sub word_le_nat_alt)
  obtain v1 where v1: "load_into u 0x80000000 (read_file bs) (length bs) m = Inr (True, None, m\<lparr>mvm := v1\<rparr>)" "ram_ready (m\<lparr>mvm := v1\<rparr>)"
      "ram_of (m\<lparr>mvm := v1\<rparr>) = copy_bytes bs 0 (ram_of m)" "harts v1 = harts (mvm m)"
    using load_file_ram [OF ready bs(2,3), of 0 u] bs(5) by auto
  have h1: "ram_holds (m\<lparr>mvm := v1\<rparr>) 0 bs" "ram_holds (m\<lparr>mvm := v1\<rparr>) (?n - 0x20000) img"
  proof -
    have "length bs < 2 ^ 64" using bs(4) by simp
    then show "ram_holds (m\<lparr>mvm := v1\<rparr>) 0 bs" by (rule ram_holds_copy(1) [OF v1(3)])
    show "ram_holds (m\<lparr>mvm := v1\<rparr>) (?n - 0x20000) img"
      by (rule ram_holds_copy(2) [OF v1(3) _ tree(1)]) (use bs(4,5) n tree(2) in simp_all, linarith+)
  qed
  have holds: "ram_holds (m\<lparr>mvm := v\<lparr>harts := hs, mstate := Running\<rparr>\<rparr>) = ram_holds (m\<lparr>mvm := v\<rparr>)" for v hs by (auto simp: ram_holds_def ram_of_def fun_eq_iff)
  show ?thesis
  proof (cases "kernel_file m")
    case None
    have "machine_run u m = Inr (m\<lparr>mvm := ?boot v1\<rparr>)" using bs(1) v1(1) None by (simp add: machine_run_def upd_vm_def)
    then show ?thesis using None bs(1) h1 v1(4) by (intro exI [of _ "m\<lparr>mvm := ?boot v1\<rparr>"]) (simp add: holds)
  next
    case (Some ks)
    then have ks: "3 \<le> length ks" "ks ! 0 \<noteq> 0x7F" "0x200000 + length ks + 0x20000 \<le> unat ?n" using assms(2) by (auto simp: images_ok_def)
    obtain v2 where v2: "load_into u 0x80200000 (read_file ks) (length ks) (m\<lparr>mvm := v1\<rparr>) = Inr (True, None, m\<lparr>mvm := v2\<rparr>)"
        "ram_of (m\<lparr>mvm := v2\<rparr>) = copy_bytes ks 0x200000 (ram_of (m\<lparr>mvm := v1\<rparr>))" "harts v2 = harts v1"
      using load_file_ram [OF v1(2) ks(1,2), of "0x200000" u] ks(3) by auto
    have h2: "ram_holds (m\<lparr>mvm := v2\<rparr>) 0x200000 ks" "ram_holds (m\<lparr>mvm := v2\<rparr>) 0 bs" "ram_holds (m\<lparr>mvm := v2\<rparr>) (?n - 0x20000) img"
    proof -
      show "ram_holds (m\<lparr>mvm := v2\<rparr>) 0x200000 ks" "ram_holds (m\<lparr>mvm := v2\<rparr>) 0 bs"
        using ram_holds_copy(1) [OF v2(2)] ram_holds_copy(2) [OF v2(2) _ h1(1)] bs(4) ks(3) n by simp_all
      show "ram_holds (m\<lparr>mvm := v2\<rparr>) (?n - 0x20000) img"
        by (rule ram_holds_copy(2) [OF v2(2) _ h1(2)]) (use ks(3) n tree(2) in simp_all, linarith+)
    qed
    have "machine_run u m = Inr (m\<lparr>mvm := ?boot v2\<rparr>)" using bs(1) v1(1) v2(1) Some by (simp add: machine_run_def upd_vm_def)
    then show ?thesis using Some bs(1) h2 v1(4) v2(3) by (intro exI [of _ "m\<lparr>mvm := ?boot v2\<rparr>"]) (simp add: holds)
  qed
qed

lemma hart_init_regs:
  "pc (hart_init d e h) = e" "mode (hart_init d e h) = Machine" "GPR (hart_init d e h) 10 = ucast (hid h)"
  "GPR (hart_init d e h) 11 = d" "hid (hart_init d e h) = hid h"
  by (simp_all add: hart_init_def set_reg_def set_csr_def Let_def)

text \<open>
  C13. Boot: with raw firmware and kernel images that fit, \<open>write_fdt\<close> followed by \<open>run\<close> succeeds and
  leaves the machine running with the firmware at 0x80000000, the kernel at 0x80200000 and, 128 KiB below the end of
  RAM, bytes from which a reader of the device tree format gets exactly the tree of the board; every hart starts at the entry point in
  machine mode with its number in a0 and the address of that tree in a1.
\<close>

theorem boot_state:
  assumes "ram_ready m" and "images_ok m" and "dtb_file m = None" and "cfg_init_fdt (config m)" and "fdt_root m = Some t"
    and "names_ok t" and "tree_bytes t \<le> 0x20000" and "tree_bytes t \<le> length indet"
  shows "\<exists>m'. and_then (write_fdt u indet m) (machine_run u) = Inr m' \<and> mstate (mvm m') = Running \<and>
    ram_holds m' 0 (the (bios_file m)) \<and> (\<forall>ks. kernel_file m = Some ks \<longrightarrow> ram_holds m' 0x200000 ks) \<and>
    parse_dtb (map (\<lambda>j. ram_of m' (dtb_address (config m) - 0x80000000 + of_nat j)) [0..<tree_bytes t]) = Some (erase t) \<and>
    map hid (harts (mvm m')) = map hid (harts (mvm m)) \<and>
    (\<forall>h \<in> set (harts (mvm m')). pc h = entry_pc (config m) \<and> mode h = Machine \<and> GPR h 10 = ucast (hid h) \<and>
       GPR h 11 = dtb_address (config m))"
proof -
  let ?off = "memory_size (config m) - 0x20000" and ?img = "tree_image t 0"
  have len: "length ?img = tree_bytes t" by (rule length_tree_image)
  obtain v where v: "write_fdt u indet m = Inr (m\<lparr>mvm := v\<rparr>)" "ram_ready (m\<lparr>mvm := v\<rparr>)"
      "ram_of (m\<lparr>mvm := v\<rparr>) = copy_bytes ?img ?off (ram_of m)" "harts v = harts (mvm m)"
    using write_fdt_ram [OF assms(1,3-8)] by blast
  have "ram_holds (m\<lparr>mvm := v\<rparr>) ?off ?img" using ram_holds_copy(1) [OF v(3)] assms(7) len by simp
  moreover have "images_ok (m\<lparr>mvm := v\<rparr>)" using assms(2) by (simp add: images_ok_def cong: option.case_cong)
  ultimately obtain m' where m': "machine_run u (m\<lparr>mvm := v\<rparr>) = Inr m'" "mstate (mvm m') = Running" "ram_holds m' 0 (the (bios_file m))"
      "\<forall>ks. kernel_file m = Some ks \<longrightarrow> ram_holds m' 0x200000 ks" "ram_holds m' ?off ?img"
      "harts (mvm m') = map (hart_init (dtb_address (config m)) (entry_pc (config m))) (harts (mvm m))"
    using machine_run_ram [OF v(2), of ?img u] v(4) assms(7) len by auto
  have "dtb_address (config m) - 0x80000000 = ?off" by (simp add: dtb_address_def)
  then have "map (\<lambda>j. ram_of m' (dtb_address (config m) - 0x80000000 + of_nat j)) [0..<tree_bytes t] = ?img"
    using m'(5) len by (intro nth_equalityI) (simp_all add: ram_holds_def)
  moreover have "parse_dtb ?img = Some (erase t)" using parse_image [OF assms(6), of 0 "[]"] assms(7) by simp
  ultimately show ?thesis using v(1) m' by (auto simp: hart_init_regs)
qed

theorem boot_state_witness:
  "\<exists>m'. and_then (write_fdt (0, 0) (replicate 256 0) sample_machine) (machine_run (0, 0)) = Inr m' \<and> mstate (mvm m') = Running \<and>
     ram_of m' 0 = 0x13 \<and> parse_dtb (map (\<lambda>j. ram_of m' (0x20000 + of_nat j)) [0..<tree_bytes sample_tree]) = Some (erase sample_tree) \<and>
     GPR (harts (mvm m') ! 0) 11 = 0x80020000"
proof -
  let ?m = sample_machine
  have "ram_ready ?m" by (simp add: sample_machine_def sample_config_def ram_ready_def add_region_def empty_map_def new_region_def Let_def)
  moreover have "images_ok ?m" by (simp add: sample_machine_def sample_config_def images_ok_def)
  moreover have c: "dtb_file ?m = None" "cfg_init_fdt (config ?m)" "fdt_root ?m = Some sample_tree" "dtb_address (config ?m) = 0x80020000"
      "bios_file ?m = Some [0x13, 0, 0, 0]" "kernel_file ?m = None"
    by (simp_all add: sample_machine_def sample_config_def dtb_address_def)
  ultimately have "\<exists>m'. and_then (write_fdt (0, 0) (replicate 256 0) ?m) (machine_run (0, 0)) = Inr m' \<and> mstate (mvm m') = Running \<and>
    ram_holds m' 0 (the (bios_file ?m)) \<and> (\<forall>ks. kernel_file ?m = Some ks \<longrightarrow> ram_holds m' 0x200000 ks) \<and>
    parse_dtb (map (\<lambda>j. ram_of m' (dtb_address (config ?m) - 0x80000000 + of_nat j)) [0..<tree_bytes sample_tree]) = Some (erase sample_tree) \<and>
    map hid (harts (mvm m')) = map hid (harts (mvm ?m)) \<and>
    (\<forall>h \<in> set (harts (mvm m')). pc h = entry_pc (config ?m) \<and> mode h = Machine \<and> GPR h 10 = ucast (hid h) \<and> GPR h 11 = dtb_address (config ?m))"
    using sample_tree_bytes by (intro boot_state) simp_all
  then obtain m' where m': "and_then (write_fdt (0, 0) (replicate 256 0) ?m) (machine_run (0, 0)) = Inr m'" "mstate (mvm m') = Running"
    "ram_holds m' 0 [0x13, 0, 0, 0]" "parse_dtb (map (\<lambda>j. ram_of m' (0x20000 + of_nat j)) [0..<tree_bytes sample_tree]) = Some (erase sample_tree)"
    "map hid (harts (mvm m')) = map hid (harts (mvm ?m))" "\<forall>h \<in> set (harts (mvm m')). GPR h 11 = 0x80020000"
    by (auto simp: c)
  have "length (harts (mvm m')) = 1" using arg_cong [OF m'(5), of length] by (simp add: sample_machine_def new_harts_def sample_config_def)
  then have "GPR (harts (mvm m') ! 0) 11 = 0x80020000" using m'(6) by simp
  moreover have "ram_of m' 0 = 0x13" using m'(3) by (auto simp: ram_holds_def dest: spec [of _ 0])
  ultimately show ?thesis using m'(1,2,4) by blast
qed

section \<open>The layout of the board\<close>

definition soc_devs :: "device list" where
  "soc_devs = [\<lparr>dev_start = 0x0C000000, dev_size = 0x400000, dev_kind = Dev_plic\<rparr>, \<lparr>dev_start = 0x10000000, dev_size = 0x100, dev_kind = Dev_uart\<rparr>,
     \<lparr>dev_start = 0x02000000, dev_size = 0x10000, dev_kind = Dev_clint\<rparr>, \<lparr>dev_start = 0x1000000, dev_size = 0x1000, dev_kind = Dev_syscon\<rparr>,
     \<lparr>dev_start = 0x10030000, dev_size = 0x20, dev_kind = Dev_i2c\<rparr>]"

definition blk_dev :: "nat \<Rightarrow> device" where
  "blk_dev k = \<lparr>dev_start = 0x10001000 + 0x1000 * of_nat k, dev_size = 0x1000, dev_kind = Dev_blk k\<rparr>"

lemma upd_fdt_frame: "upd_fdt f m = Inr m' \<Longrightarrow> \<exists>t. m' = m\<lparr>fdt_root := t\<rparr>"
  by (auto simp: upd_fdt_def and_then_Inr_iff split: option.splits intro: exI [of _ "fdt_root m"])

text \<open>What the devices of the board leave alone, and that they add themselves to the device list.\<close>

definition board_step :: "device list \<Rightarrow> machine \<Rightarrow> machine \<Rightarrow> bool" where
  "board_step ds m m' \<longleftrightarrow> devs (mvm m') = devs (mvm m) @ ds \<and> config m' = config m \<and> vd_images m' = vd_images m \<and>
     bios_file m' = bios_file m \<and> kernel_file m' = kernel_file m \<and> dtb_file m' = dtb_file m \<and>
     block_cache_d m' = block_cache_d m \<and> dev_tick_time m' = dev_tick_time m \<and> (ram_ready m \<longrightarrow> ram_ready m')"

lemma ram_ready_add_region:
  assumes "ram_ready m" and "mmap v = add_region base sz (mmap (mvm m))" and "base < 0x80000000" and "config m' = config m" and "mvm m' = v"
  shows "ram_ready m'"
  using assms by (auto simp: ram_ready_def add_region_def Let_def nth_append split: option.splits)

lemma add_soc_step:
  assumes "upd_fdt f (map_device k base sz (upd_vm g m)) = Inr m'" and "base < 0x80000000"
    and "\<And>v. mmap (g v) = mmap v" and "\<And>v. devs (g v) = devs v" and "\<And>v. blk_ds (g v) = blk_ds v"
  shows "board_step [\<lparr>dev_start = base, dev_size = sz, dev_kind = k\<rparr>] m m' \<and> blk_ds (mvm m') = blk_ds (mvm m) \<and> virtio_count m' = virtio_count m"
proof -
  obtain t where m': "m' = (map_device k base sz (upd_vm g m))\<lparr>fdt_root := t\<rparr>" using upd_fdt_frame [OF assms(1)] by blast
  have "ram_ready m \<Longrightarrow> ram_ready m'"
    by (rule ram_ready_add_region [of m "mvm m'" base sz]) (simp_all add: m' assms map_device_def upd_vm_def)
  then show ?thesis by (simp add: board_step_def m' map_device_def upd_vm_def assms)
qed

lemma board_step_trans: "board_step ds m m' \<Longrightarrow> board_step es m' m'' \<Longrightarrow> board_step (ds @ es) m m''"
  by (simp add: board_step_def)

lemma add_blk_step:
  assumes "add_blk m = Inr m'" and "virtio_count m = length (blk_ds (mvm m))"
  shows "board_step [blk_dev (virtio_count m)] m m' \<and> virtio_count m' = virtio_count m + 1 \<and> virtio_count m < 8 \<and>
    length (blk_ds (mvm m')) = length (blk_ds (mvm m)) + 1"
proof -
  let ?k = "virtio_count m" and ?m = "m\<lparr>virtio_count := virtio_count m + 1\<rparr>"
  let ?base = "0x10000000 + 0x1000 * of_nat (?k + 1) :: u64"
  have k: "?k < 8" using assms(1) by (simp add: add_blk_def Let_def split: if_splits)
  obtain img where img: "vec_at (vd_images m) ?k = Inr img" using assms(1) k by (auto simp: add_blk_def Let_def and_then_Inr_iff)
  obtain d p mm where v: "new_virtio_blk ?base (Some img) (plic_d (mvm m)) (mmap (mvm m)) = (d, p, mm)"
    by (cases "new_virtio_blk ?base (Some img) (plic_d (mvm m)) (mmap (mvm m))")
  then obtain t where m': "m' = (upd_vm (\<lambda>v. v\<lparr>blk_ds := blk_ds v @ [d], plic_d := p, mmap := mm,
        devs := devs v @ [\<lparr>dev_start = ?base, dev_size = 0x1000, dev_kind = Dev_blk ?k\<rparr>]\<rparr>) ?m)\<lparr>fdt_root := t\<rparr>"
    using assms k img by (auto simp: add_blk_def Let_def dest!: upd_fdt_frame)
  have mm: "mm = add_region ?base 0x1000 (mmap (mvm m))" using v by (auto simp: new_virtio_blk_def split: prod.splits)
  have b: "?base = dev_start (blk_dev ?k)" by (simp add: blk_dev_def algebra_simps)
  have "unat (of_nat (?k + 1) :: u64) = ?k + 1" using k by (intro unat_of_nat_64) simp
  then have "unat ?base < 0x80000000" using k by (simp add: unat_word_ariths del: of_nat_add of_nat_Suc)
  then have low: "?base < 0x80000000" by (simp only: word_less_nat_alt) simp
  have "ram_ready m \<Longrightarrow> ram_ready m'"
    by (rule ram_ready_add_region [OF _ _ low, of m "mvm m'" "0x1000"]) (simp_all add: m' mm upd_vm_def)
  then show ?thesis using k by (simp add: board_step_def m' upd_vm_def b [symmetric]) (simp add: blk_dev_def algebra_simps)
qed

lemma add_blks_step:
  assumes "add_blks n m = Inr m'" and "virtio_count m = length (blk_ds (mvm m))" and "virtio_count m \<le> 8"
  shows "board_step (map blk_dev [virtio_count m..<virtio_count m + n]) m m' \<and> virtio_count m + n \<le> 8 \<and>
    length (blk_ds (mvm m')) = length (blk_ds (mvm m)) + n"
  using assms
proof (induction n arbitrary: m)
  case 0
  then show ?case by (simp add: board_step_def)
next
  case (Suc n)
  then obtain m1 where m1: "add_blk m = Inr m1" "add_blks n m1 = Inr m'" by (auto simp: and_then_Inr_iff)
  note s = add_blk_step [OF m1(1) Suc.prems(2)]
  have "board_step (map blk_dev [virtio_count m1..<virtio_count m1 + n]) m1 m' \<and> virtio_count m1 + n \<le> 8 \<and>
      length (blk_ds (mvm m')) = length (blk_ds (mvm m1)) + n"
    using s Suc.prems(2) by (intro Suc.IH [OF m1(2)]) auto
  moreover have "[virtio_count m..<virtio_count m + Suc n] = virtio_count m # [virtio_count m + 1..<virtio_count m + 1 + n]"
    by (simp add: upt_conv_Cons)
  ultimately show ?case using s board_step_trans [of "[blk_dev (virtio_count m)]" m m1] by simp
qed

lemma init_auto_devices_step:
  assumes "init_auto_devices m = Inr m'" and "blk_ds (mvm m) = []" and "virtio_count m = 0"
  shows "board_step (soc_devs @ map blk_dev [0..<length (vd_images m)]) m m' \<and> length (vd_images m) \<le> 8 \<and>
    length (blk_ds (mvm m')) = length (vd_images m)"
proof -
  let ?keep = "\<lambda>m m'. blk_ds (mvm m') = blk_ds (mvm m) \<and> virtio_count m' = virtio_count m"
  obtain m1 m2 m3 m4 m5 where 1: "add_plic m = Inr m1" and 2: "add_uart m1 = Inr m2" and 3: "add_clint m2 = Inr m3"
    and 4: "add_syscon m3 = Inr m4" and 5: "add_i2c m4 = Inr m5" and 6: "add_blks (length (vd_images m5)) m5 = Inr m'"
    using assms(1) by (auto simp: init_auto_devices_def and_then_Inr_iff)
  have s1: "board_step [\<lparr>dev_start = 0x0C000000, dev_size = 0x400000, dev_kind = Dev_plic\<rparr>] m m1 \<and> ?keep m m1"
    using 1 unfolding add_plic_def Let_def by (rule add_soc_step) simp_all
  obtain u p where "uart_init_auto (plic_d (mvm m1)) = (u, p)" by fastforce
  then have s2: "board_step [\<lparr>dev_start = 0x10000000, dev_size = 0x100, dev_kind = Dev_uart\<rparr>] m1 m2 \<and> ?keep m1 m2"
    using add_soc_step [where g = "\<lambda>v. v\<lparr>uart_d := u, plic_d := p\<rparr>"] 2 by (simp add: add_uart_def Let_def)
  obtain c hs where "clint_init_auto (clock_ns (mvm m2)) (cfg_timebase (config m2)) (harts (mvm m2)) = (c, hs)" by fastforce
  then have s3: "board_step [\<lparr>dev_start = 0x02000000, dev_size = 0x10000, dev_kind = Dev_clint\<rparr>] m2 m3 \<and> ?keep m2 m3"
    using add_soc_step [where g = "\<lambda>v. v\<lparr>clint_d := c, harts := hs\<rparr>"] 3 by (simp add: add_clint_def Let_def)
  have s4: "board_step [\<lparr>dev_start = 0x1000000, dev_size = 0x1000, dev_kind = Dev_syscon\<rparr>] m3 m4 \<and> ?keep m3 m4"
    using 4 unfolding add_syscon_def Let_def by (rule add_soc_step) simp_all
  obtain s p' where "new_i2c 0x10030000 (plic_d (mvm m4)) = (s, p')" by fastforce
  then have s5: "board_step [\<lparr>dev_start = 0x10030000, dev_size = 0x20, dev_kind = Dev_i2c\<rparr>] m4 m5 \<and> ?keep m4 m5"
    using add_soc_step [where g = "\<lambda>v. v\<lparr>i2c_d := s, plic_d := p'\<rparr>"] 5 by (simp add: add_i2c_def Let_def)
  have "board_step soc_devs m m5"
    using board_step_trans [OF board_step_trans [OF board_step_trans [OF board_step_trans [OF s1 [THEN conjunct1] s2 [THEN conjunct1]]
      s3 [THEN conjunct1]] s4 [THEN conjunct1]] s5 [THEN conjunct1]]
    by (simp add: soc_devs_def)
  moreover have "virtio_count m5 = 0" "blk_ds (mvm m5) = []" using s1 s2 s3 s4 s5 assms(2,3) by auto
  moreover from this add_blks_step [OF 6] have "board_step (map blk_dev [0..<length (vd_images m5)]) m5 m' \<and>
      length (vd_images m5) \<le> 8 \<and> length (blk_ds (mvm m')) = length (vd_images m5)" by simp
  moreover have "vd_images m5 = vd_images m" using \<open>board_step soc_devs m m5\<close> by (simp add: board_step_def)
  ultimately show ?thesis using board_step_trans by metis
qed

text \<open>A device of the list answers the addresses \<open>dev_lo\<close> to \<open>dev_hi\<close>.\<close>

definition dev_lo :: "device \<Rightarrow> nat" where
  "dev_lo d = unat (dev_start d)"

definition dev_hi :: "device \<Rightarrow> nat" where
  "dev_hi d = unat (dev_start d) + unat (dev_size d)"

lemma board_disjoint:
  assumes "d \<in> set (soc_devs @ map blk_dev [0..<n])" and "e \<in> set (soc_devs @ map blk_dev [0..<n])" and "n \<le> 8"
  shows "d = e \<or> dev_hi d \<le> dev_lo e \<or> dev_hi e \<le> dev_lo d" and "dev_hi d < 2 ^ 64"
proof -
  have "set (soc_devs @ map blk_dev [0..<n]) \<subseteq> set (soc_devs @ map blk_dev [0..<8])" using assms(3) by auto
  with assms(1,2) have in8: "d \<in> set (soc_devs @ map blk_dev [0..<8])" "e \<in> set (soc_devs @ map blk_dev [0..<8])" by blast+
  have ds: "soc_devs @ map blk_dev [0..<8] = soc_devs @ map blk_dev [0, 1, 2, 3, 4, 5, 6, 7]" by (simp add: upt_rec numeral_nat)
  have "\<forall>d \<in> set (soc_devs @ map blk_dev [0..<8]). \<forall>e \<in> set (soc_devs @ map blk_dev [0..<8]). d = e \<or> dev_hi d \<le> dev_lo e \<or> dev_hi e \<le> dev_lo d"
    unfolding ds by (simp add: soc_devs_def blk_dev_def dev_lo_def dev_hi_def)
  then show "d = e \<or> dev_hi d \<le> dev_lo e \<or> dev_hi e \<le> dev_lo d" using in8 by blast
  have "\<forall>d \<in> set (soc_devs @ map blk_dev [0..<8]). dev_hi d < 2 ^ 64"
    unfolding ds by (simp add: soc_devs_def blk_dev_def dev_hi_def)
  then show "dev_hi d < 2 ^ 64" using in8 by blast
qed

lemma find_unique:
  assumes "d \<in> set xs" and "P d" and "\<And>e. e \<in> set xs \<Longrightarrow> P e \<Longrightarrow> e = d"
  shows "find P xs = Some d"
proof (cases "find P xs")
  case None
  then show ?thesis using assms(1,2) by (simp add: find_None_iff)
next
  case (Some e)
  then have "e \<in> set xs \<and> P e" by (auto simp: find_Some_iff)
  then show ?thesis using assms(3) Some by simp
qed

lemma dev_answers_iff:
  assumes "dev_hi d < 2 ^ 64" and "0 < unat n" and "unat n \<le> unat (dev_size d)"
  shows "dev_start d \<le> a \<and> a \<le> dev_start d + dev_size d - n \<longleftrightarrow> dev_lo d \<le> unat a \<and> unat a + unat n \<le> dev_hi d"
proof -
  have s: "unat (dev_start d + dev_size d) = dev_hi d" using assms(1) by (simp add: dev_hi_def unat_word_ariths)
  have "n \<le> dev_start d + dev_size d" using s assms(3) by (simp add: word_le_nat_alt dev_hi_def)
  then have "unat (dev_start d + dev_size d - n) = dev_hi d - unat n" by (simp add: unat_sub s)
  then show ?thesis using assms(3) by (auto simp: word_le_nat_alt dev_lo_def dev_hi_def)
qed

lemma board_size: "d \<in> set (soc_devs @ map blk_dev [0..<n]) \<Longrightarrow> 0x20 \<le> unat (dev_size d)"
  by (auto simp: soc_devs_def blk_dev_def)

text \<open>
  C20. The board: when \<open>start_init\<close> succeeds on a machine without devices, there are at most eight disks, the device list is
  PLIC, UART, CLINT, SYSCON, I2C controller and the disks, every disk device has its state, RAM still serves the addresses
  from 0x80000000 on, and every access of up to eight bytes that lies in the registers of a device reaches that device: no two devices answer the same address.
\<close>

theorem board_layout:
  assumes "start_init rands m = Inr m'" and "devs (mvm m) = []" and "blk_ds (mvm m) = []" and "virtio_count m = 0" and "ram_ready m"
  shows "length (vd_images m) \<le> 8 \<and> devs (mvm m') = soc_devs @ map blk_dev [0..<length (vd_images m)] \<and>
    (\<forall>d k. d \<in> set (devs (mvm m')) \<longrightarrow> dev_kind d = Dev_blk k \<longrightarrow> k < length (blk_ds (mvm m'))) \<and> ram_ready m' \<and>
    (\<forall>d a n. d \<in> set (devs (mvm m')) \<longrightarrow> 0 < unat n \<longrightarrow> unat n \<le> 8 \<longrightarrow> dev_lo d \<le> unat a \<longrightarrow> unat a + unat n \<le> dev_hi d \<longrightarrow>
       find_dev a n (mvm m') = Some d)"
proof -
  obtain t where t: "init_auto_devices (m\<lparr>fdt_root := t\<rparr>) = Inr m'"
    using assms(1) by (cases "cfg_init_fdt (config m)") (auto simp: start_init_def Let_def and_then_Inr_iff intro: that [of "fdt_root m"])
  have rr: "ram_ready (m\<lparr>fdt_root := t\<rparr>)" using assms(5) by (simp add: ram_ready_def cong: option.case_cong)
  let ?n = "length (vd_images m)"
  have s: "board_step (soc_devs @ map blk_dev [0..<?n]) (m\<lparr>fdt_root := t\<rparr>) m'" "?n \<le> 8" "length (blk_ds (mvm m')) = ?n"
    using init_auto_devices_step [OF t] assms(3,4) by simp_all
  then have ds: "devs (mvm m') = soc_devs @ map blk_dev [0..<?n]" and r: "ram_ready m'" using assms(2) rr by (simp_all add: board_step_def)
  have f: "find_dev a n (mvm m') = Some d"
    if d: "d \<in> set (devs (mvm m'))" and n: "0 < unat n" "unat n \<le> 8" and a: "dev_lo d \<le> unat a" "unat a + unat n \<le> dev_hi d" for d a n
    unfolding find_dev_def
  proof (rule find_unique [OF d])
    have ans: "dev_start e \<le> a \<and> a \<le> dev_start e + dev_size e - n \<longleftrightarrow> dev_lo e \<le> unat a \<and> unat a + unat n \<le> dev_hi e"
      if "e \<in> set (devs (mvm m'))" for e
      using dev_answers_iff [of e n a] board_disjoint(2) [of e ?n e] board_size [of e ?n] that s(2) n unfolding ds by simp
    show "dev_start d \<le> a \<and> a \<le> dev_start d + dev_size d - n" using ans [OF d] a by simp
    show "e = d" if "e \<in> set (devs (mvm m'))" "dev_start e \<le> a \<and> a \<le> dev_start e + dev_size e - n" for e
    proof -
      have "dev_lo e \<le> unat a \<and> unat a + unat n \<le> dev_hi e" using that(2) ans [OF that(1)] by simp
      moreover have "d = e \<or> dev_hi d \<le> dev_lo e \<or> dev_hi e \<le> dev_lo d" using board_disjoint(1) [of d ?n e] d that(1) s(2) unfolding ds by simp
      ultimately show ?thesis using a n(1) by (elim disjE) simp_all
    qed
  qed
  have k: "k < length (blk_ds (mvm m'))" if "d \<in> set (devs (mvm m'))" "dev_kind d = Dev_blk k" for d k
    using that s(3) unfolding ds by (auto simp: soc_devs_def blk_dev_def)
  show ?thesis by (intro conjI allI impI s(2) ds r) (rule k, assumption+, rule f, assumption+)
qed

lemma new_machine_ready:
  assumes "new_machine c ns = Inr m" and "0x20000 \<le> unat (memory_size c)" and "unat (memory_size c) + 0x80000000 < 2 ^ 64"
  shows "ram_ready m \<and> devs (mvm m) = [] \<and> blk_ds (mvm m) = [] \<and> virtio_count m = 0 \<and> dev_tick_time m = 0 \<and> bc_wf (block_cache_d m)"
  using assms bc_wf_new
  by (auto simp: new_machine_def Let_def ram_ready_def add_region_def empty_map_def new_region_def split: option.splits)

definition sample_bare :: machine where
  "sample_bare = sample_machine\<lparr>config := sample_config\<lparr>cfg_init_fdt := False\<rparr>, fdt_root := None, vd_images := [replicate 512 0]\<rparr>"

lemma add_total_no_fdt:
  assumes "fdt_root m = None"
  shows "\<exists>m'. add_plic m = Inr m' \<and> fdt_root m' = None \<and> vd_images m' = vd_images m \<and> virtio_count m' = virtio_count m"
    "\<exists>m'. add_uart m = Inr m' \<and> fdt_root m' = None \<and> vd_images m' = vd_images m \<and> virtio_count m' = virtio_count m"
    "\<exists>m'. add_clint m = Inr m' \<and> fdt_root m' = None \<and> vd_images m' = vd_images m \<and> virtio_count m' = virtio_count m"
    "\<exists>m'. add_syscon m = Inr m' \<and> fdt_root m' = None \<and> vd_images m' = vd_images m \<and> virtio_count m' = virtio_count m"
    "\<exists>m'. add_i2c m = Inr m' \<and> fdt_root m' = None \<and> vd_images m' = vd_images m \<and> virtio_count m' = virtio_count m"
    "virtio_count m < 8 \<Longrightarrow> virtio_count m < length (vd_images m) \<Longrightarrow> \<exists>m'. add_blk m = Inr m' \<and> fdt_root m' = None \<and> vd_images m' = vd_images m"
  using assms by (simp_all add: add_plic_def add_uart_def add_clint_def add_syscon_def add_i2c_def add_blk_def upd_fdt_def
      map_device_def upd_vm_def vec_at_def Let_def split: prod.split)

theorem board_layout_witness:
  "\<exists>m'. start_init [] sample_bare = Inr m' \<and> find_dev 0x10001FF8 8 (mvm m') = Some (blk_dev 0)"
proof -
  let ?m = sample_bare
  have b: "fdt_root ?m = None" "vd_images ?m = [replicate 512 0]" "virtio_count ?m = 0" "devs (mvm ?m) = []" "blk_ds (mvm ?m) = []"
      "\<not> cfg_init_fdt (config ?m)"
    by (simp_all add: sample_bare_def sample_machine_def sample_vm_def)
  have r: "ram_ready ?m"
    by (simp add: sample_bare_def sample_machine_def sample_config_def ram_ready_def add_region_def empty_map_def new_region_def Let_def)
  obtain m1 where m1: "add_plic ?m = Inr m1" "fdt_root m1 = None" "vd_images m1 = [replicate 512 0]" "virtio_count m1 = 0"
    using add_total_no_fdt(1) [OF b(1)] b by auto
  obtain m2 where m2: "add_uart m1 = Inr m2" "fdt_root m2 = None" "vd_images m2 = [replicate 512 0]" "virtio_count m2 = 0"
    using add_total_no_fdt(2) [OF m1(2)] m1 by auto
  obtain m3 where m3: "add_clint m2 = Inr m3" "fdt_root m3 = None" "vd_images m3 = [replicate 512 0]" "virtio_count m3 = 0"
    using add_total_no_fdt(3) [OF m2(2)] m2 by auto
  obtain m4 where m4: "add_syscon m3 = Inr m4" "fdt_root m4 = None" "vd_images m4 = [replicate 512 0]" "virtio_count m4 = 0"
    using add_total_no_fdt(4) [OF m3(2)] m3 by auto
  obtain m5 where m5: "add_i2c m4 = Inr m5" "fdt_root m5 = None" "vd_images m5 = [replicate 512 0]" "virtio_count m5 = 0"
    using add_total_no_fdt(5) [OF m4(2)] m4 by auto
  obtain m6 where m6: "add_blk m5 = Inr m6" using add_total_no_fdt(6) [OF m5(2)] m5 by auto
  have i: "start_init [] ?m = Inr m6"
    using b(6) m1(1) m2(1) m3(1) m4(1) m5(1,3) m6 by (simp add: start_init_def init_auto_devices_def Let_def)
  note l = board_layout [OF i b(4,5,3) r]
  have "blk_dev 0 \<in> set (devs (mvm m6))" using l b(2) by simp
  then have "find_dev 0x10001FF8 8 (mvm m6) = Some (blk_dev 0)" using l by (simp add: dev_lo_def dev_hi_def blk_dev_def)
  then show ?thesis using i by blast
qed

end
