(* ===== verification/Gdbstub.thy ===== *)
theory Gdbstub
  imports Lifecycle
begin

unbundle bit_operations_syntax

text \<open>
  The GDB remote stub, src/gdbstub.cpp, and the work loop of src/machine.cpp with a debugger attached. The socket is its two
  byte streams: the list of characters that the client sent, and the characters that the stub has sent. A C++ exception of the
  parsing functions is not caught by anybody and ends the emulator, so it is an error value. Strings, \<open>substr\<close>, \<open>find\<close>,
  \<open>stoul\<close> and \<open>format\<close> are those of the C++ library, with positions as 64-bit words and \<open>npos\<close> their largest value.
\<close>

section \<open>Strings\<close>

abbreviation (input) npos :: u64 where "npos \<equiv> -1"

definition substr :: "u64 \<Rightarrow> u64 \<Rightarrow> string \<Rightarrow> string result" where
  "substr p n s = (if length s < unat p then Inl Out_of_range else Inr (take (unat n) (drop (unat p) s)))"

definition find_char :: "char \<Rightarrow> string \<Rightarrow> u64" where
  "find_char c s = (if c \<in> set s then of_nat (length (takeWhile (\<lambda>x. x \<noteq> c) s)) else npos)"

definition starts_with :: "string \<Rightarrow> string \<Rightarrow> bool" where
  "starts_with p s \<longleftrightarrow> take (length p) s = p"

definition hex_val :: "char \<Rightarrow> nat option" where
  "hex_val c =
     (let n = of_char c :: nat in
      if 48 \<le> n \<and> n \<le> 57 then Some (n - 48)
      else if 97 \<le> n \<and> n \<le> 102 then Some (n - 87)
      else if 65 \<le> n \<and> n \<le> 70 then Some (n - 55)
      else None)"

definition is_space :: "char \<Rightarrow> bool" where
  "is_space c \<longleftrightarrow> (let n = of_char c :: nat in n = 32 \<or> (9 \<le> n \<and> n \<le> 13))"

definition hex_number :: "string \<Rightarrow> nat" where
  "hex_number s = foldl (\<lambda>a c. 16 * a + the (hex_val c)) 0 s"

text \<open>\<open>std::stoul(s, nullptr, 16)\<close>: leading white space, a sign, an optional prefix 0x, and at least one digit.\<close>

fun sign_of :: "string \<Rightarrow> bool \<times> string" where
  "sign_of (c # s) = (if c = CHR ''-'' then (True, s) else if c = CHR ''+'' then (False, s) else (False, c # s))"
| "sign_of [] = (False, [])"

fun drop_0x :: "string \<Rightarrow> string" where
  "drop_0x (z # x # d # s) =
     (if z = CHR ''0'' \<and> (x = CHR ''x'' \<or> x = CHR ''X'') \<and> hex_val d \<noteq> None then d # s else z # x # d # s)"
| "drop_0x s = s"

definition stoul16 :: "string \<Rightarrow> u64 result" where
  "stoul16 s =
     (case sign_of (dropWhile is_space s) of (neg, s) \<Rightarrow>
        let ds = takeWhile (\<lambda>c. hex_val c \<noteq> None) (drop_0x s); n = hex_number ds in
        if ds = [] then Inl Invalid_argument
        else if 2 ^ 64 \<le> n then Inl Out_of_range
        else Inr (if neg then - of_nat n else of_nat n))"

text \<open>The formats \<open>{:02x}\<close> of a byte, \<open>{}\<close> and \<open>{:02d}\<close> of an unsigned number.\<close>

definition hex2 :: "u8 \<Rightarrow> string" where
  "hex2 b = [hex_digit (ucast (drop_bit 4 b)), hex_digit (ucast b)]"

fun dec :: "nat \<Rightarrow> string" where
  "dec n = (if n < 10 then [''0123456789'' ! n] else dec (n div 10) @ [''0123456789'' ! (n mod 10)])"

declare dec.simps [simp del]

definition dec02 :: "nat \<Rightarrow> string" where
  "dec02 n = (if n < 10 then CHR ''0'' # dec n else dec n)"

definition to_little_endian_hex :: "u64 \<Rightarrow> string" where
  "to_little_endian_hex v = concat (map (\<lambda>i. hex2 (ucast (drop_bit (8 * i) v))) [0..<8])"

text \<open>The loop counts down from \<open>size_bytes\<close> inclusively.\<close>

primrec swap_pairs :: "nat \<Rightarrow> string \<Rightarrow> string result" where
  "swap_pairs 0 value = substr 0 2 value"
| "swap_pairs (Suc i) value =
     and_then (substr (of_nat (Suc i) * 2) 2 value) (\<lambda>s. and_then (swap_pairs i value) (\<lambda>t. Inr (s @ t)))"

definition swapHexEndian :: "string \<Rightarrow> nat \<Rightarrow> string result" where
  "swapHexEndian value size_bytes = swap_pairs size_bytes value"

section \<open>The target description\<close>

text \<open>Name, number, class and, for some registers, named bit ranges.\<close>

type_synonym xml_reg = "string \<times> u32 \<times> char \<times> (string \<times> u8 \<times> u8) list option"

definition reg_g :: "string \<Rightarrow> u32 \<Rightarrow> xml_reg" where
  "reg_g nm n = (nm, n, CHR ''g'', None)"

definition reg_f :: "string \<Rightarrow> u32 \<Rightarrow> xml_reg" where
  "reg_f nm n = (nm, n, CHR ''f'', None)"

definition reg_c :: "string \<Rightarrow> u16 \<Rightarrow> xml_reg" where
  "reg_c nm n = (nm, ucast n, CHR ''c'', None)"

definition xml_general :: "xml_reg list" where
  "xml_general = [
     reg_g ''zero'' 0, reg_g ''ra'' 1, reg_g ''sp'' 2, reg_g ''gp'' 3, reg_g ''tp'' 4, reg_g ''t0'' 5, reg_g ''t1'' 6,
     reg_g ''t2'' 7, reg_g ''fp'' 8, reg_g ''s1'' 9, reg_g ''a0'' 10, reg_g ''a1'' 11, reg_g ''a2'' 12, reg_g ''a3'' 13,
     reg_g ''a4'' 14, reg_g ''a5'' 15, reg_g ''a6'' 16, reg_g ''a7'' 17, reg_g ''s2'' 18, reg_g ''s3'' 19, reg_g ''s4'' 20,
     reg_g ''s5'' 21, reg_g ''s6'' 22, reg_g ''s7'' 23, reg_g ''s8'' 24, reg_g ''s9'' 25, reg_g ''s10'' 26, reg_g ''s11'' 27,
     reg_g ''t3'' 28, reg_g ''t4'' 29, reg_g ''t5'' 30, reg_g ''t6'' 31, reg_g ''pc'' 32]"

definition xml_float :: "xml_reg list" where
  "xml_float = [
     reg_f ''f0'' 33, reg_f ''f1'' 34, reg_f ''f2'' 35, reg_f ''f3'' 36, reg_f ''f4'' 37, reg_f ''f5'' 38, reg_f ''f6'' 39,
     reg_f ''f7'' 40, reg_f ''f8'' 41, reg_f ''f9'' 42, reg_f ''f10'' 43, reg_f ''f11'' 44, reg_f ''f12'' 45, reg_f ''f13'' 46,
     reg_f ''f14'' 47, reg_f ''f15'' 48, reg_f ''f16'' 49, reg_f ''f17'' 50, reg_f ''f18'' 51, reg_f ''f19'' 52,
     reg_f ''f20'' 53, reg_f ''f21'' 54, reg_f ''f22'' 55, reg_f ''f23'' 56, reg_f ''f24'' 57, reg_f ''f25'' 58,
     reg_f ''f26'' 59, reg_f ''f27'' 60, reg_f ''f28'' 61, reg_f ''f29'' 62, reg_f ''f30'' 63, reg_f ''f31'' 64]"

definition xml_control :: "xml_reg list" where
  "xml_control = [
     (''mstatus'', ucast CSR_MSTATUS, CHR ''c'', Some [(''SIE'', 1, 1), (''MIE'', 3, 3), (''SPIE'', 5, 5), (''UBE'', 6, 6),
     (''MPIE'', 7, 7), (''SPP'', 8, 8), (''VS'', 9, 10), (''MPP'', 11, 12), (''FS'', 13, 14), (''XS'', 15, 16),
        (''MPRV'', 17, 17), (''SUM'', 18, 18), (''MXR'', 19, 19), (''TVM'', 20, 20), (''TW'', 21, 21), (''TSR'', 22, 22)]),
     reg_c ''cycle'' CSR_CYCLE, reg_c ''time'' CSR_TIME, reg_c ''instret'' CSR_INSTRET, reg_c ''misa'' CSR_MISA,
     reg_c ''medeleg'' CSR_MEDELEG, reg_c ''mideleg'' CSR_MIDELEG, reg_c ''mie'' CSR_MIE, reg_c ''mip'' CSR_MIP,
     reg_c ''mtvec'' CSR_MTVEC, reg_c ''mcounteren'' CSR_MCOUNTEREN, reg_c ''mscratch'' 0x340, reg_c ''mhartid'' CSR_MHARTID,
     reg_c ''mepc'' CSR_MEPC, reg_c ''mcause'' CSR_MCAUSE, reg_c ''mtval'' CSR_MTVAL,
     (''sstatus'', ucast CSR_SSTATUS, CHR ''c'', Some [(''SIE'', 1, 1), (''SPIE'', 5, 5), (''UBE'', 6, 6), (''SPP'', 8, 8),
        (''VS'', 9, 10), (''FS'', 13, 14), (''XS'', 15, 16)]), reg_c ''sedeleg'' 0x102, reg_c ''sideleg'' 0x103,
     reg_c ''sie'' CSR_SIE, reg_c ''sip'' CSR_SIP, reg_c ''stvec'' CSR_STVEC, reg_c ''scounteren'' CSR_SCOUNTEREN,
     reg_c ''sscratch'' 0x140, reg_c ''sepc'' CSR_SEPC, reg_c ''scause'' CSR_SCAUSE, reg_c ''stval'' CSR_STVAL,
     reg_c ''stimecmp'' CSR_STIMECMP,
     (''satp'', ucast CSR_SATP, CHR ''c'', Some [(''MODE'', 60, 63), (''ASID'', 44, 59), (''PPN'', 0, 43)]),
     (''fcsr'', ucast CSR_FCSR + 5000, CHR ''c'', Some [(''FRM'', 5, 7), (''NX'', 0, 0), (''UF'', 1, 1), (''OF'', 2, 2),
        (''DZ'', 3, 3), (''NV'', 4, 4)]), (''priv'', 65, CHR ''v'', None)]"

definition xml_data :: "xml_reg list" where
  "xml_data = xml_general @ xml_float @ xml_control"

definition endl :: string where
  "endl = [CHR 0x0A]"

definition quoted :: "string \<Rightarrow> string" where
  "quoted s = [CHR 0x22] @ s @ [CHR 0x22]"

definition xml_field :: "string \<times> u8 \<times> u8 \<Rightarrow> string" where
  "xml_field dat = (case dat of (nm, lo, hi) \<Rightarrow>
     ''      <field name='' @ quoted nm @ '' start='' @ quoted (dec (unat lo)) @ '' end='' @ quoted (dec (unat hi)) @ ''/>'' @ endl)"

definition xml_body :: "(string \<times> u8 \<times> u8) list option \<Rightarrow> string" where
  "xml_body fs =
     (case fs of
        Some dats \<Rightarrow> ''>'' @ endl @ concat (map xml_field dats) @ ''    </reg>'' @ endl
      | None \<Rightarrow> ''/>'' @ endl)"

definition xml_numbered :: "xml_reg \<Rightarrow> string" where
  "xml_numbered r = (case r of (nm, n, k, fs) \<Rightarrow>
     ''    <reg name='' @ quoted nm @ '' bitsize='' @ quoted (dec 64) @ '' regnum='' @ quoted (dec (unat n)) @ xml_body fs)"

definition xml_unnumbered :: "xml_reg \<Rightarrow> string" where
  "xml_unnumbered r = (case r of (nm, n, k, fs) \<Rightarrow> ''    <reg name='' @ quoted nm @ '' bitsize='' @ quoted (dec 64) @ xml_body fs)"

definition xml_double :: "xml_reg \<Rightarrow> string" where
  "xml_double r = (case r of (nm, n, k, fs) \<Rightarrow>
     ''    <reg name='' @ quoted nm @ '' bitsize='' @ quoted (dec 64) @ '' type='' @ quoted ''riscv_double'' @ ''/>'' @ endl)"

definition of_class :: "char \<Rightarrow> xml_reg list" where
  "of_class k = filter (\<lambda>(nm, n, k', fs). k' = k) xml_data"

definition create_xml :: string where
  "create_xml =
     ''<?xml version='' @ quoted ''1.0'' @ ''?>'' @ endl @
     ''    <!DOCTYPE target SYSTEM '' @ quoted ''gdb-target.dtd'' @ ''>'' @ endl @
     ''    <target version='' @ quoted ''1.0'' @ ''>'' @ endl @
     ''    <architecture>riscv:rv64</architecture>'' @ endl @
     ''    <feature name='' @ quoted ''org.gnu.gdb.riscv.cpu'' @ ''>'' @ endl @
     concat (map xml_numbered (of_class CHR ''g'')) @
     ''  </feature>'' @ endl @
     ''  <feature name='' @ quoted ''org.gnu.gdb.riscv.fpu'' @ ''>'' @ endl @
     ''    <union id='' @ quoted ''riscv_double'' @ ''>'' @ endl @
     ''      <field name='' @ quoted ''float'' @ '' type='' @ quoted ''ieee_single'' @ ''/>'' @ endl @
     ''      <field name='' @ quoted ''double'' @ '' type='' @ quoted ''ieee_double'' @ ''/>'' @ endl @
     ''    </union>'' @ endl @
     concat (map xml_double (of_class CHR ''f'')) @
     ''  </feature>'' @ endl @
     ''  <feature name='' @ quoted ''org.gnu.gdb.riscv.virtual'' @ ''>'' @ endl @
     concat (map xml_unnumbered (of_class CHR ''v'')) @
     ''  </feature>'' @ endl @
     ''  <feature name='' @ quoted ''org.gnu.gdb.riscv.csr'' @ ''>'' @ endl @
     concat (map xml_numbered (of_class CHR ''c'')) @
     ''  </feature>'' @ endl @ ''</target>'' @ endl"

section \<open>The stub\<close>

text \<open>
  The fields of \<open>GDBStub\<close>, \<open>gdb_single_step\<close> of the machine, what was sent to the client, and the machine. The pointer to the
  active hart is its index.
\<close>

record debugger =
  active_hart :: "nat option"
  xml_target_description :: string
  is_executing :: bool
  received_sigint :: bool
  breakpoints :: "u64 list"
  gdb_single_step :: bool
  sent_bytes :: string
  target :: machine

definition upd_target :: "(vm \<Rightarrow> vm) \<Rightarrow> debugger \<Rightarrow> debugger" where
  "upd_target f d = d\<lparr>target := upd_vm f (target d)\<rparr>"

definition set_state :: "machine_state \<Rightarrow> debugger \<Rightarrow> debugger" where
  "set_state st = upd_target (\<lambda>v. v\<lparr>mstate := st\<rparr>)"

definition send_raw :: "string \<Rightarrow> debugger \<Rightarrow> debugger" where
  "send_raw buf d = d\<lparr>sent_bytes := sent_bytes d @ buf\<rparr>"

definition checksum :: "string \<Rightarrow> u8" where
  "checksum buf = foldl (\<lambda>a c. a + of_char c) 0 buf"

definition frame_packet :: "string \<Rightarrow> string" where
  "frame_packet buf = ''$'' @ buf @ ''#'' @ hex2 (checksum buf)"

definition send_packet :: "string \<Rightarrow> debugger \<Rightarrow> debugger" where
  "send_packet buf = send_raw (frame_packet buf)"

definition unformat_packet :: "string \<Rightarrow> string" where
  "unformat_packet buf = (if length buf < 4 then [] else take (length buf - 4) (drop 1 buf))"

definition gdb_stop :: "debugger \<Rightarrow> debugger" where
  "gdb_stop d = (if is_executing d then d\<lparr>is_executing := False\<rparr> else d)"

text \<open>\<open>start\<close>: the outcome of \<open>bind\<close> is that of the host.\<close>

definition gdb_start :: "bool \<Rightarrow> debugger \<Rightarrow> debugger" where
  "gdb_start bound d =
     (let d = (if harts (mvm (target d)) = [] then d else d\<lparr>active_hart := Some 0\<rparr>) in
      if bound then d\<lparr>xml_target_description := create_xml, is_executing := True\<rparr> else d)"

section \<open>Packets\<close>

definition gdb_xfer :: "string \<Rightarrow> debugger \<Rightarrow> debugger result" where
  "gdb_xfer packet d =
     and_then (substr 31 npos packet) (\<lambda>dat.
     let comma = find_char CHR '','' dat in
     if comma = npos then Inr d
     else
       and_then (and_then (substr 0 comma dat) stoul16) (\<lambda>startp.
       and_then (and_then (substr (comma + 1) npos dat) stoul16) (\<lambda>endp.
       let response_prefix = (if of_nat (length (xml_target_description d)) \<le> startp + endp then ''l'' else ''m'') in
       and_then (substr startp endp (xml_target_description d)) (\<lambda>s. Inr (send_packet (response_prefix @ s) d)))))"

definition gdb_continue :: "debugger \<Rightarrow> debugger" where
  "gdb_continue d = set_state Running (d\<lparr>received_sigint := False, gdb_single_step := False\<rparr>)"

definition gdb_step :: "debugger \<Rightarrow> debugger" where
  "gdb_step d = send_packet ''S05'' (set_state Running (d\<lparr>gdb_single_step := True\<rparr>))"

definition gdb_vcont :: "string \<Rightarrow> debugger \<Rightarrow> debugger" where
  "gdb_vcont args d =
     (case args of
        [] \<Rightarrow> d
      | c # _ \<Rightarrow> if c = CHR ''c'' then gdb_continue d else if c = CHR ''s'' then gdb_step d else send_packet [] d)"

definition gdb_kill :: "debugger \<Rightarrow> debugger" where
  "gdb_kill d = gdb_stop (set_state Off (d\<lparr>is_executing := False\<rparr>))"

text \<open>The hart behind the pointer, and an update of it.\<close>

definition with_hart :: "debugger \<Rightarrow> (nat \<Rightarrow> hart \<Rightarrow> debugger result) \<Rightarrow> debugger result" where
  "with_hart d f =
     (case active_hart d of
        None \<Rightarrow> Inr (send_packet ''E01'' d)
      | Some n \<Rightarrow> and_then (vec_at (harts (mvm (target d))) n) (f n))"

definition put_hart :: "nat \<Rightarrow> hart \<Rightarrow> debugger \<Rightarrow> debugger" where
  "put_hart n h = upd_target (\<lambda>v. v\<lparr>harts := (harts v)[n := h]\<rparr>)"

definition gdb_reason :: "debugger \<Rightarrow> debugger result" where
  "gdb_reason d =
     (if active_hart d = None then Inr (send_packet ''S05'' d)
      else with_hart d (\<lambda>n h. Inr (send_packet (''S'' @ dec02 (unat (csrs h CSR_MCAUSE))) d)))"

text \<open>The array of CSRs has 4096 elements; \<open>csr_read\<close> and \<open>csr_write\<close> take a 16-bit number.\<close>

definition gdb_read_reg :: "string \<Rightarrow> debugger \<Rightarrow> debugger result" where
  "gdb_read_reg packet d =
     with_hart d (\<lambda>n h.
     and_then (and_then (substr 1 npos packet) stoul16) (\<lambda>idx.
     if idx \<le> 31 then Inr (send_packet (to_little_endian_hex (GPR h (ucast idx))) d)
     else if idx = 32 then Inr (send_packet (to_little_endian_hex (pc h)) d)
     else if idx = 33 then Inr (send_packet (to_little_endian_hex (mode_num (mode h))) d)
     else if idx < 64 then Inr (send_packet (to_little_endian_hex (FPR h (ucast (idx - 34)))) d)
     else
       let csr = ucast (if 5000 \<le> idx then idx - 5000 else idx) :: u16 in
       if 4096 \<le> csr then Inl Vector_index
       else case csr_read csr h of (x, h) \<Rightarrow> Inr (send_packet (to_little_endian_hex x) (put_hart n h d))))"

primrec hex_pairs :: "nat \<Rightarrow> u64 \<Rightarrow> string \<Rightarrow> u64 \<Rightarrow> u64 result" where
  "hex_pairs 0 i data num = Inr num"
| "hex_pairs (Suc k) i data num =
     (if unat i * 2 + 1 < length data then
        and_then (and_then (substr (i * 2) 2 data) stoul16) (\<lambda>b. hex_pairs k (i + 1) data (num OR push_bit (unat (i * 8)) b))
      else Inr num)"

text \<open>
  The code stores any number as the privilege mode; one that is none of the four modes has no value in
  the model and is an error.
\<close>

definition write_reg :: "u64 \<Rightarrow> u64 \<Rightarrow> hart \<Rightarrow> hart result" where
  "write_reg idx num h =
     (if idx \<le> 31 then Inr (set_reg (ucast idx) num h)
      else if idx = 32 then Inr (h\<lparr>pc := num\<rparr>)
      else if idx = 33 then (if (ucast num :: u32) \<le> 3 then Inr (h\<lparr>mode := mode_of (num AND 3)\<rparr>) else Inl Invalid_argument)
      else if idx < 64 then Inr (h\<lparr>FPR := (FPR h)(ucast (idx - 34) := num)\<rparr>)
      else if 4096 \<le> (ucast idx :: u16) then Inl Vector_index
      else Inr (csr_write (ucast idx) num h))"

definition gdb_write_reg :: "string \<Rightarrow> debugger \<Rightarrow> debugger result" where
  "gdb_write_reg packet d =
     with_hart d (\<lambda>n h.
     and_then (and_then (substr 1 npos packet) stoul16) (\<lambda>idx.
     let eq_pos = find_char CHR ''='' packet in
     if eq_pos = npos then Inr (send_packet ''E01'' d)
     else
       and_then (substr (eq_pos + 1) npos packet) (\<lambda>data.
       and_then (hex_pairs 8 0 data 0) (\<lambda>num.
       and_then (write_reg idx num h) (\<lambda>h. Inr (send_packet ''OK'' (put_hart n h d)))))))"

definition gdb_read_all :: "debugger \<Rightarrow> debugger result" where
  "gdb_read_all d =
     with_hart d (\<lambda>n h. Inr (send_packet (concat (map (\<lambda>i. to_little_endian_hex (GPR h (of_nat i))) [0..<32]) @ to_little_endian_hex (pc h)) d))"

definition hex_word :: "nat \<Rightarrow> string \<Rightarrow> u64 result" where
  "hex_word i data = and_then (and_then (substr (of_nat (i * 16)) 16 data) (\<lambda>s. swapHexEndian s 8)) stoul16"

primrec write_gprs :: "nat \<Rightarrow> string \<Rightarrow> hart \<Rightarrow> hart result" where
  "write_gprs 0 data h = Inr h"
| "write_gprs (Suc i) data h = and_then (write_gprs i data h) (\<lambda>h. and_then (hex_word i data) (\<lambda>x. Inr (set_reg (of_nat i) x h)))"

definition gdb_write_all :: "string \<Rightarrow> debugger \<Rightarrow> debugger result" where
  "gdb_write_all packet d =
     with_hart d (\<lambda>n h.
     and_then (substr 1 npos packet) (\<lambda>data.
     if length data < 33 * 16 then Inr (send_packet ''E01'' d)
     else
       and_then (write_gprs 32 data h) (\<lambda>h.
       and_then (hex_word 32 data) (\<lambda>x. Inr (send_packet ''OK'' (put_hart n (h\<lparr>pc := x\<rparr>) d))))))"

section \<open>Memory\<close>

text \<open>With paging on, a chunk ends at the page boundary.\<close>

definition gdb_chunk :: "hart \<Rightarrow> u64 \<Rightarrow> u64 \<Rightarrow> u64" where
  "gdb_chunk h address sz = (if satp_mode (satp h) \<noteq> 0 then min sz (4096 - (address AND 4095)) else sz)"

definition gdb_phys :: "nat \<Rightarrow> access_type \<Rightarrow> u64 \<Rightarrow> vm \<Rightarrow> (memory_return \<times> u64 \<times> vm) result" where
  "gdb_phys n type address v =
     (if satp_mode (satp (hart_of n v)) \<noteq> 0 then mmu_translate n type address v else Inr (MR True 0 0, address, v))"

primrec put_chunk :: "nat \<Rightarrow> nat \<Rightarrow> string \<Rightarrow> u64 \<Rightarrow> u64 \<Rightarrow> u64 \<Rightarrow> vm \<Rightarrow> (bool \<times> vm) result" where
  "put_chunk 0 n data data_offset phys i v = Inr (True, v)"
| "put_chunk (Suc k) n data data_offset phys i v =
     and_then (and_then (substr ((data_offset + i) * 2) 2 data) stoul16) (\<lambda>x.
     and_then (mmio_write n (phys + i) MS_Byte (ucast (ucast x :: u8)) True v) (\<lambda>(out, v).
     if \<not> mem_success out then Inr (False, v) else put_chunk k n data data_offset phys (i + 1) v))"

primrec get_chunk :: "nat \<Rightarrow> nat \<Rightarrow> u64 \<Rightarrow> u64 \<Rightarrow> string \<Rightarrow> vm \<Rightarrow> (bool \<times> string \<times> vm) result" where
  "get_chunk 0 n phys i resp v = Inr (True, resp, v)"
| "get_chunk (Suc k) n phys i resp v =
     and_then (mmio_read n (phys + i) MS_Byte True v) (\<lambda>(out, x, v).
     if \<not> mem_success out then Inr (False, resp, v) else get_chunk k n phys (i + 1) (resp @ hex2 (ucast x)) v)"

lemma gdb_chunk_less:
  assumes "sz \<noteq> 0"
  shows "unat (sz - gdb_chunk h address sz) < unat sz"
proof -
  have "address AND 4095 \<le> 4095" by (rule word_and_le1)
  then have "4096 - (address AND 4095) \<noteq> 0" by auto
  then have c: "gdb_chunk h address sz \<le> sz" "gdb_chunk h address sz \<noteq> 0" using assms by (auto simp: gdb_chunk_def min_def)
  then have "0 < unat (gdb_chunk h address sz)" "unat (gdb_chunk h address sz) \<le> unat sz" by (simp_all add: word_le_nat_alt unat_gt_0)
  then show ?thesis using c(1) by (simp add: unat_sub)
qed

function store_loop :: "nat \<Rightarrow> string \<Rightarrow> u64 \<Rightarrow> u64 \<Rightarrow> u64 \<Rightarrow> vm \<Rightarrow> (bool \<times> vm) result" where
  "store_loop n data address sz data_offset v =
     (if sz = 0 then Inr (True, v)
      else
        and_then (gdb_phys n STORE address v) (\<lambda>(ret, phys, v).
        if \<not> mem_success ret then Inr (False, v)
        else
          let chunk = gdb_chunk (hart_of n v) address sz in
          and_then (put_chunk (unat chunk) n data data_offset phys 0 v) (\<lambda>(ok, v).
          if \<not> ok then Inr (False, v) else store_loop n data (address + chunk) (sz - chunk) (data_offset + chunk) v)))"
  by pat_completeness auto
termination
  by (relation "measure (\<lambda>(n, data, address, sz, data_offset, v). unat sz)") (auto simp: gdb_chunk_less)

function load_loop :: "nat \<Rightarrow> u64 \<Rightarrow> u64 \<Rightarrow> string \<Rightarrow> vm \<Rightarrow> (bool \<times> string \<times> vm) result" where
  "load_loop n address sz resp v =
     (if sz = 0 then Inr (True, resp, v)
      else
        and_then (gdb_phys n LOAD address v) (\<lambda>(ret, phys, v).
        if \<not> mem_success ret then Inr (False, resp, v)
        else
          let chunk = gdb_chunk (hart_of n v) address sz in
          and_then (get_chunk (unat chunk) n phys 0 resp v) (\<lambda>(ok, resp, v).
          if \<not> ok then Inr (False, resp, v) else load_loop n (address + chunk) (sz - chunk) resp v)))"
  by pat_completeness auto
termination
  by (relation "measure (\<lambda>(n, address, sz, resp, v). unat sz)") (auto simp: gdb_chunk_less)

declare store_loop.simps [simp del] load_loop.simps [simp del]

text \<open>\<open>substr(1, comma)\<close> also takes the comma, at which the number ends.\<close>

definition gdb_store_mem :: "string \<Rightarrow> debugger \<Rightarrow> debugger result" where
  "gdb_store_mem packet d =
     (let comma = find_char CHR '','' packet; colon = find_char CHR '':'' packet in
      and_then (and_then (substr 1 comma packet) stoul16) (\<lambda>address.
      and_then (and_then (substr (comma + 1) (colon - comma - 1) packet) stoul16) (\<lambda>sz.
      and_then (substr (colon + 1) npos packet) (\<lambda>data.
      if sz = 0 then Inr (send_packet ''OK'' d)
      else case active_hart d of
             None \<Rightarrow> Inl Null_pointer
           | Some n \<Rightarrow>
               and_then (vec_at (harts (mvm (target d))) n) (\<lambda>_.
               and_then (store_loop n data address sz 0 (mvm (target d))) (\<lambda>(ok, v).
               Inr (send_packet (if ok then ''OK'' else ''E01'') (upd_target (\<lambda>_. v) d))))))))"

definition gdb_load_mem :: "string \<Rightarrow> debugger \<Rightarrow> debugger result" where
  "gdb_load_mem packet d =
     (let comma = find_char CHR '','' packet in
      and_then (and_then (substr 1 comma packet) stoul16) (\<lambda>address.
      and_then (and_then (substr (comma + 1) npos packet) stoul16) (\<lambda>sz.
      if sz = 0 then Inr (send_packet [] d)
      else case active_hart d of
             None \<Rightarrow> Inl Null_pointer
           | Some n \<Rightarrow>
               and_then (vec_at (harts (mvm (target d))) n) (\<lambda>_.
               and_then (load_loop n address sz [] (mvm (target d))) (\<lambda>(ok, resp, v).
               Inr (send_packet (if ok then resp else ''E01'') (upd_target (\<lambda>_. v) d)))))))"

section \<open>Breakpoints\<close>

definition bp_address :: "string \<Rightarrow> u64 result" where
  "bp_address packet =
     and_then (substr (find_char CHR '','' packet + 1) npos packet) (\<lambda>dat.
     and_then (substr 0 (find_char CHR '','' dat) dat) stoul16)"

definition gdb_add_bp :: "string \<Rightarrow> debugger \<Rightarrow> debugger result" where
  "gdb_add_bp packet d =
     (if find_char CHR '','' packet = npos then Inr (send_packet ''E01'' d)
      else and_then (bp_address packet) (\<lambda>addr.
        if addr \<in> set (breakpoints d) then Inr (send_packet ''E01'' d)
        else Inr (send_packet ''OK'' (d\<lparr>breakpoints := breakpoints d @ [addr]\<rparr>))))"

definition gdb_remove_bp :: "string \<Rightarrow> debugger \<Rightarrow> debugger result" where
  "gdb_remove_bp packet d =
     (if find_char CHR '','' packet = npos then Inr (send_packet ''E01'' d)
      else and_then (bp_address packet) (\<lambda>addr.
        if addr \<notin> set (breakpoints d) then Inr (send_packet ''E01'' d)
        else Inr (send_packet ''OK'' (d\<lparr>breakpoints := remove1 addr (breakpoints d)\<rparr>))))"

definition handle_gdb_breakpoints :: "debugger \<Rightarrow> debugger" where
  "handle_gdb_breakpoints d =
     (if \<not> is_executing d then d
      else case harts (mvm (target d)) of
             [] \<Rightarrow> d
           | h # _ \<Rightarrow>
               if pc h \<in> set (breakpoints d)
               then (send_packet (if received_sigint d then ''S02'' else ''S05'') (set_state Halted d))\<lparr>received_sigint := False\<rparr>
               else d)"

section \<open>Dispatch\<close>

definition parse_packet :: "string \<Rightarrow> debugger \<Rightarrow> debugger result" where
  "parse_packet buf d =
     (if buf = [] \<or> hd buf \<noteq> CHR ''$'' then Inr d
      else
        let packet = unformat_packet buf in
        if packet = [] then Inr d
        else if starts_with ''qSupported:'' packet
        then Inr (send_packet ''PacketSize=4096;qXfer:features:read+;vContSupported+;swbreak+;hwbreak+;'' d)
        else if starts_with ''qXfer:features:read:target.xml:'' packet then gdb_xfer packet d
        else if starts_with ''vCont?'' packet then Inr (send_packet ''vCont;s;S;c;C'' d)
        else if starts_with ''vCont;'' packet then Inr (gdb_vcont (drop 6 packet) d)
        else if starts_with ''k'' packet then Inr (gdb_kill d)
        else if starts_with ''c'' packet then Inr (gdb_continue d)
        else if starts_with ''s'' packet then Inr (gdb_step d)
        else if starts_with ''?'' packet then gdb_reason d
        else if starts_with ''qfThreadInfo'' packet then Inr (send_packet ''m1'' d)
        else if starts_with ''Hc'' packet then Inr (send_packet ''OK'' d)
        else if starts_with ''qC'' packet then Inr (send_packet ''QC1'' d)
        else if starts_with ''qAttached'' packet then Inr (send_packet ''0'' d)
        else if starts_with ''Hg'' packet then Inr (send_packet ''OK'' d)
        else if starts_with ''p'' packet then gdb_read_reg packet d
        else if starts_with ''P'' packet then gdb_write_reg packet d
        else if starts_with ''g'' packet then gdb_read_all d
        else if starts_with ''G'' packet then gdb_write_all packet d
        else if starts_with ''M'' packet then gdb_store_mem packet d
        else if starts_with ''m'' packet then gdb_load_mem packet d
        else if starts_with ''Z0'' packet then gdb_add_bp packet d
        else if starts_with ''z0'' packet then gdb_remove_bp packet d
        else Inr (send_packet [] d))"

section \<open>The connection\<close>

record receiver =
  packet_accumulator :: string
  raw_packet_mode :: bool

definition idle :: receiver where
  "idle = \<lparr>packet_accumulator = [], raw_packet_mode = False\<rparr>"

definition gdb_interrupt :: "debugger \<Rightarrow> debugger" where
  "gdb_interrupt d = send_packet ''S02'' (set_state Halted ((send_raw ''+'' d)\<lparr>received_sigint := True\<rparr>))"

definition recv_char :: "char \<Rightarrow> receiver \<Rightarrow> debugger \<Rightarrow> (receiver \<times> debugger) result" where
  "recv_char ch r d =
     (if \<not> raw_packet_mode r \<and> ch = CHR 0x03 then Inr (r, gdb_interrupt d)
      else if ch = CHR ''$'' then Inr (r\<lparr>raw_packet_mode := True, packet_accumulator := ''$''\<rparr>, d)
      else if raw_packet_mode r then
        let acc = packet_accumulator r @ [ch]; hash_pos = find_char CHR ''#'' acc in
        if hash_pos \<noteq> npos \<and> of_nat (length acc) = hash_pos + 3
        then and_then (parse_packet acc (send_raw ''+'' d)) (\<lambda>d. Inr (r\<lparr>packet_accumulator := [], raw_packet_mode := False\<rparr>, d))
        else Inr (r\<lparr>packet_accumulator := acc\<rparr>, d)
      else Inr (r, d))"

text \<open>The client transaction loop on the characters that the client sends before it disconnects.\<close>

fun client_loop :: "string \<Rightarrow> receiver \<Rightarrow> debugger \<Rightarrow> (receiver \<times> debugger) result" where
  "client_loop [] r d = Inr (r, d)"
| "client_loop (ch # s) r d =
     (if is_executing d then and_then (recv_char ch r d) (\<lambda>(r, d). client_loop s r d) else Inr (r, d))"

section \<open>The work loop with a debugger\<close>

text \<open>One instruction of every hart for each turn; the first \<open>bind\<close> of the new server is \<open>bound\<close>.\<close>

definition tick_harts :: "machine \<Rightarrow> machine result" where
  "tick_harts m =
     fold (\<lambda>i acc. and_then acc (\<lambda>m. and_then (run_ticks 1 i (mvm m)) (\<lambda>v. Inr (m\<lparr>mvm := v\<rparr>)))) [0..<unat (hart_count (config m))] (Inr m)"

definition after_tick :: "debugger \<Rightarrow> debugger" where
  "after_tick d =
     handle_gdb_breakpoints (if gdb_single_step d then set_state Halted (d\<lparr>gdb_single_step := False\<rparr>) else d)"

definition gdb_work_turn :: "bool \<Rightarrow> host_indet \<Rightarrow> u8 list \<Rightarrow> debugger \<Rightarrow> debugger result" where
  "gdb_work_turn bound u indet d =
     (case mstate (mvm (target d)) of
        Off \<Rightarrow> Inr (gdb_stop d)
      | Resetting \<Rightarrow>
          and_then (work_reset u indet (target d)) (\<lambda>m. Inr (gdb_start bound (set_state Halted ((gdb_stop d)\<lparr>target := m\<rparr>))))
      | Halted \<Rightarrow> Inr (if gdb_single_step d then set_state Running d else d)
      | Running \<Rightarrow>
          let m = (target d)\<lparr>dev_tick_time := dev_tick_time (target d) + 1\<rparr> in
          and_then (and_then (if 0x1000 \<le> dev_tick_time m then subtract_tick m else Inr m) tick_harts) (\<lambda>m. Inr (after_tick (d\<lparr>target := m\<rparr>))))"

section \<open>Hexadecimal numbers\<close>

lemma hex_val_digit: "hex_val (hex_digit x) = Some (unat (x AND 15))"
proof -
  have "x AND 15 \<le> 15" by (rule word_and_le1)
  then have "unat (x AND 15) < 16" by (simp add: word_le_nat_alt)
  moreover have "hex_val (''0123456789abcdef'' ! n) = Some n" if "n < 16" for n
    using that by (auto simp: less_Suc_eq numeral_nat hex_val_def)
  ultimately show ?thesis by (simp add: hex_digit_def)
qed

lemma hex_digit_not: "hex_digit x \<noteq> c" if "hex_val c = None"
  using hex_val_digit [of x] that by auto

lemma hex_val_facts:
  "hex_val c = Some n \<Longrightarrow> \<not> is_space c" "hex_val CHR ''$'' = None" "hex_val CHR ''#'' = None" "hex_val CHR '','' = None" "hex_val CHR '':'' = None"
  "hex_val CHR ''-'' = None" "hex_val CHR ''+'' = None" "hex_val CHR ''x'' = None" "hex_val CHR ''X'' = None"
  by (auto simp: hex_val_def is_space_def Let_def split: if_splits)

text \<open>A number that ends at the end of the string or at a character that is no digit and no \<open>x\<close>.\<close>

lemma stoul16_digits:
  assumes "ds \<noteq> []" and "\<And>c. c \<in> set ds \<Longrightarrow> hex_val c \<noteq> None" and "hex_number ds < 2 ^ 64"
    and "r = [] \<or> hex_val (hd r) = None \<and> hd r \<noteq> CHR ''x'' \<and> hd r \<noteq> CHR ''X''"
  shows "stoul16 (ds @ r) = Inr (of_nat (hex_number ds))"
proof -
  obtain c cs where ds: "ds = c # cs" using assms(1) by (cases ds) auto
  have c: "hex_val c \<noteq> None" "\<not> is_space c" "c \<noteq> CHR ''-''" "c \<noteq> CHR ''+''"
    using assms(2) [of c] hex_val_facts ds by (force, force, force, force)
  have x: "drop_0x (ds @ r) = ds @ r"
  proof (cases "cs")
    case Nil
    then show ?thesis using assms(4) ds by (cases r; cases "tl r") auto
  next
    case (Cons x xs)
    then have "x \<noteq> CHR ''x''" "x \<noteq> CHR ''X''" using assms(2) [of x] hex_val_facts(8,9) ds by auto
    then show ?thesis using Cons ds by (cases "xs @ r") auto
  qed
  have t: "takeWhile (\<lambda>c. hex_val c \<noteq> None) (ds @ r) = ds" using assms(2,4) by (cases r) (auto simp: takeWhile_append)
  have "sign_of (dropWhile is_space (ds @ r)) = (False, ds @ r)" using c ds by simp
  then show ?thesis using assms(1,3) by (simp add: stoul16_def x t Let_def del: not_None_eq)
qed

lemma and_15: "(x :: u64) AND 15 = take_bit 4 x"
  by (simp add: take_bit_eq_mask mask_eq_exp_minus_1)

lemma take_64_unat: "take_bit 64 (unat (v :: u64)) = unat v"
  using unsigned_less [of v, where ?'a = nat] by (simp add: take_bit_nat_eq_self)

lemma hex_number_digits:
  "foldl (\<lambda>a c. 16 * a + the (hex_val c)) a (map (\<lambda>i. hex_digit (drop_bit (4 * i) v)) (rev [0..<n])) = 16 ^ n * a + unat (take_bit (4 * n) v)"
proof (induction n arbitrary: a)
  case (Suc n)
  have "unat (take_bit (4 * Suc n) v) = unat (drop_bit (4 * n) v AND 15) * 16 ^ n + unat (take_bit (4 * n) v)"
  proof -
    have "take_bit (4 + 4 * n) (unat v) = take_bit (4 * n) (unat v) + 2 ^ (4 * n) * take_bit 4 (drop_bit (4 * n) (unat v))"
      using mod_mult2_eq [of "unat v" "2 ^ (4 * n)" 16] by (simp add: take_bit_eq_mod drop_bit_eq_div power_add mult.commute)
    then show ?thesis by (simp add: and_15 unsigned_take_bit_eq unsigned_drop_bit_eq power_mult take_64_unat)
  qed
  then show ?case by (simp add: Suc hex_val_digit) (simp add: algebra_simps)
qed simp

lemma hex_number_word: "hex_number (map (\<lambda>i. hex_digit (drop_bit (4 * i) v)) (rev [0..<16])) = unat v"
  using hex_number_digits [of 0 v 16] by (simp add: hex_number_def unsigned_take_bit_eq take_64_unat)

lemma hex2_eq: "hex2 (ucast (drop_bit (8 * i) v)) = [hex_digit (drop_bit (8 * i + 4) (v :: u64)), hex_digit (drop_bit (8 * i) v)]"
proof -
  have "(ucast (drop_bit 4 (ucast (drop_bit (8 * i) v) :: u8)) :: u64) AND 15 = drop_bit (8 * i + 4) v AND 15"
    "(ucast (ucast (drop_bit (8 * i) v) :: u8) :: u64) AND 15 = drop_bit (8 * i) v AND 15"
    unfolding and_15 by (rule bit_word_eqI; auto simp: bit_simps ac_simps)+
  then show ?thesis by (simp add: hex2_def hex_digit_def)
qed

lemma length_hex2 [simp]: "length (hex2 b) = 2"
  by (simp add: hex2_def)

lemma length_hex_data: "length (concat (map hex2 bs)) = 2 * length bs"
  by (induction bs) auto

lemma length_little_endian [simp]: "length (to_little_endian_hex v) = 16"
  by (simp add: to_little_endian_hex_def length_concat o_def sum_list_triv)

lemma concat_chunk:
  "(\<And>p. p \<in> set ps \<Longrightarrow> length p = m) \<Longrightarrow> i < length ps \<Longrightarrow> take m (drop (m * i) (concat ps)) = ps ! i"
proof (induction ps arbitrary: i)
  case (Cons p ps)
  then show ?case by (cases i) auto
qed simp

lemma length_concat_chunks: "(\<And>p. p \<in> set ps \<Longrightarrow> length p = m) \<Longrightarrow> length (concat ps) = m * length ps"
  by (induction ps) auto

lemma substr_at: "n \<le> length s \<Longrightarrow> length s < 2 ^ 64 \<Longrightarrow> substr (of_nat n) k s = Inr (take (unat k) (drop n s))"
  using unat_of_nat_64 [of n] by (simp add: substr_def)

lemma swap_pairs_rev:
  assumes "\<And>p. p \<in> set ps \<Longrightarrow> length p = 2" and "2 * length ps < 2 ^ 64"
  shows "k \<le> length ps \<Longrightarrow> swap_pairs k (concat ps) = Inr (concat (rev (take (Suc k) ps)))"
proof (induction k)
  case 0
  then show ?case using assms(1) [of "hd ps"] by (cases ps) (auto simp: substr_def)
next
  case (Suc k)
  have len: "length (concat ps) = 2 * length ps" by (rule length_concat_chunks) (rule assms(1))
  have e: "of_nat (Suc k) * 2 = (of_nat (2 * Suc k) :: u64)" by simp
  have "take 2 (drop (2 * Suc k) (concat ps)) = (if Suc k < length ps then ps ! Suc k else [])"
    using concat_chunk [of ps 2 "Suc k"] assms(1) len by (cases "Suc k < length ps") simp_all
  then have "substr (of_nat (Suc k) * 2) 2 (concat ps) = Inr (if Suc k < length ps then ps ! Suc k else [])"
    unfolding e using substr_at [of "2 * Suc k" "concat ps" 2] Suc.prems assms(2) len by simp
  moreover have "take (Suc (Suc k)) ps = take (Suc k) ps @ (if Suc k < length ps then [ps ! Suc k] else [])"
    by (simp add: take_Suc_conv_app_nth)
  ultimately show ?case using Suc by (simp del: take_Suc)
qed

lemma concat_pairs_rev: "concat (rev (map (\<lambda>i. [h (2 * i + 1), h (2 * i)]) [0..<n])) = map h (rev [0..<2 * n])"
  by (induction n) auto

lemma little_endian_swapped:
  "swapHexEndian (to_little_endian_hex v) 8 = Inr (map (\<lambda>i. hex_digit (drop_bit (4 * i) v)) (rev [0..<16]))"
proof -
  let ?ps = "map (\<lambda>i. hex2 (ucast (drop_bit (8 * i) v))) [0..<8]"
  have "swap_pairs 8 (concat ?ps) = Inr (concat (rev (take (Suc 8) ?ps)))" by (rule swap_pairs_rev) auto
  then have "swap_pairs 8 (concat ?ps) = Inr (concat (rev ?ps))" by simp
  moreover have "?ps = map (\<lambda>i. [hex_digit (drop_bit (4 * (2 * i + 1)) v), hex_digit (drop_bit (4 * (2 * i)) v)]) [0..<8]"
    by (simp add: hex2_eq add.commute)
  ultimately show ?thesis
    using concat_pairs_rev [of "\<lambda>i. hex_digit (drop_bit (4 * i) v)" 8] by (simp only: swapHexEndian_def to_little_endian_hex_def) simp
qed

lemma little_endian_word: "and_then (swapHexEndian (to_little_endian_hex v) 8) stoul16 = Inr v"
proof -
  let ?ds = "map (\<lambda>i. hex_digit (drop_bit (4 * i) v)) (rev [0..<16])"
  have "unat v < 2 ^ 64" using unsigned_less [of v, where ?'a = nat] by simp
  then have "stoul16 (?ds @ []) = Inr (of_nat (hex_number ?ds))"
    by (intro stoul16_digits) (auto simp: hex_number_word hex_val_digit)
  then show ?thesis by (simp add: little_endian_swapped hex_number_word)
qed

section \<open>Registers\<close>

text \<open>The reply to a \<open>g\<close> packet.\<close>

definition reg_packet :: "hart \<Rightarrow> string" where
  "reg_packet h = concat (map (\<lambda>i. to_little_endian_hex (GPR h (of_nat i))) [0..<32]) @ to_little_endian_hex (pc h)"

lemma reg_packet_eq: "reg_packet h = concat (map (\<lambda>i. to_little_endian_hex (if i = 32 then pc h else GPR h (of_nat i))) [0..<33])"
proof -
  have "[0..<33] = [0..<32] @ [32 :: nat]" by (simp add: upt_rec)
  moreover have "map (\<lambda>i. to_little_endian_hex (if i = 32 then pc h else GPR h (of_nat i))) [0..<32] =
      map (\<lambda>i. to_little_endian_hex (GPR h (of_nat i))) [0..<32]" by (rule map_cong) auto
  ultimately show ?thesis by (simp only: reg_packet_def map_append concat_append) simp
qed

lemma length_reg_packet: "length (reg_packet h) = 528"
  unfolding reg_packet_eq by (subst length_concat_chunks [of _ 16]) auto

lemma hex_word_reg:
  assumes "i < 33"
  shows "hex_word i (reg_packet h) = Inr (if i = 32 then pc h else GPR h (of_nat i))"
proof -
  let ?f = "\<lambda>i. to_little_endian_hex (if i = 32 then pc h else GPR h (of_nat i))"
  have "take 16 (drop (16 * i) (reg_packet h)) = map ?f [0..<33] ! i"
    unfolding reg_packet_eq by (rule concat_chunk) (use assms in auto)
  moreover have "unat (of_nat (i * 16) :: u64) = 16 * i" using assms unat_of_nat_64 [of "i * 16"] by simp
  ultimately have "substr (of_nat (i * 16)) 16 (reg_packet h) = Inr (?f i)"
    using assms by (simp add: substr_def length_reg_packet)
  then show ?thesis using little_endian_word [of "if i = 32 then pc h else GPR h (of_nat i)"] by (simp add: hex_word_def)
qed

lemma write_gprs_regs:
  "k \<le> 32 \<Longrightarrow> write_gprs k (reg_packet h) h2 = Inr (h2\<lparr>GPR := \<lambda>r. if unat r < k then GPR h r else GPR h2 r\<rparr>)"
proof (induction k)
  case (Suc k)
  have "unat (of_nat k :: u8) = k" using Suc.prems by (simp add: unat_of_nat)
  then have e: "r = of_nat k \<longleftrightarrow> unat r = k" for r :: u8 by (metis word_unat_eq_iff)
  show ?case using Suc hex_word_reg [of k h] by (auto simp: set_reg_def e less_Suc_eq fun_eq_iff intro!: arg_cong [of _ _ "\<lambda>g. h2\<lparr>GPR := g\<rparr>"])
qed simp

section \<open>Framing\<close>

definition payload_ok :: "string \<Rightarrow> bool" where
  "payload_ok p \<longleftrightarrow> p \<noteq> [] \<and> CHR ''$'' \<notin> set p \<and> CHR ''#'' \<notin> set p \<and> length p < 2 ^ 62"

lemma unformat_frame: "unformat_packet (frame_packet p) = p"
  by (simp add: unformat_packet_def frame_packet_def)

lemma find_char_none: "c \<notin> set s \<Longrightarrow> find_char c s = npos"
  by (simp add: find_char_def)

lemma find_char_first: "c \<notin> set s \<Longrightarrow> find_char c (s @ c # t) = of_nat (length s)"
proof -
  assume "c \<notin> set s"
  then have "takeWhile (\<lambda>x. x \<noteq> c) (s @ c # t) = s" by (induction s) auto
  then show ?thesis by (simp add: find_char_def)
qed

lemma client_loop_append:
  "client_loop (s @ t) r d = and_then (client_loop s r d) (\<lambda>(r, d). client_loop t r d)"
proof (induction s arbitrary: r d)
  case Nil
  then show ?case by simp
next
  case (Cons c s)
  show ?case
  proof (cases "is_executing d")
    case True
    then show ?thesis by (cases "recv_char c r d") (auto simp: Cons)
  next
    case False
    then show ?thesis by (cases t) auto
  qed
qed

lemma client_loop_collect:
  assumes "is_executing d" and "CHR ''$'' \<notin> set s" and "CHR ''#'' \<notin> set (acc @ s)"
  shows "client_loop s \<lparr>packet_accumulator = acc, raw_packet_mode = True\<rparr> d = Inr (\<lparr>packet_accumulator = acc @ s, raw_packet_mode = True\<rparr>, d)"
  using assms
proof (induction s arbitrary: acc)
  case (Cons c s)
  have "recv_char c \<lparr>packet_accumulator = acc, raw_packet_mode = True\<rparr> d = Inr (\<lparr>packet_accumulator = acc @ [c], raw_packet_mode = True\<rparr>, d)"
    using Cons.prems by (auto simp: recv_char_def Let_def find_char_none)
  then show ?case using Cons by simp
qed simp

lemma recv_char_raw:
  assumes "c \<noteq> CHR ''$''" and "packet_accumulator r @ [c] = pre @ CHR ''#'' # t" and "CHR ''#'' \<notin> set pre" and "raw_packet_mode r"
    and "length pre < 2 ^ 63" and "length t \<le> 2"
  shows "recv_char c r d =
    (if length t = 2 then and_then (parse_packet (pre @ CHR ''#'' # t) (send_raw ''+'' d)) (\<lambda>d. Inr (r\<lparr>packet_accumulator := [], raw_packet_mode := False\<rparr>, d))
     else Inr (r\<lparr>packet_accumulator := pre @ CHR ''#'' # t\<rparr>, d))"
proof -
  have f: "find_char CHR ''#'' (pre @ CHR ''#'' # t) = of_nat (length pre)" by (rule find_char_first [OF assms(3)])
  have u: "unat (of_nat (length pre) :: u64) = length pre" using assms(5) by (intro unat_of_nat_64) simp
  have "(of_nat (length pre) :: u64) \<noteq> npos"
  proof
    assume "(of_nat (length pre) :: u64) = npos"
    then have "length pre = unat (- 1 :: u64)" using u by simp
    then show False using assms(5) by (simp add: unsigned_minus_1_eq_mask mask_eq_exp_minus_1)
  qed
  moreover have "of_nat (length (pre @ CHR ''#'' # t)) = (of_nat (length pre) + 3 :: u64) \<longleftrightarrow> length t = 2"
    using assms(6) by (auto simp: numeral_2_eq_2 le_Suc_eq)
  ultimately show ?thesis using assms(1,2,4) f by (simp add: recv_char_def Let_def del: length_append)
qed

lemma client_loop_frame:
  assumes "payload_ok p" and "is_executing d"
  shows "client_loop (frame_packet p) r d = and_then (parse_packet (frame_packet p) (send_raw ''+'' d)) (\<lambda>d. Inr (idle, d))"
proof -
  let ?r = "\<lambda>a. \<lparr>packet_accumulator = a, raw_packet_mode = True\<rparr>" and ?pre = "CHR ''$'' # p"
  obtain h1 h2 where h: "hex2 (checksum p) = [h1, h2]" "h1 \<noteq> CHR ''$''" "h2 \<noteq> CHR ''$''"
    using hex_digit_not hex_val_facts(2) by (simp add: hex2_def)
  have p: "CHR ''#'' \<notin> set ?pre" "CHR ''$'' \<notin> set p" "length ?pre < 2 ^ 63" using assms(1) by (auto simp: payload_ok_def)
  have a: "recv_char CHR ''$'' r d = Inr (?r ''$'', d)" by (simp add: recv_char_def)
  have b: "client_loop p (?r ''$'') d = Inr (?r ?pre, d)" using client_loop_collect [OF assms(2) p(2), of "''$''"] p(1) by simp
  have c: "recv_char CHR ''#'' (?r ?pre) d = Inr (?r (?pre @ ''#''), d)"
    using recv_char_raw [of "CHR ''#''" "?r ?pre" ?pre "[]"] p by simp
  have e: "recv_char h1 (?r (?pre @ ''#'')) d = Inr (?r (?pre @ ''#'' @ [h1]), d)"
    using recv_char_raw [of h1 "?r (?pre @ ''#'')" ?pre "[h1]"] p h by simp
  have f: "recv_char h2 (?r (?pre @ ''#'' @ [h1])) d = and_then (parse_packet (?pre @ ''#'' @ [h1, h2]) (send_raw ''+'' d)) (\<lambda>d. Inr (idle, d))"
    using recv_char_raw [of h2 "?r (?pre @ ''#'' @ [h1])" ?pre "[h1, h2]"] p h by (simp add: idle_def)
  have "frame_packet p = CHR ''$'' # p @ [CHR ''#'', h1, h2]" by (simp add: frame_packet_def h(1))
  then show ?thesis using assms(2) a b c e f
    by (cases "parse_packet (?pre @ ''#'' @ [h1, h2]) (send_raw ''+'' d)") (simp_all add: client_loop_append)
qed

text \<open>A session: the payloads that the client frames, each acknowledged and then handled, until the stub is stopped.\<close>

primrec serve :: "string list \<Rightarrow> debugger \<Rightarrow> debugger result" where
  "serve [] d = Inr d"
| "serve (p # ps) d = (if is_executing d then and_then (parse_packet (frame_packet p) (send_raw ''+'' d)) (serve ps) else Inr d)"

lemma client_loop_stopped: "\<not> is_executing d \<Longrightarrow> client_loop s r d = Inr (r, d)"
  by (cases s) auto

text \<open>
  C21. Framing loses nothing: when a client sends payloads in the format in which the stub sends its own (\<open>$\<close>, the payload,
  \<open>#\<close>, the checksum), the receiver that reads one character at a time, in whatever state the last packet left it, hands exactly these payloads in
  their order to the packet handlers, one acknowledgement each, and is idle afterwards.
\<close>

theorem gdb_framing:
  assumes "\<And>p. p \<in> set ps \<Longrightarrow> payload_ok p" and "ps \<noteq> []" and "is_executing d"
  shows "client_loop (concat (map frame_packet ps)) r d = and_then (serve ps d) (\<lambda>d. Inr (idle, d)) \<and>
    (\<forall>p. unformat_packet (frame_packet p) = p \<and> sent_bytes (send_packet p d) = sent_bytes d @ frame_packet p)"
proof -
  have "client_loop (concat (map frame_packet ps)) idle d = and_then (serve ps d) (\<lambda>d. Inr (idle, d))"
    if "\<And>p. p \<in> set ps \<Longrightarrow> payload_ok p" for ps d
    using that
  proof (induction ps arbitrary: d)
    case (Cons p ps)
    show ?case
    proof (cases "is_executing d")
      case True
      then show ?thesis
        using Cons client_loop_frame [of p d idle]
        by (cases "parse_packet (frame_packet p) (send_raw ''+'' d)") (simp_all add: client_loop_append)
    next
      case False
      then show ?thesis by (simp add: client_loop_stopped)
    qed
  qed simp
  note idle = this
  obtain p qs where ps: "ps = p # qs" using assms(2) by (cases ps) auto
  have "client_loop (concat (map frame_packet ps)) r d = and_then (serve ps d) (\<lambda>d. Inr (idle, d))"
    using client_loop_frame [of p d r] assms idle [of qs] unfolding ps
    by (cases "parse_packet (frame_packet p) (send_raw ''+'' d)") (simp_all add: client_loop_append)
  then show ?thesis by (simp add: unformat_frame send_packet_def send_raw_def)
qed

section \<open>Registers and memory through packets\<close>

lemma starts_with_simps [simp]:
  "starts_with [] s" "\<not> starts_with (a # p) []" "starts_with (a # p) (b # s) \<longleftrightarrow> a = b \<and> starts_with p s"
  by (auto simp: starts_with_def)

lemma parse_M: "parse_packet (frame_packet (CHR ''M'' # s)) d = gdb_store_mem (CHR ''M'' # s) d"
  and parse_m: "parse_packet (frame_packet (CHR ''m'' # s)) d = gdb_load_mem (CHR ''m'' # s) d"
  and parse_g: "parse_packet (frame_packet (CHR ''g'' # s)) d = gdb_read_all d"
  and parse_G: "parse_packet (frame_packet (CHR ''G'' # s)) d = gdb_write_all (CHR ''G'' # s) d"
proof -
  have f: "hd (frame_packet p) = CHR ''$''" "frame_packet p \<noteq> []" for p by (simp_all add: frame_packet_def)
  show "parse_packet (frame_packet (CHR ''M'' # s)) d = gdb_store_mem (CHR ''M'' # s) d"
    "parse_packet (frame_packet (CHR ''m'' # s)) d = gdb_load_mem (CHR ''m'' # s) d"
    "parse_packet (frame_packet (CHR ''g'' # s)) d = gdb_read_all d"
    "parse_packet (frame_packet (CHR ''G'' # s)) d = gdb_write_all (CHR ''G'' # s) d"
    by (simp_all add: parse_packet_def unformat_frame f Let_def)
qed

text \<open>
  Saving and restoring registers: the reply to \<open>g\<close>, sent back with \<open>G\<close> to a hart in any state, gives that hart the program
  counter and the 32 general registers of the hart that was read, changes nothing else of it and is answered with OK.
\<close>

theorem gdb_registers_roundtrip:
  assumes "active_hart d = Some n" and "n < length (harts (mvm (target d)))" and "h = hart_of n (mvm (target d))"
    and "active_hart e = Some k" and "k < length (harts (mvm (target e)))" and "h' = hart_of k (mvm (target e))"
  shows "parse_packet (frame_packet ''g'') d = Inr (send_packet (reg_packet h) d) \<and>
    parse_packet (frame_packet (''G'' @ reg_packet h)) e =
      Inr (send_packet ''OK'' (put_hart k (h'\<lparr>GPR := \<lambda>r. if unat r < 32 then GPR h r else GPR h' r, pc := pc h\<rparr>) e))"
proof -
  have "substr 1 npos (CHR ''G'' # reg_packet h) = Inr (reg_packet h)"
    by (simp add: substr_def length_reg_packet unsigned_minus_1_eq_mask mask_eq_exp_minus_1)
  then have "gdb_write_all (CHR ''G'' # reg_packet h) e =
      Inr (send_packet ''OK'' (put_hart k (h'\<lparr>GPR := \<lambda>r. if unat r < 32 then GPR h r else GPR h' r, pc := pc h\<rparr>) e))"
    using assms(4-6) write_gprs_regs [of 32 h h'] hex_word_reg [of 32 h]
    by (simp add: gdb_write_all_def with_hart_def vec_at_def length_reg_packet)
  then show ?thesis
    using assms(1-3) by (simp add: parse_g parse_G gdb_read_all_def with_hart_def vec_at_def reg_packet_def)
qed

lemma byte_cast [simp]: "ucast (ucast (b :: u8) :: u64) = b"
  by (rule bit_word_eqI) (auto simp: bit_simps)

lemma stoul16_hex2: "stoul16 (hex2 b) = Inr (ucast b)"
proof -
  let ?v = "ucast b :: u64"
  have e: "hex2 b = map (\<lambda>i. hex_digit (drop_bit (4 * i) ?v)) (rev [0..<2])"
    using hex2_eq [of 0 ?v] by (simp add: upt_rec)
  have "unat b < 256" using unsigned_less [of b, where ?'a = nat] by simp
  then have n: "hex_number (hex2 b) = unat b"
    unfolding e hex_number_def using hex_number_digits [of 0 ?v 2]
    by (simp add: unsigned_take_bit_eq unsigned_ucast_eq take_bit_nat_eq_self)
  have "stoul16 (hex2 b @ []) = Inr (of_nat (hex_number (hex2 b)))"
    by (rule stoul16_digits) (use n \<open>unat b < 256\<close> in \<open>auto simp: hex2_def hex_val_digit\<close>)
  then show ?thesis by (simp add: n)
qed

text \<open>RAM from the first address on, as the bus sees it.\<close>

definition ram_bytes :: "vm \<Rightarrow> u64 \<Rightarrow> u8" where
  "ram_bytes v a = rdata (regions (mmap v) ! the (ram_direct (mmap v))) (a - 0x80000000)"

definition same_bus :: "nat \<Rightarrow> vm \<Rightarrow> vm \<Rightarrow> bool" where
  "same_bus n v v' \<longleftrightarrow> bare n v' = bare n v \<and> ram_ok v' = ram_ok v \<and> mmio_memsize v' = mmio_memsize v"

lemma same_bus_inside: "same_bus n v v' \<Longrightarrow> bus_inside n v' a k = bus_inside n v a k"
  by (simp add: same_bus_def bus_inside_def)

lemma phys_write_byte:
  assumes "bus_inside n v a 1"
  shows "\<exists>v'. mmio_write n a MS_Byte (ucast b) True v = Inr (MR True 0 0, v') \<and> ram_bytes v' = (ram_bytes v)(a := b) \<and> same_bus n v v'"
proof -
  obtain i where i: "ram_direct (mmap v) = Some i" "i < length (regions (mmap v))" "rsize (regions (mmap v) ! i) = mmio_memsize v"
    using assms by (auto simp: bus_inside_def elim: ram_okE)
  have n: "n < length (harts v)" using assms by (simp add: bus_inside_def bare_def)
  define v' where "v' = (upd_hart n (amo_check_reservation a) v)
    \<lparr>smcs := smc_store_hit a (smcs v), mmap := region_store i (a - 0x80000000) 1 (ucast b) (mmap v)\<rparr>"
  have "mmio_write n a MS_Byte (ucast b) True v = Inr (MR True 0 0, v')"
    using bus_inside_in_dram [OF assms] no_cross_bare [of n v] assms i
    by (simp add: bus_inside_def mmio_write_def put_fragment_def in_dram_def write_dram_fast_def plain_size_def array_ok_def v'_def upd_hart_def Let_def)
  moreover have "ram_bytes v' = (ram_bytes v)(a := b)"
    using i by (auto simp: ram_bytes_def v'_def region_store_def fun_eq_iff)
  moreover have "satp (amo_check_reservation a h) = satp h" for h by (simp add: amo_check_reservation_def Let_def)
  then have "same_bus n v v'"
    using i n by (auto simp: same_bus_def bare_def ram_ok_def v'_def region_store_def upd_hart_def)
  ultimately show ?thesis by blast
qed

lemma phys_read_byte:
  assumes "bus_inside n v a 1"
  shows "mmio_read n a MS_Byte True v = Inr (MR True 0 0, ucast (ram_bytes v a), v)"
proof -
  obtain i where i: "ram_direct (mmap v) = Some i" "rsize (regions (mmap v) ! i) = mmio_memsize v"
    using assms by (auto simp: bus_inside_def elim: ram_okE)
  have "take_bit 8 (ucast x :: u64) = ucast x" for x :: u8 by (rule bit_word_eqI) (auto simp: bit_simps dest: bit_imp_le_length)
  then show ?thesis
    using bus_inside_in_dram [OF assms] no_cross_bare [of n v] assms i
    by (simp add: bus_inside_def mmio_read_def get_fragment_def in_dram_def read_dram_fast_def plain_size_def array_ok_def ram_bytes_def)
qed

lemma put_chunk_ram:
  assumes "\<And>j. j < length bs \<Longrightarrow> bus_inside n v (a + of_nat j) 1" and "length bs < 2 ^ 32" and "j + k = length bs"
  shows "\<exists>v'. put_chunk k n (concat (map hex2 bs)) 0 a (of_nat j) v = Inr (True, v') \<and>
    ram_bytes v' = copy_bytes (drop j bs) (a + of_nat j) (ram_bytes v) \<and> same_bus n v v'"
  using assms
proof (induction k arbitrary: j v)
  case (Suc k)
  let ?data = "concat (map hex2 bs)"
  have j: "j < length bs" using Suc.prems(3) by simp
  have len: "length ?data = 2 * length bs" by (rule length_hex_data)
  have "take 2 (drop (2 * j) ?data) = map hex2 bs ! j" by (rule concat_chunk) (use j in auto)
  then have "take 2 (drop (2 * j) ?data) = hex2 (bs ! j)" using j by simp
  moreover have e: "(0 + of_nat j) * 2 = (of_nat (2 * j) :: u64)" by simp
  ultimately have d: "and_then (substr ((0 + of_nat j) * 2) 2 ?data) stoul16 = Inr (ucast (bs ! j))"
    unfolding e using substr_at [of "2 * j" ?data 2] len j Suc.prems(2) by (simp add: stoul16_hex2)
  obtain w where w: "mmio_write n (a + of_nat j) MS_Byte (ucast (bs ! j)) True v = Inr (MR True 0 0, w)"
      "ram_bytes w = (ram_bytes v)(a + of_nat j := bs ! j)" "same_bus n v w"
    using phys_write_byte [OF Suc.prems(1) [OF j]] by blast
  obtain v' where v': "put_chunk k n ?data 0 a (of_nat (Suc j)) w = Inr (True, v')"
      "ram_bytes v' = copy_bytes (drop (Suc j) bs) (a + of_nat (Suc j)) (ram_bytes w)" "same_bus n w v'"
    using Suc.IH [of w "Suc j"] Suc.prems same_bus_inside [OF w(3)] by auto
  have "drop j bs = bs ! j # drop (Suc j) bs" using j by (rule Cons_nth_drop_Suc [symmetric])
  then show ?case using d w v' by (simp add: algebra_simps same_bus_def)
qed (simp add: same_bus_def)

lemma get_chunk_ram:
  assumes "\<And>i. i < j + k \<Longrightarrow> bus_inside n v (a + of_nat i) 1"
  shows "get_chunk k n a (of_nat j) resp v = Inr (True, resp @ concat (map (\<lambda>i. hex2 (ram_bytes v (a + of_nat i))) [j..<j + k]), v)"
  using assms
proof (induction k arbitrary: j resp)
  case (Suc k)
  have b: "bus_inside n v (a + of_nat j) 1" using Suc.prems [of j] by simp
  have ih: "get_chunk k n a (of_nat (Suc j)) r v =
      Inr (True, r @ concat (map (\<lambda>i. hex2 (ram_bytes v (a + of_nat i))) [Suc j..<Suc j + k]), v)" for r
    by (rule Suc.IH) (use Suc.prems in auto)
  have l: "[j..<j + Suc k] = j # [Suc j..<Suc j + k]" by (simp add: upt_conv_Cons)
  have e: "(of_nat j :: u64) + 1 = of_nat (Suc j)" by simp
  show ?case unfolding get_chunk.simps e phys_read_byte [OF b] l and_then.simps prod.case ih by simp
qed simp

text \<open>The part of memory that the packets of the next theorem are about.\<close>

definition ram_range :: "nat \<Rightarrow> vm \<Rightarrow> u64 \<Rightarrow> nat \<Rightarrow> bool" where
  "ram_range n v a k \<longleftrightarrow> bare n v \<and> ram_ok v \<and> 0x80000000 \<le> a \<and> unat a + k \<le> 0x80000000 + unat (mmio_memsize v) \<and> k < 2 ^ 32"

lemma ram_range_inside:
  assumes "ram_range n v a k" and "j < k"
  shows "bus_inside n v (a + of_nat j) 1"
proof -
  have m: "unat (mmio_memsize v) \<le> 0x7FFFFFFF00000000" using assms(1) by (auto simp: ram_range_def word_le_nat_alt elim: ram_okE)
  have "unat (a + of_nat j) = unat a + j"
    using assms m unat_of_nat_64 [of j] by (simp add: ram_range_def unat_word_ariths)
  then show ?thesis using assms by (simp add: ram_range_def bus_inside_def word_le_nat_alt)
qed

lemma store_loop_ram:
  assumes "ram_range n v a (length bs)" and "bs \<noteq> []"
  shows "\<exists>v'. store_loop n (concat (map hex2 bs)) a (of_nat (length bs)) 0 v = Inr (True, v') \<and>
    ram_bytes v' = copy_bytes bs a (ram_bytes v) \<and> ram_range n v' a (length bs)"
proof -
  let ?k = "of_nat (length bs) :: u64"
  have k: "unat ?k = length bs" "?k \<noteq> 0" using assms unat_of_nat_64 [of "length bs"] by (auto simp: ram_range_def unat_eq_0 [symmetric])
  have z: "satp_mode (satp (hart_of n v)) = 0" using assms(1) by (simp add: ram_range_def bare_def)
  obtain v' where v': "put_chunk (length bs) n (concat (map hex2 bs)) 0 a 0 v = Inr (True, v')" "ram_bytes v' = copy_bytes bs a (ram_bytes v)"
      "same_bus n v v'"
    using put_chunk_ram [of bs n v a 0 "length bs"] ram_range_inside [OF assms(1)] assms(1) by (auto simp: ram_range_def)
  have "store_loop n data b 0 off w = Inr (True, w)" for data b off w by (simp add: store_loop.simps)
  then have "store_loop n (concat (map hex2 bs)) a ?k 0 v = Inr (True, v')"
    using k z v'(1) by (subst store_loop.simps) (simp add: gdb_phys_def gdb_chunk_def)
  moreover have "ram_range n v' a (length bs)" using assms(1) v'(3) by (simp add: ram_range_def same_bus_def)
  ultimately show ?thesis using v'(2) by blast
qed

lemma load_loop_ram:
  assumes "ram_range n v a k" and "k \<noteq> 0"
  shows "load_loop n a (of_nat k) [] v = Inr (True, concat (map (\<lambda>i. hex2 (ram_bytes v (a + of_nat i))) [0..<k]), v)"
proof -
  have k: "unat (of_nat k :: u64) = k" "(of_nat k :: u64) \<noteq> 0" using assms unat_of_nat_64 [of k] by (auto simp: ram_range_def unat_eq_0 [symmetric])
  have z: "satp_mode (satp (hart_of n v)) = 0" using assms(1) by (simp add: ram_range_def bare_def)
  have "get_chunk k n a 0 [] v = Inr (True, concat (map (\<lambda>i. hex2 (ram_bytes v (a + of_nat i))) [0..<k]), v)"
    using get_chunk_ram [of 0 k n v a "[]"] ram_range_inside [OF assms(1)] by simp
  moreover have "load_loop n b 0 r w = Inr (True, r, w)" for b r w by (simp add: load_loop.simps)
  ultimately show ?thesis using k z by (subst load_loop.simps) (simp add: gdb_phys_def gdb_chunk_def)
qed

text \<open>\<open>s\<close> is a number of the protocol: hexadecimal digits, at most sixteen.\<close>

definition hex_arg :: "string \<Rightarrow> nat \<Rightarrow> bool" where
  "hex_arg s x \<longleftrightarrow> s \<noteq> [] \<and> (\<forall>c \<in> set s. hex_val c \<noteq> None) \<and> hex_number s = x \<and> length s \<le> 16 \<and> x < 2 ^ 64"

lemma hex_arg_stoul:
  assumes "hex_arg s x" and "r = [] \<or> hd r = CHR '','' \<or> hd r = CHR '':''"
  shows "stoul16 (s @ r) = Inr (of_nat x)"
proof -
  have "stoul16 (s @ r) = Inr (of_nat (hex_number s))"
    by (rule stoul16_digits) (use assms hex_val_facts in \<open>auto simp: hex_arg_def\<close>)
  then show ?thesis using assms(1) by (simp add: hex_arg_def)
qed

lemma hex_arg_chars: "hex_arg s x \<Longrightarrow> hex_val c = None \<Longrightarrow> c \<notin> set s"
  by (auto simp: hex_arg_def)

lemma npos_take: "length s < 2 ^ 64 \<Longrightarrow> take (unat (npos :: u64)) s = s"
  by (simp add: unsigned_minus_1_eq_mask mask_eq_exp_minus_1)

text \<open>The arguments that the two memory packets carry.\<close>

lemma mem_packet_args:
  assumes as: "hex_arg as x" and ls: "hex_arg ls y" and len: "length data < 2 ^ 40" and p: "p = c # as @ CHR '','' # ls @ t"
    and t: "t = [] \<or> t = CHR '':'' # data" and c: "c \<noteq> CHR '',''" "c \<noteq> CHR '':''"
  shows "and_then (substr 1 (find_char CHR '','' p) p) stoul16 = Inr (of_nat x)"
    and "t \<noteq> [] \<Longrightarrow> and_then (substr (find_char CHR '','' p + 1) (find_char CHR '':'' p - find_char CHR '','' p - 1) p) stoul16 = Inr (of_nat y)"
    and "t \<noteq> [] \<Longrightarrow> substr (find_char CHR '':'' p + 1) npos p = Inr data"
    and "t = [] \<Longrightarrow> and_then (substr (find_char CHR '','' p + 1) npos p) stoul16 = Inr (of_nat y)"
proof -
  have lens: "length as \<le> 16" "length ls \<le> 16" using as ls by (simp_all add: hex_arg_def)
  have pl: "length p < 2 ^ 64" using lens len t p by auto
  have comma: "find_char CHR '','' p = of_nat (Suc (length as))"
    using find_char_first [of "CHR '',''" "c # as" "ls @ t"] hex_arg_chars [OF as hex_val_facts(4)] c(1) p by simp
  have u: "unat (of_nat (Suc (length as)) :: u64) = Suc (length as)" using lens by (intro unat_of_nat_64) simp
  have "substr 1 (find_char CHR '','' p) p = Inr (as @ CHR '','' # [])"
    unfolding comma substr_def u using pl by (simp add: p)
  then show "and_then (substr 1 (find_char CHR '','' p) p) stoul16 = Inr (of_nat x)" using hex_arg_stoul [OF as, of "'',''"] by simp
  have e: "of_nat (Suc (length as)) + 1 = (of_nat (length as + 2) :: u64)" by simp
  have d2: "drop (length as + 2) p = ls @ t" by (simp add: p)
  have s2: "substr (find_char CHR '','' p + 1) k p = Inr (take (unat k) (ls @ t))" for k
    unfolding comma e using substr_at [of "length as + 2" p k] pl by (simp add: d2) (simp add: p)
  show "and_then (substr (find_char CHR '','' p + 1) npos p) stoul16 = Inr (of_nat y)" if "t = []"
    using s2 [of npos] npos_take [of ls] lens hex_arg_stoul [OF ls, of "[]"] that by simp
  assume "t \<noteq> []"
  then have t': "t = CHR '':'' # data" using t by simp
  have colon: "find_char CHR '':'' p = of_nat (length as + length ls + 2)"
    using find_char_first [of "CHR '':''" "c # as @ CHR '','' # ls" data] hex_arg_chars [OF as hex_val_facts(5)]
      hex_arg_chars [OF ls hex_val_facts(5)] c(2) p t' by simp
  have "find_char CHR '':'' p - find_char CHR '','' p - 1 = (of_nat (length ls) :: u64)" by (simp add: comma colon)
  moreover have "unat (of_nat (length ls) :: u64) = length ls" using lens by (intro unat_of_nat_64) simp
  ultimately show "and_then (substr (find_char CHR '','' p + 1) (find_char CHR '':'' p - find_char CHR '','' p - 1) p) stoul16 = Inr (of_nat y)"
    using s2 [of "of_nat (length ls)"] hex_arg_stoul [OF ls, of "[]"] by simp
  have e3: "of_nat (length as + length ls + 2) + 1 = (of_nat (length as + length ls + 3) :: u64)" by simp
  have "drop (length as + length ls + 3) p = data" by (simp add: p t' numeral_3_eq_3)
  moreover have "length as + length ls + 3 \<le> length p" by (simp add: p t')
  ultimately show "substr (find_char CHR '':'' p + 1) npos p = Inr data"
    unfolding colon e3 using substr_at [of "length as + length ls + 3" p npos] pl npos_take [of data] len by simp
qed

text \<open>
  C22. Memory through the debugger: with translation off, an \<open>M\<close> packet that stores bytes inside RAM is answered with OK, memory
  then holds exactly these bytes there and everywhere else what it held before, and an \<open>m\<close> packet for the same
  range answers with the bytes that were written.
\<close>

theorem gdb_memory_roundtrip:
  assumes "active_hart d = Some n" and "ram_range n (mvm (target d)) a (length bs)" and "bs \<noteq> []"
    and "hex_arg as (unat a)" and "hex_arg ls (length bs)"
  shows "\<exists>d'. parse_packet (frame_packet (''M'' @ as @ '','' @ ls @ '':'' @ concat (map hex2 bs))) d = Inr (send_packet ''OK'' d') \<and>
    ram_bytes (mvm (target d')) = copy_bytes bs a (ram_bytes (mvm (target d))) \<and>
    parse_packet (frame_packet (''m'' @ as @ '','' @ ls)) d' = Inr (send_packet (concat (map hex2 bs)) d')"
proof -
  let ?v = "mvm (target d)" and ?data = "concat (map hex2 bs)"
  let ?M = "CHR ''M'' # as @ CHR '','' # ls @ CHR '':'' # ?data" and ?m = "CHR ''m'' # as @ CHR '','' # ls"
  have k: "length bs < 2 ^ 32" "n < length (harts ?v)" using assms(2) by (simp_all add: ram_range_def bare_def)
  have nz: "(of_nat (length bs) :: u64) \<noteq> 0" using k assms(3) unat_of_nat_64 [of "length bs"] by (auto simp: unat_eq_0 [symmetric])
  have len: "length ?data < 2 ^ 40" using k by (simp add: length_hex_data)
  obtain v' where v': "store_loop n ?data a (of_nat (length bs)) 0 ?v = Inr (True, v')" "ram_bytes v' = copy_bytes bs a (ram_bytes ?v)"
      "ram_range n v' a (length bs)" using store_loop_ram [OF assms(2,3)] by blast
  define d' where "d' = upd_target (\<lambda>_. v') d"
  have d': "mvm (target d') = v'" "active_hart d' = Some n" "upd_target (\<lambda>_. v') d' = d'" using assms(1) by (simp_all add: d'_def upd_target_def upd_vm_def)
  note a = mem_packet_args [OF assms(4,5) len, where ?c = "CHR ''M''" and ?t = "CHR '':'' # ?data" and ?p = ?M]
  have "gdb_store_mem ?M d = Inr (send_packet ''OK'' d')"
    using a assms(1) k(2) nz v'(1) by (simp add: gdb_store_mem_def Let_def vec_at_def d'_def)
  moreover
  note b = mem_packet_args [OF assms(4,5) len, where ?c = "CHR ''m''" and ?t = "[]" and ?p = ?m]
  have "n < length (harts v')" using v'(3) by (simp add: ram_range_def bare_def)
  then have "gdb_load_mem ?m d' = Inr (send_packet (concat (map (\<lambda>i. hex2 (ram_bytes v' (a + of_nat i))) [0..<length bs])) d')"
    using b nz load_loop_ram [OF v'(3)] assms(3) d' by (simp add: gdb_load_mem_def Let_def vec_at_def)
  moreover have "map (\<lambda>i. hex2 (ram_bytes v' (a + of_nat i))) [0..<length bs] = map hex2 bs"
    using k(1) by (intro nth_equalityI) (simp_all add: v'(2) copy_bytes_inside)
  ultimately show ?thesis using v'(2) d'(1) by (auto simp: parse_M parse_m)
qed

section \<open>Stopping\<close>

lemma handle_gdb_breakpoints_eq:
  assumes "is_executing d" and "harts (mvm (target d)) \<noteq> []"
  shows "handle_gdb_breakpoints d =
    (if pc (hart_of 0 (mvm (target d))) \<in> set (breakpoints d)
     then (send_packet (if received_sigint d then ''S02'' else ''S05'') (set_state Halted d))\<lparr>received_sigint := False\<rparr> else d)"
  using assms by (cases "harts (mvm (target d))") (auto simp: handle_gdb_breakpoints_def)

lemmas stub_frame = send_packet_def send_raw_def set_state_def upd_target_def upd_vm_def


definition sample_debugger :: debugger where
  "sample_debugger = \<lparr>active_hart = Some 0, xml_target_description = [], is_executing = True, received_sigint = False,
     breakpoints = [0], gdb_single_step = False, sent_bytes = [], target = sample_machine\<rparr>"


theorem gdb_framing_witness:
  "\<exists>d'. client_loop (frame_packet ''vCont?'' @ frame_packet ''qC'') idle sample_debugger = Inr (idle, d') \<and>
     sent_bytes d' = ''+'' @ frame_packet ''vCont;s;S;c;C'' @ ''+'' @ frame_packet ''QC1''"
proof -
  have ok: "payload_ok p" if "p \<in> set [''vCont?'', ''qC'']" for p using that by (auto simp: payload_ok_def)
  have x: "is_executing sample_debugger" by (simp add: sample_debugger_def)
  have f: "hd (frame_packet p) = CHR ''$''" "frame_packet p \<noteq> []" for p by (simp_all add: frame_packet_def)
  have "serve [''vCont?'', ''qC''] sample_debugger =
      Inr (send_packet ''QC1'' (send_raw ''+'' (send_packet ''vCont;s;S;c;C'' (send_raw ''+'' sample_debugger))))"
    by (simp add: parse_packet_def unformat_frame f Let_def) (simp add: sample_debugger_def stub_frame)
  then show ?thesis using gdb_framing [OF ok _ x, of "[''vCont?'', ''qC'']" idle] by (simp add: stub_frame sample_debugger_def)
qed

theorem gdb_registers_roundtrip_witness:
  "parse_packet (frame_packet (''G'' @ reg_packet (new_hart 7 0))) sample_debugger =
     Inr (send_packet ''OK'' (put_hart 0 ((hart_of 0 (mvm sample_machine))\<lparr>GPR := \<lambda>_. 0, pc := 0\<rparr>) sample_debugger))"
proof -
  let ?e = "put_hart 0 (new_hart 7 0) sample_debugger"
  have l: "length (harts (mvm sample_machine)) = 1" by (simp add: sample_machine_def new_harts_def sample_config_def)
  have a: "active_hart ?e = Some 0" "0 < length (harts (mvm (target ?e)))" "new_hart 7 0 = hart_of 0 (mvm (target ?e))"
    using l by (simp_all add: put_hart_def upd_target_def upd_vm_def sample_debugger_def)
  have b: "active_hart sample_debugger = Some 0" "0 < length (harts (mvm (target sample_debugger)))"
      "hart_of 0 (mvm sample_machine) = hart_of 0 (mvm (target sample_debugger))"
    using l by (simp_all add: sample_debugger_def)
  have "(\<lambda>r. if unat r < 32 then GPR (new_hart 7 0) r else GPR (hart_of 0 (mvm sample_machine)) r) = (\<lambda>_. 0)"
    by (simp add: sample_machine_harts fun_eq_iff) (simp add: new_hart_def)
  then show ?thesis using gdb_registers_roundtrip [OF a b] by (simp add: new_hart_def)
qed

theorem gdb_memory_roundtrip_witness:
  "\<exists>d'. parse_packet (frame_packet (''M80000010,2:'' @ hex2 0xAB @ hex2 7)) (sample_debugger\<lparr>target := sample_machine\<lparr>mvm := sample_vm Machine 0\<rparr>\<rparr>) =
       Inr (send_packet ''OK'' d') \<and> ram_bytes (mvm (target d')) 0x80000011 = 7 \<and>
     parse_packet (frame_packet (''m80000010,2'')) d' = Inr (send_packet (hex2 0xAB @ hex2 7) d')"
proof -
  let ?d = "sample_debugger\<lparr>target := sample_machine\<lparr>mvm := sample_vm Machine 0\<rparr>\<rparr>"
  have "ram_range 0 (mvm (target ?d)) 0x80000010 (length [0xAB, 7])"
    by (simp add: ram_range_def bare_def ram_ok_def sample_ram_def add_region_def empty_map_def new_region_def new_hart_def Let_def bf_get_def)
  moreover have "hex_arg ''80000010'' (unat (0x80000010 :: u64))" "hex_arg ''2'' (length [0xAB :: u8, 7])"
    by (simp_all add: hex_arg_def hex_number_def hex_val_def)
  moreover have "active_hart ?d = Some 0" by (simp add: sample_debugger_def)
  ultimately show ?thesis using gdb_memory_roundtrip [of ?d 0 "0x80000010" "[0xAB, 7]" "''80000010''" "''2''"] by auto
qed

end
