(* ===== verification/Command_Line.thy ===== *)
theory Command_Line
  imports Gdbstub
begin

unbundle bit_operations_syntax

text \<open>
  The command line: the argument parser of include/argparser.cpp, the options that src/main.cpp registers and what it computes
  from them (a build with the framebuffer and the GDB stub). Argument objects are elements of a list, to which the maps of the
  parser hold indices as the shared pointers do. The process can end inside the parser, so its operations have three outcomes: they
  go on, they end the process with a status, or they run into behaviour that C++ leaves undefined. Messages are not modelled.
\<close>

section \<open>Arguments\<close>

datatype 'a outcome = Go 'a | Exit_with int | Undefined_behaviour

fun and_go :: "'a outcome \<Rightarrow> ('a \<Rightarrow> 'b outcome) \<Rightarrow> 'b outcome" where
  "and_go (Go x) f = f x"
| "and_go (Exit_with n) f = Exit_with n"
| "and_go Undefined_behaviour f = Undefined_behaviour"

datatype arg_kind = Sint | Uint | Str | Def | Multi arg_kind

datatype arg_val = Unset | V_sint int | V_uint u64 | V_str string | V_multi "arg_val list"

record argument =
  a_name :: string
  a_short :: string
  a_kind :: arg_kind
  a_required :: bool
  a_positional :: bool
  a_defined :: bool
  a_data :: arg_val

definition new_argument :: "string \<Rightarrow> arg_kind \<Rightarrow> bool \<Rightarrow> bool \<Rightarrow> string \<Rightarrow> argument" where
  "new_argument nm k req posn sn =
     \<lparr>a_name = nm, a_short = sn, a_kind = k, a_required = req, a_positional = posn, a_defined = False,
      a_data = (case k of Str \<Rightarrow> V_str [] | Multi _ \<Rightarrow> V_multi [] | _ \<Rightarrow> Unset)\<rparr>"

text \<open>\<open>std::stoull(s)\<close> and \<open>std::stoll(s)\<close> in base ten.\<close>

definition dec_val :: "char \<Rightarrow> nat option" where
  "dec_val c = (let n = of_char c :: nat in if 48 \<le> n \<and> n \<le> 57 then Some (n - 48) else None)"

definition dec_number :: "string \<Rightarrow> nat" where
  "dec_number s = foldl (\<lambda>a c. 10 * a + the (dec_val c)) 0 s"

definition dec_parts :: "string \<Rightarrow> (bool \<times> nat) result" where
  "dec_parts s =
     (case sign_of (dropWhile is_space s) of (neg, s) \<Rightarrow>
        let ds = takeWhile (\<lambda>c. dec_val c \<noteq> None) s in
        if ds = [] then Inl Invalid_argument else Inr (neg, dec_number ds))"

definition stoull :: "string \<Rightarrow> u64 result" where
  "stoull s = and_then (dec_parts s) (\<lambda>(neg, n).
     if 2 ^ 64 \<le> n then Inl Out_of_range else Inr (if neg then - of_nat n else of_nat n))"

definition stoll :: "string \<Rightarrow> int result" where
  "stoll s = and_then (dec_parts s) (\<lambda>(neg, n).
     let v = (if neg then - int n else int n) in if v < - (2 ^ 63) \<or> 2 ^ 63 \<le> v then Inl Out_of_range else Inr v)"

text \<open>\<open>read\<close>: the value and the number of arguments consumed; a number that cannot be read ends the process.\<close>

fun read_value :: "arg_kind \<Rightarrow> string list \<Rightarrow> nat \<Rightarrow> (nat \<times> arg_val option) outcome" where
  "read_value Def args start = Go (0, Some Unset)"
| "read_value Str args start = (if length args \<le> start then Go (0, None) else Go (1, Some (V_str (args ! start))))"
| "read_value Uint args start =
     (if length args \<le> start then Go (0, None)
      else case stoull (args ! start) of Inl e \<Rightarrow> Exit_with (- 1) | Inr v \<Rightarrow> Go (1, Some (V_uint v)))"
| "read_value Sint args start =
     (if length args \<le> start then Go (0, None)
      else case stoll (args ! start) of Inl e \<Rightarrow> Exit_with (- 1) | Inr v \<Rightarrow> Go (1, Some (V_sint v)))"
| "read_value (Multi k) args start =
     (if length args \<le> start then Go (0, None)
      else and_go (read_value k args start) (\<lambda>(n, v). Go (n, if 0 < n then v else None)))"

fun extend_multi :: "arg_val \<Rightarrow> arg_val \<Rightarrow> arg_val" where
  "extend_multi (V_multi vs) v = V_multi (vs @ [v])"
| "extend_multi old v = V_multi [v]"

definition read_arg :: "argument \<Rightarrow> string list \<Rightarrow> nat \<Rightarrow> (nat \<times> argument) outcome" where
  "read_arg a args start =
     and_go (read_value (a_kind a) args start) (\<lambda>(n, v).
       case v of
         None \<Rightarrow> Go (n, a)
       | Some v \<Rightarrow> Go (n, a\<lparr>a_defined := True, a_data := (case a_kind a of Multi _ \<Rightarrow> extend_multi (a_data a) v | _ \<Rightarrow> v)\<rparr>))"

section \<open>The parser\<close>

record argparser =
  m_args :: "string list"
  m_objs :: "argument list"
  m_conf :: "string \<rightharpoonup> nat"
  m_conf_pos :: "nat list"
  m_defined_positionals :: "string list"
  m_is_parsed :: bool

definition new_argparser :: "string list \<Rightarrow> argparser" where
  "new_argparser argv = \<lparr>m_args = argv, m_objs = [], m_conf = Map.empty, m_conf_pos = [], m_defined_positionals = [], m_is_parsed = False\<rparr>"

definition add_argument :: "string \<Rightarrow> arg_kind \<Rightarrow> bool \<Rightarrow> bool \<Rightarrow> string \<Rightarrow> argparser \<Rightarrow> argparser" where
  "add_argument nm k req posn sn p =
     (let i = length (m_objs p);
          conf = (m_conf p)(nm \<mapsto> i);
          conf = (if sn \<noteq> [] then conf(sn \<mapsto> i) else conf)
      in p\<lparr>m_objs := m_objs p @ [new_argument nm k req posn sn], m_conf := conf,
           m_conf_pos := (if posn then m_conf_pos p @ [i] else m_conf_pos p)\<rparr>)"

definition add_multiple :: "string \<Rightarrow> arg_kind \<Rightarrow> bool \<Rightarrow> string \<Rightarrow> argparser \<Rightarrow> argparser" where
  "add_multiple nm k req sn p = add_argument nm (Multi k) req False sn p"

definition put_obj :: "nat \<Rightarrow> argument \<Rightarrow> argparser \<Rightarrow> argparser" where
  "put_obj k a p = p\<lparr>m_objs := (m_objs p)[k := a]\<rparr>"

text \<open>The loop of \<open>parse\<close>, which does not advance at the name of a positional argument; \<open>None\<close> is a loop that has not ended.\<close>

primrec parse_loop :: "nat \<Rightarrow> nat \<Rightarrow> nat \<Rightarrow> argparser \<Rightarrow> argparser outcome option" where
  "parse_loop 0 i cur_pos_id p = None"
| "parse_loop (Suc fuel) i cur_pos_id p =
     (if length (m_args p) \<le> i then Some (Go p)
      else if m_args p ! i = ''--help'' then Some (Exit_with 0)
      else case m_conf p (m_args p ! i) of
        Some k \<Rightarrow>
          if a_positional (m_objs p ! k) then parse_loop fuel i cur_pos_id p
          else (case read_arg (m_objs p ! k) (m_args p) (i + 1) of
                  Go (n, a) \<Rightarrow> parse_loop fuel (i + 1 + n) cur_pos_id (put_obj k a p)
                | Exit_with s \<Rightarrow> Some (Exit_with s)
                | Undefined_behaviour \<Rightarrow> Some Undefined_behaviour)
      | None \<Rightarrow>
          let q = p\<lparr>m_defined_positionals := m_defined_positionals p @ [m_args p ! i]\<rparr> in
          if cur_pos_id < length (m_conf_pos p) then
            (case read_arg (m_objs p ! (m_conf_pos p ! cur_pos_id)) (m_args p) i of
               Go (n, a) \<Rightarrow> parse_loop fuel (i + n) (cur_pos_id + 1) (put_obj (m_conf_pos p ! cur_pos_id) a q)
             | Exit_with s \<Rightarrow> Some (Exit_with s)
             | Undefined_behaviour \<Rightarrow> Some Undefined_behaviour)
          else parse_loop fuel (i + 1) cur_pos_id q)"

definition parse_args :: "nat \<Rightarrow> argparser \<Rightarrow> argparser outcome option" where
  "parse_args fuel p =
     (if m_is_parsed p then Some (Go p)
      else map_option (\<lambda>r. and_go r (\<lambda>p.
        if \<exists>k < length (m_objs p). let a = m_objs p ! k in
             (m_conf p (a_name a) = Some k \<or> m_conf p (a_short a) = Some k) \<and> a_required a \<and> \<not> a_defined a
        then Exit_with (- 1)
        else Go (p\<lparr>m_is_parsed := True\<rparr>))) (parse_loop fuel 1 0 p))"

section \<open>The main program\<close>

text \<open>The options in the order in which they are registered, by their indices from 0 on.\<close>

definition main_parser :: "string list \<Rightarrow> argparser" where
  "main_parser argv =
     (let p = new_argparser argv;
          p = add_argument ''--bios'' Str True False [] p;
          p = add_argument ''--kernel'' Str False False [] p;
          p = add_multiple ''--virtioblk'' Str False ''-vb'' p;
          p = add_argument ''--dtb'' Str False False [] p;
          p = add_argument ''--dumpdtb'' Str False False [] p;
          p = add_argument ''--append'' Str False False [] p;
          p = add_argument ''--gdb'' Def False False [] p;
          p = add_argument ''--memsize'' Str False False ''-M'' p;
          p = add_argument ''--harts'' Uint False False ''-S'' p
      in add_argument ''--framebuffer'' Str False False ''-fb'' p)"

fun str_val :: "arg_val \<Rightarrow> string" where
  "str_val (V_str s) = s"
| "str_val v = []"

fun uint_val :: "arg_val \<Rightarrow> u64" where
  "uint_val (V_uint v) = v"
| "uint_val v = 0"

fun multi_vals :: "arg_val \<Rightarrow> string list" where
  "multi_vals (V_multi vs) = map str_val vs"
| "multi_vals v = []"

text \<open>\<open>symbol_to_shift[l]\<close>, which is 0 for a letter that is not in the table; a shift by a negative amount is undefined.\<close>

definition symbol_to_shift :: "char \<Rightarrow> int" where
  "symbol_to_shift l =
     (if l = CHR ''B'' then - 10 else if l = CHR ''K'' then 1 else if l = CHR ''M'' then 10 else if l = CHR ''G'' then 20 else 0)"

definition parse_memsize :: "string \<Rightarrow> u64 outcome" where
  "parse_memsize s =
     (if s = [] then Undefined_behaviour
      else case stoull (butlast s) of
        Inl e \<Rightarrow> Exit_with (- 1)
      | Inr mul \<Rightarrow>
          let k = symbol_to_shift (last s) in
          if k < 0 then Undefined_behaviour else Go (push_bit (nat k) 1024 * mul))"

definition parse_harts :: "u64 \<Rightarrow> u8 outcome" where
  "parse_harts v = (let harts = ucast v :: u8 in if 64 < harts then Exit_with (- 1) else Go harts)"

text \<open>The resolution of the framebuffer: exceptions of \<open>stoull\<close> are not caught here.\<close>

definition parse_resolution :: "string \<Rightarrow> (u64 \<times> u64) outcome result" where
  "parse_resolution s =
     (if s = [] then Inr (Go (640, 480))
      else if CHR ''x'' \<in> set s then
        and_then (stoull (takeWhile (\<lambda>c. c \<noteq> CHR ''x'') s)) (\<lambda>w.
        and_then (stoull (tl (dropWhile (\<lambda>c. c \<noteq> CHR ''x'') s))) (\<lambda>h. Inr (Go (w, h))))
      else Inr (Exit_with (- 1)))"

record run_request =
  rq_config :: machine_config
  rq_bios :: string
  rq_kernel :: "string option"
  rq_images :: "string list"
  rq_dtb :: "string option"
  rq_dumpdtb :: string
  rq_gdb :: bool
  rq_fb :: "string option"

definition opt :: "argument \<Rightarrow> string option" where
  "opt a = (if a_defined a then Some (str_val (a_data a)) else None)"

definition main_request :: "nat \<Rightarrow> string list \<Rightarrow> run_request outcome option" where
  "main_request fuel argv =
     map_option (\<lambda>r. and_go r (\<lambda>p.
       let arg = (\<lambda>k. m_objs p ! k) in
       and_go (if a_defined (arg 7) then parse_memsize (str_val (a_data (arg 7))) else Go (1024 * 1024 * 512)) (\<lambda>memsize.
       and_go (if a_defined (arg 8) then parse_harts (uint_val (a_data (arg 8))) else Go 1) (\<lambda>n.
       Go \<lparr>rq_config = \<lparr>memory_size = memsize, hart_count = n, entry_pc = 0x80000000, cfg_timebase = 5000000, mmu_mode = 8,
             append_args = str_val (a_data (arg 5)), cfg_init_fdt = True\<rparr>,
           rq_bios = str_val (a_data (arg 0)), rq_kernel = opt (arg 1), rq_images = multi_vals (a_data (arg 2)), rq_dtb = opt (arg 3),
           rq_dumpdtb = str_val (a_data (arg 4)), rq_gdb = a_defined (arg 6), rq_fb = opt (arg 9)\<rparr>)))) (parse_args fuel (main_parser argv))"

section \<open>The parser ends\<close>

text \<open>No argument is positional, and the map refers to arguments that exist.\<close>

definition no_positional :: "argparser \<Rightarrow> bool" where
  "no_positional p \<longleftrightarrow> m_conf_pos p = [] \<and> (\<forall>a \<in> set (m_objs p). \<not> a_positional a) \<and> (\<forall>k \<in> ran (m_conf p). k < length (m_objs p))"

lemma read_arg_positional: "read_arg a args i = Go (n, a') \<Longrightarrow> a_positional a' = a_positional a"
  by (cases "read_value (a_kind a) args i") (auto simp: read_arg_def split: option.splits prod.splits)

lemma no_positional_put: "no_positional p \<Longrightarrow> \<not> a_positional a \<Longrightarrow> no_positional (put_obj k a p)"
  by (auto simp: no_positional_def put_obj_def dest!: set_update_subset_insert [THEN subsetD])

lemma parse_loop_ends:
  assumes "no_positional p" and "length (m_args p) < fuel + i"
  shows "parse_loop fuel i c p \<noteq> None \<or> fuel = 0"
  using assms
proof (induction fuel arbitrary: i c p)
  case (Suc fuel)
  show ?case
  proof (cases "i < length (m_args p)")
    case True
    then have f: "0 < fuel" using Suc.prems(2) by simp
    have pos: "\<not> a_positional (m_objs p ! k)" if "m_conf p w = Some k" for w k
      using Suc.prems(1) that by (auto simp: no_positional_def ran_def)
    have step: "parse_loop fuel (i + 1 + n) c (put_obj k a p) \<noteq> None" if "m_conf p w = Some k" "read_arg (m_objs p ! k) (m_args p) (i + 1) = Go (n, a)" for n a k w
      using Suc.IH [of "put_obj k a p" "i + 1 + n" c] no_positional_put [OF Suc.prems(1)] read_arg_positional [OF that(2)] pos [OF that(1)] Suc.prems(2) f
      by (simp add: put_obj_def)
    have other: "parse_loop fuel (i + 1) c (p\<lparr>m_defined_positionals := xs\<rparr>) \<noteq> None" for xs
      using Suc.IH [of "p\<lparr>m_defined_positionals := xs\<rparr>" "i + 1" c] Suc.prems f by (simp add: no_positional_def)
    show ?thesis
      using True step other pos Suc.prems(1)
      by (auto simp: Let_def no_positional_def split: option.splits outcome.splits)
  qed simp
qed simp

lemma main_parser_ok: "no_positional (main_parser argv)" "m_args (main_parser argv) = argv" "\<not> m_is_parsed (main_parser argv)"
  by (auto simp: main_parser_def new_argparser_def add_argument_def add_multiple_def new_argument_def no_positional_def ran_def Let_def split: if_splits)

lemma main_request_ends: "length argv < fuel \<Longrightarrow> main_request fuel argv \<noteq> None"
  using parse_loop_ends [OF main_parser_ok(1) [of argv], of fuel 1 0] main_parser_ok [of argv]
  by (auto simp: main_request_def parse_args_def)

text \<open>A positional argument whose name stands on the command line hangs the parser.\<close>

lemma positional_name_hangs:
  assumes "m_conf p (m_args p ! i) = Some k" and "a_positional (m_objs p ! k)" and "i < length (m_args p)" and "m_args p ! i \<noteq> ''--help''"
  shows "parse_loop fuel i c p = None"
  using assms by (induction fuel) auto

section \<open>Sizes\<close>

lemma dec_val_digit: "d < 10 \<Longrightarrow> dec_val (''0123456789'' ! d) = Some d"
  by (auto simp: less_Suc_eq numeral_eq_Suc dec_val_def)

lemma dec_digits: "c \<in> set (dec n) \<Longrightarrow> dec_val c \<noteq> None"
proof (induction n rule: dec.induct)
  case (1 n)
  show ?case
  proof (cases "n < 10")
    case True
    with "1.prems" show ?thesis using dec_val_digit [of n] by (simp add: dec.simps [of n])
  next
    case False
    with "1.prems" have "c \<in> set (dec (n div 10)) \<or> c = ''0123456789'' ! (n mod 10)" by (auto simp: dec.simps [of n])
    then show ?thesis using "1.IH" [OF False] dec_val_digit [of "n mod 10"] by auto
  qed
qed

lemma dec_number_dec: "dec_number (dec n) = n"
proof (induction n rule: dec.induct)
  case (1 n)
  show ?case
  proof (cases "n < 10")
    case True
    then show ?thesis using dec_val_digit [of n] by (simp add: dec.simps [of n] dec_number_def)
  next
    case False
    then have "dec n = dec (n div 10) @ [''0123456789'' ! (n mod 10)]" by (simp add: dec.simps [of n])
    moreover have "foldl (\<lambda>a c. 10 * a + the (dec_val c)) 0 (dec (n div 10)) = n div 10" using "1.IH" [OF False] by (simp add: dec_number_def)
    ultimately show ?thesis using dec_val_digit [of "n mod 10"] by (simp add: dec_number_def)
  qed
qed

lemma dec_nonempty: "dec n \<noteq> []"
  by (simp add: dec.simps [of n])

lemma digit_plain: "dec_val c \<noteq> None \<Longrightarrow> \<not> is_space c \<and> c \<noteq> CHR ''-'' \<and> c \<noteq> CHR ''+''"
  by (auto simp: dec_val_def is_space_def Let_def split: if_splits)

lemma stoull_dec: "n < 2 ^ 64 \<Longrightarrow> stoull (dec n) = Inr (of_nat n)"
proof -
  assume n: "n < 2 ^ 64"
  obtain c cs where d: "dec n = c # cs" by (cases "dec n") (simp_all add: dec_nonempty)
  have c: "dec_val c \<noteq> None" using dec_digits [of c n] d by simp
  have "takeWhile (\<lambda>c. dec_val c \<noteq> None) (dec n) = dec n" using dec_digits unfolding takeWhile_eq_all_conv by blast
  moreover have "dropWhile is_space (dec n) = dec n" "sign_of (dec n) = (False, dec n)" using digit_plain [OF c] d by simp_all
  ultimately show ?thesis using n dec_nonempty [of n] dec_number_dec [of n] by (simp add: stoull_def dec_parts_def Let_def del: takeWhile_eq_all_conv not_None_eq)
qed

text \<open>
  The memory size: a decimal number with M or G is that many mebibytes or gibibytes. With K it is twice what the letter says, and
  without a letter the last digit is taken for the letter.
\<close>

lemma memsize_units:
  assumes "n < 2 ^ 64"
  shows "parse_memsize (dec n @ ''M'') = Go (of_nat n * 2 ^ 20)" and "parse_memsize (dec n @ ''G'') = Go (of_nat n * 2 ^ 30)"
    and "parse_memsize (dec n @ ''K'') = Go (of_nat n * 2 ^ 11)" and "d < 10 \<Longrightarrow> parse_memsize (dec n @ [''0123456789'' ! d]) = Go (of_nat n * 2 ^ 10)"
proof -
  have digit: "symbol_to_shift (''0123456789'' ! d) = 0" if "d < 10" for d
    using that by (auto simp: less_Suc_eq numeral_eq_Suc symbol_to_shift_def)
  show "parse_memsize (dec n @ ''M'') = Go (of_nat n * 2 ^ 20)" "parse_memsize (dec n @ ''G'') = Go (of_nat n * 2 ^ 30)"
    "parse_memsize (dec n @ ''K'') = Go (of_nat n * 2 ^ 11)"
    using stoull_dec [OF assms] by (simp_all add: parse_memsize_def symbol_to_shift_def push_bit_eq_mult mult.commute)
  show "d < 10 \<Longrightarrow> parse_memsize (dec n @ [''0123456789'' ! d]) = Go (of_nat n * 2 ^ 10)"
    using stoull_dec [OF assms] digit by (simp add: parse_memsize_def mult.commute)
qed

end
