(* ===== verification/Spec2Isabelle.thy ===== *)
theory Spec2Isabelle
  imports Float_Correct Xhci Framebuffer Command_Line
begin

text \<open>
  A verification development for rv64-vm, an emulator of a 64-bit RISC-V machine written in C++.

  \<^bold>\<open>The program.\<close> A machine (src/machine.cpp) owns harts, one physical memory map, one bus for
  memory-mapped I/O with its devices, one instruction decoder and a cache of decoded blocks. One
  host thread runs the harts in turn. A hart (include/hart.hpp, src/hart.cpp) fetches through its
  MMU and TLB, decodes through a two-way cache in front of lookup tables, and calls the handler of
  the instruction (src/sets), or runs a block of decoded instructions (src/block.cpp). A handler works
  on registers or goes through the MMU and the bus (src/mmio.cpp) to RAM or a device. Devices raise
  interrupt lines, through the interrupt controller, that the hart tests every 0x3000 instructions. Stores
  are reported to the tracker of self-modifying code (include/self_mod.hpp), whose epoch invalidates
  decoded code. At start the machine builds a device tree, loads firmware and kernel, and hands both
  to the harts; a debugger can attach through the GDB stub (src/gdbstub.cpp).

  \<^bold>\<open>Theories and sources.\<close>
  \<^item> Prelude, Machine_Types: C++ integers as words, bit fields, results of computations that can leave
    the emulator through an exception or an index out of range; include/defines.
  \<^item> Decode_Fields, Decoder: include/decode.hpp, src/decode.cpp; Opcodes, Instr_Table: the instructions
    that src/sets register and \<open>init_all_instrs\<close>.
  \<^item> Self_Mod, Memory_Map, Tlb, Mmu: the headers of the same names, src/tlb.cpp, include/mmu.inl.
  \<^item> Hart_State: registers, traps, interrupts and CSRs of src/hart.cpp; Exec: fetch, dispatch, \<open>tick\<close>.
  \<^item> Plic, Uart, Clint, Syscon, Virtio, I2c: src/devices with the devices behind them; Vm: the machine
    state that a handler reaches (record \<open>vm\<close>) and src/mmio.cpp; Bus: RAM behind the bus.
  \<^item> Pci: the host bridge and the configuration space of its devices; Xhci: the USB host controller on it,
    with the keyboard (src/devices/usb, src/devices/hid); Framebuffer: src/devices/framebuffer.cpp. main.cpp
    adds these devices to a finished board, so the three theories stand beside the machine of Lifecycle and share its memory, interrupt
    controller and harts (record \<open>board\<close>).
  \<^item> Rv64i, Rv64m, Rv64a, Rv64c, Rv64f, Rv64d, Bitmanip, System_Instr: src/sets; Ieee: the floating point of the
    host that rv64f.cpp and rv64d.cpp use; Float_Correct: what the operations compute.
  \<^item> Blocks: include/block_cache.hpp and src/block.cpp.
  \<^item> Fdt, Board_Fdt: src/libfdt.cpp and the tree that src/machine.cpp and the devices build; Elf: src/elfparser.cpp.
  \<^item> Lifecycle: construction, boot, reset and the work loop of src/machine.cpp; Gdbstub: src/gdbstub.cpp and
    the work loop with a debugger; Command_Line: include/argparser.cpp and the configuration that src/main.cpp takes from
    its options.

  \<^bold>\<open>State and effects.\<close> A struct or class is a record, an enumeration a datatype or its numbers, an integer a
  word of its width. Methods take the state and return it; \<open>result\<close> adds the errors that end the process: an
  uncaught exception, a null pointer, an index outside an array. The pointers between machine, harts, devices and nodes
  of the device tree are indices or paths. Host threads are steps of the relation \<open>machine_step\<close>. Files of the host, its
  clock, its random numbers and the two directions of a socket are arguments or lists in the state.

  \<^bold>\<open>What the lemmas show.\<close>
  \<^item> Decoding: the lookup tables find what a scan of the masks finds, for the 240 registered instructions; the decode
    cache and the block cache are transparent; immediate fields are the scattered bits of the formats.
  \<^item> Execution: a tick refines the abstract step of the instruction at the program counter; the handlers compute the
    arithmetic, control flow and memory effects of RV64IMAFDC and the bit manipulation extensions; compressed
    instructions equal their expansions; floating-point results are the correctly rounded exact values.
  \<^item> Privilege: trap entry and return, the choice of interrupts, CSR access rights and legal values.
  \<^item> Memory: the page walk refines the Sv39 translation; the TLB serves no stale entry and no writable executed page; RAM
    behind the bus is an array of bytes; unanswered accesses fault and change nothing.
  \<^item> Devices: claims of the interrupt controller, the queue of the UART, virtio rings that are always drained and disks that
    return what was written, reports of the keyboards in order, enumeration of PCI devices, and a USB controller that works off its
    commands and keeps its state in order for every behaviour of the guest.
  \<^item> The machine: the board that start-up builds, the state of memory and harts at the first instruction, exact device ticks,
    an invariant of all reachable states; packets, memory, registers and breakpoints of the debugger;
    the end of the parsing of the command line and the memory sizes it yields.

  \<^bold>\<open>Interfaces.\<close> The contracts between components are locales, each with its client lemmas and its interpretation on the
  model: \<open>transparent_cache\<close> (the decode cache), \<open>translation_cache\<close> (the TLB), \<open>byte_store\<close> (the memory map, and RAM behind
  the bus, and the pixels of the framebuffer), \<open>bounded_queue\<close> (the receive queue of the UART), \<open>ring_server\<close> (the two virtio devices), \<open>bus_slave\<close> (the
  keyboard and the slaves of the I2C bus) and \<open>pci_function\<close> (the USB controller behind the bridge).

  \<^bold>\<open>Bounds and fuel.\<close> Loops with a static bound are recursions on it. \<open>run_blocks\<close> has one unit of fuel more than its budget
  of instructions, which is enough since every continuing iteration executes one; a virtio queue is served at most 65536 times, the
  number of values of its index; the loop that settles device ticks needs at most 17 rounds, since the budget is a 16-bit
  counter of ticks of 0x1000 instructions; \<open>mark_pages\<close> visits at most two pages. That these are enough is proved. The rings of
  the USB controller are laid out by the guest and may be cyclic: there the fuel is an argument, enough fuel is given in the
  theorem on commands, and a ring that never ends is shown. The argument parser needs one step more than there are arguments.

  \<^bold>\<open>Not modelled.\<close>
  \<^item> The translator to x86-64 machine code (src/jit): it emits host code, whose meaning would need a model of the host
    processor. The model is of the build without it, where blocks are interpreted.
  \<^item> The windows of the host (include/gui): they hand the frames to Vulkan and a windowing library, which are not part
    of the repository.
  \<^item> The rest of src/main.cpp: terminal settings, the threads that read the terminal, the search for a free port. Messages and log
    output, the creation of threads and sockets, and locks are left out for the same reason; what runs between two locks is one step.
\<close>

end
